(* ===== verification/GoPrelude.thy ===== *)
theory GoPrelude
  imports Main "HOL-Library.List_Lexorder" "HOL-Library.Char_ord" "HOL-Library.Word" "HOL-Library.Multiset"
begin

text \<open>
  Shared ground of the development.  A Go map with string keys is a \<open>gomap\<close>: the association
  list of its entries in key order, so that two Go maps with the same entries are the same
  \<open>gomap\<close>.  \<open>mput\<close>, \<open>mdel\<close>, \<open>mget\<close> and \<open>mhas\<close> are \<open>m[k] = v\<close>, \<open>delete(m, k)\<close>, \<open>m[k]\<close> and
  the comma-ok test.  \<open>range\<close> over a map visits the entries in an order the runtime chooses:
  an operation whose result may depend on it takes that order as a function on key lists, and
  \<open>range_order\<close> says that it is a permutation.  A Go function that returns an error returns a
  sum, \<open>Inl\<close> the error.  \<open>strings_Split\<close> and \<open>strings_Join\<close> are the functions of the Go
  library for a separator of one byte.
\<close>

named_theorems go_maps "lookup and update laws of Go maps"
named_theorems go_defs "definitions of the modelled operations that proofs unfold"

type_synonym 'v gomap = "(string \<times> 'v) list"
type_synonym goint = "64 word"

section \<open>Maps with string keys\<close>

fun mput :: "'v gomap \<Rightarrow> string \<Rightarrow> 'v \<Rightarrow> 'v gomap" where
  "mput [] k v = [(k, v)]"
| "mput (e # m) k v =
     (if k = fst e then (k, v) # m
      else if k < fst e then (k, v) # e # m
      else e # mput m k v)"

definition mget :: "'v gomap \<Rightarrow> string \<Rightarrow> 'v option" where
  "mget m k = map_of m k"

definition mhas :: "'v gomap \<Rightarrow> string \<Rightarrow> bool" where
  "mhas m k = (k \<in> set (map fst m))"

definition mdel :: "'v gomap \<Rightarrow> string \<Rightarrow> 'v gomap" where
  "mdel m k = filter (\<lambda>e. fst e \<noteq> k) m"

definition mkeys :: "'v gomap \<Rightarrow> string list" where
  "mkeys m = map fst m"

definition mwf :: "'v gomap \<Rightarrow> bool" where
  "mwf m \<longleftrightarrow> sorted_wrt (<) (map fst m)"

definition mmap :: "('v \<Rightarrow> 'w) \<Rightarrow> 'v gomap \<Rightarrow> 'w gomap" where
  "mmap f m = map (\<lambda>e. (fst e, f (snd e))) m"

text \<open>Writing a list of entries one after the other; the later write of a key wins.\<close>

fun mputs :: "'v gomap \<Rightarrow> (string \<times> 'v) list \<Rightarrow> 'v gomap" where
  "mputs m [] = m"
| "mputs m (e # es) = mputs (mput m (fst e) (snd e)) es"

lemma mget_Nil [simp]: "mget [] k = None"
  by (simp add: mget_def)

lemma mget_Cons: "mget (e # m) k = (if k = fst e then Some (snd e) else mget m k)"
  by (cases e) (simp add: mget_def)

lemma mget_mput [simp, go_maps]: "mget (mput m k v) k' = (if k' = k then Some v else mget m k')"
  by (induction m) (auto simp: mget_Cons)

lemma mget_mdel [simp, go_maps]: "mget (mdel m k) k' = (if k' = k then None else mget m k')"
  by (induction m) (auto simp: mdel_def mget_Cons)

lemma mget_mmap [simp, go_maps]: "mget (mmap f m) k = map_option f (mget m k)"
  by (induction m) (auto simp: mmap_def mget_Cons)

lemma mhas_mget [go_maps]: "mhas m k \<longleftrightarrow> mget m k \<noteq> None"
  by (induction m) (auto simp: mhas_def mget_Cons)

lemma mget_mputs [go_maps]:
  "mget (mputs m es) k = (case map_of (rev es) k of None \<Rightarrow> mget m k | Some v \<Rightarrow> Some v)"
proof (induction es arbitrary: m)
  case Nil
  then show ?case by simp
next
  case (Cons e es)
  then show ?case
    by (cases e) (auto simp: map_add_def split: option.splits)
qed

lemma set_keys_mput [simp]: "set (map fst (mput m k v)) = insert k (set (map fst m))"
  by (induction m) auto

lemma mwf_Nil [simp]: "mwf []"
  by (simp add: mwf_def)

lemma mwf_Cons: "mwf (e # m) \<longleftrightarrow> (\<forall>k\<in>set (map fst m). fst e < k) \<and> mwf m"
  by (simp add: mwf_def)

lemma mwf_mput [intro]: "mwf m \<Longrightarrow> mwf (mput m k v)"
proof (induction m)
  case Nil
  then show ?case by (simp add: mwf_def)
next
  case (Cons e m)
  have "fst e < k \<or> k < fst e \<or> k = fst e" by (rule linorder_less_linear [THEN disjE]) auto
  with Cons show ?case
    by (auto simp: mwf_Cons simp del: set_map dest: order.strict_trans)
qed

lemma mwf_mputs: "mwf m \<Longrightarrow> mwf (mputs m es)"
  by (induction es arbitrary: m) auto

lemma mwf_mdel [intro]: "mwf m \<Longrightarrow> mwf (mdel m k)"
  by (induction m) (auto simp: mwf_Cons mdel_def)

lemma keys_mmap [simp]: "map fst (mmap f m) = map fst m"
  by (simp add: mmap_def)

lemma mkeys_mmap [simp]: "mkeys (mmap f m) = mkeys m"
  by (simp add: mkeys_def)

lemma mwf_mmap [simp]: "mwf (mmap f m) \<longleftrightarrow> mwf m"
  by (simp add: mwf_def)

lemma mwf_distinct: "mwf m \<Longrightarrow> distinct (map fst m)"
  unfolding mwf_def by (simp add: strict_sorted_iff)

lemma mget_mem: "mwf m \<Longrightarrow> mget m k = Some v \<longleftrightarrow> (k, v) \<in> set m"
  by (simp add: mget_def mwf_distinct)

lemma mget_SomeD: "mget m k = Some v \<Longrightarrow> (k, v) \<in> set m"
  by (auto simp: mget_def dest: map_of_SomeD)

text \<open>Two well-formed maps with the same lookups are equal.\<close>

lemma mwf_rebuild: "distinct (map fst m) \<Longrightarrow> map (\<lambda>k. (k, the (mget m k))) (map fst m) = m"
  by (auto simp: mget_def o_def intro!: map_idI)

lemma set_keys_mget: "set (map fst m) = {k. mget m k \<noteq> None}"
  using mhas_mget [of m] by (auto simp: mhas_def)

lemma mwf_ext:
  assumes "mwf m" and "mwf m'" and same: "\<And>k. mget m k = mget m' k"
  shows "m = m'"
proof -
  have "set (map fst m) = set (map fst m')"
    by (simp only: set_keys_mget same)
  with assms(1,2) have "map fst m = map fst m'"
    unfolding mwf_def by (metis strict_sorted_equal)
  then have "map (\<lambda>k. (k, the (mget m k))) (map fst m) = map (\<lambda>k. (k, the (mget m' k))) (map fst m')"
    by (simp only: same)
  then show ?thesis
    by (simp only: mwf_rebuild [OF mwf_distinct [OF assms(1)]] mwf_rebuild [OF mwf_distinct [OF assms(2)]])
qed

lemma map_of_rev_distinct: "mwf m \<Longrightarrow> map_of (rev m) k = mget m k"
  using map_of_inject_set [of "rev m" m] by (simp add: mget_def mwf_distinct rev_map [symmetric])

lemma mget_filter_key: "mget (filter (\<lambda>e. P (fst e)) m) k = (if P k then mget m k else None)"
  by (induction m) (auto simp: mget_Cons)

lemma mget_filter_snd: "mwf m \<Longrightarrow> mget (filter (\<lambda>e. P (snd e)) m) k =
    (case mget m k of Some v \<Rightarrow> if P v then Some v else None | None \<Rightarrow> None)"
proof (induction m)
  case Nil
  then show ?case by simp
next
  case (Cons e m)
  then have "fst e \<notin> set (map fst m)" by (auto simp: mwf_Cons)
  then have "mget m (fst e) = None" using set_keys_mget [of m] by auto
  with Cons show ?case by (auto simp: mget_Cons mwf_Cons)
qed

lemma mwf_filter: "mwf m \<Longrightarrow> mwf (filter P m)"
  unfolding mwf_def by (induction m) auto

lemma mput_same: "mwf m \<Longrightarrow> mget m k = Some v \<Longrightarrow> mput m k v = m"
  by (rule mwf_ext) auto

lemma mput_commute: "mwf m \<Longrightarrow> k \<noteq> k' \<Longrightarrow> mput (mput m k v) k' v' = mput (mput m k' v') k v"
  by (rule mwf_ext) auto

lemma mput_mput [simp]: "mput (mput m k v) k v' = mput m k v'"
  by (induction m) auto

lemma mput_Nil_iff [simp]: "mput m k v \<noteq> []"
  by (cases m) auto

section \<open>Iteration order\<close>

text \<open>\<open>for k := range m\<close> visits every key once, in an order the runtime chooses.\<close>

definition range_order :: "(string list \<Rightarrow> string list) \<Rightarrow> bool" where
  "range_order ro \<longleftrightarrow> (\<forall>ks. mset (ro ks) = mset ks)"

lemma range_order_set: "range_order ro \<Longrightarrow> set (ro ks) = set ks"
  unfolding range_order_def by (metis set_mset_mset)

lemma range_order_distinct: "range_order ro \<Longrightarrow> distinct (ro ks) = distinct ks"
  unfolding range_order_def by (metis mset_eq_imp_distinct_iff)

lemma range_order_length: "range_order ro \<Longrightarrow> length (ro ks) = length ks"
  unfolding range_order_def by (metis size_mset)

lemma range_order_Nil [simp]: "range_order ro \<Longrightarrow> ro [] = []"
  unfolding range_order_def by (metis mset_zero_iff)

lemma range_order_id [simp]: "range_order (\<lambda>ks. ks)"
  by (simp add: range_order_def)

lemma range_order_rev [simp]: "range_order rev"
  by (simp add: range_order_def)

text \<open>Sorting by a key that tells the elements apart does not depend on their order.\<close>

lemma sort_key_unique:
  fixes f :: "'a \<Rightarrow> 'k::linorder"
  assumes "mset rs = mset rs'" and "distinct (map f rs)"
  shows "sort_key f rs = sort_key f rs'"
proof (rule map_sorted_distinct_set_unique [where f = f])
  have eq: "set rs = set rs'" using assms(1) by (metis set_mset_mset)
  show "inj_on f (set (sort_key f rs) \<union> set (sort_key f rs'))"
    using assms(2) eq by (simp add: distinct_map)
  have "distinct (map f rs')"
    using assms by (metis mset_map mset_eq_imp_distinct_iff)
  then show "distinct (map f (sort_key f rs))" "distinct (map f (sort_key f rs'))"
    using assms(2) by (simp_all add: distinct_map)
qed (use assms(1) in \<open>auto dest: mset_eq_setD\<close>)

text \<open>The entries of a map in the order \<open>range\<close> visits them.\<close>

definition range_entries :: "(string list \<Rightarrow> string list) \<Rightarrow> 'v gomap \<Rightarrow> (string \<times> 'v) list" where
  "range_entries ro m = concat (map (\<lambda>k. case mget m k of Some v \<Rightarrow> [(k, v)] | None \<Rightarrow> []) (ro (mkeys m)))"

lemma entries_mem:
  "(k, v) \<in> set (concat (map (\<lambda>k. case mget m k of Some v \<Rightarrow> [(k, v)] | None \<Rightarrow> []) ks))
   \<longleftrightarrow> k \<in> set ks \<and> mget m k = Some v"
  by (induction ks) (auto split: option.splits)

lemma range_entries_mem: "range_order ro \<Longrightarrow> (k, v) \<in> set (range_entries ro m) \<longleftrightarrow> mget m k = Some v"
  unfolding range_entries_def entries_mem
  by (auto simp: range_order_set mkeys_def dest: mget_SomeD) (force dest: mget_SomeD)

lemma entries_keys:
  "map fst (concat (map (\<lambda>k. case mget m k of Some v \<Rightarrow> [(k, v)] | None \<Rightarrow> []) ks)) = filter (mhas m) ks"
  by (induction ks) (auto simp: mhas_mget split: option.splits)

lemma range_entries_distinct:
  assumes "range_order ro" and "mwf m"
  shows "distinct (map fst (range_entries ro m))"
proof -
  have "distinct (ro (mkeys m))"
    using assms mwf_distinct [of m] range_order_distinct [of ro "mkeys m"] by (simp add: mkeys_def)
  then show ?thesis unfolding range_entries_def by (simp add: entries_keys)
qed

lemma map_of_range_entries:
  assumes "range_order ro" and "mwf m"
  shows "map_of (range_entries ro m) k = mget m k"
proof (cases "mget m k")
  case (Some v)
  then show ?thesis
    using assms by (simp add: range_entries_distinct range_entries_mem)
next
  case None
  have "k \<notin> set (map fst (range_entries ro m))"
    using None range_entries_mem [OF assms(1), of k _ m] by auto
  with None show ?thesis by (simp add: map_of_eq_None_iff)
qed

lemma range_entries_id: "mwf m \<Longrightarrow> range_entries (\<lambda>ks. ks) m = m"
proof -
  assume wf: "mwf m"
  have "concat (map (\<lambda>k. case mget m k of Some v \<Rightarrow> [(k, v)] | None \<Rightarrow> []) (map fst es)) = es"
    if "set es \<subseteq> set m" for es
    using that by (induction es) (auto simp: mget_mem [OF wf, THEN iffD2])
  then show ?thesis by (simp add: range_entries_def mkeys_def)
qed

section \<open>Splitting and joining strings\<close>

fun strings_Split :: "char \<Rightarrow> string \<Rightarrow> string list" where
  "strings_Split c [] = [[]]"
| "strings_Split c (x # s) =
     (if x = c then [] # strings_Split c s
      else (case strings_Split c s of [] \<Rightarrow> [[x]] | p # ps \<Rightarrow> (x # p) # ps))"

fun strings_Join :: "char \<Rightarrow> string list \<Rightarrow> string" where
  "strings_Join c [] = []"
| "strings_Join c [p] = p"
| "strings_Join c (p # q # ps) = p @ c # strings_Join c (q # ps)"

lemma strings_Split_nonempty [simp]: "strings_Split c s \<noteq> []"
  by (induction s) (auto split: list.splits)

lemma strings_Split_clean: "c \<notin> set p \<Longrightarrow> strings_Split c p = [p]"
  by (induction p) auto

lemma strings_Split_append: "c \<notin> set p \<Longrightarrow> strings_Split c (p @ c # s) = p # strings_Split c s"
  by (induction p) auto

lemma strings_Split_Join:
  "ps \<noteq> [] \<Longrightarrow> \<forall>p\<in>set ps. c \<notin> set p \<Longrightarrow> strings_Split c (strings_Join c ps) = ps"
  by (induction c ps rule: strings_Join.induct) (auto simp: strings_Split_clean strings_Split_append)

lemma strings_Join_Split: "strings_Join c (strings_Split c s) = s"
proof (induction s)
  case Nil
  then show ?case by simp
next
  case (Cons x s)
  then show ?case
    by (cases "strings_Split c s" rule: list.exhaust; cases "tl (strings_Split c s)")
      (auto split: list.splits)
qed

end
