(* ===== verification/GoFloat.thy ===== *)
theory GoFloat
  imports GoPrelude
begin

text \<open>
  Go's \<open>float64\<close>: the IEEE 754 double format with round-to-nearest-even, as far as the modelled
  code uses it (arithmetic, comparison, conversion from and to \<open>int\<close>).  A finite non-zero
  value \<open>FFin m e\<close> stands for \<open>m * 2 ^ e\<close> with \<open>m\<close> odd, so that equal floats are equal terms;
  \<open>FZero\<close> and \<open>FInf\<close> carry their sign (\<open>True\<close> for negative).
\<close>

datatype float64 = FNaN | FInf bool | FZero bool | FFin int int

fun bitlen :: "nat \<Rightarrow> nat" where
  "bitlen n = (if n = 0 then 0 else Suc (bitlen (n div 2)))"

declare bitlen.simps [simp del]

function strip_twos :: "int \<Rightarrow> int \<Rightarrow> float64" where
  "strip_twos m e = (if m \<noteq> 0 \<and> even m then strip_twos (m div 2) (e + 1) else FFin m e)"
  by pat_completeness auto
termination
  by (relation "measure (\<lambda>(m, e). nat \<bar>m\<bar>)") auto

declare strip_twos.simps [simp del]

text \<open>\<open>m / 2 ^ s\<close> rounded to the nearest integer, ties to even.\<close>

definition round_shift :: "int \<Rightarrow> nat \<Rightarrow> int" where
  "round_shift m s =
     (if s = 0 then m
      else let q = m div 2 ^ s; r = m mod 2 ^ s; h = 2 ^ (s - 1)
           in if r < h then q else if r > h then q + 1 else if even q then q else q + 1)"

text \<open>The float64 nearest to \<open>m * 2 ^ e\<close>: 53 significant bits, least exponent -1074, overflow at 2 ^ 1024.\<close>

definition f_round :: "int \<Rightarrow> int \<Rightarrow> float64" where
  "f_round m e =
     (if m = 0 then FZero False
      else let s = nat (max (int (bitlen (nat \<bar>m\<bar>)) - 53) (- 1074 - e));
               m' = round_shift m s; e' = e + int s
           in if m' = 0 then FZero (m < 0)
              else if int (bitlen (nat \<bar>m'\<bar>)) + e' > 1024 then FInf (m < 0)
              else strip_twos m' e')"

fun f_add :: "float64 \<Rightarrow> float64 \<Rightarrow> float64" where
  "f_add FNaN y = FNaN"
| "f_add x FNaN = FNaN"
| "f_add (FInf a) (FInf b) = (if a = b then FInf a else FNaN)"
| "f_add (FInf a) y = FInf a"
| "f_add x (FInf b) = FInf b"
| "f_add (FZero a) (FZero b) = FZero (a \<and> b)"
| "f_add (FZero a) y = y"
| "f_add x (FZero b) = x"
| "f_add (FFin m e) (FFin n d) =
     (let l = min e d in f_round (m * 2 ^ nat (e - l) + n * 2 ^ nat (d - l)) l)"

fun f_neg :: "float64 \<Rightarrow> bool" where
  "f_neg FNaN = False"
| "f_neg (FInf a) = a"
| "f_neg (FZero a) = a"
| "f_neg (FFin m e) = (m < 0)"

fun f_mul :: "float64 \<Rightarrow> float64 \<Rightarrow> float64" where
  "f_mul FNaN y = FNaN"
| "f_mul x FNaN = FNaN"
| "f_mul (FInf a) (FZero b) = FNaN"
| "f_mul (FZero a) (FInf b) = FNaN"
| "f_mul (FInf a) y = FInf (a \<noteq> f_neg y)"
| "f_mul x (FInf b) = FInf (f_neg x \<noteq> b)"
| "f_mul (FZero a) y = FZero (a \<noteq> f_neg y)"
| "f_mul x (FZero b) = FZero (f_neg x \<noteq> b)"
| "f_mul (FFin m e) (FFin n d) = f_round (m * n) (e + d)"

fun f_minus :: "float64 \<Rightarrow> float64" where
  "f_minus FNaN = FNaN"
| "f_minus (FInf a) = FInf (\<not> a)"
| "f_minus (FZero a) = FZero (\<not> a)"
| "f_minus (FFin m e) = FFin (- m) e"

definition f_sub :: "float64 \<Rightarrow> float64 \<Rightarrow> float64" where
  "f_sub x y = f_add x (f_minus y)"

text \<open>A quotient is computed to more bits than a float has, with a last bit that says whether something is left.\<close>

fun f_div :: "float64 \<Rightarrow> float64 \<Rightarrow> float64" where
  "f_div FNaN y = FNaN"
| "f_div x FNaN = FNaN"
| "f_div (FInf a) (FInf b) = FNaN"
| "f_div (FZero a) (FZero b) = FNaN"
| "f_div (FInf a) y = FInf (a \<noteq> f_neg y)"
| "f_div x (FInf b) = FZero (f_neg x \<noteq> b)"
| "f_div (FZero a) y = FZero (a \<noteq> f_neg y)"
| "f_div x (FZero b) = FInf (f_neg x \<noteq> b)"
| "f_div (FFin m e) (FFin n d) =
     (let k = 64 + bitlen (nat \<bar>n\<bar>); q = \<bar>m\<bar> * 2 ^ k div \<bar>n\<bar>; r = \<bar>m\<bar> * 2 ^ k mod \<bar>n\<bar>
      in f_round (sgn m * sgn n * (2 * q + (if r = 0 then 0 else 1))) (e - d - int k - 1))"

fun f_eq :: "float64 \<Rightarrow> float64 \<Rightarrow> bool" where
  "f_eq FNaN y = False"
| "f_eq x FNaN = False"
| "f_eq (FZero a) (FZero b) = True"
| "f_eq x y = (x = y)"

fun f_less :: "float64 \<Rightarrow> float64 \<Rightarrow> bool" where
  "f_less FNaN y = False"
| "f_less x FNaN = False"
| "f_less (FInf a) y = (a \<and> y \<noteq> FInf True)"
| "f_less x (FInf b) = (\<not> b)"
| "f_less (FZero a) (FZero b) = False"
| "f_less (FZero a) (FFin n d) = (0 < n)"
| "f_less (FFin m e) (FZero b) = (m < 0)"
| "f_less (FFin m e) (FFin n d) = (let l = min e d in m * 2 ^ nat (e - l) < n * 2 ^ nat (d - l))"

definition f_of_int :: "int \<Rightarrow> float64" where
  "f_of_int n = f_round n 0"

text \<open>Truncation toward zero; \<open>None\<close> where there is no integer.\<close>

fun f_trunc :: "float64 \<Rightarrow> int option" where
  "f_trunc FNaN = None"
| "f_trunc (FInf a) = None"
| "f_trunc (FZero a) = Some 0"
| "f_trunc (FFin m e) = Some (if 0 \<le> e then m * 2 ^ nat e else sgn m * (\<bar>m\<bar> div 2 ^ nat (- e)))"

text \<open>
  The conversions \<open>float64(i)\<close> and \<open>int(f)\<close>.  Where \<open>f\<close> has no \<open>int\<close> value the language leaves
  the result to the implementation; the model has what amd64 gives, the least \<open>int\<close>.
\<close>

definition float_of_goint :: "goint \<Rightarrow> float64" where
  "float_of_goint i = f_of_int (sint i)"

definition goint_of_float :: "float64 \<Rightarrow> goint" where
  "goint_of_float f =
     (case f_trunc f of
        Some n \<Rightarrow> if - (2 ^ 63) \<le> n \<and> n < 2 ^ 63 then word_of_int n else word_of_int (- (2 ^ 63))
      | None \<Rightarrow> word_of_int (- (2 ^ 63)))"

section \<open>Integers below 2 ^ 53 are exact\<close>

lemma bitlen_bound: "n < 2 ^ k \<Longrightarrow> bitlen n \<le> k"
proof (induction k arbitrary: n)
  case 0
  then show ?case by (simp add: bitlen.simps)
next
  case (Suc k)
  then have "n div 2 < 2 ^ k" by auto
  with Suc.IH show ?case by (subst bitlen.simps) auto
qed

lemma f_trunc_strip_twos: "0 \<le> e \<Longrightarrow> f_trunc (strip_twos m e) = Some (m * 2 ^ nat e)"
proof (induction m e rule: strip_twos.induct)
  case (1 m e)
  show ?case
  proof (cases "m \<noteq> 0 \<and> even m")
    case True
    then obtain k where k: "m = 2 * k" by auto
    have "nat (e + 1) = Suc (nat e)" using "1.prems" by simp
    with 1 True k show ?thesis by (subst strip_twos.simps) simp
  next
    case False
    then show ?thesis using "1.prems" by (subst strip_twos.simps) auto
  qed
qed

lemma f_trunc_f_of_int:
  assumes "\<bar>n\<bar> < 2 ^ 53"
  shows "f_trunc (f_of_int n) = Some n"
proof (cases "n = 0")
  case True
  then show ?thesis by (simp add: f_of_int_def f_round_def)
next
  case False
  have small: "bitlen (nat \<bar>n\<bar>) \<le> 53"
    using assms by (intro bitlen_bound) (simp add: nat_less_iff)
  then have "nat (max (int (bitlen (nat \<bar>n\<bar>)) - 53) (- 1074 - 0)) = 0" by simp
  moreover have "int (bitlen (nat \<bar>n\<bar>)) \<le> 1024" using small by simp
  ultimately show ?thesis
    using False f_trunc_strip_twos [of 0 n]
    by (simp add: f_of_int_def f_round_def round_shift_def)
qed

lemma goint_float_roundtrip:
  assumes "\<bar>sint (i :: goint)\<bar> < 2 ^ 53"
  shows "goint_of_float (float_of_goint i) = i"
proof -
  have "- (2 ^ 63) \<le> sint i" and "sint i < 2 ^ 63"
    using assms by auto
  then show ?thesis
    using assms by (simp add: goint_of_float_def float_of_goint_def f_trunc_f_of_int)
qed

lemma float_of_goint_0 [simp]: "float_of_goint 0 = FZero False"
  by (simp add: float_of_goint_def f_of_int_def f_round_def)

end
