(* ===== verification/GoValue.thy ===== *)
theory GoValue
  imports GoFloat
begin

text \<open>
  Values of the Go type \<open>interface{}\<close> as the graph engine handles them: one constructor per
  dynamic type that the code tests for.  A value is a finite tree, so sharing of backing arrays
  is not modelled.  \<open>rtype\<close> is \<open>reflect.Type\<close>.  The theory also has what the code uses of
  \<open>encoding/json\<close> (marshal followed by unmarshal into \<open>interface{}\<close>), of \<open>fmt\<close> and of
  \<open>reflect\<close>, and the deep copy of \<open>checkpoint/checkpoint.go\<close>.
\<close>

section \<open>Types and values\<close>

datatype rtype =
    RInt | RFloat64 | RNum string | RBool | RString | RInterface
  | RSlice rtype | RArray nat rtype | RMap rtype rtype | RPtr rtype
  | RStruct string "(string \<times> bool \<times> rtype) list"
  | RFunc | RChan

datatype gvalue =
    GNil
  | GMissing
  | GBool bool
  | GInt goint
  | GFloat float64
  | GString string
  | GSlice "gvalue list"
  | GMap "(string \<times> gvalue) list"
  | GMapBool "(string \<times> bool) list"
  | GMapInt "(string \<times> goint) list"
  | GMapMapInt "(string \<times> (string \<times> goint) list) list"
  | GSliceMap "(string \<times> gvalue) list list"
  | GBytes string
  | GOverwrite gvalue
  | GEmptySlice rtype
  | GEmptyMap rtype rtype
  | GZero rtype

section \<open>fmt\<close>

fun nat_digits :: "nat \<Rightarrow> string" where
  "nat_digits n = (if n < 10 then [char_of (48 + n)] else nat_digits (n div 10) @ [char_of (48 + n mod 10)])"

declare nat_digits.simps [simp del]

definition int_digits :: "int \<Rightarrow> string" where
  "int_digits i = (if i < 0 then ''-'' @ nat_digits (nat (- i)) else nat_digits (nat i))"

definition goint_digits :: "goint \<Rightarrow> string" where
  "goint_digits i = int_digits (sint i)"

definition bool_text :: "bool \<Rightarrow> string" where
  "bool_text b = (if b then ''true'' else ''false'')"

definition sep_by :: "string \<Rightarrow> string list \<Rightarrow> string" where
  "sep_by s ps = concat (case ps of [] \<Rightarrow> [] | p # qs \<Rightarrow> p # map (\<lambda>q. s @ q) qs)"

primrec rtype_String :: "rtype \<Rightarrow> string" where
  "rtype_String RInt = ''int''"
| "rtype_String RFloat64 = ''float64''"
| "rtype_String (RNum n) = n"
| "rtype_String RBool = ''bool''"
| "rtype_String RString = ''string''"
| "rtype_String RInterface = ''interface {}''"
| "rtype_String (RSlice t) = ''[]'' @ rtype_String t"
| "rtype_String (RArray n t) = ''['' @ nat_digits n @ '']'' @ rtype_String t"
| "rtype_String (RMap k v) = ''map['' @ rtype_String k @ '']'' @ rtype_String v"
| "rtype_String (RPtr t) = ''*'' @ rtype_String t"
| "rtype_String (RStruct n fs) = n"
| "rtype_String RFunc = ''func''"
| "rtype_String RChan = ''chan''"

text \<open>\<open>reflect.TypeOf\<close>: \<open>None\<close> for the nil interface.\<close>

fun TypeOf :: "gvalue \<Rightarrow> rtype option" where
  "TypeOf GNil = None"
| "TypeOf GMissing = Some (RPtr (RStruct ''channels.missingSentinel'' []))"
| "TypeOf (GBool _) = Some RBool"
| "TypeOf (GInt _) = Some RInt"
| "TypeOf (GFloat _) = Some RFloat64"
| "TypeOf (GString _) = Some RString"
| "TypeOf (GSlice _) = Some (RSlice RInterface)"
| "TypeOf (GMap _) = Some (RMap RString RInterface)"
| "TypeOf (GMapBool _) = Some (RMap RString RBool)"
| "TypeOf (GMapInt _) = Some (RMap RString RInt)"
| "TypeOf (GMapMapInt _) = Some (RMap RString (RMap RString RInt))"
| "TypeOf (GSliceMap _) = Some (RSlice (RMap RString RInterface))"
| "TypeOf (GBytes _) = Some (RSlice (RNum ''uint8''))"
| "TypeOf (GOverwrite _) = Some (RPtr (RStruct ''types.Overwrite'' [(''Value'', True, RInterface)]))"
| "TypeOf (GEmptySlice t) = Some (RSlice t)"
| "TypeOf (GEmptyMap k v) = Some (RMap k v)"
| "TypeOf (GZero t) = Some t"

text \<open>The verb \<open>%T\<close>.\<close>

definition fmt_T :: "gvalue \<Rightarrow> string" where
  "fmt_T v = (case TypeOf v of None \<Rightarrow> ''<nil>'' | Some t \<Rightarrow> rtype_String t)"

text \<open>
  The verb \<open>%v\<close> and \<open>fmt.Sprint\<close> of one operand.  Maps print in key order.  The text of floats
  and of pointers and structs is left to \<open>other\<close>.
\<close>

primrec fmt_v :: "(gvalue \<Rightarrow> string) \<Rightarrow> gvalue \<Rightarrow> string" where
  "fmt_v other GNil = ''<nil>''"
| "fmt_v other GMissing = ''<MISSING>''"
| "fmt_v other (GBool b) = bool_text b"
| "fmt_v other (GInt i) = goint_digits i"
| "fmt_v other (GFloat f) = other (GFloat f)"
| "fmt_v other (GString s) = s"
| "fmt_v other (GSlice vs) = ''['' @ sep_by '' '' (map (fmt_v other) vs) @ '']''"
| "fmt_v other (GMap m) =
     ''map['' @ sep_by '' '' (map (\<lambda>e. fst e @ '':'' @ snd e) (map (map_prod id (fmt_v other)) m)) @ '']''"
| "fmt_v other (GMapBool m) =
     ''map['' @ sep_by '' '' (map (\<lambda>e. fst e @ '':'' @ bool_text (snd e)) m) @ '']''"
| "fmt_v other (GMapInt m) =
     ''map['' @ sep_by '' '' (map (\<lambda>e. fst e @ '':'' @ goint_digits (snd e)) m) @ '']''"
| "fmt_v other (GMapMapInt m) = other (GMapMapInt m)"
| "fmt_v other (GSliceMap ms) = other (GSliceMap ms)"
| "fmt_v other (GBytes b) = other (GBytes b)"
| "fmt_v other (GOverwrite v) = other (GOverwrite v)"
| "fmt_v other (GEmptySlice t) = ''[]''"
| "fmt_v other (GEmptyMap k v) = ''map[]''"
| "fmt_v other (GZero t) = other (GZero t)"

section \<open>encoding/json\<close>

text \<open>
  \<open>json.Marshal\<close> replaces every byte that is not part of a valid UTF-8 sequence by U+FFFD.
  \<open>utf8_width\<close> is the width of the sequence at the head of a byte string, 0 when it is invalid.
\<close>

definition cont_byte :: "nat \<Rightarrow> bool" where
  "cont_byte b \<longleftrightarrow> 128 \<le> b \<and> b < 192"

definition utf8_width :: "nat list \<Rightarrow> nat" where
  "utf8_width bs =
     (case bs of [] \<Rightarrow> 0
      | b # r \<Rightarrow>
        if b < 128 then 1
        else if 194 \<le> b \<and> b < 224 then
          (case r of c # _ \<Rightarrow> if cont_byte c then 2 else 0 | _ \<Rightarrow> 0)
        else if 224 \<le> b \<and> b < 240 then
          (case r of c # d # _ \<Rightarrow>
             if cont_byte c \<and> cont_byte d \<and> (b = 224 \<longrightarrow> 160 \<le> c) \<and> (b = 237 \<longrightarrow> c < 160) then 3 else 0
           | _ \<Rightarrow> 0)
        else if 240 \<le> b \<and> b < 245 then
          (case r of c # d # e # _ \<Rightarrow>
             if cont_byte c \<and> cont_byte d \<and> cont_byte e \<and> (b = 240 \<longrightarrow> 144 \<le> c) \<and> (b = 244 \<longrightarrow> c < 144)
             then 4 else 0
           | _ \<Rightarrow> 0)
        else 0)"

function utf8_fix :: "string \<Rightarrow> string" where
  "utf8_fix s =
     (case s of [] \<Rightarrow> []
      | c # r \<Rightarrow>
        let w = utf8_width (map of_char s)
        in if w = 0 then [char_of (239 :: nat), char_of (191 :: nat), char_of (189 :: nat)] @ utf8_fix r
           else take w s @ utf8_fix (drop w s))"
  by pat_completeness auto
termination
  by (relation "measure length") (auto simp: Let_def)

declare utf8_fix.simps [simp del]

definition ascii :: "string \<Rightarrow> bool" where
  "ascii s \<longleftrightarrow> (\<forall>c\<in>set s. (of_char c :: nat) < 128)"

text \<open>Base64 with padding, the JSON form of a byte slice.\<close>

definition b64_char :: "nat \<Rightarrow> char" where
  "b64_char n = ''ABCDEFGHIJKLMNOPQRSTUVWXYZabcdefghijklmnopqrstuvwxyz0123456789+/'' ! n"

fun base64 :: "string \<Rightarrow> string" where
  "base64 (a # b # c # r) =
     (let n = of_char a * 65536 + of_char b * 256 + (of_char c :: nat)
      in [b64_char (n div 262144), b64_char (n div 4096 mod 64), b64_char (n div 64 mod 64), b64_char (n mod 64)]
         @ base64 r)"
| "base64 [a, b] =
     (let n = of_char a * 65536 + (of_char b :: nat) * 256
      in [b64_char (n div 262144), b64_char (n div 4096 mod 64), b64_char (n div 64 mod 64), CHR ''=''])"
| "base64 [a] =
     (let n = (of_char a :: nat) * 65536
      in [b64_char (n div 262144), b64_char (n div 4096 mod 64), CHR ''='', CHR ''=''])"
| "base64 [] = []"

text \<open>A JSON object as unmarshalled: keys in encoding order, a later duplicate replaces an earlier one.\<close>

definition json_object :: "(string \<times> gvalue) list \<Rightarrow> gvalue" where
  "json_object es = GMap (mputs [] (map (\<lambda>e. (utf8_fix (fst e), snd e)) es))"

text \<open>The zero value of a type; struct tags are not modelled.  \<open>None\<close>: not supported by \<open>json\<close>.\<close>

primrec json_zero :: "rtype \<Rightarrow> gvalue option" where
  "json_zero RInt = Some (GFloat (FZero False))"
| "json_zero RFloat64 = Some (GFloat (FZero False))"
| "json_zero (RNum n) = Some (GFloat (FZero False))"
| "json_zero RBool = Some (GBool False)"
| "json_zero RString = Some (GString [])"
| "json_zero RInterface = Some GNil"
| "json_zero (RSlice t) = Some GNil"
| "json_zero (RArray n t) = map_option (\<lambda>v. GSlice (replicate n v)) (json_zero t)"
| "json_zero (RMap k v) = Some GNil"
| "json_zero (RPtr t) = Some GNil"
| "json_zero (RStruct n fs) =
     (let es = filter (\<lambda>f. fst (snd f)) (map (map_prod id (map_prod id json_zero)) fs)
      in if list_all (\<lambda>f. snd (snd f) \<noteq> None) es
         then Some (json_object (map (\<lambda>f. (fst f, the (snd (snd f)))) es)) else None)"
| "json_zero RFunc = None"
| "json_zero RChan = None"

fun json_number :: "float64 \<Rightarrow> gvalue option" where
  "json_number FNaN = None"
| "json_number (FInf a) = None"
| "json_number f = Some (GFloat f)"

text \<open>\<open>json.Marshal\<close> and then \<open>json.Unmarshal\<close> into an \<open>interface{}\<close>; \<open>None\<close> when marshalling fails.\<close>

primrec json_roundtrip :: "gvalue \<Rightarrow> gvalue option" where
  "json_roundtrip GNil = Some GNil"
| "json_roundtrip GMissing = Some (GMap [])"
| "json_roundtrip (GBool b) = Some (GBool b)"
| "json_roundtrip (GInt i) = Some (GFloat (float_of_goint i))"
| "json_roundtrip (GFloat f) = json_number f"
| "json_roundtrip (GString s) = Some (GString (utf8_fix s))"
| "json_roundtrip (GSlice vs) =
     (let rs = map json_roundtrip vs
      in if list_all (\<lambda>r. r \<noteq> None) rs then Some (GSlice (map the rs)) else None)"
| "json_roundtrip (GMap m) =
     (let es = map (map_prod id json_roundtrip) m
      in if list_all (\<lambda>e. snd e \<noteq> None) es then Some (json_object (map (map_prod id the) es)) else None)"
| "json_roundtrip (GMapBool m) = Some (json_object (map (map_prod id GBool) m))"
| "json_roundtrip (GMapInt m) = Some (json_object (map (map_prod id (\<lambda>i. GFloat (float_of_goint i))) m))"
| "json_roundtrip (GMapMapInt m) =
     Some (json_object (map (map_prod id (\<lambda>n. json_object (map (map_prod id (\<lambda>i. GFloat (float_of_goint i))) n))) m))"
| "json_roundtrip (GSliceMap ms) =
     (let rs = map (map (map_prod id json_roundtrip)) ms
      in if list_all (list_all (\<lambda>e. snd e \<noteq> None)) rs
         then Some (GSlice (map (\<lambda>es. json_object (map (map_prod id the) es)) rs)) else None)"
| "json_roundtrip (GBytes b) = Some (GString (base64 b))"
| "json_roundtrip (GOverwrite v) = map_option (\<lambda>r. json_object [(''Value'', r)]) (json_roundtrip v)"
| "json_roundtrip (GEmptySlice t) = Some (if t = RNum ''uint8'' then GString [] else GSlice [])"
| "json_roundtrip (GEmptyMap k v) = (if k = RString then Some (GMap []) else None)"
| "json_roundtrip (GZero t) = json_zero t"

section \<open>Deep copy (checkpoint.go)\<close>

primrec deepCopy :: "gvalue \<Rightarrow> gvalue" where
  "deepCopy GNil = GNil"
| "deepCopy (GMap m) = GMap (map (map_prod id deepCopy) m)"
| "deepCopy (GSlice vs) = GSlice (map deepCopy vs)"
| "deepCopy GMissing = case_option GNil id (json_roundtrip GMissing)"
| "deepCopy (GBool b) = case_option GNil id (json_roundtrip (GBool b))"
| "deepCopy (GInt i) = case_option GNil id (json_roundtrip (GInt i))"
| "deepCopy (GFloat f) = case_option GNil id (json_roundtrip (GFloat f))"
| "deepCopy (GString s) = case_option GNil id (json_roundtrip (GString s))"
| "deepCopy (GMapBool m) = case_option GNil id (json_roundtrip (GMapBool m))"
| "deepCopy (GMapInt m) = case_option GNil id (json_roundtrip (GMapInt m))"
| "deepCopy (GMapMapInt m) = case_option GNil id (json_roundtrip (GMapMapInt m))"
| "deepCopy (GSliceMap ms) = case_option GNil id (json_roundtrip (GSliceMap ms))"
| "deepCopy (GBytes b) = case_option GNil id (json_roundtrip (GBytes b))"
| "deepCopy (GOverwrite v) = case_option GNil id (json_roundtrip (GOverwrite v))"
| "deepCopy (GEmptySlice t) = case_option GNil id (json_roundtrip (GEmptySlice t))"
| "deepCopy (GEmptyMap k v) = case_option GNil id (json_roundtrip (GEmptyMap k v))"
| "deepCopy (GZero t) = case_option GNil id (json_roundtrip (GZero t))"

definition deepCopyMap :: "gvalue gomap \<Rightarrow> gvalue gomap" where
  "deepCopyMap m = mmap deepCopy m"

definition deepCopySlice :: "gvalue list \<Rightarrow> gvalue list" where
  "deepCopySlice vs = map deepCopy vs"

section \<open>Lemmas\<close>

lemma ascii_Cons [simp]: "ascii (c # s) \<longleftrightarrow> (of_char c :: nat) < 128 \<and> ascii s"
  by (auto simp: ascii_def)

lemma ascii_Nil [simp]: "ascii []"
  by (simp add: ascii_def)

lemma utf8_fix_ascii: "ascii s \<Longrightarrow> utf8_fix s = s"
proof (induction s)
  case Nil
  then show ?case by (simp add: utf8_fix.simps)
next
  case (Cons c s)
  then show ?case by (subst utf8_fix.simps) (simp add: utf8_width_def Let_def)
qed

lemma map_prod_mmap: "map (map_prod id f) m = mmap f m"
  by (simp add: mmap_def map_prod_def case_prod_beta)

lemma deepCopy_GMap: "deepCopy (GMap m) = GMap (mmap deepCopy m)"
  by (simp add: map_prod_mmap)

declare deepCopy.simps(2) [simp del]
declare deepCopy_GMap [simp]

lemma mget_deepCopyMap [simp]: "mget (deepCopyMap m) k = map_option deepCopy (mget m k)"
  by (simp add: deepCopyMap_def)

lemma mputs_sorted: "mwf (m @ es) \<Longrightarrow> mputs m es = m @ es"
proof (induction es arbitrary: m)
  case Nil
  then show ?case by simp
next
  case (Cons e es)
  have "mput m (fst e) (snd e) = m @ [e]" if "mwf (m @ [e])" for m
    using that by (induction m) (auto simp: mwf_Cons)
  moreover have "mwf (m @ [e])"
    using Cons.prems by (auto simp: mwf_def sorted_wrt_append)
  ultimately show ?case using Cons by simp
qed

lemma mputs_Nil_sorted: "mwf es \<Longrightarrow> mputs [] es = es"
  using mputs_sorted [of "[]" es] by simp

lemma utf8_fix_Nil [simp]: "utf8_fix [] = []"
  by (simp add: utf8_fix.simps)

text \<open>What an ASCII JSON document holds: the values that marshalling and \<open>deepCopy\<close> reproduce exactly.\<close>

primrec json_doc :: "gvalue \<Rightarrow> bool" where
  "json_doc GNil = True"
| "json_doc GMissing = False"
| "json_doc (GBool b) = True"
| "json_doc (GInt i) = False"
| "json_doc (GFloat f) = (json_number f \<noteq> None)"
| "json_doc (GString s) = ascii s"
| "json_doc (GSlice vs) = list_all id (map json_doc vs)"
| "json_doc (GMap m) = (mwf m \<and> list_all (\<lambda>e. ascii (fst e)) m \<and> list_all snd (map (map_prod id json_doc) m))"
| "json_doc (GMapBool m) = False"
| "json_doc (GMapInt m) = False"
| "json_doc (GMapMapInt m) = False"
| "json_doc (GSliceMap ms) = False"
| "json_doc (GBytes b) = False"
| "json_doc (GOverwrite v) = False"
| "json_doc (GEmptySlice t) = False"
| "json_doc (GEmptyMap k v) = False"
| "json_doc (GZero t) = False"

text \<open>Maps with well-formed ASCII keys.\<close>

definition ascii_map :: "'v gomap \<Rightarrow> bool" where
  "ascii_map m \<longleftrightarrow> mwf m \<and> list_all (\<lambda>e. ascii (fst e)) m"

lemma json_doc_GMap: "json_doc (GMap m) \<longleftrightarrow> ascii_map m \<and> (\<forall>e\<in>set m. json_doc (snd e))"
  by (auto simp: ascii_map_def list_all_iff)

declare json_doc.simps(8) [simp del]

lemma json_doc_GSlice: "json_doc (GSlice vs) \<longleftrightarrow> (\<forall>v\<in>set vs. json_doc v)"
  by (simp add: list_all_iff)

declare json_doc.simps(7) [simp del]

lemma json_object_ascii: "ascii_map m \<Longrightarrow> json_object m = GMap m"
proof -
  assume m: "ascii_map m"
  then have "map (\<lambda>e. (utf8_fix (fst e), snd e)) m = m"
    by (intro map_idI) (auto simp: ascii_map_def list_all_iff utf8_fix_ascii)
  with m show ?thesis by (simp add: json_object_def ascii_map_def mputs_Nil_sorted)
qed

lemma ascii_map_mmap [simp]: "ascii_map (mmap f m) \<longleftrightarrow> ascii_map m"
  by (simp add: ascii_map_def mmap_def list_all_iff mwf_def o_def)

lemma mmap_cong_id: "(\<And>e. e \<in> set m \<Longrightarrow> f (snd e) = snd e) \<Longrightarrow> mmap f m = m"
  unfolding mmap_def by (intro map_idI) auto

lemma json_roundtrip_doc: "json_doc v \<Longrightarrow> json_roundtrip v = Some v"
proof (induction v)
  case (GFloat f)
  then show ?case by (cases f) auto
next
  case (GSlice vs)
  then have "\<forall>v\<in>set vs. json_roundtrip v = Some v" by (simp add: json_doc_GSlice)
  then show ?case by (auto simp: list_all_iff Let_def intro!: map_idI)
next
  case (GMap m)
  then have vals: "\<forall>e\<in>set m. json_roundtrip (snd e) = Some (snd e)"
    by (fastforce simp: json_doc_GMap)
  then have "map (map_prod id the) (map (map_prod id json_roundtrip) m) = m"
    by (simp add: o_def) (rule map_idI, auto)
  moreover have "list_all (\<lambda>e. snd e \<noteq> None) (map (map_prod id json_roundtrip) m)"
    using vals by (auto simp: list_all_iff)
  ultimately show ?case
    using GMap.prems by (simp add: Let_def json_object_ascii json_doc_GMap)
qed (auto simp: utf8_fix_ascii)

lemma deepCopy_doc: "json_doc v \<Longrightarrow> deepCopy v = v"
proof (induction v)
  case (GFloat f)
  then show ?case by (cases f) auto
next
  case (GSlice vs)
  then show ?case by (auto simp: json_doc_GSlice intro!: map_idI)
next
  case (GMap m)
  have "mmap deepCopy m = m"
    using GMap by (intro mmap_cong_id) (fastforce simp: json_doc_GMap)
  then show ?case by simp
qed (auto simp: utf8_fix_ascii)

end
