(* ===== verification/Errors.thy ===== *)
theory Errors
  imports GoValue
begin

text \<open>
  The error values of \<open>internal/harness/graph/errors/errors.go\<close>, the two of \<open>pregel/write.go\<close>, and the errors the engine makes
  with \<open>fmt.Errorf\<close>.  \<open>ErrorNew\<close> is an error with a text only, \<open>ErrorWrap\<close> one made with \<open>%w\<close>:
  its text and the error it wraps.  The type tests of the source are type assertions and do not
  look through a wrapper; the model's tests do not either.  The diagnostic \<open>ErrorContext\<close> with its
  stack trace, which the engine does not use, is left out.
\<close>

text \<open>An element of \<open>GraphInterrupt.Interrupts\<close>: a pointer to \<open>types.Interrupt\<close>, or another value.\<close>

datatype interrupt = Interrupt gvalue string | OtherInterrupt gvalue

datatype gerror =
    EmptyChannelError string
  | GraphRecursionError int
  | InvalidUpdateError string
  | GraphBubbleUp string "gerror option"
  | GraphInterrupt "interrupt list"
  | ParentCommand gvalue
  | EmptyInputError string
  | TaskNotFound string
  | InvalidNodeError string string
  | InvalidEdgeError string string string
  | ChannelNotFoundError string
  | NodeNotFoundError string
  | VersionConflictError goint goint string string
  | RetryExhaustedError string int "gerror option" gvalue
  | WriteValidationError string string
  | WriteSkipError string
  | ErrorNew string
  | ErrorWrap string gerror

fun IsEmptyChannelError :: "gerror \<Rightarrow> bool" where
  "IsEmptyChannelError (EmptyChannelError m) = True"
| "IsEmptyChannelError _ = False"

fun IsGraphRecursionError :: "gerror \<Rightarrow> bool" where
  "IsGraphRecursionError (GraphRecursionError l) = True"
| "IsGraphRecursionError _ = False"

fun IsGraphInterrupt :: "gerror \<Rightarrow> bool" where
  "IsGraphInterrupt (GraphInterrupt is) = True"
| "IsGraphInterrupt _ = False"

fun IsParentCommand :: "gerror \<Rightarrow> bool" where
  "IsParentCommand (ParentCommand c) = True"
| "IsParentCommand _ = False"

fun IsRetryExhausted :: "gerror \<Rightarrow> bool" where
  "IsRetryExhausted (RetryExhaustedError n a e out) = True"
| "IsRetryExhausted _ = False"

text \<open>A text in single quotes.\<close>

definition quoted :: "string \<Rightarrow> string" where
  "quoted s = [CHR 0x27] @ s @ [CHR 0x27]"

text \<open>The method \<open>Error()\<close>.\<close>

primrec Error :: "gerror \<Rightarrow> string" where
  "Error (EmptyChannelError m) = (if m \<noteq> [] then m else ''channel is empty'')"
| "Error (GraphRecursionError l) =
     ''Graph recursion limit of '' @ int_digits l @ '' reached. To increase the limit, ''
     @ ''run your graph with a config specifying a higher recursion_limit.''"
| "Error (InvalidUpdateError m) = ''Invalid update: '' @ m"
| "Error (GraphBubbleUp m c) =
     (if m \<noteq> [] then m else case_option ''graph bubble up'' id (map_option Error c))"
| "Error (GraphInterrupt is) = ''graph interrupted with '' @ nat_digits (length is) @ '' interrupt(s)''"
| "Error (ParentCommand c) = ''parent command''"
| "Error (EmptyInputError m) = (if m \<noteq> [] then m else ''empty input'')"
| "Error (TaskNotFound t) = ''task not found: '' @ t"
| "Error (InvalidNodeError n m) = ''invalid node '' @ quoted n @ '': '' @ m"
| "Error (InvalidEdgeError f t m) = ''invalid edge from '' @ quoted f @ '' to '' @ quoted t @ '': '' @ m"
| "Error (ChannelNotFoundError c) = ''channel not found: '' @ c"
| "Error (NodeNotFoundError n) = ''node not found: '' @ n"
| "Error (VersionConflictError cur ex cp th) =
     ''version conflict: expected version '' @ goint_digits ex @ '' but found '' @ goint_digits cur
     @ '' for checkpoint '' @ cp @ '' in thread '' @ th"
| "Error (RetryExhaustedError n a e out) =
     ''node '' @ n @ '' failed after '' @ int_digits a @ '' attempts: ''
     @ case_option ''<nil>'' id (map_option Error e)"
| "Error (WriteValidationError c m) = ''write validation error for channel '' @ c @ '': '' @ m"
| "Error (WriteSkipError c) = ''write skipped for channel '' @ c"
| "Error (ErrorNew m) = m"
| "Error (ErrorWrap m e) = m @ '': '' @ Error e"

end
