(* ===== verification/Channels.thy ===== *)
theory Channels
  imports Errors
begin

text \<open>
  The channel types of \<open>internal/harness/graph/channels\<close>.  A channel is a mutable object of the
  source; here each type is a record that extends \<open>BaseChannel\<close> (Go embedding) and a method that
  mutates its receiver returns the new record.  \<open>Update\<close> returns its result beside the record
  also when it fails, because some channels have changed by then.  \<open>Typ\<close> is the dynamic type of
  the \<open>typ\<close> argument, the only thing the code reads from it.  The mutexes of the barrier channels
  make each method atomic, which is what the model's methods are.
\<close>

section \<open>base.go\<close>

definition Missing :: gvalue where
  "Missing = GMissing"

definition IsMissing :: "gvalue \<Rightarrow> bool" where
  "IsMissing v = (case v of GMissing \<Rightarrow> True | _ \<Rightarrow> False)"

lemma IsMissing_iff [simp]: "IsMissing v \<longleftrightarrow> v = GMissing"
  by (cases v) (auto simp: IsMissing_def)

record BaseChannel =
  Key :: string
  Typ :: "rtype option"
  Version :: goint

type_synonym 'c updated = "(gerror + bool) \<times> 'c"

definition BaseChannel_GetKey :: "'a BaseChannel_scheme \<Rightarrow> string" where
  "BaseChannel_GetKey c = Key c"

definition BaseChannel_SetKey :: "'a BaseChannel_scheme \<Rightarrow> string \<Rightarrow> 'a BaseChannel_scheme" where
  "BaseChannel_SetKey c k = c\<lparr>Key := k\<rparr>"

definition BaseChannel_GetVersion :: "'a BaseChannel_scheme \<Rightarrow> goint" where
  "BaseChannel_GetVersion c = Version c"

definition BaseChannel_SetVersion :: "'a BaseChannel_scheme \<Rightarrow> goint \<Rightarrow> 'a BaseChannel_scheme" where
  "BaseChannel_SetVersion c v = c\<lparr>Version := v\<rparr>"

definition BaseChannel_Consume :: "'c \<Rightarrow> bool \<times> 'c" where
  "BaseChannel_Consume c = (False, c)"

definition BaseChannel_Finish :: "'c \<Rightarrow> bool \<times> 'c" where
  "BaseChannel_Finish c = (False, c)"

definition empty_error :: gerror where
  "empty_error = EmptyChannelError []"

section \<open>last\_value.go\<close>

record LastValue = BaseChannel +
  lv_value :: gvalue

definition NewLastValue :: "rtype option \<Rightarrow> LastValue" where
  "NewLastValue typ = \<lparr>Key = [], Typ = typ, Version = 0, lv_value = Missing\<rparr>"

definition LastValue_Get :: "LastValue \<Rightarrow> gerror + gvalue" where
  "LastValue_Get c = (if IsMissing (lv_value c) then Inl empty_error else Inr (lv_value c))"

definition LastValue_IsAvailable :: "LastValue \<Rightarrow> bool" where
  "LastValue_IsAvailable c = (\<not> IsMissing (lv_value c))"

definition LastValue_Update :: "LastValue \<Rightarrow> gvalue list \<Rightarrow> LastValue updated" where
  "LastValue_Update c values =
     (if length values = 0 then (Inr False, c)
      else if length values \<noteq> 1 then
        (Inl (InvalidUpdateError (''At key '' @ quoted (Key c) @
           '': Can receive only one value per step. Use a reducer to handle multiple values.'')), c)
      else (Inr True, c\<lparr>lv_value := last values\<rparr>))"

definition LastValue_Copy :: "LastValue \<Rightarrow> LastValue" where
  "LastValue_Copy c = (NewLastValue (Typ c))\<lparr>Key := Key c, lv_value := lv_value c\<rparr>"

definition LastValue_Checkpoint :: "LastValue \<Rightarrow> gvalue" where
  "LastValue_Checkpoint c = lv_value c"

definition LastValue_FromCheckpoint :: "LastValue \<Rightarrow> gvalue \<Rightarrow> LastValue" where
  "LastValue_FromCheckpoint c cp =
     (let n = (NewLastValue (Typ c))\<lparr>Key := Key c\<rparr>
      in if \<not> IsMissing cp then n\<lparr>lv_value := cp\<rparr> else n)"

section \<open>any\_value.go\<close>

record AnyValue = BaseChannel +
  av_value :: gvalue

definition NewAnyValue :: "rtype option \<Rightarrow> AnyValue" where
  "NewAnyValue typ = \<lparr>Key = [], Typ = typ, Version = 0, av_value = Missing\<rparr>"

definition AnyValue_Get :: "AnyValue \<Rightarrow> gerror + gvalue" where
  "AnyValue_Get c = (if IsMissing (av_value c) then Inl empty_error else Inr (av_value c))"

definition AnyValue_IsAvailable :: "AnyValue \<Rightarrow> bool" where
  "AnyValue_IsAvailable c = (\<not> IsMissing (av_value c))"

definition AnyValue_Update :: "AnyValue \<Rightarrow> gvalue list \<Rightarrow> AnyValue updated" where
  "AnyValue_Update c values =
     (if length values = 0 then (Inr False, c) else (Inr True, c\<lparr>av_value := last values\<rparr>))"

definition AnyValue_Copy :: "AnyValue \<Rightarrow> AnyValue" where
  "AnyValue_Copy c = (NewAnyValue (Typ c))\<lparr>Key := Key c, av_value := av_value c\<rparr>"

definition AnyValue_Checkpoint :: "AnyValue \<Rightarrow> gvalue" where
  "AnyValue_Checkpoint c = av_value c"

definition AnyValue_FromCheckpoint :: "AnyValue \<Rightarrow> gvalue \<Rightarrow> AnyValue" where
  "AnyValue_FromCheckpoint c cp =
     (let n = (NewAnyValue (Typ c))\<lparr>Key := Key c\<rparr>
      in if \<not> IsMissing cp then n\<lparr>av_value := cp\<rparr> else n)"

section \<open>ephemeral\_value.go\<close>

record EphemeralValue = BaseChannel +
  ev_value :: gvalue
  ev_guard :: bool

definition NewEphemeralValue :: "rtype option \<Rightarrow> bool \<Rightarrow> EphemeralValue" where
  "NewEphemeralValue typ guard = \<lparr>Key = [], Typ = typ, Version = 0, ev_value = Missing, ev_guard = guard\<rparr>"

text \<open>Reading clears the channel.\<close>

definition EphemeralValue_Get :: "EphemeralValue \<Rightarrow> (gerror + gvalue) \<times> EphemeralValue" where
  "EphemeralValue_Get c =
     (if IsMissing (ev_value c)
      then (if ev_guard c then (Inl empty_error, c) else (Inr GNil, c))
      else (Inr (ev_value c), c\<lparr>ev_value := Missing\<rparr>))"

definition EphemeralValue_IsAvailable :: "EphemeralValue \<Rightarrow> bool" where
  "EphemeralValue_IsAvailable c = (\<not> IsMissing (ev_value c))"

definition EphemeralValue_Update :: "EphemeralValue \<Rightarrow> gvalue list \<Rightarrow> EphemeralValue updated" where
  "EphemeralValue_Update c values =
     (if length values = 0 then (Inr False, c) else (Inr True, c\<lparr>ev_value := last values\<rparr>))"

definition EphemeralValue_Copy :: "EphemeralValue \<Rightarrow> EphemeralValue" where
  "EphemeralValue_Copy c =
     (NewEphemeralValue (Typ c) (ev_guard c))\<lparr>Key := Key c, ev_value := ev_value c\<rparr>"

definition EphemeralValue_Checkpoint :: "EphemeralValue \<Rightarrow> gvalue" where
  "EphemeralValue_Checkpoint c = ev_value c"

definition EphemeralValue_FromCheckpoint :: "EphemeralValue \<Rightarrow> gvalue \<Rightarrow> EphemeralValue" where
  "EphemeralValue_FromCheckpoint c cp =
     (let n = (NewEphemeralValue (Typ c) (ev_guard c))\<lparr>Key := Key c\<rparr>
      in if \<not> IsMissing cp then n\<lparr>ev_value := cp\<rparr> else n)"

section \<open>untracked.go\<close>

record UntrackedValue = BaseChannel +
  uv_value :: gvalue

definition NewUntrackedValue :: "rtype option \<Rightarrow> UntrackedValue" where
  "NewUntrackedValue typ = \<lparr>Key = [], Typ = typ, Version = 0, uv_value = Missing\<rparr>"

definition UntrackedValue_Get :: "UntrackedValue \<Rightarrow> gerror + gvalue" where
  "UntrackedValue_Get c = (if IsMissing (uv_value c) then Inl empty_error else Inr (uv_value c))"

definition UntrackedValue_IsAvailable :: "UntrackedValue \<Rightarrow> bool" where
  "UntrackedValue_IsAvailable c = (\<not> IsMissing (uv_value c))"

definition UntrackedValue_Update :: "UntrackedValue \<Rightarrow> gvalue list \<Rightarrow> UntrackedValue updated" where
  "UntrackedValue_Update c values =
     (if length values = 0 then (Inr False, c) else (Inr True, c\<lparr>uv_value := last values\<rparr>))"

definition UntrackedValue_Copy :: "UntrackedValue \<Rightarrow> UntrackedValue" where
  "UntrackedValue_Copy c = (NewUntrackedValue (Typ c))\<lparr>Key := Key c\<rparr>"

definition UntrackedValue_Checkpoint :: "UntrackedValue \<Rightarrow> gvalue" where
  "UntrackedValue_Checkpoint c = Missing"

definition UntrackedValue_FromCheckpoint :: "UntrackedValue \<Rightarrow> gvalue \<Rightarrow> UntrackedValue" where
  "UntrackedValue_FromCheckpoint c cp = NewUntrackedValue (Typ c)"

section \<open>topic.go\<close>

record Topic = BaseChannel +
  tp_values :: "gvalue list"
  tp_accumulate :: bool

definition NewTopic :: "rtype option \<Rightarrow> bool \<Rightarrow> Topic" where
  "NewTopic typ accumulate = \<lparr>Key = [], Typ = typ, Version = 0, tp_values = [], tp_accumulate = accumulate\<rparr>"

definition Topic_Get :: "Topic \<Rightarrow> gerror + gvalue" where
  "Topic_Get c = (if length (tp_values c) = 0 then Inl empty_error else Inr (GSlice (tp_values c)))"

definition Topic_IsAvailable :: "Topic \<Rightarrow> bool" where
  "Topic_IsAvailable c = (length (tp_values c) > 0)"

fun flatten :: "gvalue list \<Rightarrow> gvalue list" where
  "flatten [] = []"
| "flatten (v # vs) = (case v of GSlice l \<Rightarrow> l @ flatten vs | _ \<Rightarrow> v # flatten vs)"

definition Topic_Update :: "Topic \<Rightarrow> gvalue list \<Rightarrow> Topic updated" where
  "Topic_Update c values =
     (let cleared = (if tp_accumulate c then c else c\<lparr>tp_values := []\<rparr>);
          emptied = (\<not> tp_accumulate c \<and> length (tp_values c) > 0);
          flat = flatten values
      in if length flat > 0 then (Inr True, cleared\<lparr>tp_values := tp_values cleared @ flat\<rparr>)
         else (Inr emptied, cleared))"

definition Topic_Copy :: "Topic \<Rightarrow> Topic" where
  "Topic_Copy c = (NewTopic (Typ c) (tp_accumulate c))\<lparr>Key := Key c, tp_values := tp_values c\<rparr>"

definition Topic_Checkpoint :: "Topic \<Rightarrow> gvalue" where
  "Topic_Checkpoint c = (if length (tp_values c) = 0 then Missing else GSlice (tp_values c))"

definition Topic_FromCheckpoint :: "Topic \<Rightarrow> gvalue \<Rightarrow> Topic" where
  "Topic_FromCheckpoint c cp =
     (let n = (NewTopic (Typ c) (tp_accumulate c))\<lparr>Key := Key c\<rparr>
      in if \<not> IsMissing cp then (case cp of GSlice v \<Rightarrow> n\<lparr>tp_values := v\<rparr> | _ \<Rightarrow> n) else n)"

end
