(* ===== verification/Aggregates.thy ===== *)
theory Aggregates
  imports Channels
begin

text \<open>
  \<open>channels/binop.go\<close>: the channel that folds every write into its value with a binary operator,
  its operators, and the reducer functions of \<open>channels/reducer.go\<close> and \<open>graph/state.go\<close>.
\<close>

type_synonym BinaryOperator = "gvalue \<Rightarrow> gvalue \<Rightarrow> gvalue"
type_synonym ReducerFunc = "gvalue \<Rightarrow> gvalue \<Rightarrow> gvalue"

section \<open>Zero values\<close>

fun zero_value :: "rtype \<Rightarrow> gvalue" where
  "zero_value RInt = GInt 0"
| "zero_value RFloat64 = GFloat (FZero False)"
| "zero_value RBool = GBool False"
| "zero_value RString = GString []"
| "zero_value RInterface = GNil"
| "zero_value t = GZero t"

definition createZeroValue :: "rtype option \<Rightarrow> gvalue" where
  "createZeroValue typ =
     (case typ of None \<Rightarrow> Missing
      | Some rt \<Rightarrow>
        if rtype_String rt = ''[]interface {}'' then GSlice []
        else if rtype_String rt = ''map[string]interface {}'' then GMap []
        else let rt' = (case rt of RPtr t \<Rightarrow> t | _ \<Rightarrow> rt)
             in (case rt' of RSlice t \<Rightarrow> GEmptySlice t
                 | RMap k v \<Rightarrow> GEmptyMap k v
                 | _ \<Rightarrow> zero_value rt'))"

section \<open>The channel\<close>

record BinaryOperatorAggregate = BaseChannel +
  bo_value :: gvalue
  bo_operator :: BinaryOperator

definition NewBinaryOperatorAggregate :: "rtype option \<Rightarrow> BinaryOperator \<Rightarrow> BinaryOperatorAggregate" where
  "NewBinaryOperatorAggregate typ operator =
     \<lparr>Key = [], Typ = typ, Version = 0, bo_value = createZeroValue typ, bo_operator = operator\<rparr>"

definition BinaryOperatorAggregate_Get :: "BinaryOperatorAggregate \<Rightarrow> gerror + gvalue" where
  "BinaryOperatorAggregate_Get c = (if IsMissing (bo_value c) then Inl empty_error else Inr (bo_value c))"

definition BinaryOperatorAggregate_IsAvailable :: "BinaryOperatorAggregate \<Rightarrow> bool" where
  "BinaryOperatorAggregate_IsAvailable c = (\<not> IsMissing (bo_value c))"

text \<open>
  The first test of \<open>isOverwrite\<close> asks for a method \<open>GetValue() interface{}\<close>.  No type of the
  program has one (\<open>types.Overwrite\<close> has none either), so it fails on every value; what remains
  is the map with the single key \<open>__overwrite__\<close>.
\<close>

definition Overwrite_key :: string where
  "Overwrite_key = ''__overwrite__''"

definition isOverwrite :: "gvalue \<Rightarrow> bool \<times> gvalue" where
  "isOverwrite value =
     (case value of
        GMap m \<Rightarrow> if length m = 1 then (case mget m Overwrite_key of Some v \<Rightarrow> (True, v) | None \<Rightarrow> (False, GNil))
                  else (False, GNil)
      | _ \<Rightarrow> (False, GNil))"

fun binop_loop :: "BinaryOperator \<Rightarrow> gvalue \<Rightarrow> bool \<Rightarrow> gvalue list \<Rightarrow> gvalue updated" where
  "binop_loop oper value seenOverwrite [] = (Inr True, value)"
| "binop_loop oper value seenOverwrite (x # xs) =
     (let (isOver, overwriteValue) = isOverwrite x
      in if isOver then
           (if seenOverwrite
            then (Inl (InvalidUpdateError ''Can receive only one Overwrite value per super-step.''), value)
            else binop_loop oper overwriteValue True xs)
         else binop_loop oper (if seenOverwrite then value else oper value x) seenOverwrite xs)"

definition BinaryOperatorAggregate_Update ::
    "BinaryOperatorAggregate \<Rightarrow> gvalue list \<Rightarrow> BinaryOperatorAggregate updated" where
  "BinaryOperatorAggregate_Update c values =
     (if length values = 0 then (Inr False, c)
      else let (value, rest) = (if IsMissing (bo_value c) then (hd values, tl values) else (bo_value c, values));
               (r, value') = binop_loop (bo_operator c) value False rest
           in (r, c\<lparr>bo_value := value'\<rparr>))"

definition BinaryOperatorAggregate_Copy :: "BinaryOperatorAggregate \<Rightarrow> BinaryOperatorAggregate" where
  "BinaryOperatorAggregate_Copy c =
     (NewBinaryOperatorAggregate (Typ c) (bo_operator c))\<lparr>Key := Key c, bo_value := bo_value c\<rparr>"

definition BinaryOperatorAggregate_Checkpoint :: "BinaryOperatorAggregate \<Rightarrow> gvalue" where
  "BinaryOperatorAggregate_Checkpoint c = bo_value c"

definition BinaryOperatorAggregate_FromCheckpoint ::
    "BinaryOperatorAggregate \<Rightarrow> gvalue \<Rightarrow> BinaryOperatorAggregate" where
  "BinaryOperatorAggregate_FromCheckpoint c cp =
     (let n = (NewBinaryOperatorAggregate (Typ c) (bo_operator c))\<lparr>Key := Key c\<rparr>
      in if \<not> IsMissing cp then n\<lparr>bo_value := cp\<rparr> else n)"

section \<open>Operators\<close>

definition StringConcat :: "(gvalue \<Rightarrow> string) \<Rightarrow> BinaryOperator" where
  "StringConcat other a b =
     (case (a, b) of (GString sa, GString sb) \<Rightarrow> GString (sa @ sb)
      | _ \<Rightarrow> GString (fmt_v other a @ fmt_v other b))"

definition IntAdd :: BinaryOperator where
  "IntAdd a b =
     (case (a, b) of (GInt ai, GInt bi) \<Rightarrow> GInt (ai + bi)
      | (GFloat af, GFloat bf) \<Rightarrow> GFloat (f_add af bf)
      | _ \<Rightarrow> a)"

definition ListAppend :: BinaryOperator where
  "ListAppend a b =
     (case a of GSlice al \<Rightarrow> (case b of GSlice bl \<Rightarrow> GSlice (al @ bl) | _ \<Rightarrow> GSlice (al @ [b]))
      | _ \<Rightarrow> GSlice [a, b])"

text \<open>The operator \<open>CreateReducerChannel\<close> gives to map fields.\<close>

definition mapMerge :: BinaryOperator where
  "mapMerge a b =
     (case (a, b) of (GMap aMap, GMap bMap) \<Rightarrow> GMap (mputs (mputs [] aMap) bMap) | _ \<Rightarrow> b)"

section \<open>Reducers\<close>

definition AddReducer :: ReducerFunc where
  "AddReducer current upd =
     (case current of GNil \<Rightarrow> upd
      | GInt ci \<Rightarrow> (case upd of GInt ui \<Rightarrow> GInt (ci + ui) | _ \<Rightarrow> upd)
      | GFloat cf \<Rightarrow> (case upd of GFloat uf \<Rightarrow> GFloat (f_add cf uf) | _ \<Rightarrow> upd)
      | _ \<Rightarrow> upd)"

definition AppendReducer :: ReducerFunc where
  "AppendReducer current upd =
     (case current of GNil \<Rightarrow> GSlice [upd]
      | GSlice sl \<Rightarrow> GSlice (sl @ [upd])
      | _ \<Rightarrow> GSlice [current, upd])"

definition MergeReducer :: ReducerFunc where
  "MergeReducer current upd =
     (case current of GNil \<Rightarrow> upd
      | GMap currentMap \<Rightarrow>
          (case upd of GMap updateMap \<Rightarrow> GMap (mputs (mputs [] currentMap) updateMap) | _ \<Rightarrow> upd)
      | _ \<Rightarrow> upd)"

text \<open>The registry of reducers a \<open>harness\<close> struct tag can name (\<open>graph/state.go\<close>).\<close>

definition reducers :: "string \<Rightarrow> ReducerFunc option" where
  "reducers name =
     (if name = ''add'' then Some AddReducer
      else if name = ''append'' then Some AppendReducer
      else if name = ''merge'' then Some MergeReducer
      else None)"

section \<open>Lemmas\<close>

lemma isOverwrite_GMap_single:
  "isOverwrite (GMap [(k, v)]) = (if k = Overwrite_key then (True, v) else (False, GNil))"
  by (simp add: isOverwrite_def mget_Cons)

text \<open>Without overwrites a step folds the operator over the writes, from the left.\<close>

lemma binop_loop_fold:
  "\<forall>x\<in>set xs. \<not> fst (isOverwrite x) \<Longrightarrow> binop_loop oper v False xs = (Inr True, foldl oper v xs)"
  by (induction xs arbitrary: v) (auto split: prod.splits)

text \<open>After an overwrite the rest of the step is ignored, and a second overwrite is an error.\<close>

lemma binop_loop_seen:
  "binop_loop oper v True xs =
     (if \<exists>x\<in>set xs. fst (isOverwrite x)
      then (Inl (InvalidUpdateError ''Can receive only one Overwrite value per super-step.''), v)
      else (Inr True, v))"
  by (induction xs) (auto split: prod.splits)

lemma binop_loop_append:
  "\<forall>x\<in>set xs. \<not> fst (isOverwrite x) \<Longrightarrow> binop_loop oper v False (xs @ ys) = binop_loop oper (foldl oper v xs) False ys"
  by (induction xs arbitrary: v) (auto split: prod.splits)

lemma createZeroValue_rtype_ptr:
  "createZeroValue (Some (RPtr (RStruct n fs))) = GZero (RStruct n fs)"
  by (simp add: createZeroValue_def)

end
