(* ===== verification/Barriers.thy ===== *)
theory Barriers
  imports Channels
begin

text \<open>
  \<open>channels/barrier.go\<close>: the channels that wait for a set of names or for the end of the run.
\<close>

section \<open>NamedBarrierValue\<close>

record NamedBarrierValue = BaseChannel +
  nb_names :: "bool gomap"
  nb_seen :: "bool gomap"

text \<open>\<open>names[n]\<close> with the zero value \<open>false\<close> for an absent key.\<close>

definition name_set :: "bool gomap \<Rightarrow> string \<Rightarrow> bool" where
  "name_set m n = (mget m n = Some True)"

fun wait_names :: "bool gomap \<Rightarrow> string list \<Rightarrow> bool gomap" where
  "wait_names m [] = m"
| "wait_names m (n # ns) = wait_names (mput m n True) ns"

definition NewNamedBarrierValue :: "rtype option \<Rightarrow> string list \<Rightarrow> NamedBarrierValue" where
  "NewNamedBarrierValue typ waitFor =
     \<lparr>Key = [], Typ = typ, Version = 0, nb_names = wait_names [] waitFor, nb_seen = []\<rparr>"

definition names_match_seen :: "bool gomap \<Rightarrow> bool gomap \<Rightarrow> bool" where
  "names_match_seen names seen \<longleftrightarrow>
     length names = length seen \<and> list_all (\<lambda>n. name_set seen n) (mkeys names)"

definition NamedBarrierValue_namesMatchSeen :: "NamedBarrierValue \<Rightarrow> bool" where
  "NamedBarrierValue_namesMatchSeen c = names_match_seen (nb_names c) (nb_seen c)"

definition NamedBarrierValue_Get :: "NamedBarrierValue \<Rightarrow> gerror + gvalue" where
  "NamedBarrierValue_Get c =
     (if \<not> NamedBarrierValue_namesMatchSeen c then Inl empty_error else Inr GNil)"

definition NamedBarrierValue_IsAvailable :: "NamedBarrierValue \<Rightarrow> bool" where
  "NamedBarrierValue_IsAvailable c = NamedBarrierValue_namesMatchSeen c"

text \<open>The loop of \<open>Update\<close>, shared by both barrier types: what it returns and the names seen then.\<close>

fun barrier_loop :: "bool gomap \<Rightarrow> bool gomap \<Rightarrow> bool \<Rightarrow> gvalue list \<Rightarrow> bool gomap updated" where
  "barrier_loop names seen updated [] = (Inr updated, seen)"
| "barrier_loop names seen updated (v # vs) =
     (case v of
        GString name \<Rightarrow>
          if mhas names name then
            (if \<not> name_set seen name then barrier_loop names (mput seen name True) True vs
             else barrier_loop names seen updated vs)
          else (Inl (InvalidUpdateError (''value '' @ quoted name @ '' not in expected names ''
                  @ fmt_v (\<lambda>_. []) (GMapBool names))), seen)
      | _ \<Rightarrow> (Inl (InvalidUpdateError (''value must be a string, got '' @ fmt_T v)), seen))"

definition NamedBarrierValue_Update :: "NamedBarrierValue \<Rightarrow> gvalue list \<Rightarrow> NamedBarrierValue updated" where
  "NamedBarrierValue_Update c values =
     (if length values = 0 then (Inr False, c)
      else let (r, seen) = barrier_loop (nb_names c) (nb_seen c) False values in (r, c\<lparr>nb_seen := seen\<rparr>))"

definition NamedBarrierValue_Copy :: "NamedBarrierValue \<Rightarrow> NamedBarrierValue" where
  "NamedBarrierValue_Copy c =
     (NewNamedBarrierValue (Typ c) [])\<lparr>Key := Key c, nb_names := nb_names c, nb_seen := nb_seen c\<rparr>"

definition NamedBarrierValue_Checkpoint :: "NamedBarrierValue \<Rightarrow> gvalue" where
  "NamedBarrierValue_Checkpoint c = (if length (nb_seen c) = 0 then Missing else GMapBool (nb_seen c))"

text \<open>Reading back a set of names, as stored or as JSON gives it back.\<close>

fun bool_entries :: "gvalue gomap \<Rightarrow> bool gomap" where
  "bool_entries [] = []"
| "bool_entries (e # m) = (case snd e of GBool b \<Rightarrow> (fst e, b) # bool_entries m | _ \<Rightarrow> bool_entries m)"

definition seen_of :: "gvalue \<Rightarrow> bool gomap" where
  "seen_of v = (case v of GMapBool m \<Rightarrow> m | GMap m \<Rightarrow> bool_entries m | _ \<Rightarrow> [])"

definition NamedBarrierValue_FromCheckpoint :: "NamedBarrierValue \<Rightarrow> gvalue \<Rightarrow> NamedBarrierValue" where
  "NamedBarrierValue_FromCheckpoint c cp =
     (let n = (NewNamedBarrierValue (Typ c) [])\<lparr>Key := Key c, nb_names := nb_names c\<rparr>
      in if cp \<noteq> GNil \<and> \<not> IsMissing cp then n\<lparr>nb_seen := seen_of cp\<rparr> else n)"

definition NamedBarrierValue_Finish :: "NamedBarrierValue \<Rightarrow> bool \<times> NamedBarrierValue" where
  "NamedBarrierValue_Finish c =
     (if length (nb_seen c) > 0 then (True, c\<lparr>nb_seen := []\<rparr>) else (False, c))"

definition NamedBarrierValue_Consume :: "NamedBarrierValue \<Rightarrow> bool \<times> NamedBarrierValue" where
  "NamedBarrierValue_Consume c =
     (if NamedBarrierValue_namesMatchSeen c \<and> length (nb_seen c) > 0
      then (True, c\<lparr>nb_seen := []\<rparr>) else (False, c))"

section \<open>NamedBarrierValueAfterFinish\<close>

record NamedBarrierValueAfterFinish = BaseChannel +
  nf_names :: "bool gomap"
  nf_seen :: "bool gomap"
  nf_finished :: bool

definition NewNamedBarrierValueAfterFinish :: "rtype option \<Rightarrow> string list \<Rightarrow> NamedBarrierValueAfterFinish" where
  "NewNamedBarrierValueAfterFinish typ waitFor =
     \<lparr>Key = [], Typ = typ, Version = 0, nf_names = wait_names [] waitFor, nf_seen = [], nf_finished = False\<rparr>"

definition NamedBarrierValueAfterFinish_namesMatchSeen :: "NamedBarrierValueAfterFinish \<Rightarrow> bool" where
  "NamedBarrierValueAfterFinish_namesMatchSeen c = names_match_seen (nf_names c) (nf_seen c)"

definition NamedBarrierValueAfterFinish_Get :: "NamedBarrierValueAfterFinish \<Rightarrow> gerror + gvalue" where
  "NamedBarrierValueAfterFinish_Get c =
     (if \<not> nf_finished c \<or> \<not> NamedBarrierValueAfterFinish_namesMatchSeen c then Inl empty_error else Inr GNil)"

definition NamedBarrierValueAfterFinish_IsAvailable :: "NamedBarrierValueAfterFinish \<Rightarrow> bool" where
  "NamedBarrierValueAfterFinish_IsAvailable c =
     (nf_finished c \<and> NamedBarrierValueAfterFinish_namesMatchSeen c)"

definition NamedBarrierValueAfterFinish_Update ::
    "NamedBarrierValueAfterFinish \<Rightarrow> gvalue list \<Rightarrow> NamedBarrierValueAfterFinish updated" where
  "NamedBarrierValueAfterFinish_Update c values =
     (if length values = 0 then (Inr False, c)
      else let (r, seen) = barrier_loop (nf_names c) (nf_seen c) False values in (r, c\<lparr>nf_seen := seen\<rparr>))"

definition NamedBarrierValueAfterFinish_Copy ::
    "NamedBarrierValueAfterFinish \<Rightarrow> NamedBarrierValueAfterFinish" where
  "NamedBarrierValueAfterFinish_Copy c =
     (NewNamedBarrierValueAfterFinish (Typ c) [])
       \<lparr>Key := Key c, nf_names := nf_names c, nf_seen := nf_seen c, nf_finished := nf_finished c\<rparr>"

definition NamedBarrierValueAfterFinish_Checkpoint :: "NamedBarrierValueAfterFinish \<Rightarrow> gvalue" where
  "NamedBarrierValueAfterFinish_Checkpoint c =
     (if length (nf_seen c) = 0 \<and> \<not> nf_finished c then Missing
      else GMap [(''finished'', GBool (nf_finished c)), (''seen'', GMapBool (nf_seen c))])"

definition NamedBarrierValueAfterFinish_FromCheckpoint ::
    "NamedBarrierValueAfterFinish \<Rightarrow> gvalue \<Rightarrow> NamedBarrierValueAfterFinish" where
  "NamedBarrierValueAfterFinish_FromCheckpoint c cp =
     (let n = (NewNamedBarrierValueAfterFinish (Typ c) [])\<lparr>Key := Key c, nf_names := nf_names c\<rparr>
      in case cp of
           GMap m \<Rightarrow>
             let n' = n\<lparr>nf_seen := (case mget m ''seen'' of Some v \<Rightarrow> seen_of v | None \<Rightarrow> [])\<rparr>
             in (case mget m ''finished'' of Some (GBool b) \<Rightarrow> n'\<lparr>nf_finished := b\<rparr> | _ \<Rightarrow> n')
         | _ \<Rightarrow> n)"

definition NamedBarrierValueAfterFinish_Finish ::
    "NamedBarrierValueAfterFinish \<Rightarrow> bool \<times> NamedBarrierValueAfterFinish" where
  "NamedBarrierValueAfterFinish_Finish c =
     (if \<not> nf_finished c \<and> NamedBarrierValueAfterFinish_namesMatchSeen c
      then (True, c\<lparr>nf_finished := True\<rparr>) else (False, c))"

definition NamedBarrierValueAfterFinish_Consume ::
    "NamedBarrierValueAfterFinish \<Rightarrow> bool \<times> NamedBarrierValueAfterFinish" where
  "NamedBarrierValueAfterFinish_Consume c =
     (if nf_finished c \<and> NamedBarrierValueAfterFinish_namesMatchSeen c \<and> length (nf_seen c) > 0
      then (True, c\<lparr>nf_finished := False, nf_seen := []\<rparr>) else (False, c))"

section \<open>LastValueAfterFinish\<close>

record LastValueAfterFinish = BaseChannel +
  lf_value :: gvalue
  lf_finished :: bool

definition NewLastValueAfterFinish :: "rtype option \<Rightarrow> LastValueAfterFinish" where
  "NewLastValueAfterFinish typ = \<lparr>Key = [], Typ = typ, Version = 0, lf_value = Missing, lf_finished = False\<rparr>"

definition LastValueAfterFinish_Get :: "LastValueAfterFinish \<Rightarrow> gerror + gvalue" where
  "LastValueAfterFinish_Get c =
     (if \<not> lf_finished c then Inl empty_error
      else if IsMissing (lf_value c) then Inl empty_error
      else Inr (lf_value c))"

definition LastValueAfterFinish_IsAvailable :: "LastValueAfterFinish \<Rightarrow> bool" where
  "LastValueAfterFinish_IsAvailable c = (lf_finished c \<and> \<not> IsMissing (lf_value c))"

definition LastValueAfterFinish_Update ::
    "LastValueAfterFinish \<Rightarrow> gvalue list \<Rightarrow> LastValueAfterFinish updated" where
  "LastValueAfterFinish_Update c values =
     (if length values = 0 then (Inr False, c)
      else if length values > 1 then
        (Inl (InvalidUpdateError
           ''Can receive only one value per step. Use a reducer to handle multiple values.''), c)
      else (Inr True, c\<lparr>lf_value := hd values\<rparr>))"

definition LastValueAfterFinish_Copy :: "LastValueAfterFinish \<Rightarrow> LastValueAfterFinish" where
  "LastValueAfterFinish_Copy c =
     (NewLastValueAfterFinish (Typ c))\<lparr>Key := Key c, lf_value := lf_value c, lf_finished := lf_finished c\<rparr>"

definition LastValueAfterFinish_Checkpoint :: "LastValueAfterFinish \<Rightarrow> gvalue" where
  "LastValueAfterFinish_Checkpoint c = lf_value c"

definition LastValueAfterFinish_FromCheckpoint :: "LastValueAfterFinish \<Rightarrow> gvalue \<Rightarrow> LastValueAfterFinish" where
  "LastValueAfterFinish_FromCheckpoint c cp =
     (let n = (NewLastValueAfterFinish (Typ c))\<lparr>Key := Key c\<rparr>
      in if \<not> IsMissing cp then n\<lparr>lf_value := cp\<rparr> else n)"

definition LastValueAfterFinish_Finish :: "LastValueAfterFinish \<Rightarrow> bool \<times> LastValueAfterFinish" where
  "LastValueAfterFinish_Finish c = (if \<not> lf_finished c then (True, c\<lparr>lf_finished := True\<rparr>) else (False, c))"

definition LastValueAfterFinish_Consume :: "LastValueAfterFinish \<Rightarrow> bool \<times> LastValueAfterFinish" where
  "LastValueAfterFinish_Consume c = (False, c)"

section \<open>Lemmas\<close>

text \<open>Both maps of a barrier are well-formed and only expected names have been seen, all of them \<open>true\<close>.\<close>

definition barrier_inv :: "bool gomap \<Rightarrow> bool gomap \<Rightarrow> bool" where
  "barrier_inv names seen \<longleftrightarrow> mwf names \<and> mwf seen \<and> set (mkeys seen) \<subseteq> set (mkeys names) \<and>
     (\<forall>e\<in>set seen. snd e)"

lemma mwf_wait_names: "mwf m \<Longrightarrow> mwf (wait_names m ns)"
  by (induction ns arbitrary: m) auto

lemma keys_wait_names: "set (mkeys (wait_names m ns)) = set (mkeys m) \<union> set ns"
  by (induction ns arbitrary: m) (auto simp: mkeys_def simp del: set_map)

lemma set_mput_subset: "set (mput m k v) \<subseteq> insert (k, v) (set m)"
  by (induction m) auto

lemma barrier_inv_mput:
  assumes "barrier_inv names seen" and "mhas names n"
  shows "barrier_inv names (mput seen n True)"
  using assms set_mput_subset [of seen n True]
  by (auto simp: barrier_inv_def mkeys_def mhas_def simp del: set_map)

lemma barrier_inv_loop:
  "barrier_inv names seen \<Longrightarrow> barrier_inv names (snd (barrier_loop names seen u vs))"
  by (induction names seen u vs rule: barrier_loop.induct)
    (auto split: gvalue.splits intro: barrier_inv_mput)

text \<open>Under the invariant the test of the source is: every expected name has been seen.\<close>

lemma names_match_seen_iff:
  assumes inv: "barrier_inv names seen"
  shows "names_match_seen names seen \<longleftrightarrow> set (mkeys names) = set (mkeys seen)"
proof -
  have d: "distinct (map fst names)" "distinct (map fst seen)"
    using inv by (auto simp: barrier_inv_def mwf_distinct)
  have seen: "name_set seen n \<longleftrightarrow> n \<in> set (mkeys seen)" for n
    using inv unfolding name_set_def barrier_inv_def
    by (auto simp: mget_mem mkeys_def) force
  have sub: "set (mkeys seen) \<subseteq> set (mkeys names)" using inv by (simp add: barrier_inv_def)
  have "length names = card (set (mkeys names))" "length seen = card (set (mkeys seen))"
    using d by (metis distinct_card length_map mkeys_def)+
  then show ?thesis
    using sub by (auto simp: names_match_seen_def list_all_iff seen)
qed

text \<open>A step that succeeds has seen exactly its names on top of those seen before.\<close>

lemma barrier_loop_seen:
  "barrier_loop names seen u vs = (Inr r, seen') \<Longrightarrow>
     set (mkeys seen') = set (mkeys seen) \<union> {n. GString n \<in> set vs} \<and> (\<forall>v\<in>set vs. \<exists>n. v = GString n \<and> mhas names n)"
proof (induction names seen u vs rule: barrier_loop.induct)
  case (1 names seen updated)
  then show ?case by auto
next
  case (2 names seen updated v vs)
  show ?case
  proof (cases v)
    case (GString n)
    then have n: "mhas names n" using "2.prems" by (auto split: if_splits)
    have "name_set seen n \<Longrightarrow> n \<in> set (mkeys seen)"
      by (auto simp: name_set_def mkeys_def dest!: mget_SomeD) force
    moreover have "set (mkeys (mput seen n True)) = insert n (set (mkeys seen))"
      by (simp add: mkeys_def del: set_map)
    ultimately show ?thesis
      using 2 GString n by (cases "name_set seen n") auto
  qed (use "2.prems" in auto)
qed

end
