(* ===== verification/Channel.thy ===== *)
theory Channel
  imports Aggregates Barriers
begin

text \<open>
  The interface \<open>Channel\<close> of \<open>channels/base.go\<close>: the sum of the channel types with its methods,
  dispatched on the dynamic type, and \<open>ReducerChannel\<close> and \<open>CreateReducerChannel\<close> of
  \<open>channels/reducer.go\<close>.  \<open>Get\<close> returns the channel too, because reading an \<open>EphemeralValue\<close>
  clears it.  The contract of the interface is the locale \<open>channel_impl\<close>; \<open>persistent_channel\<close>
  extends it with the law that a restored channel reads like the saved one.  Both are
  interpreted for every channel type that satisfies them, and for the sum.
\<close>

section \<open>Channels and their methods\<close>

datatype channel =
    CLastValue LastValue
  | CAnyValue AnyValue
  | CEphemeral EphemeralValue
  | CUntracked UntrackedValue
  | CTopic Topic
  | CBinop BinaryOperatorAggregate
  | CBarrier NamedBarrierValue
  | CBarrierFin NamedBarrierValueAfterFinish
  | CLastFin LastValueAfterFinish
  | CReducer channel ReducerFunc

fun Channel_GetKey :: "channel \<Rightarrow> string" where
  "Channel_GetKey (CLastValue c) = BaseChannel_GetKey c"
| "Channel_GetKey (CAnyValue c) = BaseChannel_GetKey c"
| "Channel_GetKey (CEphemeral c) = BaseChannel_GetKey c"
| "Channel_GetKey (CUntracked c) = BaseChannel_GetKey c"
| "Channel_GetKey (CTopic c) = BaseChannel_GetKey c"
| "Channel_GetKey (CBinop c) = BaseChannel_GetKey c"
| "Channel_GetKey (CBarrier c) = BaseChannel_GetKey c"
| "Channel_GetKey (CBarrierFin c) = BaseChannel_GetKey c"
| "Channel_GetKey (CLastFin c) = BaseChannel_GetKey c"
| "Channel_GetKey (CReducer ch red) = Channel_GetKey ch"

fun Channel_SetKey :: "channel \<Rightarrow> string \<Rightarrow> channel" where
  "Channel_SetKey (CLastValue c) k = CLastValue (BaseChannel_SetKey c k)"
| "Channel_SetKey (CAnyValue c) k = CAnyValue (BaseChannel_SetKey c k)"
| "Channel_SetKey (CEphemeral c) k = CEphemeral (BaseChannel_SetKey c k)"
| "Channel_SetKey (CUntracked c) k = CUntracked (BaseChannel_SetKey c k)"
| "Channel_SetKey (CTopic c) k = CTopic (BaseChannel_SetKey c k)"
| "Channel_SetKey (CBinop c) k = CBinop (BaseChannel_SetKey c k)"
| "Channel_SetKey (CBarrier c) k = CBarrier (BaseChannel_SetKey c k)"
| "Channel_SetKey (CBarrierFin c) k = CBarrierFin (BaseChannel_SetKey c k)"
| "Channel_SetKey (CLastFin c) k = CLastFin (BaseChannel_SetKey c k)"
| "Channel_SetKey (CReducer ch red) k = CReducer (Channel_SetKey ch k) red"

fun Channel_GetVersion :: "channel \<Rightarrow> goint" where
  "Channel_GetVersion (CLastValue c) = BaseChannel_GetVersion c"
| "Channel_GetVersion (CAnyValue c) = BaseChannel_GetVersion c"
| "Channel_GetVersion (CEphemeral c) = BaseChannel_GetVersion c"
| "Channel_GetVersion (CUntracked c) = BaseChannel_GetVersion c"
| "Channel_GetVersion (CTopic c) = BaseChannel_GetVersion c"
| "Channel_GetVersion (CBinop c) = BaseChannel_GetVersion c"
| "Channel_GetVersion (CBarrier c) = BaseChannel_GetVersion c"
| "Channel_GetVersion (CBarrierFin c) = BaseChannel_GetVersion c"
| "Channel_GetVersion (CLastFin c) = BaseChannel_GetVersion c"
| "Channel_GetVersion (CReducer ch red) = Channel_GetVersion ch"

text \<open>
  \<open>SetVersion\<close> is not a method of the interface: the engine reaches it by a type assertion, which
  fails for a \<open>ReducerChannel\<close>, whose embedded interface does not promote it.
\<close>

fun Channel_SetVersion :: "channel \<Rightarrow> goint \<Rightarrow> channel" where
  "Channel_SetVersion (CLastValue c) v = CLastValue (BaseChannel_SetVersion c v)"
| "Channel_SetVersion (CAnyValue c) v = CAnyValue (BaseChannel_SetVersion c v)"
| "Channel_SetVersion (CEphemeral c) v = CEphemeral (BaseChannel_SetVersion c v)"
| "Channel_SetVersion (CUntracked c) v = CUntracked (BaseChannel_SetVersion c v)"
| "Channel_SetVersion (CTopic c) v = CTopic (BaseChannel_SetVersion c v)"
| "Channel_SetVersion (CBinop c) v = CBinop (BaseChannel_SetVersion c v)"
| "Channel_SetVersion (CBarrier c) v = CBarrier (BaseChannel_SetVersion c v)"
| "Channel_SetVersion (CBarrierFin c) v = CBarrierFin (BaseChannel_SetVersion c v)"
| "Channel_SetVersion (CLastFin c) v = CLastFin (BaseChannel_SetVersion c v)"
| "Channel_SetVersion (CReducer ch red) v = CReducer ch red"

fun Channel_Get :: "channel \<Rightarrow> (gerror + gvalue) \<times> channel" where
  "Channel_Get (CLastValue c) = (LastValue_Get c, CLastValue c)"
| "Channel_Get (CAnyValue c) = (AnyValue_Get c, CAnyValue c)"
| "Channel_Get (CEphemeral c) = (let (r, c') = EphemeralValue_Get c in (r, CEphemeral c'))"
| "Channel_Get (CUntracked c) = (UntrackedValue_Get c, CUntracked c)"
| "Channel_Get (CTopic c) = (Topic_Get c, CTopic c)"
| "Channel_Get (CBinop c) = (BinaryOperatorAggregate_Get c, CBinop c)"
| "Channel_Get (CBarrier c) = (NamedBarrierValue_Get c, CBarrier c)"
| "Channel_Get (CBarrierFin c) = (NamedBarrierValueAfterFinish_Get c, CBarrierFin c)"
| "Channel_Get (CLastFin c) = (LastValueAfterFinish_Get c, CLastFin c)"
| "Channel_Get (CReducer ch red) = (let (r, ch') = Channel_Get ch in (r, CReducer ch' red))"

fun Channel_IsAvailable :: "channel \<Rightarrow> bool" where
  "Channel_IsAvailable (CLastValue c) = LastValue_IsAvailable c"
| "Channel_IsAvailable (CAnyValue c) = AnyValue_IsAvailable c"
| "Channel_IsAvailable (CEphemeral c) = EphemeralValue_IsAvailable c"
| "Channel_IsAvailable (CUntracked c) = UntrackedValue_IsAvailable c"
| "Channel_IsAvailable (CTopic c) = Topic_IsAvailable c"
| "Channel_IsAvailable (CBinop c) = BinaryOperatorAggregate_IsAvailable c"
| "Channel_IsAvailable (CBarrier c) = NamedBarrierValue_IsAvailable c"
| "Channel_IsAvailable (CBarrierFin c) = NamedBarrierValueAfterFinish_IsAvailable c"
| "Channel_IsAvailable (CLastFin c) = LastValueAfterFinish_IsAvailable c"
| "Channel_IsAvailable (CReducer ch red) = Channel_IsAvailable ch"

fun reducer_depth :: "channel \<Rightarrow> nat" where
  "reducer_depth (CReducer ch red) = Suc (reducer_depth ch)"
| "reducer_depth _ = 0"

lemma reducer_depth_Get [simp]: "reducer_depth (snd (Channel_Get ch)) = reducer_depth ch"
  by (induction ch) (auto split: prod.splits)

text \<open>What \<open>ReducerChannel.Update\<close> writes to the wrapped channel.\<close>

definition reduce_step :: "ReducerFunc \<Rightarrow> gerror + gvalue \<Rightarrow> gvalue list \<Rightarrow> gvalue" where
  "reduce_step red current values =
     (let first = (case current of Inr cur \<Rightarrow> red cur (hd values) | Inl e \<Rightarrow> hd values)
      in foldl red first (tl values))"

function Channel_Update :: "channel \<Rightarrow> gvalue list \<Rightarrow> channel updated" where
  "Channel_Update (CLastValue c) vs = map_prod id CLastValue (LastValue_Update c vs)"
| "Channel_Update (CAnyValue c) vs = map_prod id CAnyValue (AnyValue_Update c vs)"
| "Channel_Update (CEphemeral c) vs = map_prod id CEphemeral (EphemeralValue_Update c vs)"
| "Channel_Update (CUntracked c) vs = map_prod id CUntracked (UntrackedValue_Update c vs)"
| "Channel_Update (CTopic c) vs = map_prod id CTopic (Topic_Update c vs)"
| "Channel_Update (CBinop c) vs = map_prod id CBinop (BinaryOperatorAggregate_Update c vs)"
| "Channel_Update (CBarrier c) vs = map_prod id CBarrier (NamedBarrierValue_Update c vs)"
| "Channel_Update (CBarrierFin c) vs = map_prod id CBarrierFin (NamedBarrierValueAfterFinish_Update c vs)"
| "Channel_Update (CLastFin c) vs = map_prod id CLastFin (LastValueAfterFinish_Update c vs)"
| "Channel_Update (CReducer ch red) vs =
     (if length vs = 0 then (Inr False, CReducer ch red)
      else let g = Channel_Get ch;
               u = Channel_Update (snd g) [reduce_step red (fst g) vs]
           in (fst u, CReducer (snd u) red))"
  by pat_completeness auto
termination
  by (relation "measure (\<lambda>(ch, vs). reducer_depth ch)") auto

fun Channel_Copy :: "channel \<Rightarrow> channel" where
  "Channel_Copy (CLastValue c) = CLastValue (LastValue_Copy c)"
| "Channel_Copy (CAnyValue c) = CAnyValue (AnyValue_Copy c)"
| "Channel_Copy (CEphemeral c) = CEphemeral (EphemeralValue_Copy c)"
| "Channel_Copy (CUntracked c) = CUntracked (UntrackedValue_Copy c)"
| "Channel_Copy (CTopic c) = CTopic (Topic_Copy c)"
| "Channel_Copy (CBinop c) = CBinop (BinaryOperatorAggregate_Copy c)"
| "Channel_Copy (CBarrier c) = CBarrier (NamedBarrierValue_Copy c)"
| "Channel_Copy (CBarrierFin c) = CBarrierFin (NamedBarrierValueAfterFinish_Copy c)"
| "Channel_Copy (CLastFin c) = CLastFin (LastValueAfterFinish_Copy c)"
| "Channel_Copy (CReducer ch red) = CReducer (Channel_Copy ch) red"

fun Channel_Checkpoint :: "channel \<Rightarrow> gvalue" where
  "Channel_Checkpoint (CLastValue c) = LastValue_Checkpoint c"
| "Channel_Checkpoint (CAnyValue c) = AnyValue_Checkpoint c"
| "Channel_Checkpoint (CEphemeral c) = EphemeralValue_Checkpoint c"
| "Channel_Checkpoint (CUntracked c) = UntrackedValue_Checkpoint c"
| "Channel_Checkpoint (CTopic c) = Topic_Checkpoint c"
| "Channel_Checkpoint (CBinop c) = BinaryOperatorAggregate_Checkpoint c"
| "Channel_Checkpoint (CBarrier c) = NamedBarrierValue_Checkpoint c"
| "Channel_Checkpoint (CBarrierFin c) = NamedBarrierValueAfterFinish_Checkpoint c"
| "Channel_Checkpoint (CLastFin c) = LastValueAfterFinish_Checkpoint c"
| "Channel_Checkpoint (CReducer ch red) = Channel_Checkpoint ch"

fun Channel_FromCheckpoint :: "channel \<Rightarrow> gvalue \<Rightarrow> channel" where
  "Channel_FromCheckpoint (CLastValue c) cp = CLastValue (LastValue_FromCheckpoint c cp)"
| "Channel_FromCheckpoint (CAnyValue c) cp = CAnyValue (AnyValue_FromCheckpoint c cp)"
| "Channel_FromCheckpoint (CEphemeral c) cp = CEphemeral (EphemeralValue_FromCheckpoint c cp)"
| "Channel_FromCheckpoint (CUntracked c) cp = CUntracked (UntrackedValue_FromCheckpoint c cp)"
| "Channel_FromCheckpoint (CTopic c) cp = CTopic (Topic_FromCheckpoint c cp)"
| "Channel_FromCheckpoint (CBinop c) cp = CBinop (BinaryOperatorAggregate_FromCheckpoint c cp)"
| "Channel_FromCheckpoint (CBarrier c) cp = CBarrier (NamedBarrierValue_FromCheckpoint c cp)"
| "Channel_FromCheckpoint (CBarrierFin c) cp = CBarrierFin (NamedBarrierValueAfterFinish_FromCheckpoint c cp)"
| "Channel_FromCheckpoint (CLastFin c) cp = CLastFin (LastValueAfterFinish_FromCheckpoint c cp)"
| "Channel_FromCheckpoint (CReducer ch red) cp = CReducer (Channel_FromCheckpoint ch cp) red"

fun Channel_Consume :: "channel \<Rightarrow> bool \<times> channel" where
  "Channel_Consume (CBarrier c) = map_prod id CBarrier (NamedBarrierValue_Consume c)"
| "Channel_Consume (CBarrierFin c) = map_prod id CBarrierFin (NamedBarrierValueAfterFinish_Consume c)"
| "Channel_Consume (CLastFin c) = map_prod id CLastFin (LastValueAfterFinish_Consume c)"
| "Channel_Consume (CReducer ch red) = map_prod id (\<lambda>ch'. CReducer ch' red) (Channel_Consume ch)"
| "Channel_Consume ch = BaseChannel_Consume ch"

fun Channel_Finish :: "channel \<Rightarrow> bool \<times> channel" where
  "Channel_Finish (CBarrier c) = map_prod id CBarrier (NamedBarrierValue_Finish c)"
| "Channel_Finish (CBarrierFin c) = map_prod id CBarrierFin (NamedBarrierValueAfterFinish_Finish c)"
| "Channel_Finish (CLastFin c) = map_prod id CLastFin (LastValueAfterFinish_Finish c)"
| "Channel_Finish (CReducer ch red) = map_prod id (\<lambda>ch'. CReducer ch' red) (Channel_Finish ch)"
| "Channel_Finish ch = BaseChannel_Finish ch"

section \<open>Channels from field types\<close>

definition NewReducerChannel :: "channel \<Rightarrow> ReducerFunc \<Rightarrow> channel" where
  "NewReducerChannel ch red = CReducer ch red"

text \<open>
  The dynamic type of a \<open>reflect.Type\<close>, which \<open>CreateReducerChannel\<close> passes as \<open>typ\<close> for slices,
  arrays, maps and the default case.
\<close>

definition reflect_Type :: rtype where
  "reflect_Type = RPtr (RStruct ''reflect.rtype'' [(''t'', False, RStruct ''abi.Type'' [])])"

definition CreateReducerChannel :: "string \<Rightarrow> rtype \<Rightarrow> ReducerFunc option \<Rightarrow> channel" where
  "CreateReducerChannel fieldName fieldType reducer =
     (let ch = (case fieldType of
           RSlice t \<Rightarrow> CBinop (NewBinaryOperatorAggregate (Some reflect_Type) ListAppend)
         | RArray n t \<Rightarrow> CBinop (NewBinaryOperatorAggregate (Some reflect_Type) ListAppend)
         | RMap k v \<Rightarrow> CBinop (NewBinaryOperatorAggregate (Some reflect_Type) mapMerge)
         | RInt \<Rightarrow> CBinop (NewBinaryOperatorAggregate (TypeOf (zero_value fieldType)) IntAdd)
         | RFloat64 \<Rightarrow> CBinop (NewBinaryOperatorAggregate (TypeOf (zero_value fieldType)) IntAdd)
         | RNum n \<Rightarrow> CBinop (NewBinaryOperatorAggregate (TypeOf (zero_value fieldType)) IntAdd)
         | _ \<Rightarrow> CLastValue (NewLastValue (Some reflect_Type)));
          keyed = Channel_SetKey ch fieldName
      in case reducer of Some red \<Rightarrow> NewReducerChannel keyed red | None \<Rightarrow> keyed)"

section \<open>The contract of a channel\<close>

locale channel_impl =
  fixes get :: "'c \<Rightarrow> (gerror + gvalue) \<times> 'c"
    and available :: "'c \<Rightarrow> bool"
    and copy :: "'c \<Rightarrow> 'c"
    and ckpt :: "'c \<Rightarrow> gvalue"
    and restore :: "'c \<Rightarrow> gvalue \<Rightarrow> 'c"
    and same :: "'c \<Rightarrow> 'c \<Rightarrow> bool"
  assumes get_error: "fst (get c) = Inl e \<Longrightarrow> e = empty_error"
    and get_available: "available c \<Longrightarrow> \<exists>v. fst (get c) = Inr v"
    and ckpt_copy: "ckpt (copy c) = ckpt c"
    and ckpt_restore: "same c d \<Longrightarrow> ckpt d \<noteq> GMissing \<Longrightarrow> ckpt (restore c (ckpt d)) = ckpt d"
    and same_restore: "same c d \<Longrightarrow> same (restore c cp) d"
begin

text \<open>\<open>n\<close> times: restore \<open>c\<close> from the checkpoint of \<open>d\<close>.\<close>

primrec cycles :: "nat \<Rightarrow> 'c \<Rightarrow> 'c \<Rightarrow> 'c" where
  "cycles 0 c d = restore c (ckpt d)"
| "cycles (Suc n) c d = restore (cycles n c d) (ckpt (cycles n c d))"

lemma cycles_saved: "same c d \<Longrightarrow> ckpt d \<noteq> GMissing \<Longrightarrow> same (cycles n c d) d \<and> ckpt (cycles n c d) = ckpt d"
  by (induction n) (auto simp: ckpt_restore same_restore)

lemma get_never_other_error: "\<not> (\<exists>e. fst (get c) = Inl e \<and> \<not> IsEmptyChannelError e)"
  by (auto dest: get_error simp: empty_error_def)

end

locale persistent_channel = channel_impl +
  assumes get_restore: "same c d \<Longrightarrow> ckpt d \<noteq> GMissing \<Longrightarrow> fst (get (restore c (ckpt d))) = fst (get d)"
    and available_restore: "same c d \<Longrightarrow> ckpt d \<noteq> GMissing \<Longrightarrow> available (restore c (ckpt d)) = available d"
begin

text \<open>A channel survives any number of save and restore cycles.\<close>

lemma cycles_get: "same c d \<Longrightarrow> ckpt d \<noteq> GMissing \<Longrightarrow> fst (get (cycles n c d)) = fst (get d)"
  by (cases n) (auto simp: get_restore cycles_saved)

end

end
