(* ===== verification/ChannelLaws.thy ===== *)
theory ChannelLaws
  imports Channel
begin

text \<open>
  The channel types satisfy the contract of the interface: an interpretation of \<open>channel_impl\<close> or
  \<open>persistent_channel\<close> per type and one for the sum.  \<open>UntrackedValue\<close> (by design) and
  \<open>LastValueAfterFinish\<close> are not persistent.
\<close>

lemmas last_value_defs [go_defs] =
  LastValue_Get_def LastValue_IsAvailable_def LastValue_Copy_def LastValue_Checkpoint_def
  LastValue_FromCheckpoint_def NewLastValue_def Missing_def Let_def
lemmas any_value_defs [go_defs] =
  AnyValue_Get_def AnyValue_IsAvailable_def AnyValue_Copy_def AnyValue_Checkpoint_def
  AnyValue_FromCheckpoint_def NewAnyValue_def Missing_def Let_def
lemmas ephemeral_defs [go_defs] =
  EphemeralValue_Get_def EphemeralValue_IsAvailable_def EphemeralValue_Copy_def EphemeralValue_Checkpoint_def
  EphemeralValue_FromCheckpoint_def NewEphemeralValue_def Missing_def Let_def
lemmas untracked_defs [go_defs] =
  UntrackedValue_Get_def UntrackedValue_IsAvailable_def UntrackedValue_Copy_def UntrackedValue_Checkpoint_def
  UntrackedValue_FromCheckpoint_def NewUntrackedValue_def Missing_def Let_def
lemmas topic_defs [go_defs] =
  Topic_Get_def Topic_IsAvailable_def Topic_Copy_def Topic_Checkpoint_def
  Topic_FromCheckpoint_def NewTopic_def Missing_def Let_def
lemmas binop_defs [go_defs] =
  BinaryOperatorAggregate_Get_def BinaryOperatorAggregate_IsAvailable_def BinaryOperatorAggregate_Copy_def
  BinaryOperatorAggregate_Checkpoint_def BinaryOperatorAggregate_FromCheckpoint_def
  NewBinaryOperatorAggregate_def Missing_def Let_def
lemmas barrier_defs [go_defs] =
  NamedBarrierValue_Get_def NamedBarrierValue_IsAvailable_def NamedBarrierValue_namesMatchSeen_def
  NamedBarrierValue_Copy_def NamedBarrierValue_Checkpoint_def
  NamedBarrierValue_FromCheckpoint_def NewNamedBarrierValue_def seen_of_def Missing_def Let_def
lemmas barrier_fin_defs [go_defs] =
  NamedBarrierValueAfterFinish_Get_def NamedBarrierValueAfterFinish_IsAvailable_def
  NamedBarrierValueAfterFinish_namesMatchSeen_def NamedBarrierValueAfterFinish_Copy_def
  NamedBarrierValueAfterFinish_Checkpoint_def NamedBarrierValueAfterFinish_FromCheckpoint_def
  NewNamedBarrierValueAfterFinish_def seen_of_def Missing_def Let_def mget_Cons
lemmas last_fin_defs [go_defs] =
  LastValueAfterFinish_Get_def LastValueAfterFinish_IsAvailable_def LastValueAfterFinish_Copy_def
  LastValueAfterFinish_Checkpoint_def LastValueAfterFinish_FromCheckpoint_def
  NewLastValueAfterFinish_def Missing_def Let_def

interpretation last_value: persistent_channel
  "\<lambda>c. (LastValue_Get c, c)" LastValue_IsAvailable LastValue_Copy LastValue_Checkpoint
  LastValue_FromCheckpoint "\<lambda>c d. True"
  by unfold_locales (auto simp: last_value_defs split: if_splits)

interpretation any_value: persistent_channel
  "\<lambda>c. (AnyValue_Get c, c)" AnyValue_IsAvailable AnyValue_Copy AnyValue_Checkpoint
  AnyValue_FromCheckpoint "\<lambda>c d. True"
  by unfold_locales (auto simp: any_value_defs split: if_splits)

interpretation ephemeral_value: persistent_channel
  EphemeralValue_Get EphemeralValue_IsAvailable EphemeralValue_Copy EphemeralValue_Checkpoint
  EphemeralValue_FromCheckpoint "\<lambda>c d. True"
  by unfold_locales (auto simp: ephemeral_defs split: if_splits)

interpretation untracked_value: channel_impl
  "\<lambda>c. (UntrackedValue_Get c, c)" UntrackedValue_IsAvailable UntrackedValue_Copy UntrackedValue_Checkpoint
  UntrackedValue_FromCheckpoint "\<lambda>c d. True"
  by unfold_locales (auto simp: untracked_defs split: if_splits)

interpretation topic: persistent_channel
  "\<lambda>c. (Topic_Get c, c)" Topic_IsAvailable Topic_Copy Topic_Checkpoint
  Topic_FromCheckpoint "\<lambda>c d. True"
  by unfold_locales (auto simp: topic_defs split: if_splits)

interpretation binop: persistent_channel
  "\<lambda>c. (BinaryOperatorAggregate_Get c, c)" BinaryOperatorAggregate_IsAvailable BinaryOperatorAggregate_Copy
  BinaryOperatorAggregate_Checkpoint BinaryOperatorAggregate_FromCheckpoint "\<lambda>c d. True"
  by unfold_locales (auto simp: binop_defs split: if_splits)

interpretation barrier: persistent_channel
  "\<lambda>c. (NamedBarrierValue_Get c, c)" NamedBarrierValue_IsAvailable NamedBarrierValue_Copy
  NamedBarrierValue_Checkpoint NamedBarrierValue_FromCheckpoint "\<lambda>c d. nb_names c = nb_names d"
  by unfold_locales (auto simp: barrier_defs split: if_splits)

interpretation barrier_fin: persistent_channel
  "\<lambda>c. (NamedBarrierValueAfterFinish_Get c, c)" NamedBarrierValueAfterFinish_IsAvailable
  NamedBarrierValueAfterFinish_Copy NamedBarrierValueAfterFinish_Checkpoint
  NamedBarrierValueAfterFinish_FromCheckpoint "\<lambda>c d. nf_names c = nf_names d"
  by unfold_locales
    (auto simp: barrier_fin_defs split: if_splits gvalue.splits option.splits)

interpretation last_fin: channel_impl
  "\<lambda>c. (LastValueAfterFinish_Get c, c)" LastValueAfterFinish_IsAvailable LastValueAfterFinish_Copy
  LastValueAfterFinish_Checkpoint LastValueAfterFinish_FromCheckpoint "\<lambda>c d. True"
  by unfold_locales (auto simp: last_fin_defs split: if_splits)

section \<open>The sum\<close>

text \<open>Two channels of the same type and configuration, as a graph's channel and its copies are.\<close>

primrec same_kind :: "channel \<Rightarrow> channel \<Rightarrow> bool" where
  "same_kind (CLastValue c) d = (case d of CLastValue _ \<Rightarrow> True | _ \<Rightarrow> False)"
| "same_kind (CAnyValue c) d = (case d of CAnyValue _ \<Rightarrow> True | _ \<Rightarrow> False)"
| "same_kind (CEphemeral c) d = (case d of CEphemeral _ \<Rightarrow> True | _ \<Rightarrow> False)"
| "same_kind (CUntracked c) d = (case d of CUntracked _ \<Rightarrow> True | _ \<Rightarrow> False)"
| "same_kind (CTopic c) d = (case d of CTopic _ \<Rightarrow> True | _ \<Rightarrow> False)"
| "same_kind (CBinop c) d = (case d of CBinop _ \<Rightarrow> True | _ \<Rightarrow> False)"
| "same_kind (CBarrier c) d = (case d of CBarrier e \<Rightarrow> nb_names c = nb_names e | _ \<Rightarrow> False)"
| "same_kind (CBarrierFin c) d = (case d of CBarrierFin e \<Rightarrow> nf_names c = nf_names e | _ \<Rightarrow> False)"
| "same_kind (CLastFin c) d = (case d of CLastFin _ \<Rightarrow> True | _ \<Rightarrow> False)"
| "same_kind (CReducer c r) d = (case d of CReducer e _ \<Rightarrow> same_kind c e | _ \<Rightarrow> False)"

fun persistent :: "channel \<Rightarrow> bool" where
  "persistent (CUntracked c) = False"
| "persistent (CLastFin c) = False"
| "persistent (CReducer ch red) = persistent ch"
| "persistent _ = True"

lemmas get_errors =
  last_value.get_error [simplified] any_value.get_error [simplified] ephemeral_value.get_error
  untracked_value.get_error [simplified] topic.get_error [simplified] binop.get_error [simplified]
  barrier.get_error [simplified] barrier_fin.get_error [simplified] last_fin.get_error [simplified]

lemma Channel_get_error: "fst (Channel_Get c) = Inl e \<Longrightarrow> e = empty_error"
  by (induction c)
    (auto simp: case_prod_beta dest: get_errors)

lemma Channel_get_available: "Channel_IsAvailable c \<Longrightarrow> \<exists>v. fst (Channel_Get c) = Inr v"
  by (induction c)
    (auto simp: case_prod_beta dest: last_value.get_available any_value.get_available
      ephemeral_value.get_available untracked_value.get_available topic.get_available binop.get_available
      barrier.get_available barrier_fin.get_available last_fin.get_available)

lemma Channel_ckpt_copy: "Channel_Checkpoint (Channel_Copy c) = Channel_Checkpoint c"
  by (induction c)
    (auto simp: last_value.ckpt_copy any_value.ckpt_copy ephemeral_value.ckpt_copy untracked_value.ckpt_copy
      topic.ckpt_copy binop.ckpt_copy barrier.ckpt_copy barrier_fin.ckpt_copy last_fin.ckpt_copy)

lemma Channel_ckpt_restore:
  "same_kind c d \<Longrightarrow> Channel_Checkpoint d \<noteq> GMissing \<Longrightarrow>
   Channel_Checkpoint (Channel_FromCheckpoint c (Channel_Checkpoint d)) = Channel_Checkpoint d"
  by (induction c arbitrary: d)
    (auto split: channel.splits simp: last_value.ckpt_restore any_value.ckpt_restore ephemeral_value.ckpt_restore
      untracked_value.ckpt_restore topic.ckpt_restore binop.ckpt_restore barrier.ckpt_restore
      barrier_fin.ckpt_restore last_fin.ckpt_restore)

lemma same_kind_restore: "same_kind c d \<Longrightarrow> same_kind (Channel_FromCheckpoint c cp) d"
  by (induction c arbitrary: d)
    (auto split: channel.splits simp: barrier.same_restore barrier_fin.same_restore)

lemma same_kind_copy: "same_kind (Channel_Copy c) c"
  by (induction c) (auto simp: NamedBarrierValue_Copy_def NamedBarrierValueAfterFinish_Copy_def)

lemma same_kind_persistent: "same_kind c d \<Longrightarrow> persistent c = persistent d"
  by (induction c arbitrary: d) (auto split: channel.splits)

interpretation chan_impl: channel_impl
  Channel_Get Channel_IsAvailable Channel_Copy Channel_Checkpoint Channel_FromCheckpoint same_kind
  by unfold_locales
    (auto dest: Channel_get_error Channel_get_available
      simp: Channel_ckpt_copy Channel_ckpt_restore same_kind_restore)

lemma Channel_get_restore:
  "same_kind c d \<Longrightarrow> persistent d \<Longrightarrow> Channel_Checkpoint d \<noteq> GMissing \<Longrightarrow>
   fst (Channel_Get (Channel_FromCheckpoint c (Channel_Checkpoint d))) = fst (Channel_Get d)"
  by (induction c arbitrary: d)
    (auto split: channel.splits simp: case_prod_beta last_value.get_restore [simplified] any_value.get_restore [simplified]
      ephemeral_value.get_restore topic.get_restore [simplified] binop.get_restore [simplified]
      barrier.get_restore [simplified] barrier_fin.get_restore [simplified])

lemma Channel_available_restore:
  "same_kind c d \<Longrightarrow> persistent d \<Longrightarrow> Channel_Checkpoint d \<noteq> GMissing \<Longrightarrow>
   Channel_IsAvailable (Channel_FromCheckpoint c (Channel_Checkpoint d)) = Channel_IsAvailable d"
  by (induction c arbitrary: d)
    (auto split: channel.splits simp: last_value.available_restore any_value.available_restore
      ephemeral_value.available_restore topic.available_restore binop.available_restore
      barrier.available_restore barrier_fin.available_restore)

interpretation chan: persistent_channel
  Channel_Get Channel_IsAvailable Channel_Copy Channel_Checkpoint Channel_FromCheckpoint
  "\<lambda>c d. same_kind c d \<and> persistent d"
  by unfold_locales
    (auto dest: Channel_get_error Channel_get_available
      simp: Channel_ckpt_copy Channel_ckpt_restore same_kind_restore Channel_get_restore Channel_available_restore)

end
