(* ===== verification/Registry.thy ===== *)
theory Registry
  imports ChannelLaws
begin

text \<open>
  \<open>Registry\<close> of \<open>channels/base.go\<close>: the channels of a run by name.  Each method runs under the
  registry's lock and is one step of the model.  \<open>Get\<close> hands out a pointer; code that updates the
  channel through it is modelled by writing the channel back.  Methods that range over a map and
  can stop early take the iteration order \<open>ro\<close>.  \<open>GetValues\<close> returns the registry too: it reads
  every channel, and reading clears an \<open>EphemeralValue\<close>.
\<close>

record Registry =
  channels :: "channel gomap"

definition NewRegistry :: Registry where
  "NewRegistry = \<lparr>channels = []\<rparr>"

definition Registry_Register :: "Registry \<Rightarrow> string \<Rightarrow> channel \<Rightarrow> Registry" where
  "Registry_Register r name ch = r\<lparr>channels := mput (channels r) name ch\<rparr>"

definition Registry_Get :: "Registry \<Rightarrow> string \<Rightarrow> channel option" where
  "Registry_Get r name = mget (channels r) name"

definition Registry_Remove :: "Registry \<Rightarrow> string \<Rightarrow> Registry" where
  "Registry_Remove r name = r\<lparr>channels := mdel (channels r) name\<rparr>"

definition Registry_Len :: "Registry \<Rightarrow> nat" where
  "Registry_Len r = length (channels r)"

definition Registry_Names :: "(string list \<Rightarrow> string list) \<Rightarrow> Registry \<Rightarrow> string list" where
  "Registry_Names ro r = ro (mkeys (channels r))"

definition Registry_List :: "(string list \<Rightarrow> string list) \<Rightarrow> Registry \<Rightarrow> string list" where
  "Registry_List ro r = Registry_Names ro r"

definition Registry_CreateCheckpoint :: "Registry \<Rightarrow> gvalue gomap" where
  "Registry_CreateCheckpoint r = filter (\<lambda>e. \<not> IsMissing (snd e)) (mmap Channel_Checkpoint (channels r))"

fun restore_loop :: "channel gomap \<Rightarrow> (string \<times> gvalue) list \<Rightarrow> gerror option \<times> channel gomap" where
  "restore_loop m [] = (None, m)"
| "restore_loop m ((name, cp) # es) =
     (case mget m name of
        None \<Rightarrow> (Some (ErrorNew (''channel '' @ name @ '' not found in registry'')), m)
      | Some ch \<Rightarrow> restore_loop (mput m name (Channel_FromCheckpoint ch cp)) es)"

definition Registry_RestoreFromCheckpoint ::
    "(string list \<Rightarrow> string list) \<Rightarrow> Registry \<Rightarrow> gvalue gomap \<Rightarrow> gerror option \<times> Registry" where
  "Registry_RestoreFromCheckpoint ro r checkpoint =
     (let (e, m) = restore_loop (channels r) (range_entries ro checkpoint) in (e, r\<lparr>channels := m\<rparr>))"

fun update_loop :: "channel gomap \<Rightarrow> (string \<times> gvalue list) list \<Rightarrow> gerror option \<times> channel gomap" where
  "update_loop m [] = (None, m)"
| "update_loop m ((name, vs) # ws) =
     (case mget m name of
        None \<Rightarrow> (Some (ChannelNotFoundError name), m)
      | Some ch \<Rightarrow>
          (case Channel_Update ch vs of
             (Inl e, ch') \<Rightarrow> (Some (ErrorWrap (''failed to update channel '' @ name) e), mput m name ch')
           | (Inr b, ch') \<Rightarrow> update_loop (mput m name ch') ws))"

definition Registry_UpdateChannels ::
    "(string list \<Rightarrow> string list) \<Rightarrow> Registry \<Rightarrow> gvalue list gomap \<Rightarrow> gerror option \<times> Registry" where
  "Registry_UpdateChannels ro r writes =
     (let (e, m) = update_loop (channels r) (range_entries ro writes) in (e, r\<lparr>channels := m\<rparr>))"

fun values_loop ::
    "gvalue gomap \<Rightarrow> channel gomap \<Rightarrow> (string \<times> channel) list \<Rightarrow> (gerror + gvalue gomap) \<times> channel gomap" where
  "values_loop vals m [] = (Inr vals, m)"
| "values_loop vals m ((name, ch) # es) =
     (case Channel_Get ch of
        (Inl e, ch') \<Rightarrow>
          if IsEmptyChannelError e then values_loop vals (mput m name ch') es
          else (Inl (ErrorWrap (''failed to get value from channel '' @ name) e), mput m name ch')
      | (Inr v, ch') \<Rightarrow> values_loop (mput vals name v) (mput m name ch') es)"

definition Registry_GetValues ::
    "(string list \<Rightarrow> string list) \<Rightarrow> Registry \<Rightarrow> (gerror + gvalue gomap) \<times> Registry" where
  "Registry_GetValues ro r =
     (let (res, m) = values_loop [] (channels r) (range_entries ro (channels r)) in (res, r\<lparr>channels := m\<rparr>))"

section \<open>Checkpoints\<close>

lemma mget_CreateCheckpoint:
  "mwf (channels r) \<Longrightarrow> mget (Registry_CreateCheckpoint r) n =
     (case mget (channels r) n of
        Some ch \<Rightarrow> if Channel_Checkpoint ch \<noteq> GMissing then Some (Channel_Checkpoint ch) else None
      | None \<Rightarrow> None)"
  by (auto simp: Registry_CreateCheckpoint_def mget_filter_snd [where P = "\<lambda>v. v \<noteq> GMissing"] split: option.splits)

lemma mwf_CreateCheckpoint: "mwf (channels r) \<Longrightarrow> mwf (Registry_CreateCheckpoint r)"
  by (simp add: Registry_CreateCheckpoint_def mwf_filter)

lemma restore_loop_ok:
  "distinct (map fst es) \<Longrightarrow> \<forall>e\<in>set es. mhas m (fst e) \<Longrightarrow>
   \<exists>m'. restore_loop m es = (None, m') \<and>
     (\<forall>k. mget m' k = (case map_of es k of
        Some cp \<Rightarrow> map_option (\<lambda>ch. Channel_FromCheckpoint ch cp) (mget m k) | None \<Rightarrow> mget m k))"
proof (induction es arbitrary: m)
  case Nil
  then show ?case by simp
next
  case (Cons e es)
  obtain n cp where e: "e = (n, cp)" by (cases e)
  from Cons.prems e obtain ch where ch: "mget m n = Some ch" by (auto simp: mhas_mget)
  have "\<forall>e\<in>set es. mhas (mput m n (Channel_FromCheckpoint ch cp)) (fst e)"
    using Cons.prems by (auto simp: mhas_mget)
  moreover have n: "map_of es n = None"
    using Cons.prems e by (simp add: map_of_eq_None_iff)
  ultimately obtain m' where m': "restore_loop (mput m n (Channel_FromCheckpoint ch cp)) es = (None, m')"
    and look: "\<And>k. mget m' k = (case map_of es k of
        Some cp' \<Rightarrow> map_option (\<lambda>c. Channel_FromCheckpoint c cp') (mget (mput m n (Channel_FromCheckpoint ch cp)) k)
      | None \<Rightarrow> mget (mput m n (Channel_FromCheckpoint ch cp)) k)"
    using Cons.IH [of "mput m n (Channel_FromCheckpoint ch cp)"] Cons.prems(1) by auto
  have "mget m' k = (case map_of (e # es) k of
      Some cp' \<Rightarrow> map_option (\<lambda>c. Channel_FromCheckpoint c cp') (mget m k) | None \<Rightarrow> mget m k)" for k
    using look [of k] n e ch by (cases "k = n") (simp_all split: option.splits)
  with m' e ch show ?case by simp
qed

text \<open>Restoring a checkpoint all of whose keys are registered succeeds and restores exactly those channels.\<close>

lemma RestoreFromCheckpoint_ok:
  assumes "range_order ro" and "mwf cp" and "\<forall>k. mhas cp k \<longrightarrow> mhas (channels r) k"
  shows "\<exists>r'. Registry_RestoreFromCheckpoint ro r cp = (None, r') \<and>
    (\<forall>k. mget (channels r') k = (case mget cp k of
       Some v \<Rightarrow> map_option (\<lambda>ch. Channel_FromCheckpoint ch v) (mget (channels r) k)
     | None \<Rightarrow> mget (channels r) k))"
proof -
  have "\<forall>e\<in>set (range_entries ro cp). mhas (channels r) (fst e)"
    using assms(1,3) by (auto simp: range_entries_mem mhas_mget)
  from restore_loop_ok [OF range_entries_distinct [OF assms(1,2)] this] obtain m'
    where "restore_loop (channels r) (range_entries ro cp) = (None, m')"
      and "\<forall>k. mget m' k = (case mget cp k of
        Some v \<Rightarrow> map_option (\<lambda>ch. Channel_FromCheckpoint ch v) (mget (channels r) k) | None \<Rightarrow> mget (channels r) k)"
    by (auto simp: map_of_range_entries [OF assms(1,2)])
  then show ?thesis by (simp add: Registry_RestoreFromCheckpoint_def)
qed

section \<open>Reading all values\<close>

definition value_of :: "channel \<Rightarrow> gvalue option" where
  "value_of ch = (case fst (Channel_Get ch) of Inr v \<Rightarrow> Some v | Inl e \<Rightarrow> None)"

lemma value_of_cases:
  obtains e where "fst (Channel_Get ch) = Inl e" "IsEmptyChannelError e" "value_of ch = None"
  | v where "fst (Channel_Get ch) = Inr v" "value_of ch = Some v"
  using Channel_get_error [of ch] by (cases "fst (Channel_Get ch)") (auto simp: value_of_def empty_error_def)

lemma values_loop_Cons:
  "values_loop vals m ((n, ch) # es) =
     values_loop (case value_of ch of Some v \<Rightarrow> mput vals n v | None \<Rightarrow> vals) (mput m n (snd (Channel_Get ch))) es"
  by (cases ch rule: value_of_cases; cases "Channel_Get ch") auto

lemma values_loop_ok:
  "distinct (map fst es) \<Longrightarrow>
   \<exists>vals' m'. values_loop vals m es = (Inr vals', m') \<and>
     (\<forall>k. mget vals' k = (case Option.bind (map_of es k) value_of of Some v \<Rightarrow> Some v | None \<Rightarrow> mget vals k)) \<and>
     (\<forall>k. mget m' k = (case map_of es k of Some ch \<Rightarrow> Some (snd (Channel_Get ch)) | None \<Rightarrow> mget m k))"
proof (induction es arbitrary: vals m)
  case Nil
  then show ?case by simp
next
  case (Cons e es)
  obtain n ch where e: "e = (n, ch)" by (cases e)
  let ?vals = "case value_of ch of Some v \<Rightarrow> mput vals n v | None \<Rightarrow> vals"
  let ?m = "mput m n (snd (Channel_Get ch))"
  have n: "map_of es n = None"
    using Cons.prems e by (simp add: map_of_eq_None_iff)
  obtain vals' m' where run: "values_loop ?vals ?m es = (Inr vals', m')"
    and vals: "\<And>k. mget vals' k = (case Option.bind (map_of es k) value_of of Some v \<Rightarrow> Some v | None \<Rightarrow> mget ?vals k)"
    and m: "\<And>k. mget m' k = (case map_of es k of Some ch \<Rightarrow> Some (snd (Channel_Get ch)) | None \<Rightarrow> mget ?m k)"
    using Cons.IH [of ?vals ?m] Cons.prems by auto
  have "mget vals' k = (case Option.bind (map_of (e # es) k) value_of of Some v \<Rightarrow> Some v | None \<Rightarrow> mget vals k)" for k
    using vals [of k] n e by (cases "k = n"; cases "value_of ch") (simp_all split: option.splits)
  moreover have "mget m' k = (case map_of (e # es) k of Some ch \<Rightarrow> Some (snd (Channel_Get ch)) | None \<Rightarrow> mget m k)" for k
    using m [of k] n e by (cases "k = n") (simp_all split: option.splits)
  ultimately show ?case using run e by (simp add: values_loop_Cons del: values_loop.simps)
qed

text \<open>Reading all values never fails; it returns the readable channels and clears the ephemeral ones.\<close>

lemma GetValues_ok:
  assumes "range_order ro" and "mwf (channels r)"
  shows "\<exists>vals r'. Registry_GetValues ro r = (Inr vals, r') \<and>
    (\<forall>k. mget vals k = Option.bind (mget (channels r) k) value_of) \<and>
    (\<forall>k. mget (channels r') k = map_option (\<lambda>ch. snd (Channel_Get ch)) (mget (channels r) k))"
proof -
  obtain vals' m' where "values_loop [] (channels r) (range_entries ro (channels r)) = (Inr vals', m')"
    and "\<And>k. mget vals' k = (case Option.bind (mget (channels r) k) value_of of Some v \<Rightarrow> Some v | None \<Rightarrow> mget [] k)"
    and "\<And>k. mget m' k = (case mget (channels r) k of Some ch \<Rightarrow> Some (snd (Channel_Get ch)) | None \<Rightarrow> mget (channels r) k)"
    using values_loop_ok [OF range_entries_distinct [OF assms], of "[]" "channels r"]
    by (auto simp: map_of_range_entries [OF assms])
  then show ?thesis by (auto simp: Registry_GetValues_def split: option.splits)
qed

lemma GetValues_mwf:
  assumes "Registry_GetValues ro r = (Inr vals, r')"
  shows "mwf vals"
proof -
  have loop: "values_loop acc m es = (Inr vals, m') \<Longrightarrow> mwf acc \<Longrightarrow> mwf vals" for acc m es m'
    by (induction acc m es rule: values_loop.induct) (auto split: prod.splits sum.splits if_splits)
  show ?thesis
    using assms loop [of "[]"] by (auto simp: Registry_GetValues_def split: prod.splits)
qed

section \<open>Writing\<close>

lemma update_loop_ok:
  "distinct (map fst ws) \<Longrightarrow> \<forall>(n, vs)\<in>set ws. \<exists>ch b ch'. mget m n = Some ch \<and> Channel_Update ch vs = (Inr b, ch') \<Longrightarrow>
   \<exists>m'. update_loop m ws = (None, m') \<and>
     (\<forall>k. mget m' k = (case map_of ws k of
        Some vs \<Rightarrow> map_option (\<lambda>ch. snd (Channel_Update ch vs)) (mget m k) | None \<Rightarrow> mget m k))"
proof (induction ws arbitrary: m)
  case Nil
  then show ?case by simp
next
  case (Cons w ws)
  obtain n vs where w: "w = (n, vs)" by (cases w)
  from Cons.prems w obtain ch b ch' where ch: "mget m n = Some ch" "Channel_Update ch vs = (Inr b, ch')" by auto
  have n: "n \<notin> fst ` set ws" using Cons.prems w by auto
  then have "\<forall>(k, us)\<in>set ws. \<exists>c b c'. mget (mput m n ch') k = Some c \<and> Channel_Update c us = (Inr b, c')"
    using Cons.prems(2) by (auto simp: rev_image_eqI)
  then obtain m' where m': "update_loop (mput m n ch') ws = (None, m')"
    and look: "\<And>k. mget m' k = (case map_of ws k of
      Some us \<Rightarrow> map_option (\<lambda>c. snd (Channel_Update c us)) (mget (mput m n ch') k) | None \<Rightarrow> mget (mput m n ch') k)"
    using Cons.IH [of "mput m n ch'"] Cons.prems(1) by auto
  have "map_of ws n = None" using n by (simp add: map_of_eq_None_iff)
  then have "mget m' k = (case map_of (w # ws) k of
      Some us \<Rightarrow> map_option (\<lambda>c. snd (Channel_Update c us)) (mget m k) | None \<Rightarrow> mget m k)" for k
    using look [of k] w ch by (cases "k = n") (simp_all split: option.splits)
  with m' w ch show ?case by simp
qed

lemma UpdateChannels_ok:
  assumes "range_order ro" and "mwf writes"
    and "\<And>n vs. mget writes n = Some vs \<Longrightarrow> \<exists>ch b ch'. mget (channels r) n = Some ch \<and> Channel_Update ch vs = (Inr b, ch')"
  shows "\<exists>r'. Registry_UpdateChannels ro r writes = (None, r') \<and>
    (\<forall>k. mget (channels r') k = (case mget writes k of
       Some vs \<Rightarrow> map_option (\<lambda>ch. snd (Channel_Update ch vs)) (mget (channels r) k)
     | None \<Rightarrow> mget (channels r) k))"
proof -
  have "\<forall>(n, vs)\<in>set (range_entries ro writes).
      \<exists>ch b ch'. mget (channels r) n = Some ch \<and> Channel_Update ch vs = (Inr b, ch')"
    using assms(1,3) by (auto simp: range_entries_mem)
  from update_loop_ok [OF range_entries_distinct [OF assms(1,2)] this] obtain m'
    where "update_loop (channels r) (range_entries ro writes) = (None, m')"
      and "\<forall>k. mget m' k = (case mget writes k of
        Some vs \<Rightarrow> map_option (\<lambda>ch. snd (Channel_Update ch vs)) (mget (channels r) k) | None \<Rightarrow> mget (channels r) k)"
    by (auto simp: map_of_range_entries [OF assms(1,2)])
  then show ?thesis by (simp add: Registry_UpdateChannels_def)
qed

end
