(* ===== verification/Config.thy ===== *)
theory Config
  imports Errors
begin

text \<open>
  \<open>types/config.go\<close>: the configuration of a run.  A Go map field may be the nil map, on which
  lookups find nothing and an assignment panics: \<open>None\<close>.
\<close>

datatype Durability = DurabilityNone | DurabilitySync | DurabilityAsync | DurabilityExit

record RunnableConfig =
  rc_Configurable :: "gvalue gomap option"
  rc_RecursionLimit :: goint
  rc_Tags :: "string list"
  rc_Metadata :: "gvalue gomap option"
  rc_RunID :: string
  rc_ThreadID :: string
  rc_Durability :: Durability

definition DefaultRecursionLimit :: goint where
  "DefaultRecursionLimit = 50"

definition NewRunnableConfig :: RunnableConfig where
  "NewRunnableConfig =
     \<lparr>rc_Configurable = Some [], rc_RecursionLimit = DefaultRecursionLimit, rc_Tags = [],
      rc_Metadata = Some [], rc_RunID = [], rc_ThreadID = [], rc_Durability = DurabilitySync\<rparr>"

definition RunnableConfig_Get :: "RunnableConfig \<Rightarrow> string \<Rightarrow> gvalue option" where
  "RunnableConfig_Get c key = (case rc_Configurable c of None \<Rightarrow> None | Some m \<Rightarrow> mget m key)"

definition RunnableConfig_Set :: "RunnableConfig \<Rightarrow> string \<Rightarrow> gvalue \<Rightarrow> RunnableConfig" where
  "RunnableConfig_Set c key value =
     c\<lparr>rc_Configurable := Some (mput (case rc_Configurable c of None \<Rightarrow> [] | Some m \<Rightarrow> m) key value)\<rparr>"

fun set_all :: "RunnableConfig \<Rightarrow> (string \<times> gvalue) list \<Rightarrow> RunnableConfig" where
  "set_all c [] = c"
| "set_all c ((k, v) # es) = set_all (RunnableConfig_Set c k v) es"

definition nil_map_panic :: gerror where
  "nil_map_panic = ErrorNew ''panic: assignment to entry in nil map''"

definition RunnableConfig_Merge :: "RunnableConfig \<Rightarrow> RunnableConfig option \<Rightarrow> gerror + RunnableConfig" where
  "RunnableConfig_Merge c other =
     (case other of None \<Rightarrow> Inr c
      | Some o' \<Rightarrow>
        let c1 = set_all c (case rc_Configurable o' of None \<Rightarrow> [] | Some m \<Rightarrow> m);
            c2 = (if sint (rc_RecursionLimit o') > 0 then c1\<lparr>rc_RecursionLimit := rc_RecursionLimit o'\<rparr> else c1);
            c3 = c2\<lparr>rc_Tags := rc_Tags c2 @ rc_Tags o'\<rparr>;
            md = (case rc_Metadata o' of None \<Rightarrow> [] | Some m \<Rightarrow> m)
        in if rc_Metadata c3 = None \<and> md \<noteq> [] then Inl nil_map_panic
           else
             let c4 = c3\<lparr>rc_Metadata := map_option (\<lambda>m. mputs m md) (rc_Metadata c3)\<rparr>;
                 c5 = (if rc_RunID o' \<noteq> [] then c4\<lparr>rc_RunID := rc_RunID o'\<rparr> else c4);
                 c6 = (if rc_ThreadID o' \<noteq> [] then c5\<lparr>rc_ThreadID := rc_ThreadID o'\<rparr> else c5);
                 c7 = (if rc_Durability o' \<noteq> DurabilityNone \<and> rc_Durability o' \<noteq> DurabilitySync
                       then c6\<lparr>rc_Durability := rc_Durability o'\<rparr> else c6)
             in Inr c7)"

definition RunnableConfig_GetOrEmpty :: "RunnableConfig \<Rightarrow> string \<Rightarrow> string" where
  "RunnableConfig_GetOrEmpty c key =
     (case rc_Configurable c of None \<Rightarrow> []
      | Some m \<Rightarrow> (case mget m key of None \<Rightarrow> [] | Some v \<Rightarrow> (case v of GString s \<Rightarrow> s | _ \<Rightarrow> [])))"

fun patch_loop :: "RunnableConfig \<Rightarrow> (RunnableConfig \<Rightarrow> RunnableConfig) option list \<Rightarrow> RunnableConfig" where
  "patch_loop c [] = c"
| "patch_loop c (p # ps) = patch_loop (case p of Some f \<Rightarrow> f c | None \<Rightarrow> c) ps"

definition PatchConfig :: "RunnableConfig option \<Rightarrow> (RunnableConfig \<Rightarrow> RunnableConfig) option list \<Rightarrow> RunnableConfig" where
  "PatchConfig c ps = patch_loop (case c of None \<Rightarrow> NewRunnableConfig | Some c \<Rightarrow> c) ps"

definition EnsureConfig :: "RunnableConfig option \<Rightarrow> RunnableConfig" where
  "EnsureConfig c = (case c of None \<Rightarrow> NewRunnableConfig | Some c \<Rightarrow> c)"

fun merge_loop :: "RunnableConfig \<Rightarrow> RunnableConfig option list \<Rightarrow> gerror + RunnableConfig" where
  "merge_loop r [] = Inr r"
| "merge_loop r (c # cs) = (case RunnableConfig_Merge r c of Inl e \<Rightarrow> Inl e | Inr r' \<Rightarrow> merge_loop r' cs)"

definition MergeConfigs :: "RunnableConfig option list \<Rightarrow> gerror + RunnableConfig" where
  "MergeConfigs cs = merge_loop NewRunnableConfig cs"

section \<open>Lemmas\<close>

lemma Get_set_all:
  "RunnableConfig_Get (set_all c es) k =
     (case map_of (rev es) k of Some v \<Rightarrow> Some v | None \<Rightarrow> RunnableConfig_Get c k)"
proof (induction es arbitrary: c)
  case Nil
  then show ?case by simp
next
  case (Cons e es)
  then show ?case
    by (cases e)
      (auto simp: RunnableConfig_Get_def RunnableConfig_Set_def map_add_def mget_Cons split: option.splits)
qed

lemma set_all_other:
  "rc_RecursionLimit (set_all c es) = rc_RecursionLimit c" "rc_Tags (set_all c es) = rc_Tags c"
  "rc_Metadata (set_all c es) = rc_Metadata c" "rc_RunID (set_all c es) = rc_RunID c"
  "rc_ThreadID (set_all c es) = rc_ThreadID c" "rc_Durability (set_all c es) = rc_Durability c"
  by (induction es arbitrary: c) (auto simp: RunnableConfig_Set_def)

end
