(* ===== verification/Retry.thy ===== *)
theory Retry
  imports Config
begin

text \<open>
  Retrying of nodes: \<open>RetryPolicy\<close> of \<open>types/types.go\<close> and \<open>pregel/retry.go\<close>.  What a node
  function does when it is called is an \<open>outcome\<close>: it returns a value, returns an error with the
  output beside it, or panics with a text.  A call is indexed by the attempt.  \<open>cancelled a\<close> is the
  error of the context when it ends during the wait after attempt \<open>a\<close>, \<open>None\<close> when the timer
  fires first.  A duration is a 64-bit count of nanoseconds; \<open>rand\<close> is what \<open>rand.Float64\<close> returns.
\<close>

datatype outcome = Done gvalue | Failed gvalue gerror | Panicked string

record RetryPolicy =
  rp_InitialInterval :: goint
  rp_BackoffFactor :: float64
  rp_MaxInterval :: goint
  rp_MaxAttempts :: goint
  rp_Jitter :: bool
  rp_RetryOn :: "(gerror \<Rightarrow> bool) option"

definition DefaultRetryOn :: "gerror \<Rightarrow> bool" where
  "DefaultRetryOn err = True"

definition DefaultRetryPolicy :: RetryPolicy where
  "DefaultRetryPolicy = \<lparr>rp_InitialInterval = 500 * 1000000, rp_BackoffFactor = FFin 1 1,
     rp_MaxInterval = 128 * 1000000000, rp_MaxAttempts = 3, rp_Jitter = True, rp_RetryOn = Some DefaultRetryOn\<rparr>"

fun pow_loop :: "float64 \<Rightarrow> nat \<Rightarrow> float64 \<Rightarrow> float64" where
  "pow_loop base 0 result = result"
| "pow_loop base (Suc n) result = pow_loop base n (f_mul result base)"

definition powFloat :: "float64 \<Rightarrow> goint \<Rightarrow> float64" where
  "powFloat base exp = pow_loop base (nat (sint exp)) (FFin 1 0)"

definition min_duration :: "goint \<Rightarrow> goint \<Rightarrow> goint" where
  "min_duration a b = (if sint b < sint a then b else a)"

definition max_duration :: "goint \<Rightarrow> goint \<Rightarrow> goint" where
  "max_duration a b = (if sint b > sint a then b else a)"

definition RetryPolicy_CalculateBackoff :: "float64 \<Rightarrow> RetryPolicy \<Rightarrow> goint \<Rightarrow> goint" where
  "RetryPolicy_CalculateBackoff rand p attempt =
     (let backoff = min_duration
            (goint_of_float (f_mul (float_of_goint (rp_InitialInterval p)) (powFloat (rp_BackoffFactor p) (attempt - 1))))
            (rp_MaxInterval p)
      in if rp_Jitter p
         then let jitter = goint_of_float (f_mul (f_mul (float_of_goint backoff) (FFin 1 (- 1))) rand)
              in max_duration (backoff - jitter) 0
         else backoff)"

text \<open>
  The attempts from \<open>attempt\<close> on; \<open>left\<close> counts those that remain.  The state of the loop is the
  last error and the last output.
\<close>

fun retry_loop ::
    "RetryPolicy \<Rightarrow> (nat \<Rightarrow> gerror option) \<Rightarrow> string \<Rightarrow> (nat \<Rightarrow> outcome) \<Rightarrow> nat \<Rightarrow> nat \<Rightarrow> gerror option \<Rightarrow> gvalue \<Rightarrow>
     gerror + gvalue" where
  "retry_loop p cancelled name fn 0 attempt lastErr lastOutput =
     Inl (RetryExhaustedError name (sint (rp_MaxAttempts p)) lastErr lastOutput)"
| "retry_loop p cancelled name fn (Suc left) attempt lastErr lastOutput =
     (case fn attempt of
        Panicked r \<Rightarrow> Inl (ErrorNew (''node '' @ name @ '' panicked: '' @ r))
      | Done output \<Rightarrow> Inr output
      | Failed output err \<Rightarrow>
          if IsGraphInterrupt err then Inl err
          else if (case rp_RetryOn p of Some f \<Rightarrow> \<not> f err | None \<Rightarrow> False)
          then Inl (ErrorWrap (''node '' @ name @ '' failed with non-retryable error'') err)
          else if left = 0
          then Inl (RetryExhaustedError name (sint (rp_MaxAttempts p)) (Some err) output)
          else (case cancelled attempt of
                  Some e \<Rightarrow> Inl (ErrorWrap (''node '' @ name @ '' cancelled during retry'') e)
                | None \<Rightarrow> retry_loop p cancelled name fn left (Suc attempt) (Some err) output))"

definition RetryExecutor_Execute ::
    "RetryPolicy \<Rightarrow> (nat \<Rightarrow> gerror option) \<Rightarrow> string \<Rightarrow> (nat \<Rightarrow> outcome) \<Rightarrow> gerror + gvalue" where
  "RetryExecutor_Execute policy cancelled name fn =
     retry_loop policy cancelled name fn (nat (sint (rp_MaxAttempts policy))) 1 None GNil"

definition NewRetryExecutor :: "RetryPolicy option \<Rightarrow> RetryPolicy" where
  "NewRetryExecutor policy = (case policy of None \<Rightarrow> DefaultRetryPolicy | Some p \<Rightarrow> p)"

section \<open>Predicates on error texts\<close>

definition toLower :: "string \<Rightarrow> string" where
  "toLower s = map (\<lambda>c. if CHR ''A'' \<le> c \<and> c \<le> CHR ''Z'' then char_of ((of_char c :: nat) + 32) else c) s"

definition containsIgnoreCase :: "string \<Rightarrow> string \<Rightarrow> bool" where
  "containsIgnoreCase s substr =
     (let s = toLower s; substr = toLower substr
      in length s \<ge> length substr \<and> take (length substr) s = substr)"

definition contains_text :: "string \<Rightarrow> string \<Rightarrow> bool" where
  "contains_text s substr =
     (length s \<ge> length substr \<and>
      (s = substr \<or> length s > length substr \<and> (take (length substr) s = substr \<or> containsIgnoreCase s substr)))"

definition networkKeywords :: "string list" where
  "networkKeywords = [''connection refused'', ''connection reset'', ''timeout'', ''network'', ''dns'',
     ''temporary failure'', ''503'', ''502'', ''504'']"

definition tempKeywords :: "string list" where
  "tempKeywords = [''temporary'', ''transient'', ''rate limit'', ''too many requests'', ''429'']"

definition NetworkErrors :: "gerror option \<Rightarrow> bool" where
  "NetworkErrors err = (case err of None \<Rightarrow> False | Some e \<Rightarrow> list_ex (contains_text (Error e)) networkKeywords)"

definition TemporaryErrors :: "gerror option \<Rightarrow> bool" where
  "TemporaryErrors err = (case err of None \<Rightarrow> False | Some e \<Rightarrow> list_ex (contains_text (Error e)) tempKeywords)"

section \<open>Lemmas\<close>

text \<open>An attempt after which the executor goes on to the next one.\<close>

definition retryable :: "RetryPolicy \<Rightarrow> (nat \<Rightarrow> gerror option) \<Rightarrow> (nat \<Rightarrow> outcome) \<Rightarrow> nat \<Rightarrow> bool" where
  "retryable p cancelled fn a \<longleftrightarrow>
     (\<exists>out err. fn a = Failed out err \<and> \<not> IsGraphInterrupt err \<and>
        (case rp_RetryOn p of Some f \<Rightarrow> f err | None \<Rightarrow> True) \<and> cancelled a = None)"

lemma retry_loop_skip:
  "retryable p cancelled fn a \<Longrightarrow> left > 0 \<Longrightarrow>
   \<exists>err out. fn a = Failed out err \<and>
     retry_loop p cancelled name fn (Suc left) a le lo = retry_loop p cancelled name fn left (Suc a) (Some err) out"
  by (auto simp: retryable_def split: option.splits)

lemma retry_loop_stop:
  "fn a = Done v \<Longrightarrow> retry_loop p cancelled name fn (Suc left) a le lo = Inr v"
  by simp

lemma retry_loop_reaches:
  "k < n \<Longrightarrow> \<forall>i<k. retryable p cancelled fn (a + i) \<Longrightarrow>
   \<exists>le' lo'. retry_loop p cancelled name fn n a le lo = retry_loop p cancelled name fn (n - k) (a + k) le' lo'"
proof (induction k arbitrary: n a le lo)
  case 0
  then show ?case by auto
next
  case (Suc k)
  then obtain m where n: "n = Suc m" and m: "k < m" by (cases n) auto
  have "retryable p cancelled fn a" using Suc.prems(2) by (metis add_0_right zero_less_Suc)
  with m obtain err out where step:
    "retry_loop p cancelled name fn n a le lo = retry_loop p cancelled name fn m (Suc a) (Some err) out"
    using retry_loop_skip [of p cancelled fn a m name le lo] n by auto
  have "\<forall>i<k. retryable p cancelled fn (Suc a + i)"
    using Suc.prems(2) by (metis Suc_less_eq add_Suc_right add_Suc)
  from Suc.IH [OF m this, of "Some err" out] step n show ?case by auto
qed

lemma retry_loop_success:
  "retry_loop p cancelled name fn n a le lo = Inr v \<Longrightarrow>
   \<exists>k<n. fn (a + k) = Done v \<and> (\<forall>i<k. retryable p cancelled fn (a + i))"
proof (induction n arbitrary: a le lo)
  case 0
  then show ?case by simp
next
  case (Suc n)
  show ?case
  proof (cases "fn a")
    case (Done w)
    then show ?thesis using Suc.prems by (intro exI [of _ 0]) auto
  next
    case (Failed out err)
    then have r: "retryable p cancelled fn a"
      and "retry_loop p cancelled name fn n (Suc a) (Some err) out = Inr v"
      using Suc.prems by (auto simp: retryable_def split: if_splits option.splits)
    with Suc.IH obtain k where k: "k < n" "fn (Suc a + k) = Done v" "\<forall>i<k. retryable p cancelled fn (Suc a + i)"
      by blast
    have "\<forall>i<Suc k. retryable p cancelled fn (a + i)"
      using k(3) r by (metis add_Suc_right add_Suc less_Suc_eq_0_disj add_0_right)
    with k show ?thesis by (intro exI [of _ "Suc k"]) auto
  next
    case (Panicked t)
    then show ?thesis using Suc.prems by simp
  qed
qed

lemma retry_loop_cong:
  "\<forall>i<n. fn (a + i) = gn (a + i) \<Longrightarrow>
   retry_loop p cancelled name fn n a le lo = retry_loop p cancelled name gn n a le lo"
proof (induction n arbitrary: a le lo)
  case 0
  then show ?case by simp
next
  case (Suc n)
  have "fn a = gn a" using Suc.prems by (metis add_0_right zero_less_Suc)
  moreover have "\<forall>i<n. fn (Suc a + i) = gn (Suc a + i)"
    using Suc.prems by (metis Suc_less_eq add_Suc_right add_Suc)
  ultimately show ?case using Suc.IH by (simp split: outcome.split option.split)
qed

lemma length_toLower [simp]: "length (toLower s) = length s"
  by (simp add: toLower_def)

lemma toLower_take: "toLower (take n s) = take n (toLower s)"
  by (simp add: toLower_def take_map)

lemma f_round_small:
  assumes "odd m" and "\<bar>m\<bar> < 2 ^ 53" and "- 1074 \<le> e" and "e \<le> 900"
  shows "f_round m e = FFin m e"
proof -
  have "m \<noteq> 0" using assms(1) by auto
  have bl: "bitlen (nat \<bar>m\<bar>) \<le> 53"
    using assms(2) by (intro bitlen_bound) (simp add: nat_less_iff)
  have "nat (max (int (bitlen (nat \<bar>m\<bar>)) - 53) (- 1074 - e)) = 0" using bl assms(3) by simp
  moreover have "\<not> int (bitlen (nat \<bar>m\<bar>)) + e > 1024" using bl assms(4) by simp
  moreover have "strip_twos m e = FFin m e" using assms(1) by (simp add: strip_twos.simps)
  ultimately show ?thesis using \<open>m \<noteq> 0\<close> by (simp add: f_round_def round_shift_def Let_def)
qed

lemma pow_loop_two: "- 1074 \<le> e \<Longrightarrow> e + int n \<le> 900 \<Longrightarrow> pow_loop (FFin 1 1) n (FFin 1 e) = FFin 1 (e + int n)"
proof (induction n arbitrary: e)
  case 0
  then show ?case by simp
next
  case (Suc n)
  then have "f_round 1 (e + 1) = FFin 1 (e + 1)" by (intro f_round_small) auto
  with Suc show ?case by (simp add: algebra_simps)
qed

lemma float_half_second: "f_of_int 500000000 = FFin 1953125 8"
  by (simp add: f_of_int_def f_round_def round_shift_def Let_def bitlen.simps strip_twos.simps)

lemma sint_of_int_range: "- (2 ^ 63) \<le> i \<Longrightarrow> i < 2 ^ 63 \<Longrightarrow> sint (word_of_int i :: goint) = i"
  by (simp add: sint_sbintrunc' signed_take_bit_int_eq_self)

section \<open>Properties\<close>

text \<open>C15: \<open>RetryExecutor.Execute\<close> returns a value exactly when some attempt among the first
  \<open>MaxAttempts\<close> returns it and every earlier attempt failed with a retryable error whose wait was
  not cancelled.\<close>

theorem retry_success_iff:
  "RetryExecutor_Execute p cancelled name fn = Inr v \<longleftrightarrow>
     (\<exists>k<nat (sint (rp_MaxAttempts p)). fn (1 + k) = Done v \<and> (\<forall>i<k. retryable p cancelled fn (1 + i)))"
  (is "?l \<longleftrightarrow> ?r")
proof
  assume ?l
  then show ?r unfolding RetryExecutor_Execute_def by (rule retry_loop_success)
next
  assume ?r
  then obtain k where k: "k < nat (sint (rp_MaxAttempts p))" "fn (1 + k) = Done v"
    "\<forall>i<k. retryable p cancelled fn (1 + i)" by blast
  then obtain le lo m where
    "retry_loop p cancelled name fn (nat (sint (rp_MaxAttempts p))) 1 None GNil =
       retry_loop p cancelled name fn (Suc m) (1 + k) le lo"
    using retry_loop_reaches [OF k(1,3), of name None GNil] by (metis Suc_diff_Suc)
  then show ?l using k(2) by (simp add: RetryExecutor_Execute_def)
qed

theorem retry_success_iff_witness:
  "RetryExecutor_Execute DefaultRetryPolicy (\<lambda>a. None) ''n''
     (\<lambda>a. if a < 3 then Failed GNil (ErrorNew ''e'') else Done (GBool True)) = Inr (GBool True)"
  unfolding retry_success_iff
  by (rule exI [of _ 2]) (auto simp: DefaultRetryPolicy_def DefaultRetryOn_def retryable_def)

text \<open>The executor makes at most \<open>MaxAttempts\<close> attempts: two functions that behave alike on the
  attempts \<open>1, \<dots>, MaxAttempts\<close> cannot be told apart.  With \<open>MaxAttempts \<le> 0\<close> the node is not
  called at all and the result is \<open>RetryExhaustedError\<close> without an error inside.\<close>

theorem retry_bounded:
  "((\<forall>i. 1 \<le> i \<and> int i \<le> sint (rp_MaxAttempts p) \<longrightarrow> fn i = gn i) \<longrightarrow>
     RetryExecutor_Execute p cancelled name fn = RetryExecutor_Execute p cancelled name gn) \<and>
   (sint (rp_MaxAttempts p) \<le> 0 \<longrightarrow>
     RetryExecutor_Execute p cancelled name fn =
       Inl (RetryExhaustedError name (sint (rp_MaxAttempts p)) None GNil))"
  unfolding RetryExecutor_Execute_def
  by (auto intro!: retry_loop_cong)

theorem retry_bounded_witness:
  "RetryExecutor_Execute (DefaultRetryPolicy\<lparr>rp_MaxAttempts := 0\<rparr>) (\<lambda>a. None) ''n'' (\<lambda>a. Done GNil) =
     Inl (RetryExhaustedError ''n'' 0 None GNil)"
  using retry_bounded [of "DefaultRetryPolicy\<lparr>rp_MaxAttempts := 0\<rparr>" "\<lambda>a. Done GNil" "\<lambda>a. Done GNil" "\<lambda>a. None" "''n''"]
  by (simp add: DefaultRetryPolicy_def)

text \<open>A \<open>GraphInterrupt\<close> returned by an attempt leaves the executor unchanged, without a wrapper and
  without a further attempt, so that the engine recognises it.\<close>

theorem retry_propagates_interrupt:
  assumes "k < nat (sint (rp_MaxAttempts p))" and "fn (1 + k) = Failed out (GraphInterrupt vs)"
    and "\<forall>i<k. retryable p cancelled fn (1 + i)"
  shows "RetryExecutor_Execute p cancelled name fn = Inl (GraphInterrupt vs)"
proof -
  obtain le lo m where
    "retry_loop p cancelled name fn (nat (sint (rp_MaxAttempts p))) 1 None GNil =
       retry_loop p cancelled name fn (Suc m) (1 + k) le lo"
    using retry_loop_reaches [OF assms(1,3), of name None GNil] assms(1) by (metis Suc_diff_Suc)
  then show ?thesis using assms(2) by (simp add: RetryExecutor_Execute_def)
qed

theorem retry_propagates_interrupt_witness:
  "RetryExecutor_Execute DefaultRetryPolicy (\<lambda>a. None) ''n''
     (\<lambda>a. if a = 1 then Failed GNil (ErrorNew ''e'') else Failed GNil (GraphInterrupt [OtherInterrupt GNil])) = Inl (GraphInterrupt [OtherInterrupt GNil])"
  using retry_propagates_interrupt [of 1 DefaultRetryPolicy
      "\<lambda>a. if a = 1 then Failed GNil (ErrorNew ''e'') else Failed GNil (GraphInterrupt [OtherInterrupt GNil])" GNil "[OtherInterrupt GNil]" "\<lambda>a. None" "''n''"]
  by (simp add: DefaultRetryPolicy_def DefaultRetryOn_def retryable_def)

text \<open>\<open>contains\<close>, documented as a substring test, is a test for a prefix: the keyword lists of
  \<open>NetworkErrors\<close> and \<open>TemporaryErrors\<close> only match at the start of an error text, so a wrapped
  network error is not recognised.\<close>

theorem contains_is_prefix:
  "(contains_text s sub \<longleftrightarrow> s = sub \<or> length s > length sub \<and> toLower (take (length sub) s) = toLower sub) \<and>
   \<not> NetworkErrors (Some (ErrorWrap ''dial tcp'' (ErrorNew ''connection refused'')))"
proof
  show "contains_text s sub \<longleftrightarrow> s = sub \<or> length s > length sub \<and> toLower (take (length sub) s) = toLower sub"
    by (auto simp: contains_text_def containsIgnoreCase_def Let_def toLower_take [symmetric])
  show "\<not> NetworkErrors (Some (ErrorWrap ''dial tcp'' (ErrorNew ''connection refused'')))"
    by (simp add: NetworkErrors_def networkKeywords_def contains_text_def containsIgnoreCase_def toLower_def Let_def)
qed

text \<open>The waits of the default policy without jitter: half a second doubled on each attempt up to
  the limit of 128 seconds, but from the 36th attempt on the product leaves the range of
  \<open>time.Duration\<close>, the conversion gives the least 64-bit integer, and the wait is negative instead
  of the limit.\<close>

theorem default_backoff:
  assumes "1 \<le> sint a" and "sint a \<le> 800"
  shows "sint (RetryPolicy_CalculateBackoff r (DefaultRetryPolicy\<lparr>rp_Jitter := False\<rparr>) a) =
    (if sint a \<le> 8 then 500000000 * 2 ^ nat (sint a - 1)
     else if sint a \<le> 35 then 128000000000 else - (2 ^ 63))"
proof -
  define n where "n = nat (sint a - 1)"
  have sa: "sint (a - 1) = sint a - 1"
    using assms by (simp add: sint_word_ariths signed_take_bit_int_eq_self)
  have "pow_loop (FFin 1 1) n (FFin 1 0) = FFin 1 (int n)"
    using assms pow_loop_two [of 0 n] by (simp add: n_def)
  then have pw: "powFloat (FFin 1 1) (a - 1) = FFin 1 (int n)"
    by (simp add: powFloat_def sa n_def)
  have fm: "f_mul (FFin 1953125 8) (FFin 1 (int n)) = FFin 1953125 (8 + int n)"
    using assms f_round_small [of 1953125 "8 + int n"] by (simp add: n_def)
  define x :: int where "x = 500000000 * 2 ^ n"
  have tr: "f_trunc (FFin 1953125 (8 + int n)) = Some x"
    by (simp add: x_def nat_add_distrib power_add)
  have "0 \<le> x" by (simp add: x_def)
  then have gf: "goint_of_float (FFin 1953125 (8 + int n)) =
      (if x < 2 ^ 63 then word_of_int x else word_of_int (- (2 ^ 63)))"
    using tr by (simp add: goint_of_float_def del: f_trunc.simps)
  have bo: "RetryPolicy_CalculateBackoff r (DefaultRetryPolicy\<lparr>rp_Jitter := False\<rparr>) a =
      min_duration (if x < 2 ^ 63 then word_of_int x else word_of_int (- (2 ^ 63))) 128000000000"
    by (simp add: RetryPolicy_CalculateBackoff_def DefaultRetryPolicy_def Let_def float_of_goint_def
        float_half_second pw fm gf [simplified] del: f_mul.simps)
  consider "n \<le> 7" | "8 \<le> n" "n \<le> 34" | "35 \<le> n" by linarith
  then show ?thesis
  proof cases
    case 1
    then have "(2::int) ^ n \<le> 2 ^ 7" by (intro power_increasing) auto
    then have "x \<le> 64000000000" and "0 \<le> x" by (simp_all add: x_def)
    then have "sint (min_duration (if x < 2 ^ 63 then word_of_int x else word_of_int (- (2 ^ 63))) 128000000000) = x"
      by (simp add: min_duration_def sint_of_int_range)
    moreover have "sint a \<le> 8" "x = 500000000 * 2 ^ nat (sint a - 1)"
      using 1 assms(1) by (auto simp: n_def x_def)
    ultimately show ?thesis unfolding bo by simp
  next
    case 2
    have "(2::int) ^ 8 \<le> 2 ^ n" using 2(1) by (rule power_increasing) simp
    moreover have "(2::int) ^ n \<le> 2 ^ 34" using 2(2) by (rule power_increasing) simp
    ultimately have "128000000000 \<le> x" and "x < 2 ^ 63" by (simp_all add: x_def)
    then show ?thesis using 2 assms unfolding bo
      by (auto simp: min_duration_def sint_of_int_range n_def)
  next
    case 3
    then have "(2::int) ^ 35 \<le> 2 ^ n" by (rule power_increasing) simp
    then have "\<not> x < 2 ^ 63" by (simp add: x_def)
    then show ?thesis using 3 assms unfolding bo
      by (simp add: min_duration_def sint_of_int_range n_def)
  qed
qed

theorem default_backoff_witness:
  "sint (RetryPolicy_CalculateBackoff (FZero False) (DefaultRetryPolicy\<lparr>rp_Jitter := False\<rparr>) 36) = - (2 ^ 63)"
  using default_backoff [of 36 "FZero False"] by simp

end
