(* ===== verification/StateGraph.thy ===== *)
theory StateGraph
  imports Registry Retry
begin

text \<open>
  \<open>graph/graph.go\<close> and \<open>graph/state.go\<close>: building a state graph, its validation and compilation.
  A node function is what it does at a superstep, on an attempt and an input; a condition of an
  edge is a function of the state that returns a value and an error.  \<open>schema\<close> is what the code
  learns about the state schema by reflection; the text of the \<open>harness\<close> tag of a field is taken to
  be ASCII.  Pointers to nodes, edges and the graph are modelled by their values; the builder
  returns the graph it changes.
\<close>

type_synonym NodeFunc = "nat \<Rightarrow> nat \<Rightarrow> gvalue \<Rightarrow> outcome"
type_synonym EdgeFunc = "gvalue \<Rightarrow> gvalue \<times> gerror option"

datatype NodeTriggerMode = NodeTriggerUnset | NodeTriggerAnyPredecessor | NodeTriggerAllPredecessor

record FieldMapping =
  fm_From :: string
  fm_To :: string

record Node =
  n_Name :: string
  n_Function :: "NodeFunc option"
  n_Triggers :: "string list"
  n_Writes :: "string list"
  n_RetryPolicy :: "RetryPolicy option"
  n_Tags :: "string list"
  n_Metadata :: "gvalue gomap"
  n_FieldMapping :: "FieldMapping list"

record Edge =
  e_From :: string
  e_To :: string

record DataEdge =
  de_From :: string
  de_To :: string
  de_Mapping :: "FieldMapping list"

record ConditionalEdge =
  ce_From :: string
  ce_Condition :: EdgeFunc
  ce_Mapping :: "string gomap"

record Branch =
  br_From :: string
  br_Condition :: EdgeFunc
  br_Then :: "gvalue \<Rightarrow> string list"

record NodeOptions =
  no_RetryPolicy :: "RetryPolicy option"
  no_Tags :: "string list"
  no_Metadata :: "gvalue gomap"
  no_Triggers :: "string list"
  no_Writes :: "string list"
  no_FieldMapping :: "FieldMapping list"
  no_StatePre :: "NodeFunc option"
  no_StatePost :: "NodeFunc option"

record StructField =
  sf_Name :: string
  sf_Exported :: bool
  sf_Type :: rtype
  sf_Tag :: string

datatype schema = SchemaNil | SchemaMap bool | SchemaStruct "StructField list" | SchemaOther string | SchemaPtr schema

record stateGraph =
  nodes :: "Node gomap"
  edges :: "Edge list"
  dataEdges :: "DataEdge list"
  conditionalEdges :: "ConditionalEdge list"
  branches :: "Branch list"
  entryPoint :: string
  finishPoints :: "string list"
  g_channels :: "channel gomap"
  g_reducers :: "ReducerFunc gomap"
  stateSchema :: schema
  inputSchema :: schema
  outputSchema :: schema
  nodeTriggerMode :: NodeTriggerMode

definition Start :: string where "Start = ''__start__''"
definition End :: string where "End = ''__end__''"

definition NewStateGraph :: "schema \<Rightarrow> stateGraph" where
  "NewStateGraph s =
     \<lparr>nodes = [], edges = [], dataEdges = [], conditionalEdges = [], branches = [], entryPoint = [],
      finishPoints = [], g_channels = [], g_reducers = [], stateSchema = s, inputSchema = s,
      outputSchema = s, nodeTriggerMode = NodeTriggerUnset\<rparr>"

section \<open>Building\<close>

definition new_node :: "string \<Rightarrow> NodeFunc option \<Rightarrow> Node" where
  "new_node name fn =
     \<lparr>n_Name = name, n_Function = fn, n_Triggers = [], n_Writes = [], n_RetryPolicy = None, n_Tags = [],
      n_Metadata = [], n_FieldMapping = []\<rparr>"

definition stateGraph_AddNode :: "stateGraph \<Rightarrow> string \<Rightarrow> NodeFunc option \<Rightarrow> stateGraph" where
  "stateGraph_AddNode g name fn = g\<lparr>nodes := mput (nodes g) name (new_node name fn)\<rparr>"

text \<open>The function with the state handlers around it.  Calling a nil function panics.\<close>

definition call_func :: "NodeFunc option \<Rightarrow> NodeFunc" where
  "call_func fn step attempt state =
     (case fn of Some f \<Rightarrow> f step attempt state
      | None \<Rightarrow> Panicked ''runtime error: invalid memory address or nil pointer dereference'')"

definition with_handlers :: "string \<Rightarrow> NodeFunc option \<Rightarrow> NodeFunc option \<Rightarrow> NodeFunc option \<Rightarrow> NodeFunc" where
  "with_handlers name pre fn post step attempt state =
     (case (case pre of None \<Rightarrow> Done state | Some f \<Rightarrow> f step attempt state) of
        Panicked t \<Rightarrow> Panicked t
      | Failed out err \<Rightarrow> Failed GNil (ErrorWrap (''state pre-handler for '' @ quoted name) err)
      | Done state' \<Rightarrow>
          (case call_func fn step attempt state' of
             Panicked t \<Rightarrow> Panicked t
           | Failed out err \<Rightarrow> Failed GNil err
           | Done out \<Rightarrow>
               (case post of None \<Rightarrow> Done out
                | Some f \<Rightarrow>
                    (case f step attempt out of
                       Panicked t \<Rightarrow> Panicked t
                     | Failed out' err \<Rightarrow> Failed GNil (ErrorWrap (''state post-handler for '' @ quoted name) err)
                     | Done out' \<Rightarrow> Done out'))))"

definition stateGraph_AddNodeWithOptions :: "stateGraph \<Rightarrow> string \<Rightarrow> NodeFunc option \<Rightarrow> NodeOptions \<Rightarrow> stateGraph" where
  "stateGraph_AddNodeWithOptions g name fn opts =
     (let fn' = (if no_StatePre opts \<noteq> None \<or> no_StatePost opts \<noteq> None
                 then Some (with_handlers name (no_StatePre opts) fn (no_StatePost opts)) else fn);
          node = new_node name fn'
      in g\<lparr>nodes := mput (nodes g) name
           (node\<lparr>n_RetryPolicy := (if no_RetryPolicy opts \<noteq> None then no_RetryPolicy opts else n_RetryPolicy node),
             n_Tags := n_Tags node @ no_Tags opts,
             n_Metadata := mputs (n_Metadata node) (no_Metadata opts),
             n_Triggers := n_Triggers node @ no_Triggers opts,
             n_Writes := n_Writes node @ no_Writes opts,
             n_FieldMapping := n_FieldMapping node @ no_FieldMapping opts\<rparr>)\<rparr>)"

definition stateGraph_AddEdge :: "stateGraph \<Rightarrow> string \<Rightarrow> string \<Rightarrow> gerror option \<times> stateGraph" where
  "stateGraph_AddEdge g from to =
     (if \<not> mhas (nodes g) from \<and> from \<noteq> Start then (Some (NodeNotFoundError from), g)
      else if \<not> mhas (nodes g) to \<and> to \<noteq> End then (Some (NodeNotFoundError to), g)
      else
        let g1 = g\<lparr>edges := edges g @ [\<lparr>e_From = from, e_To = to\<rparr>]\<rparr>;
            g2 = (if from = Start then g1\<lparr>entryPoint := to\<rparr> else g1);
            g3 = (if to = End \<and> from \<notin> set (finishPoints g2)
                  then g2\<lparr>finishPoints := finishPoints g2 @ [from]\<rparr> else g2)
        in (None, g3))"

text \<open>The first target, in the order of the range over the mapping, that is neither a node nor \<open>End\<close>.\<close>

definition bad_target :: "(string list \<Rightarrow> string list) \<Rightarrow> stateGraph \<Rightarrow> string gomap \<Rightarrow> string option" where
  "bad_target ro g mapping =
     find (\<lambda>target. \<not> mhas (nodes g) target \<and> target \<noteq> End) (map snd (range_entries ro mapping))"

definition stateGraph_AddConditionalEdges ::
    "(string list \<Rightarrow> string list) \<Rightarrow> stateGraph \<Rightarrow> string \<Rightarrow> EdgeFunc \<Rightarrow> string gomap \<Rightarrow> gerror option \<times> stateGraph" where
  "stateGraph_AddConditionalEdges ro g from condition mapping =
     (if \<not> mhas (nodes g) from then (Some (NodeNotFoundError from), g)
      else (case bad_target ro g mapping of
              Some target \<Rightarrow> (Some (NodeNotFoundError target), g)
            | None \<Rightarrow> (None, g\<lparr>conditionalEdges := conditionalEdges g @
                [\<lparr>ce_From = from, ce_Condition = condition, ce_Mapping = mapping\<rparr>]\<rparr>)))"

definition stateGraph_AddBranch ::
    "stateGraph \<Rightarrow> string \<Rightarrow> EdgeFunc \<Rightarrow> (gvalue \<Rightarrow> string list) \<Rightarrow> gerror option \<times> stateGraph" where
  "stateGraph_AddBranch g from condition thn =
     (if \<not> mhas (nodes g) from then (Some (NodeNotFoundError from), g)
      else (None, g\<lparr>branches := branches g @ [\<lparr>br_From = from, br_Condition = condition, br_Then = thn\<rparr>]\<rparr>))"

definition stateGraph_AddDataEdge ::
    "stateGraph \<Rightarrow> string \<Rightarrow> string \<Rightarrow> FieldMapping list \<Rightarrow> gerror option \<times> stateGraph" where
  "stateGraph_AddDataEdge g from to mappings =
     (if \<not> mhas (nodes g) from \<and> from \<noteq> Start then (Some (NodeNotFoundError from), g)
      else if \<not> mhas (nodes g) to \<and> to \<noteq> End then (Some (NodeNotFoundError to), g)
      else (None, g\<lparr>dataEdges := dataEdges g @ [\<lparr>de_From = from, de_To = to, de_Mapping = mappings\<rparr>]\<rparr>))"

definition stateGraph_SetEntryPoint :: "stateGraph \<Rightarrow> string \<Rightarrow> gerror option \<times> stateGraph" where
  "stateGraph_SetEntryPoint g node =
     (if \<not> mhas (nodes g) node then (Some (NodeNotFoundError node), g) else (None, g\<lparr>entryPoint := node\<rparr>))"

definition stateGraph_SetFinishPoint :: "stateGraph \<Rightarrow> string \<Rightarrow> gerror option \<times> stateGraph" where
  "stateGraph_SetFinishPoint g node =
     (if \<not> mhas (nodes g) node then (Some (NodeNotFoundError node), g)
      else (None, g\<lparr>finishPoints := finishPoints g @ [node]\<rparr>))"

definition stateGraph_SetNodeTriggerMode :: "stateGraph \<Rightarrow> NodeTriggerMode \<Rightarrow> stateGraph" where
  "stateGraph_SetNodeTriggerMode g mode = g\<lparr>nodeTriggerMode := mode\<rparr>"

text \<open>An argument that is not a channel is ignored: \<open>None\<close>.\<close>

definition stateGraph_AddChannel :: "stateGraph \<Rightarrow> string \<Rightarrow> channel option \<Rightarrow> stateGraph" where
  "stateGraph_AddChannel g name ch =
     (case ch of None \<Rightarrow> g | Some c \<Rightarrow> g\<lparr>g_channels := mput (g_channels g) name (Channel_SetKey c name)\<rparr>)"

definition stateGraph_SetReducer :: "stateGraph \<Rightarrow> string \<Rightarrow> ReducerFunc \<Rightarrow> stateGraph" where
  "stateGraph_SetReducer g channelName reducer =
     (let g1 = (case mget (g_channels g) channelName of
                  Some c \<Rightarrow> g\<lparr>g_channels := mput (g_channels g) channelName (NewReducerChannel c reducer)\<rparr>
                | None \<Rightarrow> g)
      in g1\<lparr>g_reducers := mput (g_reducers g1) channelName reducer\<rparr>)"

definition stateGraph_AddChannelWithReducer ::
    "stateGraph \<Rightarrow> string \<Rightarrow> channel option \<Rightarrow> ReducerFunc option \<Rightarrow> stateGraph" where
  "stateGraph_AddChannelWithReducer g name ch reducer =
     (case ch of None \<Rightarrow> g
      | Some c \<Rightarrow>
          (case reducer of
             Some r \<Rightarrow> g\<lparr>g_channels := mput (g_channels g) name (NewReducerChannel (Channel_SetKey c name) r),
               g_reducers := mput (g_reducers g) name r\<rparr>
           | None \<Rightarrow> g\<lparr>g_channels := mput (g_channels g) name (Channel_SetKey c name)\<rparr>))"

section \<open>The state schema\<close>

record Annotation =
  an_Reducer :: "ReducerFunc option"
  an_Metadata :: "gvalue gomap"

record fieldInfo =
  fi_Name :: string
  fi_Type :: rtype
  fi_Channel :: channel
  fi_Annotation :: "Annotation option"

definition is_space :: "char \<Rightarrow> bool" where
  "is_space c \<longleftrightarrow> c \<in> {CHR 0x09, CHR 0x0A, CHR 0x0B, CHR 0x0C, CHR 0x0D, CHR 0x20}"

definition TrimSpace :: "string \<Rightarrow> string" where
  "TrimSpace s = rev (dropWhile is_space (rev (dropWhile is_space s)))"

text \<open>\<open>strings.SplitN(pair, "=", 2)\<close>: \<open>None\<close> when there is no separator.\<close>

fun split_pair :: "string \<Rightarrow> (string \<times> string) option" where
  "split_pair [] = None"
| "split_pair (c # s) = (if c = CHR ''='' then Some ([], s) else map_option (\<lambda>(k, v). (c # k, v)) (split_pair s))"

fun annotation_loop :: "Annotation \<Rightarrow> string list \<Rightarrow> gerror + Annotation" where
  "annotation_loop a [] = Inr a"
| "annotation_loop a (pair # pairs) =
     (case split_pair pair of
        None \<Rightarrow> annotation_loop (a\<lparr>an_Metadata := mput (an_Metadata a) pair (GBool True)\<rparr>) pairs
      | Some (k, v) \<Rightarrow>
          let key = TrimSpace k; val = TrimSpace v in
          if key = ''reducer''
          then (case reducers val of
                  None \<Rightarrow> Inl (ErrorNew (''unknown reducer: '' @ val))
                | Some r \<Rightarrow> annotation_loop (a\<lparr>an_Reducer := Some r\<rparr>) pairs)
          else annotation_loop (a\<lparr>an_Metadata := mput (an_Metadata a) key (GString val)\<rparr>) pairs)"

definition parseAnnotation :: "string \<Rightarrow> gerror + Annotation" where
  "parseAnnotation tag =
     annotation_loop \<lparr>an_Reducer = None, an_Metadata = []\<rparr> (strings_Split (CHR '','') tag)"

definition processField :: "StructField \<Rightarrow> gerror + fieldInfo" where
  "processField field =
     (case (if sf_Tag field \<noteq> [] then map_sum id Some (parseAnnotation (sf_Tag field)) else Inr None) of
        Inl err \<Rightarrow> Inl (ErrorWrap ''invalid annotation'' err)
      | Inr an \<Rightarrow>
          Inr \<lparr>fi_Name = sf_Name field, fi_Type = sf_Type field,
               fi_Channel = CreateReducerChannel (sf_Name field) (sf_Type field) (Option.bind an an_Reducer),
               fi_Annotation = an\<rparr>)"

fun fields_loop :: "fieldInfo gomap \<Rightarrow> StructField list \<Rightarrow> gerror + fieldInfo gomap" where
  "fields_loop infos [] = Inr infos"
| "fields_loop infos (field # fs) =
     (if \<not> sf_Exported field then fields_loop infos fs
      else (case processField field of
              Inl err \<Rightarrow> Inl (ErrorWrap (''field '' @ sf_Name field) err)
            | Inr info \<Rightarrow> fields_loop (mput infos (fi_Name info) info) fs))"

definition validateStateSchema :: "schema \<Rightarrow> gerror + fieldInfo gomap" where
  "validateStateSchema s =
     (if s = SchemaNil then Inl (ErrorNew ''state schema cannot be nil'')
      else
        let kind_error = (\<lambda>k. Inl (ErrorNew (''state schema must be a struct or map, got '' @ k))) in
        case (case s of SchemaPtr v \<Rightarrow> v | v \<Rightarrow> v) of
          SchemaStruct fs \<Rightarrow> fields_loop [] fs
        | SchemaMap string_keys \<Rightarrow>
            if string_keys then Inr [] else Inl (ErrorNew ''state schema map must have string keys'')
        | SchemaOther k \<Rightarrow> kind_error k
        | SchemaPtr v \<Rightarrow> kind_error ''ptr''
        | SchemaNil \<Rightarrow> kind_error ''invalid'')"

section \<open>Validation\<close>

text \<open>
  The breadth-first search of \<open>computeReachable\<close>.  \<open>visit\<close> is the body of an inner loop: a target
  not yet reached is marked and appended to the queue.
\<close>

definition visit :: "string \<Rightarrow> string list \<times> string list \<Rightarrow> string list \<times> string list" where
  "visit target = (\<lambda>(reachable, queue).
     if target \<notin> set reachable \<and> target \<noteq> End then (reachable @ [target], queue @ [target]) else (reachable, queue))"

text \<open>The targets the body of the outer loop looks at for \<open>current\<close>, in its order.\<close>

definition targets :: "(string list \<Rightarrow> string list) \<Rightarrow> stateGraph \<Rightarrow> string \<Rightarrow> string list" where
  "targets ro g current =
     map e_To (filter (\<lambda>e. e_From e = current) (edges g)) @
     filter (mhas (nodes g))
       (concat (map (\<lambda>c. map snd (range_entries ro (ce_Mapping c))) (filter (\<lambda>c. ce_From c = current) (conditionalEdges g))))"

definition all_targets :: "(string list \<Rightarrow> string list) \<Rightarrow> stateGraph \<Rightarrow> string set" where
  "all_targets ro g = insert (entryPoint g)
     (set (map e_To (edges g)) \<union> set (concat (map (\<lambda>c. map snd (range_entries ro (ce_Mapping c))) (conditionalEdges g))))"

lemma finite_all_targets: "finite (all_targets ro g)"
  by (simp add: all_targets_def)

lemma targets_subset: "set (targets ro g c) \<subseteq> all_targets ro g"
  by (auto simp: targets_def all_targets_def)

lemma fold_visit_set: "set (fst (fold visit ts (r, q))) = set r \<union> (set ts - {End})"
  by (induction ts arbitrary: r q) (auto simp: visit_def)

lemma fold_visit_length:
  "length (snd (fold visit ts (r, q))) + length r = length q + length (fst (fold visit ts (r, q)))"
proof (induction ts arbitrary: r q)
  case Nil
  then show ?case by simp
next
  case (Cons t ts)
  show ?case
    using Cons.IH [of r q] Cons.IH [of "r @ [t]" "q @ [t]"] by (auto simp: visit_def)
qed

lemma fold_visit_distinct: "distinct r \<Longrightarrow> distinct (fst (fold visit ts (r, q)))"
  by (induction ts arbitrary: r q) (auto simp: visit_def)

lemma fold_visit_card:
  "finite A \<Longrightarrow> set ts \<subseteq> A \<Longrightarrow>
   card (A - set (fst (fold visit ts (r, q)))) + length (fst (fold visit ts (r, q))) = card (A - set r) + length r"
proof (induction ts arbitrary: r q)
  case Nil
  then show ?case by simp
next
  case (Cons t ts)
  have "card (A - set r) = Suc (card (A - insert t (set r)))" if "t \<notin> set r"
  proof -
    have "A - set r = insert t (A - insert t (set r))" using that Cons.prems by auto
    then show ?thesis using Cons.prems by (metis DiffD2 card_insert_disjoint finite_Diff insertCI)
  qed
  then show ?case
    using Cons.IH [of r q] Cons.IH [of "r @ [t]" "q @ [t]"] Cons.prems by (auto simp: visit_def)
qed

lemma fold_visit_longer: "length r \<le> length (fst (fold visit ts (r, q)))"
proof (induction ts arbitrary: r q)
  case Nil
  then show ?case by simp
next
  case (Cons t ts)
  show ?case
    using Cons.IH [of r q] Cons.IH [of "r @ [t]" "q @ [t]"] by (auto simp: visit_def)
qed

function bfs :: "(string list \<Rightarrow> string list) \<Rightarrow> stateGraph \<Rightarrow> string list \<Rightarrow> string list \<Rightarrow> string list" where
  "bfs ro g reachable [] = reachable"
| "bfs ro g reachable (current # queue) =
     (let (r, q) = fold visit (targets ro g current) (reachable, queue) in bfs ro g r q)"
  by pat_completeness auto

termination
proof (relation "measure (\<lambda>(ro, g, r, q). 2 * card (all_targets ro g - set r) + length q)")
  fix ro g reachable current queue x r q
  assume run: "x = fold visit (targets ro g current) (reachable, queue)" "(r, q) = x"
  have rq: "r = fst (fold visit (targets ro g current) (reachable, queue))"
      "q = snd (fold visit (targets ro g current) (reachable, queue))"
    using run by (metis fst_conv, metis snd_conv)
  have "card (all_targets ro g - set r) + length r = card (all_targets ro g - set reachable) + length reachable"
    unfolding rq by (rule fold_visit_card [OF finite_all_targets targets_subset])
  moreover have "length q + length reachable = length queue + length r"
    unfolding rq by (rule fold_visit_length)
  moreover have "length reachable \<le> length r"
    unfolding rq by (rule fold_visit_longer)
  ultimately show "((ro, g, r, q), ro, g, reachable, current # queue)
      \<in> measure (\<lambda>(ro, g, r, q). 2 * card (all_targets ro g - set r) + length q)"
    by simp
qed auto

definition stateGraph_computeReachable :: "(string list \<Rightarrow> string list) \<Rightarrow> stateGraph \<Rightarrow> string list" where
  "stateGraph_computeReachable ro g = (if entryPoint g = [] then [] else bfs ro g [entryPoint g] [entryPoint g])"

definition stateGraph_Validate :: "(string list \<Rightarrow> string list) \<Rightarrow> stateGraph \<Rightarrow> gerror option" where
  "stateGraph_Validate ro g =
     (if entryPoint g = [] then Some (ErrorNew ''no entry point set'')
      else if finishPoints g = [] then Some (ErrorNew ''no finish points set'')
      else
        let reachable = stateGraph_computeReachable ro g in
        case find (\<lambda>name. name \<notin> set reachable) (ro (mkeys (nodes g))) of
          Some name \<Rightarrow> Some (ErrorNew (''node '' @ name @ '' is not reachable from entry point''))
        | None \<Rightarrow>
            (case validateStateSchema (stateSchema g) of
               Inl err \<Rightarrow> Some (ErrorWrap ''state schema validation failed'' err)
             | Inr infos \<Rightarrow> None))"

fun configure_loop :: "stateGraph \<Rightarrow> (string \<times> fieldInfo) list \<Rightarrow> stateGraph" where
  "configure_loop g [] = g"
| "configure_loop g ((fieldName, info) # es) =
     (let g1 = (if \<not> mhas (g_channels g) fieldName
                then g\<lparr>g_channels := mput (g_channels g) fieldName (fi_Channel info)\<rparr> else g);
          g2 = (case Option.bind (fi_Annotation info) an_Reducer of
                  Some r \<Rightarrow> g1\<lparr>g_reducers := mput (g_reducers g1) fieldName r\<rparr> | None \<Rightarrow> g1)
      in configure_loop g2 es)"

definition stateGraph_configureChannelsFromSchema :: "stateGraph \<Rightarrow> gerror + stateGraph" where
  "stateGraph_configureChannelsFromSchema g = map_sum id (configure_loop g) (validateStateSchema (stateSchema g))"

section \<open>Compilation\<close>

text \<open>The fields of a compiled graph beside the graph itself and its checkpointer.\<close>

record compiledGraph =
  cg_interrupts :: "bool gomap"
  cg_interruptsAfter :: "bool gomap"
  cg_recursionLimit :: goint
  cg_debug :: bool
  cg_nodeTriggerMode :: NodeTriggerMode

type_synonym CompileOption = "compiledGraph \<Rightarrow> compiledGraph"

definition WithInterrupts :: "string list \<Rightarrow> CompileOption" where
  "WithInterrupts ns cg = cg\<lparr>cg_interrupts := mputs (cg_interrupts cg) (map (\<lambda>n. (n, True)) ns)\<rparr>"

definition WithInterruptsAfter :: "string list \<Rightarrow> CompileOption" where
  "WithInterruptsAfter ns cg = cg\<lparr>cg_interruptsAfter := mputs (cg_interruptsAfter cg) (map (\<lambda>n. (n, True)) ns)\<rparr>"

definition WithRecursionLimit :: "goint \<Rightarrow> CompileOption" where
  "WithRecursionLimit limit cg = cg\<lparr>cg_recursionLimit := limit\<rparr>"

definition WithDebug :: "bool \<Rightarrow> CompileOption" where
  "WithDebug debug cg = cg\<lparr>cg_debug := debug\<rparr>"

definition WithNodeTriggerMode :: "NodeTriggerMode \<Rightarrow> CompileOption" where
  "WithNodeTriggerMode mode cg = cg\<lparr>cg_nodeTriggerMode := mode\<rparr>"

definition stateGraph_Compile ::
    "(string list \<Rightarrow> string list) \<Rightarrow> stateGraph \<Rightarrow> CompileOption list \<Rightarrow> gerror + (compiledGraph \<times> stateGraph)" where
  "stateGraph_Compile ro g opts =
     (case stateGraph_Validate ro g of
        Some err \<Rightarrow> Inl (ErrorWrap ''graph validation failed'' err)
      | None \<Rightarrow>
          (case stateGraph_configureChannelsFromSchema g of
             Inl err \<Rightarrow> Inl (ErrorWrap ''failed to configure channels from schema'' err)
           | Inr g1 \<Rightarrow>
               let cg = fold (\<lambda>opt cg. opt cg) opts
                     \<lparr>cg_interrupts = [], cg_interruptsAfter = [], cg_recursionLimit = DefaultRecursionLimit,
                      cg_debug = False, cg_nodeTriggerMode = NodeTriggerAnyPredecessor\<rparr>
               in Inr (cg, g1\<lparr>nodeTriggerMode := cg_nodeTriggerMode cg\<rparr>)))"

section \<open>Reachability\<close>

text \<open>An edge the search follows, without regard to any order.\<close>

definition leads_to :: "stateGraph \<Rightarrow> string \<Rightarrow> string \<Rightarrow> bool" where
  "leads_to g c t \<longleftrightarrow> t \<noteq> End \<and>
     ((\<exists>e\<in>set (edges g). e_From e = c \<and> e_To e = t) \<or>
      (\<exists>ce\<in>set (conditionalEdges g). ce_From ce = c \<and> (\<exists>k. mget (ce_Mapping ce) k = Some t) \<and> mhas (nodes g) t))"

inductive graph_reach :: "stateGraph \<Rightarrow> string \<Rightarrow> bool" where
  entry: "graph_reach g (entryPoint g)"
| follow: "graph_reach g c \<Longrightarrow> leads_to g c t \<Longrightarrow> graph_reach g t"

lemma targets_leads_to:
  assumes "range_order ro"
  shows "set (targets ro g c) - {End} = {t. leads_to g c t}"
proof -
  have img: "snd ` set (range_entries ro m) = {t. \<exists>k. mget m k = Some t}" for m :: "string gomap"
  proof (rule set_eqI)
    show "t \<in> snd ` set (range_entries ro m) \<longleftrightarrow> t \<in> {t. \<exists>k. mget m k = Some t}" for t
      unfolding image_iff Bex_def mem_Collect_eq split_paired_Ex
      by (simp add: range_entries_mem [OF assms] eq_commute)
  qed
  have "set (targets ro g c) = e_To ` {e \<in> set (edges g). e_From e = c} \<union>
      {t \<in> (\<Union>ce\<in>{ce \<in> set (conditionalEdges g). ce_From ce = c}. snd ` set (range_entries ro (ce_Mapping ce))).
         mhas (nodes g) t}"
    by (simp add: targets_def)
  then show ?thesis unfolding img by (auto simp: leads_to_def)
qed

definition bfs_inv :: "stateGraph \<Rightarrow> string list \<Rightarrow> string list \<Rightarrow> bool" where
  "bfs_inv g r q \<longleftrightarrow> entryPoint g \<in> set r \<and> set q \<subseteq> set r \<and> (\<forall>c\<in>set r. graph_reach g c) \<and>
     (\<forall>c\<in>set r - set q. \<forall>t. leads_to g c t \<longrightarrow> t \<in> set r)"

lemma fold_visit_queue: "set (snd (fold visit ts (r, q))) = set q \<union> (set ts - {End} - set r)"
proof (induction ts arbitrary: r q)
  case Nil
  then show ?case by simp
next
  case (Cons t ts)
  show ?case
  proof (cases "t \<notin> set r \<and> t \<noteq> End")
    case True
    then have "visit t (r, q) = (r @ [t], q @ [t])" by (simp add: visit_def)
    with True Cons.IH [of "r @ [t]" "q @ [t]"] show ?thesis by auto
  next
    case False
    then have "visit t (r, q) = (r, q)" by (auto simp: visit_def)
    with False Cons.IH [of r q] show ?thesis by auto
  qed
qed

lemma bfs_inv_step:
  assumes ro: "range_order ro" and inv: "bfs_inv g r (c # q)"
    and run: "fold visit (targets ro g c) (r, q) = (r', q')"
  shows "bfs_inv g r' q'"
proof -
  have r': "set r' = set r \<union> {t. leads_to g c t}"
    using fold_visit_set [of "targets ro g c" r q] run targets_leads_to [OF ro, of g c] by simp
  have q': "set q' = set q \<union> ({t. leads_to g c t} - set r)"
    using fold_visit_queue [of "targets ro g c" r q] run targets_leads_to [OF ro, of g c] by simp
  have i: "entryPoint g \<in> set r" "c \<in> set r" "set q \<subseteq> set r" "\<And>d. d \<in> set r \<Longrightarrow> graph_reach g d"
      "\<And>d t. d \<in> set r \<Longrightarrow> d \<noteq> c \<Longrightarrow> d \<notin> set q \<Longrightarrow> leads_to g d t \<Longrightarrow> t \<in> set r"
    using inv unfolding bfs_inv_def list.set by blast+
  have "graph_reach g t" if "t \<in> set r'" for t
    using that i(2,4) unfolding r' by (blast intro: graph_reach.follow)
  moreover have "t \<in> set r'" if "d \<in> set r' - set q'" "leads_to g d t" for d t
    using that i(5) unfolding r' q' by blast
  moreover have "entryPoint g \<in> set r'" and "set q' \<subseteq> set r'"
    using i(1,3) unfolding r' q' by blast+
  ultimately show ?thesis unfolding bfs_inv_def by blast
qed

lemma bfs_inv_result: "range_order ro \<Longrightarrow> bfs_inv g r q \<Longrightarrow> bfs_inv g (bfs ro g r q) []"
proof (induction ro g r q rule: bfs.induct)
  case (1 ro g reachable)
  then show ?case by simp
next
  case (2 ro g reachable current queue)
  obtain r q where run: "fold visit (targets ro g current) (reachable, queue) = (r, q)" by (metis surj_pair)
  from "2.IH" [OF refl run [symmetric] "2.prems"(1) bfs_inv_step [OF "2.prems" run]]
  show ?case by (simp add: run)
qed

lemma computeReachable_set:
  assumes "range_order ro" and "entryPoint g \<noteq> []"
  shows "set (stateGraph_computeReachable ro g) = {n. graph_reach g n}"
proof -
  let ?r = "bfs ro g [entryPoint g] [entryPoint g]"
  have inv: "bfs_inv g ?r []"
    by (rule bfs_inv_result [OF assms(1)]) (auto simp: bfs_inv_def graph_reach.entry)
  have closed: "entryPoint g \<in> set ?r" "\<And>c t. c \<in> set ?r \<Longrightarrow> leads_to g c t \<Longrightarrow> t \<in> set ?r"
    and sound: "\<And>c. c \<in> set ?r \<Longrightarrow> graph_reach g c"
    using inv unfolding bfs_inv_def list.set by blast+
  have "n \<in> set (bfs ro h [entryPoint h] [entryPoint h])" if "graph_reach h n" "h = g" for h n
    using that by (induction rule: graph_reach.induct) (use closed in blast)+
  then show ?thesis
    using sound assms(2) unfolding stateGraph_computeReachable_def by (auto simp del: bfs.simps)
qed

section \<open>Graphs made with the builder\<close>

inductive builder_step :: "stateGraph \<Rightarrow> stateGraph \<Rightarrow> bool" where
  add_node: "builder_step g (stateGraph_AddNode g name fn)"
| add_node_with_options: "builder_step g (stateGraph_AddNodeWithOptions g name fn opts)"
| add_edge: "stateGraph_AddEdge g from to = (e, g') \<Longrightarrow> builder_step g g'"
| add_conditional_edges:
    "range_order ro \<Longrightarrow> stateGraph_AddConditionalEdges ro g from condition mapping = (e, g') \<Longrightarrow> builder_step g g'"
| add_branch: "stateGraph_AddBranch g from condition thn = (e, g') \<Longrightarrow> builder_step g g'"
| add_data_edge: "stateGraph_AddDataEdge g from to mappings = (e, g') \<Longrightarrow> builder_step g g'"
| set_entry_point: "stateGraph_SetEntryPoint g node = (e, g') \<Longrightarrow> builder_step g g'"
| set_finish_point: "stateGraph_SetFinishPoint g node = (e, g') \<Longrightarrow> builder_step g g'"
| set_mode: "builder_step g (stateGraph_SetNodeTriggerMode g mode)"
| add_channel: "builder_step g (stateGraph_AddChannel g name ch)"
| set_reducer: "builder_step g (stateGraph_SetReducer g name red)"
| add_channel_with_reducer: "builder_step g (stateGraph_AddChannelWithReducer g name ch r)"

inductive built :: "stateGraph \<Rightarrow> bool" where
  new: "built (NewStateGraph s)"
| step: "built g \<Longrightarrow> builder_step g g' \<Longrightarrow> built g'"

text \<open>Every end of every edge is a node of the graph or the right terminal, and nodes carry their key as name.\<close>

definition graph_wf :: "stateGraph \<Rightarrow> bool" where
  "graph_wf g \<longleftrightarrow> mwf (nodes g) \<and> mwf (g_channels g) \<and>
     (\<forall>k n. mget (nodes g) k = Some n \<longrightarrow> n_Name n = k) \<and>
     (\<forall>e\<in>set (edges g). (mhas (nodes g) (e_From e) \<or> e_From e = Start) \<and> (mhas (nodes g) (e_To e) \<or> e_To e = End)) \<and>
     (\<forall>c\<in>set (conditionalEdges g). mhas (nodes g) (ce_From c) \<and>
        (\<forall>k t. mget (ce_Mapping c) k = Some t \<longrightarrow> mhas (nodes g) t \<or> t = End)) \<and>
     (\<forall>b\<in>set (branches g). mhas (nodes g) (br_From b)) \<and>
     (\<forall>d\<in>set (dataEdges g). (mhas (nodes g) (de_From d) \<or> de_From d = Start) \<and> (mhas (nodes g) (de_To d) \<or> de_To d = End)) \<and>
     (entryPoint g = [] \<or> entryPoint g = End \<or> mhas (nodes g) (entryPoint g)) \<and>
     (\<forall>n\<in>set (finishPoints g). mhas (nodes g) n \<or> n = Start)"

lemma mhas_mput [simp]: "mhas (mput m k v) k' \<longleftrightarrow> k' = k \<or> mhas m k'"
  by (auto simp: mhas_mget)

lemma bad_target_None:
  assumes "range_order ro" and "bad_target ro g mapping = None" and "mget mapping k = Some t"
  shows "mhas (nodes g) t \<or> t = End"
proof -
  have "(k, t) \<in> set (range_entries ro mapping)" by (simp add: range_entries_mem [OF assms(1)] assms(3))
  then have "t \<in> set (map snd (range_entries ro mapping))" by force
  then show ?thesis using assms(2) unfolding bad_target_def find_None_iff by blast
qed

lemmas builder_defs = stateGraph_AddNode_def stateGraph_AddNodeWithOptions_def stateGraph_AddEdge_def
  stateGraph_AddConditionalEdges_def stateGraph_AddBranch_def stateGraph_AddDataEdge_def
  stateGraph_SetEntryPoint_def stateGraph_SetFinishPoint_def stateGraph_SetNodeTriggerMode_def
  stateGraph_AddChannel_def stateGraph_SetReducer_def stateGraph_AddChannelWithReducer_def

lemma graph_wf_conditional:
  assumes "range_order ro" and run: "stateGraph_AddConditionalEdges ro g src condition mapping = (e, g')" and wf: "graph_wf g"
  shows "graph_wf g'"
proof (cases "mhas (nodes g) src \<and> bad_target ro g mapping = None")
  case True
  then have g': "g' = g\<lparr>conditionalEdges := conditionalEdges g @
      [\<lparr>ce_From = src, ce_Condition = condition, ce_Mapping = mapping\<rparr>]\<rparr>"
    using run by (simp add: stateGraph_AddConditionalEdges_def)
  have "\<forall>k t. mget mapping k = Some t \<longrightarrow> mhas (nodes g) t \<or> t = End"
    using bad_target_None [OF assms(1)] True by blast
  then show ?thesis using wf True unfolding graph_wf_def g' by simp
next
  case False
  then have "g' = g"
    using run by (auto simp: stateGraph_AddConditionalEdges_def split: if_splits option.splits)
  then show ?thesis using wf by simp
qed

lemma graph_wf_add_node: "graph_wf g \<Longrightarrow> n_Name n = name \<Longrightarrow> graph_wf (g\<lparr>nodes := mput (nodes g) name n\<rparr>)"
  unfolding graph_wf_def by auto

lemma graph_wf_channels:
  "graph_wf g \<Longrightarrow> mwf m \<Longrightarrow> graph_wf (g\<lparr>g_channels := m\<rparr>)" "graph_wf g \<Longrightarrow> graph_wf (g\<lparr>g_reducers := r\<rparr>)"
  "graph_wf g \<Longrightarrow> graph_wf (g\<lparr>nodeTriggerMode := mode\<rparr>)"
  unfolding graph_wf_def by auto

lemma graph_wf_edge:
  "graph_wf g \<Longrightarrow> mhas (nodes g) src \<or> src = Start \<Longrightarrow> mhas (nodes g) to \<or> to = End \<Longrightarrow>
   graph_wf (g\<lparr>edges := edges g @ [\<lparr>e_From = src, e_To = to\<rparr>]\<rparr>)"
  unfolding graph_wf_def by simp

lemma graph_wf_entry:
  "graph_wf g \<Longrightarrow> mhas (nodes g) n \<or> n = End \<Longrightarrow> graph_wf (g\<lparr>entryPoint := n\<rparr>)"
  unfolding graph_wf_def by (elim conjE, intro conjI) (simp_all, blast)

lemma graph_wf_finish:
  "graph_wf g \<Longrightarrow> mhas (nodes g) n \<or> n = Start \<Longrightarrow> graph_wf (g\<lparr>finishPoints := finishPoints g @ [n]\<rparr>)"
  unfolding graph_wf_def by simp

lemma graph_wf_AddEdge:
  assumes wf: "graph_wf g" and run: "stateGraph_AddEdge g src to = (e, g')"
  shows "graph_wf g'"
proof (cases "(mhas (nodes g) src \<or> src = Start) \<and> (mhas (nodes g) to \<or> to = End)")
  case True
  define g1 where "g1 = g\<lparr>edges := edges g @ [\<lparr>e_From = src, e_To = to\<rparr>]\<rparr>"
  define g2 where "g2 = (if src = Start then g1\<lparr>entryPoint := to\<rparr> else g1)"
  have wf1: "graph_wf g1" using graph_wf_edge wf True by (simp add: g1_def)
  have n1: "nodes g1 = nodes g" by (simp add: g1_def)
  have wf2: "graph_wf g2" using graph_wf_entry [OF wf1, of to] wf1 True n1 by (simp add: g2_def)
  have n2: "nodes g2 = nodes g" by (simp add: g2_def n1)
  have "g' = (if to = End \<and> src \<notin> set (finishPoints g2) then g2\<lparr>finishPoints := finishPoints g2 @ [src]\<rparr> else g2)"
    using run True unfolding stateGraph_AddEdge_def Let_def g1_def g2_def by auto
  then show ?thesis using wf2 graph_wf_finish [OF wf2, of src] True n2 by simp
next
  case False
  then have "g' = g" using run by (auto simp: stateGraph_AddEdge_def split: if_splits)
  then show ?thesis using wf by simp
qed

lemma graph_wf_mwf_channels: "graph_wf g \<Longrightarrow> mwf (g_channels g)"
  by (simp add: graph_wf_def)

lemma graph_wf_step: "builder_step g g' \<Longrightarrow> graph_wf g \<Longrightarrow> graph_wf g'"
proof (induction rule: builder_step.induct)
  case (add_conditional_edges ro g src condition mapping e g')
  then show ?case by (rule graph_wf_conditional)
next
  case (add_edge g src to e g')
  then show ?case by (rule graph_wf_AddEdge [rotated])
next
  case (add_channel g name ch)
  then show ?case
    by (cases ch) (auto simp: stateGraph_AddChannel_def graph_wf_mwf_channels intro!: graph_wf_channels)
next
  case (set_reducer g name red)
  then show ?case
    by (cases "mget (g_channels g) name")
      (auto simp: stateGraph_SetReducer_def Let_def graph_wf_mwf_channels intro!: graph_wf_channels)
next
  case (add_channel_with_reducer g name ch r)
  then have "graph_wf (g\<lparr>g_channels := mput (g_channels g) name c\<rparr>)" for c
    by (auto simp: graph_wf_mwf_channels intro!: graph_wf_channels)
  then show ?case
    using add_channel_with_reducer graph_wf_channels(2)
    by (cases ch; cases r) (auto simp: stateGraph_AddChannelWithReducer_def)
next
  case (set_mode g mode)
  then show ?case by (simp add: stateGraph_SetNodeTriggerMode_def graph_wf_channels)
next
  case (add_node g name fn)
  then show ?case by (simp add: stateGraph_AddNode_def graph_wf_add_node new_node_def)
next
  case (add_node_with_options g name fn opts)
  then show ?case by (simp add: stateGraph_AddNodeWithOptions_def graph_wf_add_node new_node_def Let_def)
qed (auto simp: builder_defs graph_wf_def split: if_splits)

lemma built_graph_wf: "built g \<Longrightarrow> graph_wf g"
proof (induction rule: built.induct)
  case (new s)
  then show ?case by (simp add: NewStateGraph_def graph_wf_def)
next
  case (step g g')
  then show ?case by (simp add: graph_wf_step)
qed

lemma mget_fields_loop_wf: "fields_loop infos fs = Inr m \<Longrightarrow> mwf infos \<Longrightarrow> mwf m"
  by (induction infos fs rule: fields_loop.induct) (auto split: if_splits sum.splits)

lemma validateStateSchema_wf: "validateStateSchema s = Inr m \<Longrightarrow> mwf m"
  by (auto simp: validateStateSchema_def Let_def dest: mget_fields_loop_wf split: if_splits schema.splits)

lemma configure_loop_keeps:
  "nodes (configure_loop g es) = nodes g" "edges (configure_loop g es) = edges g"
  "conditionalEdges (configure_loop g es) = conditionalEdges g" "branches (configure_loop g es) = branches g"
  "entryPoint (configure_loop g es) = entryPoint g" "finishPoints (configure_loop g es) = finishPoints g"
  by (induction g es rule: configure_loop.induct) (auto simp: Let_def split: option.splits)

lemma configure_loop_channels:
  "distinct (map fst es) \<Longrightarrow>
   mget (g_channels (configure_loop g es)) k =
     (case mget (g_channels g) k of Some ch \<Rightarrow> Some ch | None \<Rightarrow> map_option fi_Channel (map_of es k))"
proof (induction g es rule: configure_loop.induct)
  case (1 g)
  then show ?case by (simp split: option.splits)
next
  case (2 g f info es)
  have "map_of es f = None" using 2(2) by (simp add: map_of_eq_None_iff)
  then show ?case
    using 2 by (auto simp: Let_def mhas_mget split: option.splits)
qed

section \<open>Properties\<close>



text \<open>A successful \<open>Compile\<close> gives every field of the schema a channel: a channel added by hand is
  kept, the others are the ones made from the field type; nodes, edges and entry point do not
  change; and the trigger mode of the graph is the one of the options, \<open>AnyPredecessor\<close> without
  one, whatever \<open>SetNodeTriggerMode\<close> had set before.\<close>

theorem compile_effect:
  assumes "stateGraph_Compile ro g opts = Inr (cg, g')" and "validateStateSchema (stateSchema g) = Inr infos"
  shows "mget (g_channels g') k =
      (case mget (g_channels g) k of Some ch \<Rightarrow> Some ch | None \<Rightarrow> map_option fi_Channel (mget infos k)) \<and>
    nodes g' = nodes g \<and> edges g' = edges g \<and> entryPoint g' = entryPoint g \<and>
    nodeTriggerMode g' = cg_nodeTriggerMode cg \<and>
    (opts = [] \<longrightarrow> nodeTriggerMode g' = NodeTriggerAnyPredecessor)"
proof -
  have "g' = (configure_loop g infos)\<lparr>nodeTriggerMode := cg_nodeTriggerMode cg\<rparr>"
    and "opts = [] \<longrightarrow> cg_nodeTriggerMode cg = NodeTriggerAnyPredecessor"
    using assms
    by (auto simp: stateGraph_Compile_def stateGraph_configureChannelsFromSchema_def Let_def split: option.splits)
  then show ?thesis
    using configure_loop_channels [of infos g k] mwf_distinct [OF validateStateSchema_wf [OF assms(2)]]
    unfolding mget_def [of infos k] by (simp add: configure_loop_keeps)
qed

text \<open>A graph of two nodes for the witnesses.\<close>

definition sample_fn :: NodeFunc where
  "sample_fn step attempt state = Done state"

definition sample_graph :: stateGraph where
  "sample_graph =
     snd (stateGraph_AddEdge (snd (stateGraph_AddEdge (snd (stateGraph_AddEdge
       (stateGraph_AddNode (stateGraph_AddNode (NewStateGraph (SchemaMap True)) ''a'' (Some sample_fn)) ''b'' (Some sample_fn))
       Start ''a'')) ''a'' ''b'')) ''b'' End)"

lemma built_AddEdge: "built g \<Longrightarrow> built (snd (stateGraph_AddEdge g src to))"
  by (rule built.step, assumption, rule builder_step.add_edge) (rule prod.collapse [symmetric])

lemma built_AddNode: "built g \<Longrightarrow> built (stateGraph_AddNode g name fn)"
  by (rule built.step, assumption, rule builder_step.add_node)

lemma built_sample: "built sample_graph"
  unfolding sample_graph_def by (intro built_AddEdge built_AddNode built.new)

lemmas sample_graph_simps = sample_graph_def stateGraph_AddEdge_def stateGraph_AddNode_def NewStateGraph_def
  new_node_def mhas_def Start_def End_def Let_def



theorem compile_effect_witness:
  "nodeTriggerMode (snd (projr (stateGraph_Compile (\<lambda>ks. ks)
     (stateGraph_SetNodeTriggerMode (snd (stateGraph_AddEdge (NewStateGraph (SchemaMap True)) Start End)) NodeTriggerAllPredecessor) [])))
   = NodeTriggerAnyPredecessor"
proof -
  let ?g = "stateGraph_SetNodeTriggerMode (snd (stateGraph_AddEdge (NewStateGraph (SchemaMap True)) Start End)) NodeTriggerAllPredecessor"
  have "stateGraph_Validate (\<lambda>ks. ks) ?g = None"
    by (simp add: stateGraph_Validate_def stateGraph_SetNodeTriggerMode_def sample_graph_simps mkeys_def validateStateSchema_def)
  then obtain cg g' where run: "stateGraph_Compile (\<lambda>ks. ks) ?g [] = Inr (cg, g')"
    by (simp add: stateGraph_Compile_def stateGraph_configureChannelsFromSchema_def Let_def
        stateGraph_SetNodeTriggerMode_def sample_graph_simps validateStateSchema_def)
  have "validateStateSchema (stateSchema ?g) = Inr []"
    by (simp add: stateGraph_SetNodeTriggerMode_def sample_graph_simps validateStateSchema_def)
  from compile_effect [OF run this] have "nodeTriggerMode g' = NodeTriggerAnyPredecessor" by blast
  with run show ?thesis by simp
qed

text \<open>A node that only a branch leads to fails validation: the search for reachable nodes does not
  look at branches, although the engine schedules their targets.\<close>

theorem branch_target_rejected:
  "stateGraph_Validate (\<lambda>ks. ks)
     (snd (stateGraph_AddBranch (stateGraph_AddNode sample_graph ''c'' (Some sample_fn)) ''a''
       (\<lambda>v. (v, None)) (\<lambda>v. [''c'']))) =
   Some (ErrorNew ''node c is not reachable from entry point'')"
  by (simp add: stateGraph_Validate_def stateGraph_computeReachable_def stateGraph_AddBranch_def sample_graph_simps
      mkeys_def targets_def visit_def)

end
