(* ===== verification/Checkpoint.thy ===== *)
theory Checkpoint
  imports Config
begin

text \<open>
  The versioned checkpoint of \<open>checkpoint/checkpoint.go\<close>: its records, \<open>Clone\<close>, the version
  bookkeeping that decides which node has seen which channel, and the conversion to and from the
  map that is stored.  \<open>uuid.New\<close> and \<open>time.Now\<close> are arguments: the identifier and the time they
  return.  A time is its nanosecond count, 0 the zero time.  \<open>time.Format\<close> and \<open>time.Parse\<close> with
  the layout RFC3339Nano are the arguments \<open>Format\<close> and \<open>Parse\<close>.  The map fields of a checkpoint
  made by the constructors of the package are never nil; a nil custom-metadata map is only read,
  and is the empty map of the model.
\<close>

type_synonym gotime = int

record CheckpointMetadata =
  md_ID :: string
  md_ParentID :: string
  md_ThreadID :: string
  md_Step :: goint
  md_CreatedAt :: gotime
  md_Source :: string
  md_Metadata :: "gvalue gomap"

record PendingWrite =
  pw_Channel :: string
  pw_Value :: gvalue
  pw_Overwrite :: bool
  pw_Node :: string
  pw_Timestamp :: gotime
  pw_TaskID :: string

definition NewPendingWrite :: "gotime \<Rightarrow> string \<Rightarrow> gvalue \<Rightarrow> bool \<Rightarrow> string \<Rightarrow> string \<Rightarrow> PendingWrite" where
  "NewPendingWrite now channel value overwrite node taskID =
     \<lparr>pw_Channel = channel, pw_Value = value, pw_Overwrite = overwrite, pw_Node = node,
      pw_Timestamp = now, pw_TaskID = taskID\<rparr>"

record Checkpoint =
  cp_ID :: string
  cp_Version :: goint
  cp_ParentID :: string
  cp_ChannelVersions :: "goint gomap"
  cp_VersionsSeen :: "goint gomap gomap"
  cp_State :: "gvalue gomap"
  cp_PendingWrites :: "PendingWrite list"
  cp_Metadata :: CheckpointMetadata

definition NewCheckpoint :: "string \<Rightarrow> gotime \<Rightarrow> string \<Rightarrow> goint \<Rightarrow> Checkpoint" where
  "NewCheckpoint newID now threadID step =
     \<lparr>cp_ID = newID, cp_Version = 0, cp_ParentID = [], cp_ChannelVersions = [], cp_VersionsSeen = [],
      cp_State = [], cp_PendingWrites = [],
      cp_Metadata = \<lparr>md_ID = newID, md_ParentID = [], md_ThreadID = threadID, md_Step = step,
        md_CreatedAt = now, md_Source = ''node'', md_Metadata = []\<rparr>\<rparr>"

definition Checkpoint_Clone :: "string \<Rightarrow> gotime \<Rightarrow> Checkpoint \<Rightarrow> Checkpoint" where
  "Checkpoint_Clone newID now c =
     \<lparr>cp_ID = newID, cp_Version = cp_Version c, cp_ParentID = cp_ID c,
      cp_ChannelVersions = mputs [] (cp_ChannelVersions c),
      cp_VersionsSeen = mputs [] (mmap (\<lambda>versions. mputs [] versions) (cp_VersionsSeen c)),
      cp_State = mputs [] (mmap deepCopy (cp_State c)),
      cp_PendingWrites = map (\<lambda>pw. pw\<lparr>pw_Value := deepCopy (pw_Value pw)\<rparr>) (cp_PendingWrites c),
      cp_Metadata = \<lparr>md_ID = newID, md_ParentID = cp_ID c, md_ThreadID = md_ThreadID (cp_Metadata c),
        md_Step = md_Step (cp_Metadata c), md_CreatedAt = now, md_Source = md_Source (cp_Metadata c),
        md_Metadata = mputs [] (mmap deepCopy (md_Metadata (cp_Metadata c)))\<rparr>\<rparr>"

text \<open>Reading an absent key of a map of integers gives 0.\<close>

definition version_at :: "goint gomap \<Rightarrow> string \<Rightarrow> goint" where
  "version_at m k = (case mget m k of Some v \<Rightarrow> v | None \<Rightarrow> 0)"

definition Checkpoint_IncrementChannel :: "Checkpoint \<Rightarrow> string \<Rightarrow> Checkpoint" where
  "Checkpoint_IncrementChannel c channel =
     c\<lparr>cp_ChannelVersions := mput (cp_ChannelVersions c) channel (version_at (cp_ChannelVersions c) channel + 1)\<rparr>"

definition Checkpoint_MarkSeen :: "Checkpoint \<Rightarrow> string \<Rightarrow> string \<Rightarrow> Checkpoint" where
  "Checkpoint_MarkSeen c node channel =
     (let seen = (case mget (cp_VersionsSeen c) node of Some m \<Rightarrow> m | None \<Rightarrow> [])
      in c\<lparr>cp_VersionsSeen :=
        mput (cp_VersionsSeen c) node (mput seen channel (version_at (cp_ChannelVersions c) channel))\<rparr>)"

definition Checkpoint_HasSeen :: "Checkpoint \<Rightarrow> string \<Rightarrow> string \<Rightarrow> bool" where
  "Checkpoint_HasSeen c node channel =
     (case mget (cp_VersionsSeen c) node of
        Some versions \<Rightarrow>
          (case mget versions channel of
             Some version \<Rightarrow> version = version_at (cp_ChannelVersions c) channel | None \<Rightarrow> False)
      | None \<Rightarrow> False)"

definition Checkpoint_AddPendingWrite :: "Checkpoint \<Rightarrow> string \<Rightarrow> gvalue \<Rightarrow> bool \<Rightarrow> string \<Rightarrow> Checkpoint" where
  "Checkpoint_AddPendingWrite c channel value overwrite node =
     c\<lparr>cp_PendingWrites := cp_PendingWrites c @
       [\<lparr>pw_Channel = channel, pw_Value = value, pw_Overwrite = overwrite, pw_Node = node,
         pw_Timestamp = 0, pw_TaskID = []\<rparr>]\<rparr>"

definition Checkpoint_ClearPendingWrites :: "Checkpoint \<Rightarrow> Checkpoint" where
  "Checkpoint_ClearPendingWrites c = c\<lparr>cp_PendingWrites := []\<rparr>"

section \<open>The stored map\<close>

definition pending_map :: "PendingWrite \<Rightarrow> gvalue gomap" where
  "pending_map pw = mputs []
     [(''channel'', GString (pw_Channel pw)), (''value'', pw_Value pw),
      (''overwrite'', GBool (pw_Overwrite pw)), (''node'', GString (pw_Node pw))]"

definition metadata_map :: "(gotime \<Rightarrow> string) \<Rightarrow> CheckpointMetadata \<Rightarrow> gvalue gomap" where
  "metadata_map Format md = mputs (mputs []
     [(''id'', GString (md_ID md)), (''parent_id'', GString (md_ParentID md)),
      (''thread_id'', GString (md_ThreadID md)), (''step'', GInt (md_Step md)),
      (''created_at'', GString (Format (md_CreatedAt md))), (''source'', GString (md_Source md))])
     (md_Metadata md)"

definition Checkpoint_ToMap :: "(gotime \<Rightarrow> string) \<Rightarrow> Checkpoint \<Rightarrow> gvalue gomap" where
  "Checkpoint_ToMap Format c = mputs []
     [(''id'', GString (cp_ID c)), (''version'', GInt (cp_Version c)), (''parent_id'', GString (cp_ParentID c)),
      (''channel_versions'', GMapInt (mputs [] (cp_ChannelVersions c))),
      (''versions_seen'', GMapMapInt (mputs [] (mmap (\<lambda>versions. mputs [] versions) (cp_VersionsSeen c)))),
      (''state'', GMap (mputs [] (mmap deepCopy (cp_State c)))),
      (''pending_writes'', GSliceMap (map pending_map (cp_PendingWrites c))),
      (''metadata'', GMap (metadata_map Format (cp_Metadata c)))]"

definition getString :: "gvalue gomap \<Rightarrow> string \<Rightarrow> string" where
  "getString data key = (case mget data key of Some (GString s) \<Rightarrow> s | _ \<Rightarrow> [])"

definition getInt :: "gvalue gomap \<Rightarrow> string \<Rightarrow> goint \<Rightarrow> goint" where
  "getInt data key defaultVal = (case mget data key of Some (GFloat f) \<Rightarrow> goint_of_float f | _ \<Rightarrow> defaultVal)"

definition getBool :: "gvalue gomap \<Rightarrow> string \<Rightarrow> bool \<Rightarrow> bool" where
  "getBool data key defaultVal = (case mget data key of Some (GBool b) \<Rightarrow> b | _ \<Rightarrow> defaultVal)"

text \<open>The integers of a decoded object: the entries that are numbers.\<close>

definition numbers :: "gvalue gomap \<Rightarrow> goint gomap" where
  "numbers m = mputs [] (concat (map (\<lambda>e. case snd e of GFloat f \<Rightarrow> [(fst e, goint_of_float f)] | _ \<Rightarrow> []) m))"

definition pending_of :: "gvalue \<Rightarrow> PendingWrite list" where
  "pending_of v =
     (case v of
        GMap m \<Rightarrow> [\<lparr>pw_Channel = getString m ''channel'',
          pw_Value = (case mget m ''value'' of Some x \<Rightarrow> x | None \<Rightarrow> GNil),
          pw_Overwrite = getBool m ''overwrite'' False, pw_Node = getString m ''node'',
          pw_Timestamp = 0, pw_TaskID = []\<rparr>]
      | _ \<Rightarrow> [])"

definition metadata_keys :: "string list" where
  "metadata_keys = [''id'', ''parent_id'', ''thread_id'', ''step'', ''created_at'', ''source'']"

definition metadata_of :: "(string \<Rightarrow> gotime option) \<Rightarrow> gvalue gomap \<Rightarrow> CheckpointMetadata" where
  "metadata_of Parse md =
     \<lparr>md_ID = getString md ''id'', md_ParentID = getString md ''parent_id'',
      md_ThreadID = getString md ''thread_id'', md_Step = getInt md ''step'' 0,
      md_CreatedAt = (let s = getString md ''created_at''
        in if s \<noteq> [] then (case Parse s of Some t \<Rightarrow> t | None \<Rightarrow> 0) else 0),
      md_Source = getString md ''source'',
      md_Metadata = mputs [] (filter (\<lambda>e. fst e \<notin> set metadata_keys) md)\<rparr>"

definition zero_metadata :: CheckpointMetadata where
  "zero_metadata = \<lparr>md_ID = [], md_ParentID = [], md_ThreadID = [], md_Step = 0, md_CreatedAt = 0,
     md_Source = [], md_Metadata = []\<rparr>"

definition FromMap :: "(string \<Rightarrow> gotime option) \<Rightarrow> gvalue gomap \<Rightarrow> gerror + Checkpoint" where
  "FromMap Parse data = Inr
     \<lparr>cp_ID = getString data ''id'',
      cp_Version = getInt data ''version'' 0,
      cp_ParentID = getString data ''parent_id'',
      cp_ChannelVersions = (case mget data ''channel_versions'' of Some (GMap cv) \<Rightarrow> numbers cv | _ \<Rightarrow> []),
      cp_VersionsSeen =
        (case mget data ''versions_seen'' of
           Some (GMap vs) \<Rightarrow>
             mputs [] (concat (map (\<lambda>e. case snd e of GMap vm \<Rightarrow> [(fst e, numbers vm)] | _ \<Rightarrow> []) vs))
         | _ \<Rightarrow> []),
      cp_State = (case mget data ''state'' of Some (GMap st) \<Rightarrow> mputs [] (mmap deepCopy st) | _ \<Rightarrow> []),
      cp_PendingWrites =
        (case mget data ''pending_writes'' of Some (GSlice pws) \<Rightarrow> concat (map pending_of pws) | _ \<Rightarrow> []),
      cp_Metadata = (case mget data ''metadata'' of Some (GMap md) \<Rightarrow> metadata_of Parse md | _ \<Rightarrow> zero_metadata)\<rparr>"

section \<open>Which versions a node has seen\<close>

lemma HasSeen_MarkSeen:
  "Checkpoint_HasSeen (Checkpoint_MarkSeen c n ch) n' ch' \<longleftrightarrow>
     n' = n \<and> ch' = ch \<or> Checkpoint_HasSeen c n' ch'"
  by (auto simp: Checkpoint_HasSeen_def Checkpoint_MarkSeen_def Let_def split: option.splits)

lemma HasSeen_IncrementChannel_other:
  "ch' \<noteq> ch \<Longrightarrow> Checkpoint_HasSeen (Checkpoint_IncrementChannel c ch) n ch' = Checkpoint_HasSeen c n ch'"
  by (auto simp: Checkpoint_HasSeen_def Checkpoint_IncrementChannel_def version_at_def split: option.splits)

lemma HasSeen_IncrementChannel_same:
  "Checkpoint_HasSeen c n ch \<Longrightarrow> \<not> Checkpoint_HasSeen (Checkpoint_IncrementChannel c ch) n ch"
  by (auto simp: Checkpoint_HasSeen_def Checkpoint_IncrementChannel_def version_at_def split: option.splits)

section \<open>Storing and reading back\<close>

text \<open>What a checkpoint must hold for the stored form to be exact.\<close>

definition small :: "goint \<Rightarrow> bool" where
  "small i \<longleftrightarrow> \<bar>sint i\<bar> < 2 ^ 53"

definition doc_map :: "gvalue gomap \<Rightarrow> bool" where
  "doc_map m \<longleftrightarrow> ascii_map m \<and> list_all (\<lambda>e. json_doc (snd e)) m"

definition versions_ok :: "goint gomap \<Rightarrow> bool" where
  "versions_ok m \<longleftrightarrow> ascii_map m \<and> list_all (\<lambda>e. small (snd e)) m"

definition pending_ok :: "PendingWrite \<Rightarrow> bool" where
  "pending_ok pw \<longleftrightarrow> ascii (pw_Channel pw) \<and> ascii (pw_Node pw) \<and> json_doc (pw_Value pw)"

definition metadata_ok :: "CheckpointMetadata \<Rightarrow> bool" where
  "metadata_ok md \<longleftrightarrow> ascii (md_ID md) \<and> ascii (md_ParentID md) \<and> ascii (md_ThreadID md) \<and>
     ascii (md_Source md) \<and> small (md_Step md) \<and> doc_map (md_Metadata md) \<and>
     list_all (\<lambda>k. \<not> mhas (md_Metadata md) k) metadata_keys"

definition storable :: "Checkpoint \<Rightarrow> bool" where
  "storable c \<longleftrightarrow> ascii (cp_ID c) \<and> ascii (cp_ParentID c) \<and> small (cp_Version c) \<and>
     versions_ok (cp_ChannelVersions c) \<and> ascii_map (cp_VersionsSeen c) \<and>
     list_all (\<lambda>e. versions_ok (snd e)) (cp_VersionsSeen c) \<and> doc_map (cp_State c) \<and>
     list_all pending_ok (cp_PendingWrites c) \<and> metadata_ok (cp_Metadata c)"

lemma ascii_map_mwf: "ascii_map m \<Longrightarrow> mwf m"
  by (simp add: ascii_map_def)

lemma doc_map_deepCopy: "doc_map m \<Longrightarrow> mmap deepCopy m = m"
  by (rule mmap_cong_id) (auto simp: doc_map_def list_all_iff deepCopy_doc)

lemma json_object_ints:
  "ascii_map m \<Longrightarrow> json_object (map (map_prod id f) m) = GMap (mmap f m)"
  by (simp add: map_prod_mmap json_object_ascii)

lemma concat_mmap_id: "(\<And>e. e \<in> set m \<Longrightarrow> g (fst e, f (snd e)) = [e]) \<Longrightarrow> concat (map g (mmap f m)) = m"
  by (induction m) (auto simp: mmap_def)

lemma numbers_floats:
  assumes "versions_ok m"
  shows "numbers (mmap (\<lambda>i. GFloat (float_of_goint i)) m) = m"
proof -
  have "concat (map (\<lambda>e. case snd e of GFloat f \<Rightarrow> [(fst e, goint_of_float f)] | _ \<Rightarrow> [])
      (mmap (\<lambda>i. GFloat (float_of_goint i)) m)) = m"
    using assms by (intro concat_mmap_id) (auto simp: versions_ok_def small_def list_all_iff goint_float_roundtrip)
  then show ?thesis
    using assms by (simp add: numbers_def mputs_Nil_sorted versions_ok_def ascii_map_def)
qed

lemma seen_floats:
  assumes "ascii_map m" and "list_all (\<lambda>e. versions_ok (snd e)) m"
  shows "concat (map (\<lambda>e. case snd e of GMap vm \<Rightarrow> [(fst e, numbers vm)] | _ \<Rightarrow> [])
           (mmap (\<lambda>n. json_object (map (map_prod id (\<lambda>i. GFloat (float_of_goint i))) n)) m)) = m"
  using assms(2)
  by (intro concat_mmap_id) (auto simp: list_all_iff json_object_ints numbers_floats versions_ok_def)

lemma mmap_same_mputs: "list_all (\<lambda>e. mwf (snd e)) m \<Longrightarrow> mmap (\<lambda>v. mputs [] v) m = m"
  by (rule mmap_cong_id) (auto simp: list_all_iff mputs_Nil_sorted)

text \<open>A pending write after marshalling.\<close>

definition stored_pending :: "PendingWrite \<Rightarrow> gvalue" where
  "stored_pending pw = json_object (map (map_prod id the) (map (map_prod id json_roundtrip) (pending_map pw)))"

lemma pending_of_stored:
  assumes "pending_ok pw"
  shows "pending_of (stored_pending pw) =
    [pw\<lparr>pw_Timestamp := 0, pw_TaskID := []\<rparr>]"
  using assms
  by (simp add: stored_pending_def pending_map_def pending_ok_def json_object_ascii ascii_map_def mwf_def utf8_fix_ascii
      json_roundtrip_doc pending_of_def getString_def getBool_def mget_Cons)

lemma pending_all_marshalled:
  "list_all pending_ok pws \<Longrightarrow>
   list_all (list_all (\<lambda>e. snd e \<noteq> None)) (map (map (map_prod id json_roundtrip)) (map pending_map pws))"
  by (auto simp: list_all_iff pending_map_def pending_ok_def json_roundtrip_doc)

lemma concat_pending_stored:
  assumes "list_all pending_ok pws"
  shows "concat (map (\<lambda>pw. pending_of (stored_pending pw)) pws)
     = map (\<lambda>pw. pw\<lparr>pw_Timestamp := 0, pw_TaskID := []\<rparr>) pws"
proof -
  have "map (\<lambda>pw. pending_of (stored_pending pw)) pws
      = map (\<lambda>pw. [pw\<lparr>pw_Timestamp := 0, pw_TaskID := []\<rparr>]) pws"
    using assms by (intro map_cong refl pending_of_stored) (simp add: list_all_iff)
  also have "concat \<dots> = map (\<lambda>pw. pw\<lparr>pw_Timestamp := 0, pw_TaskID := []\<rparr>) pws" by simp
  finally show ?thesis .
qed

lemma mget_metadata_map:
  assumes "mwf (md_Metadata md)"
  shows "mget (metadata_map Format md) k =
    (case mget (md_Metadata md) k of Some v \<Rightarrow> Some v
     | None \<Rightarrow> map_of [(''id'', GString (md_ID md)), (''parent_id'', GString (md_ParentID md)),
      (''thread_id'', GString (md_ThreadID md)), (''step'', GInt (md_Step md)),
      (''created_at'', GString (Format (md_CreatedAt md))), (''source'', GString (md_Source md))] k)"
  unfolding metadata_map_def mget_mputs [of _ "md_Metadata md"]
  by (simp add: map_of_rev_distinct [OF assms] mget_Cons split: option.splits)

lemma metadata_of_stored:
  assumes ok: "metadata_ok md"
    and time: "ascii (Format (md_CreatedAt md))" "Format (md_CreatedAt md) \<noteq> []"
      "Parse (Format (md_CreatedAt md)) = Some (md_CreatedAt md)"
  shows "metadata_of Parse (mmap deepCopy (metadata_map Format md)) = md"
proof -
  have wf: "mwf (md_Metadata md)" and doc: "mmap deepCopy (md_Metadata md) = md_Metadata md"
    and none: "\<And>k. k \<in> set metadata_keys \<Longrightarrow> mget (md_Metadata md) k = None"
    using ok by (auto simp: metadata_ok_def doc_map_def ascii_map_def list_all_iff mhas_mget doc_map_deepCopy)
  let ?m = "mmap deepCopy (metadata_map Format md)"
  have wfm: "mwf ?m" by (simp add: metadata_map_def mwf_mputs del: mputs.simps)
  have custom: "mputs [] (filter (\<lambda>e. fst e \<notin> set metadata_keys) ?m) = md_Metadata md"
  proof (rule mwf_ext)
    show "mwf (mputs [] (filter (\<lambda>e. fst e \<notin> set metadata_keys) ?m))" by (simp add: mwf_mputs)
    fix k
    have "map_option deepCopy (mget (md_Metadata md) k) = mget (md_Metadata md) k"
      using mget_mmap [of deepCopy "md_Metadata md" k] doc by simp
    moreover have "map_of [(''id'', GString (md_ID md)), (''parent_id'', GString (md_ParentID md)),
      (''thread_id'', GString (md_ThreadID md)), (''step'', GInt (md_Step md)),
      (''created_at'', GString (Format (md_CreatedAt md))), (''source'', GString (md_Source md))] k = None"
      if "k \<notin> set metadata_keys" using that by (simp add: metadata_keys_def)
    ultimately show "mget (mputs [] (filter (\<lambda>e. fst e \<notin> set metadata_keys) ?m)) k = mget (md_Metadata md) k"
      using none [of k]
      by (cases "mget (md_Metadata md) k")
        (auto simp: mputs_Nil_sorted mwf_filter [OF wfm] mget_filter_key [where P = "\<lambda>k. k \<notin> set metadata_keys"]
          mget_metadata_map [OF wf] simp del: map_of.simps map_of_Cons_code)
  qed (rule wf)
  have "mget ?m k = map_option deepCopy (map_of [(''id'', GString (md_ID md)), (''parent_id'', GString (md_ParentID md)),
      (''thread_id'', GString (md_ThreadID md)), (''step'', GInt (md_Step md)),
      (''created_at'', GString (Format (md_CreatedAt md))), (''source'', GString (md_Source md))] k)"
    if "k \<in> set metadata_keys" for k
    using none [OF that] by (simp add: mget_metadata_map [OF wf])
  then show ?thesis
    unfolding metadata_of_def custom
    using ok time
    by (simp add: getString_def getInt_def metadata_keys_def metadata_ok_def utf8_fix_ascii small_def
        goint_float_roundtrip)
qed

lemma mget_ToMap:
  "mget (Checkpoint_ToMap Format c) k = map_of
     [(''id'', GString (cp_ID c)), (''version'', GInt (cp_Version c)), (''parent_id'', GString (cp_ParentID c)),
      (''channel_versions'', GMapInt (mputs [] (cp_ChannelVersions c))),
      (''versions_seen'', GMapMapInt (mputs [] (mmap (\<lambda>versions. mputs [] versions) (cp_VersionsSeen c)))),
      (''state'', GMap (mputs [] (mmap deepCopy (cp_State c)))),
      (''pending_writes'', GSliceMap (map pending_map (cp_PendingWrites c))),
      (''metadata'', GMap (metadata_map Format (cp_Metadata c)))] k"
  by (simp add: Checkpoint_ToMap_def mget_mputs del: mputs.simps)

lemma json_pending:
  assumes "list_all pending_ok pws"
  shows "deepCopy (GSliceMap (map pending_map pws)) =
    GSlice (map (\<lambda>pw. stored_pending pw) pws)"
  using pending_all_marshalled [OF assms] by (simp add: Let_def o_def stored_pending_def)

lemma stored_maps:
  assumes "storable c"
  shows "mputs [] (cp_ChannelVersions c) = cp_ChannelVersions c"
    and "mputs [] (mmap (\<lambda>versions. mputs [] versions) (cp_VersionsSeen c)) = cp_VersionsSeen c"
    and "mmap deepCopy (cp_State c) = cp_State c"
    and "mputs [] (cp_State c) = cp_State c"
    and "mputs [] (cp_VersionsSeen c) = cp_VersionsSeen c"
proof -
  have wf: "mwf (cp_ChannelVersions c)" "mwf (cp_VersionsSeen c)" "mwf (cp_State c)"
    "list_all (\<lambda>e. mwf (snd e)) (cp_VersionsSeen c)"
    using assms by (auto simp: storable_def versions_ok_def doc_map_def ascii_map_def list_all_iff)
  then show "mputs [] (cp_ChannelVersions c) = cp_ChannelVersions c"
    and "mputs [] (mmap (\<lambda>versions. mputs [] versions) (cp_VersionsSeen c)) = cp_VersionsSeen c"
    and "mputs [] (cp_State c) = cp_State c" and "mputs [] (cp_VersionsSeen c) = cp_VersionsSeen c"
    by (simp_all add: mmap_same_mputs mputs_Nil_sorted)
  show "mmap deepCopy (cp_State c) = cp_State c"
    using assms by (simp add: storable_def doc_map_deepCopy)
qed

lemma FromMap_stored:
  assumes c: "storable c"
    and time: "ascii (Format (md_CreatedAt (cp_Metadata c)))" "Format (md_CreatedAt (cp_Metadata c)) \<noteq> []"
      "Parse (Format (md_CreatedAt (cp_Metadata c))) = Some (md_CreatedAt (cp_Metadata c))"
  shows "FromMap Parse (deepCopyMap (Checkpoint_ToMap Format c)) =
    Inr (c\<lparr>cp_PendingWrites := map (\<lambda>pw. pw\<lparr>pw_Timestamp := 0, pw_TaskID := []\<rparr>) (cp_PendingWrites c)\<rparr>)"
proof -
  have ok: "versions_ok (cp_ChannelVersions c)" "ascii_map (cp_VersionsSeen c)"
      "list_all (\<lambda>e. versions_ok (snd e)) (cp_VersionsSeen c)" "list_all pending_ok (cp_PendingWrites c)"
      "metadata_ok (cp_Metadata c)" "ascii (cp_ID c)" "ascii (cp_ParentID c)" "small (cp_Version c)"
    using c by (auto simp: storable_def)
  note maps = stored_maps [OF c]
  have ids: "deepCopy (GString (cp_ID c)) = GString (cp_ID c)" "deepCopy (GString (cp_ParentID c)) = GString (cp_ParentID c)"
    using ok(6,7) by (simp_all add: utf8_fix_ascii)
  have ver: "goint_of_float (float_of_goint (cp_Version c)) = cp_Version c"
    using ok(8) by (simp add: small_def goint_float_roundtrip)
  have pend: "concat (map (pending_of \<circ> (\<lambda>pw. stored_pending pw))
      (cp_PendingWrites c)) = map (\<lambda>pw. pw\<lparr>pw_Timestamp := 0, pw_TaskID := []\<rparr>) (cp_PendingWrites c)"
    using concat_pending_stored [OF ok(4)] by (simp only: o_def)
  have meta: "metadata_of Parse (mmap deepCopy (metadata_map Format (cp_Metadata c))) = cp_Metadata c"
    using metadata_of_stored [where Format = Format and Parse = Parse, OF ok(5) time] .
  have cv: "deepCopy (GMapInt (cp_ChannelVersions c)) = GMap (mmap (\<lambda>i. GFloat (float_of_goint i)) (cp_ChannelVersions c))"
    using ok(1) by (simp add: json_object_ints versions_ok_def)
  have vs: "deepCopy (GMapMapInt (cp_VersionsSeen c)) =
      GMap (mmap (\<lambda>n. json_object (map (map_prod id (\<lambda>i. GFloat (float_of_goint i))) n)) (cp_VersionsSeen c))"
    using ok(2) by (simp add: json_object_ints)
  show ?thesis
    unfolding FromMap_def getString_def getInt_def mget_deepCopyMap mget_ToMap
    by (simp add: maps cv vs json_pending [OF ok(4)] deepCopy_GMap numbers_floats [OF ok(1)]
        seen_floats [OF ok(2,3)] pend meta ids ver del: deepCopy.simps(8-17))
qed

text \<open>The stored map of such a checkpoint is a JSON document: further deep copies do not change it.\<close>

lemma json_number_small: "small i \<Longrightarrow> json_number (float_of_goint i) \<noteq> None"
proof -
  assume "small i"
  then have "f_trunc (float_of_goint i) = Some (sint i)"
    by (simp add: small_def float_of_goint_def f_trunc_f_of_int)
  then show ?thesis by (cases "float_of_goint i") auto
qed

lemma json_doc_mmap: "json_doc (GMap (mmap f m)) \<longleftrightarrow> ascii_map m \<and> (\<forall>e\<in>set m. json_doc (f (snd e)))"
proof -
  have "(\<forall>e\<in>set (mmap f m). json_doc (snd e)) \<longleftrightarrow> (\<forall>e\<in>set m. json_doc (f (snd e)))"
    by (auto simp: mmap_def)
  then show ?thesis by (simp add: json_doc_GMap)
qed

lemma doc_GString: "ascii s \<Longrightarrow> json_doc (deepCopy (GString s))"
  by (simp add: utf8_fix_ascii)

lemma doc_GInt: "small i \<Longrightarrow> json_doc (deepCopy (GInt i))"
  using json_number_small [of i] by simp

lemma doc_ints:
  assumes "versions_ok m"
  shows "json_doc (json_object (map (map_prod id (\<lambda>i. GFloat (float_of_goint i))) m))"
  using assms json_number_small
  by (auto simp: json_object_ints versions_ok_def json_doc_mmap list_all_iff)

lemma doc_metadata:
  assumes ok: "metadata_ok md" and time: "ascii (Format (md_CreatedAt md))"
  shows "json_doc (GMap (mmap deepCopy (metadata_map Format md)))"
proof -
  have wf: "mwf (md_Metadata md)" and m: "doc_map (md_Metadata md)"
    using ok by (auto simp: metadata_ok_def doc_map_def ascii_map_def)
  have "ascii k \<and> json_doc (deepCopy v)" if "mget (metadata_map Format md) k = Some v" for k v
  proof (cases "mget (md_Metadata md) k")
    case (Some w)
    then have "(k, w) \<in> set (md_Metadata md)" and "v = w"
      using that by (simp_all add: mget_SomeD mget_metadata_map [OF wf])
    then show ?thesis using m by (force simp: doc_map_def ascii_map_def list_all_iff deepCopy_doc)
  next
    case None
    with that have "(k, v) \<in> set [(''id'', GString (md_ID md)), (''parent_id'', GString (md_ParentID md)),
      (''thread_id'', GString (md_ThreadID md)), (''step'', GInt (md_Step md)),
      (''created_at'', GString (Format (md_CreatedAt md))), (''source'', GString (md_Source md))]"
      by (simp only: mget_metadata_map [OF wf] option.case map_of_SomeD)
    then show ?thesis
      using ok time by (auto simp: metadata_ok_def doc_GString doc_GInt simp del: deepCopy.simps)
  qed
  moreover have "mwf (metadata_map Format md)"
    by (simp add: metadata_map_def mwf_mputs del: mputs.simps)
  ultimately show ?thesis
    by (auto simp: json_doc_mmap ascii_map_def list_all_iff mget_mem)
qed

lemma doc_pending:
  assumes "list_all pending_ok pws"
  shows "json_doc (deepCopy (GSliceMap (map pending_map pws)))"
proof -
  have "json_doc (stored_pending pw)" if "pending_ok pw" for pw
    using that
    by (simp add: stored_pending_def pending_map_def pending_ok_def json_object_ascii ascii_map_def mwf_def utf8_fix_ascii
        json_roundtrip_doc json_doc_GMap)
  then show ?thesis
    using assms by (simp add: json_pending [OF assms] json_doc_GSlice list_all_iff del: deepCopy.simps)
qed

lemma doc_ToMap:
  assumes c: "storable c" and time: "ascii (Format (md_CreatedAt (cp_Metadata c)))"
  shows "doc_map (deepCopyMap (Checkpoint_ToMap Format c))"
proof -
  have ok: "versions_ok (cp_ChannelVersions c)" "ascii_map (cp_VersionsSeen c)"
      "list_all (\<lambda>e. versions_ok (snd e)) (cp_VersionsSeen c)" "list_all pending_ok (cp_PendingWrites c)"
      "metadata_ok (cp_Metadata c)" "ascii (cp_ID c)" "ascii (cp_ParentID c)" "small (cp_Version c)" "doc_map (cp_State c)"
    using c by (auto simp: storable_def)
  have "json_doc (json_object (map (map_prod id (\<lambda>n. json_object (map (map_prod id (\<lambda>i. GFloat (float_of_goint i))) n)))
      (cp_VersionsSeen c)))"
    using ok(2,3) doc_ints by (auto simp: json_object_ints json_doc_mmap list_all_iff)
  then have parts: "json_doc (deepCopy (GMapMapInt (cp_VersionsSeen c)))" "json_doc (deepCopy (GMapInt (cp_ChannelVersions c)))"
      "json_doc (GMap (cp_State c))"
    using doc_ints [OF ok(1)] ok(9) by (auto simp: json_doc_GMap doc_map_def list_all_iff)
  have "ascii k \<and> json_doc (deepCopy v)" if "mget (Checkpoint_ToMap Format c) k = Some v" for k v
    using map_of_SomeD [OF that [unfolded mget_ToMap]] ok parts doc_pending [OF ok(4)] doc_metadata [where Format = Format, OF ok(5) time]
    by (auto simp: stored_maps [OF c] doc_GString doc_GInt deepCopy_GMap simp del: deepCopy.simps)
  moreover have "mwf (Checkpoint_ToMap Format c)"
    by (simp add: Checkpoint_ToMap_def mwf_mputs del: mputs.simps)
  ultimately show ?thesis
    using json_doc_mmap [of deepCopy "Checkpoint_ToMap Format c"]
    by (auto simp: doc_map_def json_doc_GMap deepCopyMap_def ascii_map_def list_all_iff mget_mem)
qed

end
