(* ===== verification/CheckpointManager.thy ===== *)
theory CheckpointManager
  imports Checkpoint
begin

text \<open>
  \<open>CheckpointManager\<close> of \<open>checkpoint/checkpoint.go\<close>: the history of checkpoints of every thread,
  with conflict detection.  Every method holds the manager's lock for its whole body, so it is one
  step.  \<open>fresh i\<close> is the identifier and the time of the \<open>i\<close>-th \<open>Clone\<close> of a call.  The manager
  keeps the pointer that \<open>Save\<close> is given; the model takes it that the caller does not change the
  checkpoint afterwards.  Metadata of tuples holds values and one time, \<open>meta_value\<close>.
\<close>

datatype meta_value = MValue gvalue | MTime gotime

record CheckpointTuple =
  ct_Config :: RunnableConfig
  ct_Checkpoint :: "Checkpoint option"
  ct_ParentConfig :: "RunnableConfig option"
  ct_Metadata :: "meta_value gomap"

definition NewCheckpointTuple ::
    "RunnableConfig option \<Rightarrow> Checkpoint option \<Rightarrow> RunnableConfig option \<Rightarrow> CheckpointTuple" where
  "NewCheckpointTuple config checkpoint parentConfig =
     \<lparr>ct_Config = (case config of None \<Rightarrow> NewRunnableConfig | Some c \<Rightarrow> c),
      ct_Checkpoint = checkpoint, ct_ParentConfig = parentConfig,
      ct_Metadata =
        (case checkpoint of None \<Rightarrow> []
         | Some c \<Rightarrow> mputs []
             [(''id'', MValue (GString (cp_ID c))), (''version'', MValue (GInt (cp_Version c))),
              (''thread_id'', MValue (GString (md_ThreadID (cp_Metadata c)))),
              (''step'', MValue (GInt (md_Step (cp_Metadata c)))),
              (''source'', MValue (GString (md_Source (cp_Metadata c)))),
              (''created_at'', MTime (md_CreatedAt (cp_Metadata c)))])\<rparr>"

record CheckpointManager =
  cm_checkpoints :: "Checkpoint list gomap"
  cm_maxVersions :: goint

definition DefaultCheckpointMaxVersions :: goint where
  "DefaultCheckpointMaxVersions = 100"

definition NewCheckpointManager :: "goint \<Rightarrow> CheckpointManager" where
  "NewCheckpointManager maxVersions =
     \<lparr>cm_checkpoints = [],
      cm_maxVersions = (if sint maxVersions \<le> 0 then DefaultCheckpointMaxVersions else maxVersions)\<rparr>"

definition RunnableConfigToMap :: "RunnableConfig option \<Rightarrow> gvalue gomap" where
  "RunnableConfigToMap cfg =
     (case cfg of None \<Rightarrow> []
      | Some c \<Rightarrow> mputs []
          [(''thread_id'', GString (rc_ThreadID c)),
           (''checkpoint_id'', GString (RunnableConfig_GetOrEmpty c ''checkpoint_id'')),
           (''checkpoint_ns'', GString (RunnableConfig_GetOrEmpty c ''checkpoint_ns''))])"

text \<open>\<open>cm.checkpoints[threadID]\<close>: the nil slice when the thread is unknown.\<close>

definition history :: "CheckpointManager \<Rightarrow> string \<Rightarrow> Checkpoint list" where
  "history cm threadID = (case mget (cm_checkpoints cm) threadID of Some cs \<Rightarrow> cs | None \<Rightarrow> [])"

definition save_conflict :: "Checkpoint \<Rightarrow> Checkpoint \<Rightarrow> bool" where
  "save_conflict latest checkpoint \<longleftrightarrow>
     (cp_ParentID checkpoint \<noteq> [] \<and> cp_ID latest \<noteq> cp_ParentID checkpoint) \<or>
     (sint (cp_Version checkpoint) > 0 \<and> cp_Version latest \<noteq> cp_Version checkpoint - 1)"

definition trim_versions :: "goint \<Rightarrow> Checkpoint list \<Rightarrow> Checkpoint list" where
  "trim_versions maxVersions cs =
     (if int (length cs) > sint maxVersions then drop (nat (int (length cs) - sint maxVersions)) cs else cs)"

definition CheckpointManager_Save ::
    "CheckpointManager \<Rightarrow> Checkpoint \<Rightarrow> gerror option \<times> CheckpointManager" where
  "CheckpointManager_Save cm checkpoint =
     (let threadID = md_ThreadID (cp_Metadata checkpoint);
          cs = history cm threadID
      in if cs \<noteq> [] \<and> save_conflict (last cs) checkpoint
         then (Some (VersionConflictError (cp_Version checkpoint) (cp_Version (last cs) + 1)
                 (cp_ID checkpoint) threadID), cm)
         else (None, cm\<lparr>cm_checkpoints :=
                 mput (cm_checkpoints cm) threadID (trim_versions (cm_maxVersions cm) (cs @ [checkpoint]))\<rparr>))"

fun apply_pending :: "Checkpoint \<Rightarrow> PendingWrite list \<Rightarrow> Checkpoint" where
  "apply_pending c [] = c"
| "apply_pending c (w # ws) =
     apply_pending
       (Checkpoint_IncrementChannel (c\<lparr>cp_State := mput (cp_State c) (pw_Channel w) (pw_Value w)\<rparr>) (pw_Channel w)) ws"

definition CheckpointManager_PutWrites ::
    "(nat \<Rightarrow> string \<times> gotime) \<Rightarrow> CheckpointManager \<Rightarrow> RunnableConfig \<Rightarrow> PendingWrite list \<Rightarrow> string \<Rightarrow>
     gerror option \<times> CheckpointManager" where
  "CheckpointManager_PutWrites fresh cm config writes taskID =
     (let threadID = rc_ThreadID config in
      if threadID = [] then (Some (ErrorNew ''thread ID is required for put_writes''), cm)
      else
        let cs = history cm threadID in
        if cs = [] then (Some (ErrorNew (''no checkpoint found for thread '' @ threadID)), cm)
        else
          let current = last cs; callerID = RunnableConfig_GetOrEmpty config ''checkpoint_id'' in
          if callerID = [] then (Some (ErrorNew (''checkpoint_id is required for put_writes on thread '' @ threadID)), cm)
          else if callerID \<noteq> cp_ID current
          then (Some (VersionConflictError (cp_Version current) (cp_Version current + 1) (cp_ID current) threadID), cm)
          else
            let new = (Checkpoint_Clone (fst (fresh 0)) (snd (fresh 0)) current)
                        \<lparr>cp_Version := cp_Version current + 1, cp_ParentID := cp_ID current\<rparr>
            in (None, cm\<lparr>cm_checkpoints := mput (cm_checkpoints cm) threadID (cs @ [apply_pending new writes])\<rparr>))"

text \<open>\<open>Load\<close>: \<open>None\<close> is the nil checkpoint.\<close>

definition CheckpointManager_Load ::
    "(nat \<Rightarrow> string \<times> gotime) \<Rightarrow> CheckpointManager \<Rightarrow> string \<Rightarrow> Checkpoint option" where
  "CheckpointManager_Load fresh cm threadID =
     (let cs = history cm threadID
      in if cs = [] then None else Some (Checkpoint_Clone (fst (fresh 0)) (snd (fresh 0)) (last cs)))"

definition find_by_ID :: "string \<Rightarrow> Checkpoint list \<Rightarrow> Checkpoint option" where
  "find_by_ID checkpointID cs = find (\<lambda>cp. cp_ID cp = checkpointID) cs"

definition CheckpointManager_LoadByCheckpointID ::
    "(string list \<Rightarrow> string list) \<Rightarrow> (nat \<Rightarrow> string \<times> gotime) \<Rightarrow> CheckpointManager \<Rightarrow> string \<Rightarrow> gerror + Checkpoint" where
  "CheckpointManager_LoadByCheckpointID ro fresh cm checkpointID =
     (case find_by_ID checkpointID (concat (map snd (range_entries ro (cm_checkpoints cm)))) of
        Some cp \<Rightarrow> Inr (Checkpoint_Clone (fst (fresh 0)) (snd (fresh 0)) cp)
      | None \<Rightarrow> Inl (ErrorNew (''checkpoint not found: '' @ checkpointID)))"

text \<open>The slots \<open>start, \<dots>, len - 1\<close> of a history, where \<open>start = len - limit\<close>.\<close>

definition list_limit :: "goint \<Rightarrow> nat \<Rightarrow> nat" where
  "list_limit limit len = (if sint limit \<le> 0 \<or> sint limit > int len then len else nat (sint limit))"

definition CheckpointManager_List ::
    "(nat \<Rightarrow> string \<times> gotime) \<Rightarrow> CheckpointManager \<Rightarrow> string \<Rightarrow> goint \<Rightarrow> Checkpoint list" where
  "CheckpointManager_List fresh cm threadID limit =
     (let cs = history cm threadID; n = list_limit limit (length cs); start = length cs - n
      in map (\<lambda>i. Checkpoint_Clone (fst (fresh i)) (snd (fresh i)) (cs ! (start + i))) [0..<n])"

definition parent_config :: "string \<Rightarrow> string \<Rightarrow> RunnableConfig" where
  "parent_config threadID checkpointID =
     RunnableConfig_Set (NewRunnableConfig\<lparr>rc_ThreadID := threadID\<rparr>) ''checkpoint_id'' (GString checkpointID)"

definition CheckpointManager_GetTuple ::
    "(nat \<Rightarrow> string \<times> gotime) \<Rightarrow> CheckpointManager \<Rightarrow> RunnableConfig \<Rightarrow> gerror + CheckpointTuple" where
  "CheckpointManager_GetTuple fresh cm config =
     (let threadID = rc_ThreadID config in
      if threadID = [] then Inl (ErrorNew ''thread ID is required'')
      else
        let cs = history cm threadID in
        if cs = [] then Inr (NewCheckpointTuple (Some config) None None)
        else
          let latest = Checkpoint_Clone (fst (fresh 0)) (snd (fresh 0)) (last cs);
              parent = (if length cs > 1
                then Some (Checkpoint_Clone (fst (fresh 1)) (snd (fresh 1)) (cs ! (length cs - 2))) else None)
          in Inr (NewCheckpointTuple (Some config) (Some latest)
               (map_option (\<lambda>p. parent_config threadID (cp_ID p)) parent)))"

text \<open>The first slot with the given version.\<close>

fun find_version :: "goint \<Rightarrow> Checkpoint list \<Rightarrow> nat option" where
  "find_version version [] = None"
| "find_version version (cp # cs) =
     (if cp_Version cp = version then Some 0 else map_option Suc (find_version version cs))"

definition CheckpointManager_GetTupleByVersion ::
    "(nat \<Rightarrow> string \<times> gotime) \<Rightarrow> CheckpointManager \<Rightarrow> RunnableConfig \<Rightarrow> goint \<Rightarrow> gerror + CheckpointTuple" where
  "CheckpointManager_GetTupleByVersion fresh cm config version =
     (let threadID = rc_ThreadID config in
      if threadID = [] then Inl (ErrorNew ''thread ID is required'')
      else
        let cs = history cm threadID in
        case find_version version cs of
          None \<Rightarrow> Inl (ErrorNew (''version not found: '' @ goint_digits version))
        | Some i \<Rightarrow>
            let target = Checkpoint_Clone (fst (fresh 0)) (snd (fresh 0)) (cs ! i);
                parent = (if i > 0 then Some (Checkpoint_Clone (fst (fresh 1)) (snd (fresh 1)) (cs ! (i - 1))) else None)
            in Inr (NewCheckpointTuple (Some config) (Some target)
                 (map_option (\<lambda>p. parent_config threadID (cp_ID p)) parent)))"

definition CheckpointManager_GetLineage ::
    "(nat \<Rightarrow> string \<times> gotime) \<Rightarrow> CheckpointManager \<Rightarrow> string \<Rightarrow> goint \<Rightarrow> CheckpointTuple list" where
  "CheckpointManager_GetLineage fresh cm threadID limit =
     (let cs = history cm threadID; start = length cs - list_limit limit (length cs)
      in map (\<lambda>i. let cp = Checkpoint_Clone (fst (fresh i)) (snd (fresh i)) (cs ! i)
           in NewCheckpointTuple (Some (parent_config threadID (cp_ID cp))) (Some cp)
                (if i > 0 then Some (parent_config threadID (cp_ID (cs ! (i - 1)))) else None))
         [start..<length cs])"

definition CheckpointManager_GetVersion ::
    "(nat \<Rightarrow> string \<times> gotime) \<Rightarrow> CheckpointManager \<Rightarrow> string \<Rightarrow> goint \<Rightarrow> gerror + Checkpoint" where
  "CheckpointManager_GetVersion fresh cm threadID version =
     (let cs = history cm threadID in
      case find_version version cs of
        Some i \<Rightarrow> Inr (Checkpoint_Clone (fst (fresh 0)) (snd (fresh 0)) (cs ! i))
      | None \<Rightarrow> Inl (ErrorNew (''version not found: '' @ goint_digits version)))"

fun delete_loop :: "string \<Rightarrow> Checkpoint list gomap \<Rightarrow> (string \<times> Checkpoint list) list \<Rightarrow> Checkpoint list gomap option" where
  "delete_loop checkpointID m [] = None"
| "delete_loop checkpointID m ((threadID, cs) # es) =
     (if list_ex (\<lambda>cp. cp_ID cp = checkpointID) cs
      then Some (mput m threadID
             (takeWhile (\<lambda>cp. cp_ID cp \<noteq> checkpointID) cs @ tl (dropWhile (\<lambda>cp. cp_ID cp \<noteq> checkpointID) cs)))
      else delete_loop checkpointID m es)"

definition CheckpointManager_Delete ::
    "(string list \<Rightarrow> string list) \<Rightarrow> CheckpointManager \<Rightarrow> string \<Rightarrow> gerror option \<times> CheckpointManager" where
  "CheckpointManager_Delete ro cm checkpointID =
     (case delete_loop checkpointID (cm_checkpoints cm) (range_entries ro (cm_checkpoints cm)) of
        Some m \<Rightarrow> (None, cm\<lparr>cm_checkpoints := m\<rparr>)
      | None \<Rightarrow> (Some (ErrorNew (''checkpoint not found: '' @ checkpointID)), cm))"

definition CheckpointManager_ClearThread :: "CheckpointManager \<Rightarrow> string \<Rightarrow> CheckpointManager" where
  "CheckpointManager_ClearThread cm threadID = cm\<lparr>cm_checkpoints := mdel (cm_checkpoints cm) threadID\<rparr>"

definition CheckpointManager_ClearAll :: "CheckpointManager \<Rightarrow> CheckpointManager" where
  "CheckpointManager_ClearAll cm = cm\<lparr>cm_checkpoints := []\<rparr>"

section \<open>Optimistic concurrency\<close>

text \<open>
  The contract of a log with compare-and-append, one log per thread: an entry that names a parent is
  appended only when the parent is the newest entry; a refused append changes nothing; an accepted
  one becomes the newest entry of its thread and leaves the other threads alone.
\<close>

locale cas_log =
  fixes inv :: "'s \<Rightarrow> bool"
    and log :: "'s \<Rightarrow> string \<Rightarrow> 'c list"
    and commit :: "'s \<Rightarrow> 'c \<Rightarrow> gerror option \<times> 's"
    and thread :: "'c \<Rightarrow> string"
    and ident :: "'c \<Rightarrow> string"
    and parent :: "'c \<Rightarrow> string"
  assumes commit_refused: "commit s c = (Some e, s') \<Longrightarrow> s' = s"
    and commit_newest: "inv s \<Longrightarrow> commit s c = (None, s') \<Longrightarrow> log s' (thread c) \<noteq> [] \<and> last (log s' (thread c)) = c"
    and commit_other: "commit s c = (None, s') \<Longrightarrow> t \<noteq> thread c \<Longrightarrow> log s' t = log s t"
    and commit_parent: "log s (thread c) \<noteq> [] \<Longrightarrow> parent c \<noteq> [] \<Longrightarrow> ident (last (log s (thread c))) \<noteq> parent c \<Longrightarrow>
      fst (commit s c) \<noteq> None"
    and commit_inv: "inv s \<Longrightarrow> commit s c = (r, s') \<Longrightarrow> inv s'"
begin

lemma stale_refused:
  assumes "inv s" and "commit s a = (None, s')" and "thread b = thread a"
    and "parent b = parent a" and "parent b \<noteq> []" and "ident a \<noteq> parent a"
  shows "fst (commit s' b) \<noteq> None" and "snd (commit s' b) = s'"
proof -
  have "log s' (thread b) \<noteq> []" and "last (log s' (thread b)) = a"
    using commit_newest assms(1-3) by auto
  then show refused: "fst (commit s' b) \<noteq> None"
    using commit_parent [of s' b] assms(4-6) by simp
  then show "snd (commit s' b) = s'"
    using commit_refused [of s' b] by (cases "commit s' b") auto
qed

lemma independent_threads:
  assumes "inv s" and "commit s a = (None, s1)" and "commit s1 b = (None, s2)" and "thread a \<noteq> thread b"
  shows "last (log s2 (thread a)) = a" and "last (log s2 (thread b)) = b"
  using commit_newest [OF assms(1,2)] commit_other [OF assms(3,4)]
    commit_newest [OF commit_inv [OF assms(1,2)] assms(3)] by auto

end

definition cm_ok :: "CheckpointManager \<Rightarrow> bool" where
  "cm_ok cm \<longleftrightarrow> 0 < sint (cm_maxVersions cm)"

abbreviation thread_of :: "Checkpoint \<Rightarrow> string" where
  "thread_of c \<equiv> md_ThreadID (cp_Metadata c)"

lemma trim_length: "0 < sint mx \<Longrightarrow> int (length (trim_versions mx cs)) \<le> sint mx"
  by (auto simp: trim_versions_def)

lemma trim_snoc:
  assumes "0 < sint mx"
  shows "trim_versions mx (cs @ [c]) \<noteq> [] \<and> last (trim_versions mx (cs @ [c])) = c"
proof -
  define n where "n = (if int (length (cs @ [c])) > sint mx then nat (int (length (cs @ [c])) - sint mx) else 0)"
  have "trim_versions mx (cs @ [c]) = drop n (cs @ [c])" by (simp add: trim_versions_def n_def)
  moreover have "n \<le> length cs" using assms by (simp add: n_def nat_le_iff)
  ultimately show ?thesis by simp
qed

lemma history_Save:
  "CheckpointManager_Save cm c = (None, cm') \<Longrightarrow>
   history cm' t = (if t = thread_of c then trim_versions (cm_maxVersions cm) (history cm t @ [c]) else history cm t)"
  by (auto simp: CheckpointManager_Save_def Let_def history_def split: if_splits)

lemma Save_maxVersions: "CheckpointManager_Save cm c = (e, cm') \<Longrightarrow> cm_maxVersions cm' = cm_maxVersions cm"
  by (auto simp: CheckpointManager_Save_def Let_def split: if_splits)

interpretation save_log: cas_log cm_ok history CheckpointManager_Save thread_of cp_ID cp_ParentID
proof unfold_locales
  fix s c e s'
  assume "CheckpointManager_Save s c = (Some e, s')"
  then show "s' = s" by (auto simp: CheckpointManager_Save_def Let_def split: if_splits)
next
  fix s c s'
  assume "cm_ok s" and "CheckpointManager_Save s c = (None, s')"
  then show "history s' (thread_of c) \<noteq> [] \<and> last (history s' (thread_of c)) = c"
    using trim_snoc by (simp add: history_Save cm_ok_def)
next
  fix s c s' t
  assume "CheckpointManager_Save s c = (None, s')" and "t \<noteq> thread_of c"
  then show "history s' t = history s t" by (simp add: history_Save)
next
  fix s c
  assume "history s (thread_of c) \<noteq> []" and "cp_ParentID c \<noteq> []"
    and "cp_ID (last (history s (thread_of c))) \<noteq> cp_ParentID c"
  then show "fst (CheckpointManager_Save s c) \<noteq> None"
    by (simp add: CheckpointManager_Save_def Let_def save_conflict_def)
next
  fix s c r s'
  assume "cm_ok s" and "CheckpointManager_Save s c = (r, s')"
  then show "cm_ok s'" by (simp add: cm_ok_def Save_maxVersions)
qed

section \<open>Lineage\<close>

text \<open>
  Two neighbours of a history: the later one names no parent or the earlier one, and carries no
  version or the next one.
\<close>

definition linked :: "Checkpoint \<Rightarrow> Checkpoint \<Rightarrow> bool" where
  "linked c d \<longleftrightarrow> (cp_ParentID d = [] \<or> cp_ParentID d = cp_ID c) \<and>
     (sint (cp_Version d) \<le> 0 \<or> cp_Version d = cp_Version c + 1)"

definition history_ok :: "string \<Rightarrow> Checkpoint list \<Rightarrow> bool" where
  "history_ok t cs \<longleftrightarrow> successively linked cs \<and> (\<forall>c\<in>set cs. thread_of c = t)"

definition cm_inv :: "CheckpointManager \<Rightarrow> bool" where
  "cm_inv cm \<longleftrightarrow> cm_ok cm \<and> (\<forall>t. history_ok t (history cm t))"

text \<open>The operations that extend or clear histories, as steps.\<close>

inductive manager_step :: "CheckpointManager \<Rightarrow> CheckpointManager \<Rightarrow> bool" where
  save: "CheckpointManager_Save cm c = (r, cm') \<Longrightarrow> manager_step cm cm'"
| put_writes: "CheckpointManager_PutWrites fresh cm config writes taskID = (r, cm') \<Longrightarrow> manager_step cm cm'"
| clear_thread: "manager_step cm (CheckpointManager_ClearThread cm threadID)"
| clear_all: "manager_step cm (CheckpointManager_ClearAll cm)"

inductive manager_reachable :: "CheckpointManager \<Rightarrow> bool" where
  new: "manager_reachable (NewCheckpointManager maxVersions)"
| step: "manager_reachable cm \<Longrightarrow> manager_step cm cm' \<Longrightarrow> manager_reachable cm'"

inductive_cases manager_stepE: "manager_step cm cm'"

lemma not_conflict_linked: "\<not> save_conflict c d \<Longrightarrow> linked c d"
  by (auto simp: save_conflict_def linked_def algebra_simps)

lemma history_ok_snoc:
  "history_ok t cs \<Longrightarrow> thread_of c = t \<Longrightarrow> cs = [] \<or> linked (last cs) c \<Longrightarrow> history_ok t (cs @ [c])"
  by (auto simp: history_ok_def successively_append_iff)

lemma history_ok_drop: "history_ok t cs \<Longrightarrow> history_ok t (drop n cs)"
  unfolding history_ok_def
  by (metis append_take_drop_id in_set_dropD successively_append_iff)

lemma history_ok_trim: "history_ok t cs \<Longrightarrow> history_ok t (trim_versions mx cs)"
  by (simp add: trim_versions_def history_ok_drop)

lemma apply_pending_fields [simp]:
  "cp_ID (apply_pending c ws) = cp_ID c" "cp_Version (apply_pending c ws) = cp_Version c"
  "cp_ParentID (apply_pending c ws) = cp_ParentID c" "cp_Metadata (apply_pending c ws) = cp_Metadata c"
  "cp_VersionsSeen (apply_pending c ws) = cp_VersionsSeen c"
  "cp_PendingWrites (apply_pending c ws) = cp_PendingWrites c"
  by (induction ws arbitrary: c) (auto simp: Checkpoint_IncrementChannel_def)

lemma history_PutWrites:
  assumes "CheckpointManager_PutWrites fresh cm config writes taskID = (None, cm')"
  shows "history cm (rc_ThreadID config) \<noteq> []"
    and "RunnableConfig_GetOrEmpty config ''checkpoint_id'' = cp_ID (last (history cm (rc_ThreadID config)))"
    and "history cm' t = (if t = rc_ThreadID config
      then history cm t @ [apply_pending ((Checkpoint_Clone (fst (fresh 0)) (snd (fresh 0)) (last (history cm t)))
        \<lparr>cp_Version := cp_Version (last (history cm t)) + 1, cp_ParentID := cp_ID (last (history cm t))\<rparr>) writes]
      else history cm t)"
    and "cm_maxVersions cm' = cm_maxVersions cm"
  using assms by (auto simp: CheckpointManager_PutWrites_def Let_def history_def split: if_splits)

lemma PutWrites_refused: "CheckpointManager_PutWrites fresh cm config writes taskID = (Some e, cm') \<Longrightarrow> cm' = cm"
  by (auto simp: CheckpointManager_PutWrites_def Let_def split: if_splits)

lemma cm_inv_Save:
  assumes inv: "cm_inv cm" and run: "CheckpointManager_Save cm c = (None, cm')"
  shows "cm_inv cm'"
proof -
  have "history cm (thread_of c) = [] \<or> linked (last (history cm (thread_of c))) c"
    using run by (auto simp: CheckpointManager_Save_def Let_def not_conflict_linked split: if_splits)
  then have "history_ok t (history cm' t)" for t
    using inv history_ok_snoc by (auto simp: history_Save [OF run] cm_inv_def history_ok_trim)
  then show ?thesis
    using inv Save_maxVersions [OF run] by (simp add: cm_inv_def cm_ok_def)
qed

lemma cm_inv_PutWrites:
  assumes inv: "cm_inv cm" and run: "CheckpointManager_PutWrites fresh cm config writes taskID = (None, cm')"
  shows "cm_inv cm'"
proof -
  have last_in: "last (history cm (rc_ThreadID config)) \<in> set (history cm (rc_ThreadID config))"
    using history_PutWrites(1) [OF run] by simp
  have "history_ok t (history cm' t)" for t
    unfolding history_PutWrites(3) [OF run]
    using inv last_in
    by (auto simp: cm_inv_def history_ok_def linked_def Checkpoint_Clone_def successively_append_iff)
  then show ?thesis
    using inv history_PutWrites(4) [OF run] by (simp add: cm_inv_def cm_ok_def)
qed

lemma cm_inv_step: "manager_step cm cm' \<Longrightarrow> cm_inv cm \<Longrightarrow> cm_inv cm'"
proof (induction rule: manager_step.induct)
  case (save cm c r cm')
  then show ?case
    using cm_inv_Save save_log.commit_refused by (cases r) blast+
next
  case (put_writes fresh cm config writes taskID r cm')
  then show ?case
    using cm_inv_PutWrites PutWrites_refused by (cases r) blast+
next
  case (clear_thread cm threadID)
  then show ?case
    by (auto simp: cm_inv_def cm_ok_def CheckpointManager_ClearThread_def history_def history_ok_def split: option.splits)
next
  case (clear_all cm)
  then show ?case
    by (auto simp: cm_inv_def cm_ok_def CheckpointManager_ClearAll_def history_def history_ok_def)
qed

lemma cm_inv_reachable: "manager_reachable cm \<Longrightarrow> cm_inv cm"
proof (induction rule: manager_reachable.induct)
  case (new maxVersions)
  then show ?case
    by (simp add: NewCheckpointManager_def cm_inv_def cm_ok_def history_def history_ok_def
        DefaultCheckpointMaxVersions_def)
next
  case (step cm cm')
  then show ?case by (simp add: cm_inv_step)
qed

lemma manager_reachable_save: "manager_reachable cm \<Longrightarrow> manager_reachable (snd (CheckpointManager_Save cm c))"
  by (rule manager_reachable.step, assumption, rule manager_step.save) (rule prod.collapse [symmetric])

lemma successively_nth: "successively P xs \<Longrightarrow> Suc i < length xs \<Longrightarrow> P (xs ! i) (xs ! Suc i)"
  by (simp add: successively_conv_nth)

section \<open>Applying writes\<close>

lemma state_apply_pending:
  "mget (cp_State (apply_pending c ws)) k =
     (case map_of (rev (map (\<lambda>w. (pw_Channel w, pw_Value w)) ws)) k of
        Some v \<Rightarrow> Some v | None \<Rightarrow> mget (cp_State c) k)"
proof (induction ws arbitrary: c)
  case Nil
  then show ?case by simp
next
  case (Cons w ws)
  then show ?case
    by (auto simp: Checkpoint_IncrementChannel_def map_add_def split: option.splits)
qed

lemma versions_apply_pending:
  "version_at (cp_ChannelVersions (apply_pending c ws)) k =
     version_at (cp_ChannelVersions c) k + of_nat (length (filter (\<lambda>w. pw_Channel w = k) ws))"
proof (induction ws arbitrary: c)
  case Nil
  then show ?case by simp
next
  case (Cons w ws)
  then show ?case by (simp add: Checkpoint_IncrementChannel_def version_at_def)
qed

text \<open>A small manager for the witnesses: one thread, one checkpoint with a state.\<close>

definition sample_checkpoint :: Checkpoint where
  "sample_checkpoint = (NewCheckpoint ''r'' 7 ''t'' 0)\<lparr>cp_State := [(''x'', GBool True)]\<rparr>"

definition sample_manager :: CheckpointManager where
  "sample_manager = snd (CheckpointManager_Save (NewCheckpointManager 2) sample_checkpoint)"

lemmas sample_defs = sample_checkpoint_def sample_manager_def NewCheckpoint_def NewCheckpointManager_def
  CheckpointManager_Save_def CheckpointManager_Load_def Checkpoint_Clone_def save_conflict_def trim_versions_def history_def
  Let_def mget_Cons mmap_def

section \<open>Properties\<close>

text \<open>C1: Optimistic concurrency of \<open>CheckpointManager.Save\<close>.  Two clients load the same thread and
  derive checkpoints \<open>a\<close> and \<open>b\<close> from what they loaded.  When \<open>a\<close> is saved first, saving \<open>b\<close>
  returns a \<open>VersionConflictError\<close> that expects the version after \<open>a\<close>'s, and the manager is left
  as \<open>a\<close>'s save made it: no update is lost silently.\<close>

theorem stale_save_refused:
  assumes ok: "0 < sint (cm_maxVersions cm)"
    and la: "CheckpointManager_Load f cm t = Some a0" and lb: "CheckpointManager_Load g cm t = Some b0"
    and a: "cp_ParentID a = cp_ParentID a0" "md_ThreadID (cp_Metadata a) = t" "cp_ID a \<noteq> cp_ParentID a"
    and b: "cp_ParentID b = cp_ParentID b0" "md_ThreadID (cp_Metadata b) = t" "cp_ParentID b \<noteq> []"
    and save: "CheckpointManager_Save cm a = (None, cm')"
  shows "CheckpointManager_Save cm' b =
    (Some (VersionConflictError (cp_Version b) (cp_Version a + 1) (cp_ID b) t), cm')"
proof -
  have parents: "cp_ParentID b = cp_ParentID a"
    using la lb a b by (auto simp: CheckpointManager_Load_def Let_def Checkpoint_Clone_def split: if_splits)
  have okm: "cm_ok cm" using ok by (simp add: cm_ok_def)
  have "thread_of b = thread_of a" using a b by simp
  from save_log.stale_refused [OF okm save this parents b(3) a(3)]
  have "fst (CheckpointManager_Save cm' b) \<noteq> None" by simp
  moreover have "last (history cm' t) = a"
    using save_log.commit_newest [OF okm save] a(2) by simp
  ultimately show ?thesis
    using b(2) by (auto simp: CheckpointManager_Save_def Let_def split: if_splits)
qed

theorem stale_save_refused_witness:
  "CheckpointManager_Save
     (snd (CheckpointManager_Save sample_manager (the (CheckpointManager_Load (\<lambda>i. (''a'', 8)) sample_manager ''t''))))
     (the (CheckpointManager_Load (\<lambda>i. (''b'', 9)) sample_manager ''t'')) =
   (Some (VersionConflictError 0 1 ''b'' ''t''),
    snd (CheckpointManager_Save sample_manager (the (CheckpointManager_Load (\<lambda>i. (''a'', 8)) sample_manager ''t''))))"
  using stale_save_refused [of sample_manager "\<lambda>i. (''a'', 8)" "''t''"
      "the (CheckpointManager_Load (\<lambda>i. (''a'', 8)) sample_manager ''t'')" "\<lambda>i. (''b'', 9)"
      "the (CheckpointManager_Load (\<lambda>i. (''b'', 9)) sample_manager ''t'')"
      "the (CheckpointManager_Load (\<lambda>i. (''a'', 8)) sample_manager ''t'')"
      "the (CheckpointManager_Load (\<lambda>i. (''b'', 9)) sample_manager ''t'')"
      "snd (CheckpointManager_Save sample_manager (the (CheckpointManager_Load (\<lambda>i. (''a'', 8)) sample_manager ''t'')))"]
  by (simp add: sample_defs)



text \<open>C13: A successful \<open>Save\<close> makes the checkpoint the newest of its thread, keeps at most
  \<open>maxVersions\<close> checkpoints of the thread, drops only the oldest ones, and does not touch any other
  thread.\<close>

theorem save_appends_and_trims:
  assumes "0 < sint (cm_maxVersions cm)" and "CheckpointManager_Save cm c = (None, cm')"
    and "t = md_ThreadID (cp_Metadata c)"
  shows "(\<exists>n. history cm' t = drop n (history cm t) @ [c]) \<and>
    int (length (history cm' t)) \<le> sint (cm_maxVersions cm) \<and>
    (\<forall>u. u \<noteq> t \<longrightarrow> history cm' u = history cm u)"
proof -
  have "history cm' t = trim_versions (cm_maxVersions cm) (history cm t @ [c])"
    using history_Save [OF assms(2)] assms(3) by simp
  moreover have "\<exists>n. trim_versions (cm_maxVersions cm) (history cm t @ [c]) = drop n (history cm t) @ [c]"
  proof -
    let ?n = "nat (int (length (history cm t @ [c])) - sint (cm_maxVersions cm))"
    have "?n \<le> length (history cm t)" using assms(1) by (simp add: nat_le_iff)
    then have "trim_versions (cm_maxVersions cm) (history cm t @ [c]) =
        drop (if int (length (history cm t @ [c])) > sint (cm_maxVersions cm) then ?n else 0) (history cm t) @ [c]"
      by (simp add: trim_versions_def)
    then show ?thesis by blast
  qed
  ultimately show ?thesis
    using trim_length [OF assms(1)] history_Save [OF assms(2)] assms(3) by auto
qed

theorem save_appends_and_trims_witness:
  "int (length (history (snd (CheckpointManager_Save sample_manager (NewCheckpoint ''a'' 8 ''t'' 1))) ''t'')) \<le> 2"
  using save_appends_and_trims [of sample_manager "NewCheckpoint ''a'' 8 ''t'' 1"
      "snd (CheckpointManager_Save sample_manager (NewCheckpoint ''a'' 8 ''t'' 1))" "''t''"]
  by (simp add: sample_defs)

text \<open>\<open>PutWrites\<close> with the identifier of the newest checkpoint appends one checkpoint: it is the
  child of the newest one with the next version, its state is the copied state overwritten by the
  writes, the last write of a channel winning, and each channel's version has grown, modulo
  \<open>2 ^ 64\<close>, by the number of writes to it.\<close>

theorem putwrites_effect:
  assumes "CheckpointManager_PutWrites fresh cm config writes taskID = (None, cm')"
    and "t = rc_ThreadID config" and "c = last (history cm t)" and "mwf (cp_State c)" "mwf (cp_ChannelVersions c)"
  shows "\<exists>d. history cm' t = history cm t @ [d] \<and> cp_ParentID d = cp_ID c \<and> cp_Version d = cp_Version c + 1 \<and>
    (\<forall>k. mget (cp_State d) k =
      (case map_of (rev (map (\<lambda>w. (pw_Channel w, pw_Value w)) writes)) k of
         Some v \<Rightarrow> Some v | None \<Rightarrow> map_option deepCopy (mget (cp_State c) k))) \<and>
    (\<forall>k. version_at (cp_ChannelVersions d) k =
      version_at (cp_ChannelVersions c) k + of_nat (length (filter (\<lambda>w. pw_Channel w = k) writes)))"
  using history_PutWrites(3) [OF assms(1), of t] assms(2-5)
  by (simp add: state_apply_pending versions_apply_pending Checkpoint_Clone_def mputs_Nil_sorted split: option.split)

theorem putwrites_effect_witness:
  "\<exists>d. history (snd (CheckpointManager_PutWrites (\<lambda>i. (''w'', 9)) sample_manager (parent_config ''t'' ''r'')
      [NewPendingWrite 8 ''y'' GNil False ''n'' ''task''] ''task'')) ''t'' = history sample_manager ''t'' @ [d] \<and>
    version_at (cp_ChannelVersions d) ''y'' = 1 \<and> mget (cp_State d) ''x'' = Some (GBool True)"
proof -
  let ?w = "[NewPendingWrite 8 ''y'' GNil False ''n'' ''task'']"
  let ?run = "CheckpointManager_PutWrites (\<lambda>i. (''w'', 9)) sample_manager (parent_config ''t'' ''r'') ?w ''task''"
  have "fst ?run = None"
    by (simp add: sample_defs CheckpointManager_PutWrites_def parent_config_def RunnableConfig_Set_def
        RunnableConfig_GetOrEmpty_def NewRunnableConfig_def)
  then have run: "?run = (None, snd ?run)" by (simp add: prod_eq_iff)
  have "last (history sample_manager ''t'') = sample_checkpoint" by (simp add: sample_defs)
  with putwrites_effect [OF run, of "''t''" sample_checkpoint] show ?thesis
    by (fastforce simp: parent_config_def RunnableConfig_Set_def sample_checkpoint_def NewCheckpoint_def
        mwf_def mget_Cons NewPendingWrite_def version_at_def)
qed

end
