(* ===== verification/MemorySaver.thy ===== *)
theory MemorySaver
  imports CheckpointManager
begin

text \<open>
  \<open>checkpoint/memory.go\<close>: the in-memory checkpoint saver, and the contract of the interface
  \<open>BaseCheckpointer\<close> of \<open>checkpoint/checkpoint.go\<close> that the engine relies on, as the locale
  \<open>checkpointer\<close>.  \<open>Put\<close> takes the identifier \<open>uuid.New\<close> returns and the current time.  A result
  \<open>Inr None\<close> is the nil map with a nil error.
\<close>

record checkpointEntry =
  ce_ID :: string
  ce_ThreadID :: string
  ce_Checkpoint :: "gvalue gomap"
  ce_Metadata :: "gvalue gomap"
  ce_CreatedAt :: gotime
  ce_ParentID :: string

record MemorySaver =
  ms_checkpoints :: "gvalue gomap gomap"
  ms_versions :: "checkpointEntry list gomap"

record CheckpointState =
  cs_Checkpoint :: "gvalue gomap"
  cs_Metadata :: "gvalue gomap"

definition NewMemorySaver :: MemorySaver where
  "NewMemorySaver = \<lparr>ms_checkpoints = [], ms_versions = []\<rparr>"

text \<open>\<open>config[key].(string)\<close>.\<close>

definition config_string :: "gvalue gomap \<Rightarrow> string \<Rightarrow> string option" where
  "config_string config key = (case mget config key of Some (GString s) \<Rightarrow> Some s | _ \<Rightarrow> None)"

definition thread_versions :: "MemorySaver \<Rightarrow> string \<Rightarrow> checkpointEntry list" where
  "thread_versions s threadID = (case mget (ms_versions s) threadID of Some es \<Rightarrow> es | None \<Rightarrow> [])"

definition MemorySaver_Get :: "MemorySaver \<Rightarrow> gvalue gomap \<Rightarrow> gerror + gvalue gomap option" where
  "MemorySaver_Get s config =
     (case config_string config ''thread_id'' of
        None \<Rightarrow> Inl (ErrorNew ''thread_id is required'')
      | Some threadID \<Rightarrow>
          let versions = thread_versions s threadID in
          case config_string config ''checkpoint_id'' of
            Some checkpointID \<Rightarrow>
              (case find (\<lambda>e. ce_ID e = checkpointID) versions of
                 Some entry \<Rightarrow> Inr (Some (deepCopyMap (ce_Checkpoint entry)))
               | None \<Rightarrow> Inl (ErrorNew (''checkpoint not found: '' @ checkpointID)))
          | None \<Rightarrow>
              if versions = [] then Inr None
              else Inr (Some (deepCopyMap (ce_Checkpoint (last versions)))))"

definition MemorySaver_Put ::
    "string \<Rightarrow> gotime \<Rightarrow> MemorySaver \<Rightarrow> gvalue gomap \<Rightarrow> gvalue gomap \<Rightarrow> gerror option \<times> MemorySaver" where
  "MemorySaver_Put newID now s config checkpoint =
     (case config_string config ''thread_id'' of
        None \<Rightarrow> (Some (ErrorNew ''thread_id is required''), s)
      | Some threadID \<Rightarrow>
          let checkpointID = (case config_string config ''checkpoint_id'' of Some i \<Rightarrow> i | None \<Rightarrow> newID);
              entry = \<lparr>ce_ID = checkpointID, ce_ThreadID = threadID, ce_Checkpoint = deepCopyMap checkpoint,
                ce_Metadata = deepCopyMap config, ce_CreatedAt = now,
                ce_ParentID = (case config_string config ''parent_checkpoint_id'' of Some p \<Rightarrow> p | None \<Rightarrow> [])\<rparr>
          in (None, s\<lparr>ms_versions := mput (ms_versions s) threadID (thread_versions s threadID @ [entry]),
                ms_checkpoints := mput (ms_checkpoints s) threadID (deepCopyMap checkpoint)\<rparr>))"

definition list_entry :: "checkpointEntry \<Rightarrow> meta_value gomap" where
  "list_entry entry = mputs []
     [(''checkpoint_id'', MValue (GString (ce_ID entry))), (''thread_id'', MValue (GString (ce_ThreadID entry))),
      (''metadata'', MValue (GMap (deepCopyMap (ce_Metadata entry)))), (''created_at'', MTime (ce_CreatedAt entry)),
      (''parent_id'', MValue (GString (ce_ParentID entry)))]"

definition MemorySaver_List :: "MemorySaver \<Rightarrow> gvalue gomap \<Rightarrow> goint \<Rightarrow> gerror + meta_value gomap list" where
  "MemorySaver_List s config limit =
     (case config_string config ''thread_id'' of
        None \<Rightarrow> Inl (ErrorNew ''thread_id is required'')
      | Some threadID \<Rightarrow>
          let versions = thread_versions s threadID; n = list_limit limit (length versions)
          in Inr (map (\<lambda>i. list_entry (versions ! i)) (rev [length versions - n..<length versions])))"

definition entry_state :: "checkpointEntry \<Rightarrow> CheckpointState" where
  "entry_state entry =
     \<lparr>cs_Checkpoint = deepCopyMap (ce_Checkpoint entry), cs_Metadata = deepCopyMap (ce_Metadata entry)\<rparr>"

definition MemorySaver_GetState :: "MemorySaver \<Rightarrow> gvalue gomap \<Rightarrow> gerror + CheckpointState option" where
  "MemorySaver_GetState s config =
     (case config_string config ''thread_id'' of
        None \<Rightarrow> Inl (ErrorNew ''thread_id is required'')
      | Some threadID \<Rightarrow>
          let versions = thread_versions s threadID in
          case config_string config ''checkpoint_id'' of
            None \<Rightarrow> if versions = [] then Inr None else Inr (Some (entry_state (last versions)))
          | Some checkpointID \<Rightarrow>
              (case find (\<lambda>e. ce_ID e = checkpointID) versions of
                 Some entry \<Rightarrow> Inr (Some (entry_state entry))
               | None \<Rightarrow> Inl (ErrorNew (''checkpoint not found: '' @ checkpointID))))"

section \<open>The contract of a checkpointer\<close>

text \<open>
  \<open>get s t None\<close> reads the newest checkpoint of a thread, \<open>get s t (Some i)\<close> the one with an
  identifier; \<open>put\<close> stores one under an identifier.  \<open>stored\<close> is what a checkpoint reads back as.
\<close>

locale checkpointer =
  fixes get :: "'s \<Rightarrow> string \<Rightarrow> string option \<Rightarrow> gerror + gvalue gomap option"
    and put :: "'s \<Rightarrow> string \<Rightarrow> string \<Rightarrow> gvalue gomap \<Rightarrow> 's"
    and known :: "'s \<Rightarrow> string \<Rightarrow> string \<Rightarrow> bool"
    and stored :: "gvalue gomap \<Rightarrow> gvalue gomap"
  assumes get_newest: "get (put s t i cp) t None = Inr (Some (stored cp))"
    and get_new_id: "\<not> known s t i \<Longrightarrow> get (put s t i cp) t (Some i) = Inr (Some (stored cp))"
    and get_old_id: "j \<noteq> i \<or> known s t j \<Longrightarrow> get (put s t i cp) t (Some j) = get s t (Some j)"
    and get_other: "u \<noteq> t \<Longrightarrow> get (put s t i cp) u q = get s u q"
    and known_put: "known (put s t i cp) u j \<longleftrightarrow> known s u j \<or> (u = t \<and> j = i)"
begin

primrec puts :: "'s \<Rightarrow> (string \<times> string \<times> gvalue gomap) list \<Rightarrow> 's" where
  "puts s [] = s"
| "puts s (w # ws) = puts (put s (fst w) (fst (snd w)) (snd (snd w))) ws"

lemma known_puts: "known s t i \<Longrightarrow> known (puts s ws) t i"
  by (induction ws arbitrary: s) (auto simp: known_put)

lemma get_known_puts: "known s t i \<Longrightarrow> get (puts s ws) t (Some i) = get s t (Some i)"
proof (induction ws arbitrary: s)
  case Nil
  then show ?case by simp
next
  case (Cons w ws)
  have "get (put s (fst w) (fst (snd w)) (snd (snd w))) t (Some i) = get s t (Some i)"
    using Cons.prems by (cases "t = fst w") (simp_all add: get_old_id get_other)
  moreover have "known (put s (fst w) (fst (snd w)) (snd (snd w))) t i"
    using Cons.prems by (simp add: known_put)
  ultimately show ?case using Cons.IH by simp
qed

lemma time_travel:
  assumes "\<not> known s t i"
  shows "get (puts (put s t i cp) ws) t (Some i) = Inr (Some (stored cp))"
  using get_known_puts [of "put s t i cp" t i ws] get_new_id [OF assms] by (simp add: known_put)

lemma newest_of_thread:
  assumes "\<forall>w\<in>set ws. fst w \<noteq> t"
  shows "get (puts (put s t i cp) ws) t None = Inr (Some (stored cp))"
proof -
  have "get (puts s' ws) t None = get s' t None" for s'
    using assms by (induction ws arbitrary: s') (auto simp: get_other)
  then show ?thesis by (simp add: get_newest)
qed

end

section \<open>The in-memory saver keeps the contract\<close>

definition saver_config :: "string \<Rightarrow> string option \<Rightarrow> gvalue gomap" where
  "saver_config t i = mputs [] ((''thread_id'', GString t) # (case i of None \<Rightarrow> [] | Some j \<Rightarrow> [(''checkpoint_id'', GString j)]))"

definition saver_get :: "MemorySaver \<Rightarrow> string \<Rightarrow> string option \<Rightarrow> gerror + gvalue gomap option" where
  "saver_get s t i = MemorySaver_Get s (saver_config t i)"

definition saver_put :: "MemorySaver \<Rightarrow> string \<Rightarrow> string \<Rightarrow> gvalue gomap \<Rightarrow> MemorySaver" where
  "saver_put s t i cp = snd (MemorySaver_Put [] 0 s (saver_config t (Some i)) cp)"

definition saver_known :: "MemorySaver \<Rightarrow> string \<Rightarrow> string \<Rightarrow> bool" where
  "saver_known s t i = list_ex (\<lambda>e. ce_ID e = i) (thread_versions s t)"

lemma config_string_saver [simp]:
  "config_string (saver_config t i) ''thread_id'' = Some t"
  "config_string (saver_config t i) ''checkpoint_id'' = i"
  by (auto simp: config_string_def saver_config_def mget_Cons split: option.splits)

lemma thread_versions_Put:
  assumes "MemorySaver_Put newID now s config cp = (None, s')" and "config_string config ''thread_id'' = Some t"
  shows "\<exists>entry. ce_ID entry = (case config_string config ''checkpoint_id'' of Some i \<Rightarrow> i | None \<Rightarrow> newID) \<and>
    ce_Checkpoint entry = deepCopyMap cp \<and> ce_ThreadID entry = t \<and> ce_CreatedAt entry = now \<and>
    ce_Metadata entry = deepCopyMap config \<and>
    (\<forall>u. thread_versions s' u = (if u = t then thread_versions s t @ [entry] else thread_versions s u))"
  using assms by (auto simp: MemorySaver_Put_def thread_versions_def Let_def)

lemma saver_put_versions:
  "\<exists>entry. ce_ID entry = i \<and> ce_Checkpoint entry = deepCopyMap cp \<and>
    (\<forall>u. thread_versions (saver_put s t i cp) u =
      (if u = t then thread_versions s t @ [entry] else thread_versions s u))"
  by (auto simp: saver_put_def MemorySaver_Put_def thread_versions_def Let_def)

lemma find_append: "find P (xs @ ys) = (case find P xs of Some x \<Rightarrow> Some x | None \<Rightarrow> find P ys)"
  by (induction xs) auto

lemma find_None_list_ex: "find P xs = None \<longleftrightarrow> \<not> list_ex P xs"
  by (induction xs) auto

interpretation saver: checkpointer saver_get saver_put saver_known "\<lambda>cp. deepCopyMap (deepCopyMap cp)"
proof unfold_locales
  fix s t i cp
  show "saver_get (saver_put s t i cp) t None = Inr (Some (deepCopyMap (deepCopyMap cp)))"
    using saver_put_versions [of i cp s t] by (auto simp: saver_get_def MemorySaver_Get_def Let_def)
next
  fix s t i cp
  assume "\<not> saver_known s t i"
  then show "saver_get (saver_put s t i cp) t (Some i) = Inr (Some (deepCopyMap (deepCopyMap cp)))"
    using saver_put_versions [of i cp s t] find_None_list_ex [of "\<lambda>e. ce_ID e = i" "thread_versions s t"]
    by (auto simp: saver_get_def MemorySaver_Get_def Let_def saver_known_def find_append)
next
  fix s :: MemorySaver and t i j :: string and cp
  assume "j \<noteq> i \<or> saver_known s t j"
  then show "saver_get (saver_put s t i cp) t (Some j) = saver_get s t (Some j)"
    using saver_put_versions [of i cp s t] find_None_list_ex [of "\<lambda>e. ce_ID e = j" "thread_versions s t"]
    by (auto simp: saver_get_def MemorySaver_Get_def Let_def saver_known_def find_append split: option.splits if_splits)
next
  fix s :: MemorySaver and t i u :: string and cp q
  assume "u \<noteq> t"
  then show "saver_get (saver_put s t i cp) u q = saver_get s u q"
    using saver_put_versions [of i cp s t]
    by (auto simp: saver_get_def MemorySaver_Get_def Let_def split: option.splits)
next
  fix s :: MemorySaver and t i u j :: string and cp
  show "saver_known (saver_put s t i cp) u j \<longleftrightarrow> saver_known s u j \<or> (u = t \<and> j = i)"
    using saver_put_versions [of i cp s t] by (cases "u = t") (auto simp: saver_known_def)
qed

section \<open>Properties\<close>

lemma saver_puts_fold: "saver.puts s ws = fold (\<lambda>w s. saver_put s (fst w) (fst (snd w)) (snd (snd w))) ws s"
  by (induction ws arbitrary: s) auto

text \<open>C12: Time travel with \<open>MemorySaver\<close>.  A checkpoint put under an identifier new to its thread is
  what \<open>Get\<close> with that identifier returns after any further \<open>Put\<close>s, in any threads and under any
  identifiers, even the same one; what comes back is its deep copy.\<close>

theorem saver_time_travel:
  assumes "\<not> saver_known s t i"
  shows "MemorySaver_Get (fold (\<lambda>w s. saver_put s (fst w) (fst (snd w)) (snd (snd w))) ws (saver_put s t i cp))
      (saver_config t (Some i)) = Inr (Some (deepCopyMap (deepCopyMap cp)))"
  using saver.time_travel [OF assms, of cp ws] by (simp add: saver_get_def saver_puts_fold)

theorem saver_time_travel_witness:
  "MemorySaver_Get (saver_put (saver_put NewMemorySaver ''t'' ''a'' [(''x'', GBool True)]) ''t'' ''a'' [])
     (saver_config ''t'' (Some ''a'')) = Inr (Some [(''x'', GBool True)])"
  using saver_time_travel [of NewMemorySaver "''t''" "''a''" "[(''t'', ''a'', [])]" "[(''x'', GBool True)]"]
  by (simp add: saver_known_def thread_versions_def NewMemorySaver_def deepCopyMap_def mmap_def)

text \<open>\<open>Put\<close> with any configuration that names a thread succeeds, becomes what \<open>Get\<close> and
  \<open>GetState\<close> of the thread return, comes first in \<open>List\<close>, and leaves every other thread as it was.\<close>

theorem saver_put_then_get:
  assumes "config_string config ''thread_id'' = Some t"
  shows "\<exists>s'. MemorySaver_Put newID now s config cp = (None, s') \<and>
    MemorySaver_Get s' (saver_config t None) = Inr (Some (deepCopyMap (deepCopyMap cp))) \<and>
    map_option cs_Checkpoint (projr (MemorySaver_GetState s' (saver_config t None))) = Some (deepCopyMap (deepCopyMap cp)) \<and>
    MemorySaver_List s' (saver_config t None) 1 = Inr [list_entry (last (thread_versions s' t))] \<and>
    (\<forall>u q. u \<noteq> t \<longrightarrow> MemorySaver_Get s' (saver_config u q) = MemorySaver_Get s (saver_config u q))"
proof -
  obtain s' where put: "MemorySaver_Put newID now s config cp = (None, s')"
    using assms by (simp add: MemorySaver_Put_def Let_def)
  from thread_versions_Put [OF put assms] obtain entry where
    e: "ce_Checkpoint entry = deepCopyMap cp"
      "\<And>u. thread_versions s' u = (if u = t then thread_versions s t @ [entry] else thread_versions s u)" by blast
  have "MemorySaver_List s' (saver_config t None) 1 = Inr [list_entry entry]"
    by (simp add: MemorySaver_List_def e(2) Let_def list_limit_def nth_append)
  then show ?thesis
    using put by (simp add: MemorySaver_Get_def MemorySaver_GetState_def entry_state_def e Let_def split: option.splits)
qed

theorem saver_put_then_get_witness:
  "\<exists>s'. MemorySaver_Put ''id'' 5 NewMemorySaver [(''thread_id'', GString ''t'')] [(''x'', GBool True)] = (None, s') \<and>
    MemorySaver_Get s' (saver_config ''t'' None) = Inr (Some [(''x'', GBool True)])"
  using saver_put_then_get [of "[(''thread_id'', GString ''t'')]" "''t''" "''id''" 5 NewMemorySaver "[(''x'', GBool True)]"]
  by (auto simp: config_string_def mget_Cons deepCopyMap_def mmap_def)

text \<open>\<open>RunnableConfigToMap\<close> always writes a \<open>checkpoint_id\<close>, the empty text when the
  configuration has none, and \<open>MemorySaver.Get\<close> takes every text for an identifier: asking for the
  newest checkpoint through that map fails on a thread whose checkpoints all have identifiers.\<close>

theorem config_map_misses_newest:
  assumes "RunnableConfig_GetOrEmpty cfg ''checkpoint_id'' = []"
    and "list_all (\<lambda>e. ce_ID e \<noteq> []) (thread_versions s (rc_ThreadID cfg))"
  shows "MemorySaver_Get s (RunnableConfigToMap (Some cfg)) = Inl (ErrorNew ''checkpoint not found: '')"
proof -
  have "find (\<lambda>e. ce_ID e = []) (thread_versions s (rc_ThreadID cfg)) = None"
    using assms(2) by (auto simp: find_None_list_ex list_all_iff list_ex_iff)
  then show ?thesis
    using assms(1) by (simp add: MemorySaver_Get_def RunnableConfigToMap_def config_string_def mget_Cons Let_def)
qed

theorem config_map_misses_newest_witness:
  "MemorySaver_Get (saver_put NewMemorySaver ''t'' ''a'' []) (RunnableConfigToMap (Some (NewRunnableConfig\<lparr>rc_ThreadID := ''t''\<rparr>)))
     = Inl (ErrorNew ''checkpoint not found: '')"
  using config_map_misses_newest [of "NewRunnableConfig\<lparr>rc_ThreadID := ''t''\<rparr>" "saver_put NewMemorySaver ''t'' ''a'' []"]
  by (simp add: NewRunnableConfig_def RunnableConfig_GetOrEmpty_def thread_versions_def saver_put_def
      MemorySaver_Put_def NewMemorySaver_def Let_def mget_Cons)



end
