(* ===== verification/EngineData.thy ===== *)
theory EngineData
  imports StateGraph MemorySaver
begin

text \<open>
  The data helpers of \<open>pregel/engine.go\<close>: conversion of outputs to maps, merging of states, field
  mappings, task paths and the encoding of the set of completed tasks.  A Go panic is an error value.
  Values are trees, so a nested map that a field mapping puts into its result is a copy of the one
  in the output.
\<close>

definition type_panic :: gerror where
  "type_panic = ErrorNew ''panic: interface conversion: interface is not map[string]interface {}''"

fun toMap :: "gvalue \<Rightarrow> gerror + gvalue gomap" where
  "toMap GNil = Inl (ErrorNew ''nil value'')"
| "toMap (GMap m) = Inr m"
| "toMap (GMapBool m) = Inr (mmap GBool m)"
| "toMap (GMapInt m) = Inr (mmap GInt m)"
| "toMap (GMapMapInt m) = Inr (mmap GMapInt m)"
| "toMap (GEmptyMap k v) = Inr []"
| "toMap (GZero (RMap k v)) = Inr []"
| "toMap GMissing = Inr []"
| "toMap (GOverwrite v) = Inr [(''Value'', v)]"
| "toMap (GZero (RStruct n fs)) =
     Inr (mputs [] (map (\<lambda>f. (fst f, zero_value (snd (snd f)))) (filter (\<lambda>f. fst (snd f)) fs)))"
| "toMap v = Inr [(''__root__'', v)]"

definition mergeStates :: "gvalue \<Rightarrow> gvalue \<Rightarrow> gvalue" where
  "mergeStates existing nxt =
     (if existing = GNil then nxt
      else if nxt = GNil then existing
      else (case (existing, nxt) of
              (GMap existingMap, GMap nextMap) \<Rightarrow> GMap (mputs (mputs [] existingMap) nextMap)
            | _ \<Rightarrow> nxt))"

section \<open>Field mappings\<close>

text \<open>Following a path; a missing, nil or non-map step gives nil.\<close>

fun nested_get :: "gvalue \<Rightarrow> string list \<Rightarrow> gvalue" where
  "nested_get cur [] = cur"
| "nested_get cur (part # parts) =
     (case cur of
        GMap cm \<Rightarrow> (case mget cm part of
                     None \<Rightarrow> GNil
                   | Some v \<Rightarrow> if v = GNil then GNil else nested_get v parts)
      | _ \<Rightarrow> GNil)"

definition getNestedField :: "gvalue gomap \<Rightarrow> string \<Rightarrow> gvalue" where
  "getNestedField m path = (if path = [] then GMap m else nested_get (GMap m) (strings_Split (CHR ''.'') path))"

text \<open>
  Writing along a path.  When an inner step finds a value that is not a map, the code assigns to
  the nil map that the failed assertion left in \<open>m\<close>, which panics.
\<close>

fun nested_set :: "gvalue gomap \<Rightarrow> string list \<Rightarrow> gvalue \<Rightarrow> gerror + gvalue gomap" where
  "nested_set m [] val = Inr m"
| "nested_set m [part] val = Inr (mput m part val)"
| "nested_set m (part # next # parts) val =
     (case mget m part of
        None \<Rightarrow> map_sum id (\<lambda>sub. mput m part (GMap sub)) (nested_set [] (next # parts) val)
      | Some (GMap sub) \<Rightarrow> map_sum id (\<lambda>sub. mput m part (GMap sub)) (nested_set sub (next # parts) val)
      | Some other \<Rightarrow> Inl nil_map_panic)"

definition setNestedField :: "gvalue gomap \<Rightarrow> string \<Rightarrow> gvalue \<Rightarrow> gerror + gvalue gomap" where
  "setNestedField m path val =
     (if path = [] then (case val of GMap vm \<Rightarrow> Inr (mputs m vm) | _ \<Rightarrow> Inl type_panic)
      else nested_set m (strings_Split (CHR ''.'') path) val)"

fun mapping_loop :: "gvalue gomap \<Rightarrow> gvalue gomap \<Rightarrow> FieldMapping list \<Rightarrow> gerror + gvalue gomap" where
  "mapping_loop output result [] = Inr result"
| "mapping_loop output result (mapping # ms) =
     (let val = getNestedField output (fm_From mapping) in
      if val \<noteq> GNil
      then (case setNestedField result (fm_To mapping) val of
              Inl e \<Rightarrow> Inl e | Inr result' \<Rightarrow> mapping_loop output result' ms)
      else mapping_loop output result ms)"

definition applyFieldMapping :: "gvalue gomap \<Rightarrow> FieldMapping list \<Rightarrow> gerror + gvalue gomap" where
  "applyFieldMapping output mappings = (if mappings = [] then Inr output else mapping_loop output [] mappings)"

section \<open>Task paths and sets of tasks\<close>

definition TaskPathStr :: "string list \<Rightarrow> string" where
  "TaskPathStr path = (if path = [] then [] else strings_Join (CHR ''/'') path)"

definition ParseTaskPath :: "string \<Rightarrow> string list" where
  "ParseTaskPath pathStr = (if pathStr = [] then [] else strings_Split (CHR ''/'') pathStr)"

text \<open>A component: a string, an int, a slice of strings, or another value by the text it prints as.\<close>

datatype path_component = CompString string | CompInt goint | CompStrings "string list" | CompOther string

definition component_path :: "path_component \<Rightarrow> string list" where
  "component_path c =
     (case c of CompString s \<Rightarrow> [s] | CompInt i \<Rightarrow> [goint_digits i] | CompStrings ss \<Rightarrow> ss | CompOther s \<Rightarrow> [s])"

definition BuildTaskPath :: "path_component list \<Rightarrow> string list" where
  "BuildTaskPath components = concat (map component_path components)"

definition NUL :: char where "NUL = CHR 0x00"

definition serializeStringSet :: "bool gomap \<Rightarrow> string" where
  "serializeStringSet tasks = (if tasks = [] then [] else strings_Join NUL (mkeys tasks))"

text \<open>\<open>None\<close> is the nil map.\<close>

definition deserializeStringSet :: "string \<Rightarrow> bool gomap option" where
  "deserializeStringSet encoded =
     (if encoded = [] then None
      else Some (mputs [] (map (\<lambda>part. (part, True)) (strings_Split NUL encoded))))"

section \<open>Lemmas\<close>

lemma nested_get_set:
  "nested_set m ps v = Inr m' \<Longrightarrow> ps \<noteq> [] \<Longrightarrow> v \<noteq> GNil \<Longrightarrow> nested_get (GMap m') ps = v"
proof (induction m ps v arbitrary: m' rule: nested_set.induct)
  case (3 m part nxt parts val)
  show ?case
  proof (cases "mget m part")
    case None
    then obtain sub where sub: "nested_set [] (nxt # parts) val = Inr sub" "m' = mput m part (GMap sub)"
      using 3(3) by (cases "nested_set [] (nxt # parts) val") auto
    then show ?thesis using 3(1) [OF None sub(1)] 3(5) by simp
  next
    case (Some w)
    then obtain s where w: "w = GMap s" using 3(3) by (cases w) auto
    with Some obtain sub where sub: "nested_set s (nxt # parts) val = Inr sub" "m' = mput m part (GMap sub)"
      using 3(3) by (cases "nested_set s (nxt # parts) val") auto
    then show ?thesis using 3(2) [OF Some w sub(1)] 3(5) by simp
  qed
qed auto

text \<open>Two paths that part at some step do not disturb each other.\<close>

lemma nested_get_set_other:
  "nested_set m (xs @ p # ps) v = Inr m' \<Longrightarrow> p \<noteq> q \<Longrightarrow>
   nested_get (GMap m') (xs @ q # qs) = nested_get (GMap m) (xs @ q # qs)"
proof (induction xs arbitrary: m m')
  case Nil
  then obtain w where "m' = mput m p w"
    by (cases ps) (auto split: option.splits gvalue.splits sum.splits simp: map_sum_def)
  with Nil show ?case by simp
next
  case (Cons x xs)
  obtain y ys where ys: "xs @ p # ps = y # ys" by (cases "xs @ p # ps") auto
  define s where "s = (case mget m x of Some (GMap s) \<Rightarrow> s | _ \<Rightarrow> [])"
  have s: "mget m x = None \<and> s = [] \<or> mget m x = Some (GMap s)"
    using Cons.prems ys by (auto simp: s_def split: option.splits gvalue.splits)
  then have "map_sum id (\<lambda>sub. mput m x (GMap sub)) (nested_set s (xs @ p # ps) v) = Inr m'"
    using Cons.prems(1) ys by auto
  then obtain sub where sub: "nested_set s (xs @ p # ps) v = Inr sub" "m' = mput m x (GMap sub)"
    by (cases "nested_set s (xs @ p # ps) v") auto
  have "nested_get (GMap sub) (xs @ q # qs) = nested_get (GMap s) (xs @ q # qs)"
    using Cons.IH [OF sub(1) Cons.prems(2)] .
  moreover have "nested_get (GMap []) (xs @ q # qs) = GNil" by (cases xs) auto
  ultimately show ?case using s sub(2) by auto
qed

text \<open>The write fails exactly when a proper prefix of the path leads to a value that is not a map.\<close>

fun blocked :: "gvalue gomap \<Rightarrow> string list \<Rightarrow> bool" where
  "blocked m (part # next # parts) =
     (case mget m part of None \<Rightarrow> False | Some (GMap sub) \<Rightarrow> blocked sub (next # parts) | Some v \<Rightarrow> True)"
| "blocked m _ = False"

lemma blocked_Nil [simp]: "blocked [] ps = False"
  by (cases "([] :: gvalue gomap, ps)" rule: blocked.cases) auto

lemma nested_set_blocked: "nested_set m ps v = (if blocked m ps then Inl nil_map_panic else Inr (projr (nested_set m ps v)))"
proof (induction m ps v rule: nested_set.induct)
  case (3 m part nxt parts val)
  show ?case
  proof (cases "mget m part")
    case None
    then obtain sub where "nested_set [] (nxt # parts) val = Inr sub" using 3(1) by auto
    with None show ?thesis by simp
  next
    case (Some w)
    then show ?thesis
    proof (cases w)
      case (GMap s)
      then show ?thesis using Some 3(2) [OF Some GMap] by (cases "blocked s (nxt # parts)") (auto, metis map_sum.simps(2) sum.sel(2))
    qed auto
  qed
qed auto

lemma strings_Join_nonempty: "ps \<noteq> [] \<Longrightarrow> ps \<noteq> [[]] \<Longrightarrow> strings_Join c ps \<noteq> []"
  by (cases ps rule: list.exhaust; cases "tl ps") auto

lemma deserialize_serialize:
  assumes "mwf tasks" and tasks: "\<forall>e\<in>set tasks. snd e \<and> NUL \<notin> set (fst e)" and "mkeys tasks \<noteq> [[]]"
  shows "case_option [] id (deserializeStringSet (serializeStringSet tasks)) = tasks"
proof (cases "tasks = []")
  case False
  then have ne: "mkeys tasks \<noteq> []" by (simp add: mkeys_def)
  then have "strings_Split NUL (strings_Join NUL (mkeys tasks)) = mkeys tasks"
    using tasks by (intro strings_Split_Join) (auto simp: mkeys_def)
  moreover have "map (\<lambda>part. (part, True)) (mkeys tasks) = tasks"
    using tasks by (auto simp: mkeys_def intro!: map_idI)
  ultimately show ?thesis
    using strings_Join_nonempty [OF ne assms(3)] False assms(1)
    by (simp add: serializeStringSet_def deserializeStringSet_def mputs_Nil_sorted)
qed (simp add: serializeStringSet_def deserializeStringSet_def)

lemma ascii_Join: "\<forall>p\<in>set ps. ascii p \<Longrightarrow> (of_char c :: nat) < 128 \<Longrightarrow> ascii (strings_Join c ps)"
  by (induction c ps rule: strings_Join.induct) (auto simp: ascii_def)

section \<open>Properties\<close>

text \<open>Field mappings on the target side.  \<open>setNestedField\<close> along a non-empty path either panics,
  exactly when a proper prefix of the path already holds a value that is not a map, or makes a map
  in which \<open>getNestedField\<close> along the path finds the value, while every path that parts from it at
  some step reads as before.\<close>

theorem nested_field_laws:
  assumes "path \<noteq> []" and "v \<noteq> GNil"
  shows "case setNestedField m path v of
      Inl e \<Rightarrow> blocked m (strings_Split (CHR ''.'') path)
    | Inr m' \<Rightarrow> \<not> blocked m (strings_Split (CHR ''.'') path) \<and> getNestedField m' path = v \<and>
        (\<forall>xs p ps q qs. strings_Split (CHR ''.'') path = xs @ p # ps \<longrightarrow> p \<noteq> q \<longrightarrow>
           nested_get (GMap m') (xs @ q # qs) = nested_get (GMap m) (xs @ q # qs))"
proof (cases "setNestedField m path v")
  case (Inl e)
  then have "nested_set m (strings_Split (CHR ''.'') path) v = Inl e"
    using assms(1) by (simp add: setNestedField_def)
  then have "blocked m (strings_Split (CHR ''.'') path)"
    using nested_set_blocked [of m "strings_Split (CHR ''.'') path" v] by (metis sum.distinct(1))
  then show ?thesis using Inl by simp
next
  case (Inr m')
  then have set: "nested_set m (strings_Split (CHR ''.'') path) v = Inr m'"
    using assms(1) by (simp add: setNestedField_def)
  moreover have "\<not> blocked m (strings_Split (CHR ''.'') path)"
    using nested_set_blocked [of m "strings_Split (CHR ''.'') path" v] set by auto
  moreover have "getNestedField m' path = v"
    using nested_get_set [OF set _ assms(2)] assms(1) by (simp add: getNestedField_def)
  ultimately show ?thesis using Inr nested_get_set_other by auto
qed

theorem nested_field_laws_witness:
  "getNestedField (projr (setNestedField [] ''a.b'' (GBool True))) ''a.b'' = GBool True"
  using nested_field_laws [of "''a.b''" "GBool True" "[]"]
  by (auto split: sum.splits)

text \<open>Two field mappings of one node, the first to \<open>a\<close> and the second to \<open>a.b\<close>, make \<open>applyFieldMapping\<close>
  panic when the first value is not a map, although the code has a branch meant to replace it by a
  map; so does a mapping of a value that is not a map to the whole state.\<close>

theorem field_mapping_panics:
  "applyFieldMapping [(''x'', GBool True), (''y'', GBool True)]
     [\<lparr>fm_From = ''x'', fm_To = ''a''\<rparr>, \<lparr>fm_From = ''y'', fm_To = ''a.b''\<rparr>] = Inl nil_map_panic \<and>
   applyFieldMapping [(''x'', GBool True)] [\<lparr>fm_From = ''x'', fm_To = []\<rparr>] = Inl type_panic"
  by (simp add: applyFieldMapping_def getNestedField_def setNestedField_def mget_Cons)

text \<open>The encodings kept in checkpoints and logs can be read back: the set of completed tasks, for
  task names without NUL and other than the set of just the empty name, and task paths without
  slashes in their parts.\<close>

theorem task_encodings_roundtrip:
  assumes "mwf tasks" and tasks: "\<forall>e\<in>set tasks. snd e \<and> NUL \<notin> set (fst e)" and "mkeys tasks \<noteq> [[]]"
    and path: "\<forall>p\<in>set path. CHR ''/'' \<notin> set p" and "path \<noteq> [[]]"
  shows "case_option [] id (deserializeStringSet (serializeStringSet tasks)) = tasks \<and>
    ParseTaskPath (TaskPathStr path) = path"
proof
  show "case_option [] id (deserializeStringSet (serializeStringSet tasks)) = tasks"
    using assms(1-3) by (rule deserialize_serialize)
  show "ParseTaskPath (TaskPathStr path) = path"
  proof (cases "path = []")
    case False
    then show ?thesis
      using strings_Join_nonempty [OF False assms(5)] strings_Split_Join [OF False path]
      by (simp add: TaskPathStr_def ParseTaskPath_def)
  qed (simp add: TaskPathStr_def ParseTaskPath_def)
qed

theorem task_encodings_roundtrip_witness:
  "case_option [] id (deserializeStringSet (serializeStringSet [(''a'', True), (''b'', True)])) =
     [(''a'', True), (''b'', True)]"
  using task_encodings_roundtrip [of "[(''a'', True), (''b'', True)]" "[]"]
  by (simp add: mwf_def NUL_def mkeys_def)

end
