(* ===== verification/Scheduling.thy ===== *)
theory Scheduling
  imports EngineData
begin

text \<open>
  Scheduling in \<open>pregel/engine.go\<close>: which tasks the next superstep runs, in the mode where any
  predecessor triggers a node and in the mode where all must have completed; interrupts; and what a
  task reads.  \<open>ro\<close> is the order in which Go ranges over maps; \<open>uid\<close> gives the identifier of the task
  of a node; \<open>other\<close> completes \<open>fmt\<close>.  The engine's fields that only configure events, caching or
  worker pools are left out.
\<close>

record Engine =
  eng_graph :: stateGraph
  eng_interrupts :: "bool gomap"
  eng_interruptsAfter :: "bool gomap"
  eng_recursionLimit :: goint
  eng_config :: "RunnableConfig option"
  eng_retryPolicy :: "RetryPolicy option"

definition NewEngine :: "stateGraph \<Rightarrow> (Engine \<Rightarrow> Engine) list \<Rightarrow> Engine" where
  "NewEngine g opts = fold (\<lambda>opt e. opt e) opts
     \<lparr>eng_graph = g, eng_interrupts = [], eng_interruptsAfter = [], eng_recursionLimit = 25,
      eng_config = Some NewRunnableConfig, eng_retryPolicy = None\<rparr>"

record Task =
  tk_ID :: string
  tk_Name :: string
  tk_Func :: "NodeFunc option"
  tk_Channels :: "string list"
  tk_Path :: "string list"
  tk_Triggers :: "string list"
  tk_RetryPolicy :: "RetryPolicy option"

record TaskResult =
  tr_Name :: string
  tr_Output :: gvalue
  tr_Err :: "gerror option"
  tr_Path :: "string list"

definition createTask :: "string \<Rightarrow> Node \<Rightarrow> string list \<Rightarrow> string list \<Rightarrow> Task" where
  "createTask newID node chans triggers =
     \<lparr>tk_ID = newID, tk_Name = n_Name node, tk_Func = n_Function node, tk_Channels = chans, tk_Path = [],
      tk_Triggers = remdups triggers, tk_RetryPolicy = n_RetryPolicy node\<rparr>"

definition createTaskInfo :: "string \<Rightarrow> Node \<Rightarrow> string list \<Rightarrow> string list \<Rightarrow> Task" where
  "createTaskInfo newID node chans triggers =
     \<lparr>tk_ID = newID, tk_Name = n_Name node, tk_Func = None, tk_Channels = chans, tk_Path = [],
      tk_Triggers = remdups triggers, tk_RetryPolicy = n_RetryPolicy node\<rparr>"

definition Engine_getNode :: "Engine \<Rightarrow> string \<Rightarrow> Node option" where
  "Engine_getNode e name = mget (nodes (eng_graph e)) name"

definition Engine_resolveRetryPolicy :: "Engine \<Rightarrow> Task \<Rightarrow> RetryPolicy" where
  "Engine_resolveRetryPolicy e task =
     (case tk_RetryPolicy task of Some p \<Rightarrow> p
      | None \<Rightarrow> (case eng_retryPolicy e of Some p \<Rightarrow> p | None \<Rightarrow> DefaultRetryPolicy))"

section \<open>Successors of the last completed node\<close>

text \<open>Conditional edges of \<open>node\<close>: whether one led to \<open>End\<close>, whether there was any, the targets so far.\<close>

fun conditional_loop ::
    "(gvalue \<Rightarrow> string) \<Rightarrow> string \<Rightarrow> gvalue \<Rightarrow> bool \<Rightarrow> bool gomap \<Rightarrow> ConditionalEdge list \<Rightarrow> bool \<times> bool \<times> bool gomap" where
  "conditional_loop other node state has nextNodes [] = (False, has, nextNodes)"
| "conditional_loop other node state has nextNodes (condEdge # cs) =
     (if ce_From condEdge \<noteq> node then conditional_loop other node state has nextNodes cs
      else
        let conditionKey = fmt_v other (fst (ce_Condition condEdge state)) in
        case mget (ce_Mapping condEdge) conditionKey of
          None \<Rightarrow> conditional_loop other node state True nextNodes cs
        | Some targetNode \<Rightarrow>
            if targetNode = End then (True, True, nextNodes)
            else conditional_loop other node state True (mput nextNodes targetNode True) cs)"

fun edge_loop :: "string \<Rightarrow> bool gomap \<Rightarrow> Edge list \<Rightarrow> bool \<times> bool gomap" where
  "edge_loop node nextNodes [] = (False, nextNodes)"
| "edge_loop node nextNodes (edge # es) =
     (if e_From edge \<noteq> node then edge_loop node nextNodes es
      else if e_To edge = End then (True, nextNodes)
      else edge_loop node (mput nextNodes (e_To edge) True) es)"

text \<open>The resume fallback: route from the \<open>_next\<close> entry of the state.\<close>

definition route_from_next :: "Engine \<Rightarrow> gvalue \<Rightarrow> bool gomap" where
  "route_from_next e state =
     (case state of
        GMap st \<Rightarrow>
          (case mget st ''_next'' of
             Some (GString tv) \<Rightarrow> if Engine_getNode e tv \<noteq> None then [(tv, True)] else []
           | Some (GSlice (GString str # vs)) \<Rightarrow> if Engine_getNode e str \<noteq> None then [(str, True)] else []
           | _ \<Rightarrow> [])
      | _ \<Rightarrow> [])"

fun branch_loop :: "string \<Rightarrow> gvalue \<Rightarrow> bool gomap \<Rightarrow> Branch list \<Rightarrow> bool gomap" where
  "branch_loop node state nextNodes [] = nextNodes"
| "branch_loop node state nextNodes (branch # bs) =
     (if br_From branch \<noteq> node then branch_loop node state nextNodes bs
      else (case br_Condition branch state of
              (v, Some err) \<Rightarrow> branch_loop node state nextNodes bs
            | (v, None) \<Rightarrow> branch_loop node state
                (mputs nextNodes (map (\<lambda>t. (t, True)) (filter (\<lambda>t. t \<noteq> End) (br_Then branch v)))) bs))"

definition Engine_getNextNodes :: "(gvalue \<Rightarrow> string) \<Rightarrow> Engine \<Rightarrow> string \<Rightarrow> gvalue \<Rightarrow> bool gomap" where
  "Engine_getNextNodes other e node state =
     (let (condEnded, hasConditional, next1) =
            conditional_loop other node state False [] (conditionalEdges (eng_graph e)) in
      if condEnded then next1
      else
        let (edgeEnded, next2) =
          (if \<not> hasConditional \<and> next1 = [] then edge_loop node next1 (edges (eng_graph e)) else (False, next1)) in
        if edgeEnded then next2
        else
          let next3 = (if next2 = [] then route_from_next e state else next2)
          in branch_loop node state next3 (branches (eng_graph e)))"

section \<open>Preparing tasks\<close>

definition Engine_buildIncomingEdges :: "Engine \<Rightarrow> string list gomap" where
  "Engine_buildIncomingEdges e =
     fold (\<lambda>edge adj. mput adj (e_To edge) (case_option [] id (mget adj (e_To edge)) @ [e_From edge]))
       (edges (eng_graph e)) []"

definition completed :: "bool gomap \<Rightarrow> string \<Rightarrow> bool" where
  "completed tasks name \<longleftrightarrow> mget tasks name = Some True"

definition all_done :: "bool gomap \<Rightarrow> string list \<Rightarrow> bool" where
  "all_done completedTasks predecessors =
     list_all (\<lambda>pred. pred = Start \<or> pred = End \<or> completed completedTasks pred) predecessors"

definition make_task :: "(string \<Rightarrow> string) \<Rightarrow> bool \<Rightarrow> Node \<Rightarrow> string list \<Rightarrow> Task" where
  "make_task uid forExecution node triggers =
     (if forExecution then createTask (uid (n_Name node)) node triggers []
      else createTaskInfo (uid (n_Name node)) node triggers [])"

definition Engine_prepareNextTasksDAG ::
    "(string list \<Rightarrow> string list) \<Rightarrow> (string \<Rightarrow> string) \<Rightarrow> Engine \<Rightarrow> bool gomap \<Rightarrow> bool \<Rightarrow> Task list \<times> string list" where
  "Engine_prepareNextTasksDAG ro uid e completedTasks forExecution =
     (let incomingEdges = Engine_buildIncomingEdges e;
          ready = filter (\<lambda>node.
            (case Engine_getNode e (n_Name node) of None \<Rightarrow> False
             | Some n \<Rightarrow> \<not> completed completedTasks (n_Name node) \<and>
                 all_done completedTasks (case_option [] id (mget incomingEdges (n_Name node)))))
            (map snd (range_entries ro (nodes (eng_graph e))));
          triggers = (\<lambda>n. if n_Triggers n = [] then ro (mkeys (g_channels (eng_graph e))) else n_Triggers n);
          found = map (\<lambda>node. the (Engine_getNode e (n_Name node))) ready
      in (map (\<lambda>n. make_task uid forExecution n (triggers n)) found, remdups (concat (map triggers found))))"

definition Engine_prepareNextTasksWithMode ::
    "(string list \<Rightarrow> string list) \<Rightarrow> (string \<Rightarrow> string) \<Rightarrow> (gvalue \<Rightarrow> string) \<Rightarrow> Engine \<Rightarrow> Registry \<Rightarrow> bool gomap \<Rightarrow>
     string \<Rightarrow> gvalue \<Rightarrow> bool \<Rightarrow> gerror + (Task list \<times> string list)" where
  "Engine_prepareNextTasksWithMode ro uid other e registry completedTasks lastCompletedNode currentState forExecution =
     (if completedTasks = [] then
        (let entry = entryPoint (eng_graph e) in
         if entry = [] then Inl (ErrorNew ''no entry point set'')
         else if entry = End then Inr ([], [])
         else (case Engine_getNode e entry of
                 None \<Rightarrow> Inl (NodeNotFoundError entry)
               | Some node \<Rightarrow>
                   let triggers = (if n_Triggers node = [] then Registry_Names ro registry else n_Triggers node)
                   in Inr ([createTask (uid (n_Name node)) node triggers []], [''__start__''])))
      else if nodeTriggerMode (eng_graph e) = NodeTriggerAllPredecessor
      then Inr (Engine_prepareNextTasksDAG ro uid e completedTasks forExecution)
      else
        let nextNodes = Engine_getNextNodes other e lastCompletedNode currentState;
            found = List.map_filter (Engine_getNode e) (ro (mkeys nextNodes));
            triggers = (\<lambda>n. if n_Triggers n = [] then Registry_Names ro registry else n_Triggers n)
        in Inr (map (\<lambda>n. make_task uid forExecution n (triggers n)) found, remdups (concat (map triggers found))))"

section \<open>Interrupts\<close>

definition All :: string where "All = ''*''"

definition flagged :: "bool gomap \<Rightarrow> string \<Rightarrow> bool" where
  "flagged m name \<longleftrightarrow> mget m name = Some True"

definition Engine_shouldInterrupt :: "Engine \<Rightarrow> Task list \<Rightarrow> Task list" where
  "Engine_shouldInterrupt e tasks =
     (if eng_interrupts e = [] then []
      else filter (\<lambda>t. flagged (eng_interrupts e) All \<or> flagged (eng_interrupts e) (tk_Name t)) tasks)"

definition Engine_shouldInterruptAfter :: "Engine \<Rightarrow> TaskResult list \<Rightarrow> bool" where
  "Engine_shouldInterruptAfter e results =
     (if eng_interruptsAfter e = [] then False
      else list_ex (\<lambda>r. tr_Err r = None \<and>
        (flagged (eng_interruptsAfter e) All \<or> flagged (eng_interruptsAfter e) (tr_Name r))) results)"

section \<open>Reading and running a task\<close>

fun read_loop :: "Registry \<Rightarrow> gvalue gomap \<Rightarrow> string list \<Rightarrow> (gerror + gvalue) \<times> Registry" where
  "read_loop registry vals [] = (Inr (GMap vals), registry)"
| "read_loop registry vals (channelName # cs) =
     (case Registry_Get registry channelName of
        None \<Rightarrow> read_loop registry vals cs
      | Some ch \<Rightarrow>
          (case Channel_Get ch of
             (Inl err, ch') \<Rightarrow>
               if IsEmptyChannelError err then read_loop (Registry_Register registry channelName ch') vals cs
               else (Inl err, Registry_Register registry channelName ch')
           | (Inr v, ch') \<Rightarrow> read_loop (Registry_Register registry channelName ch') (mput vals channelName v) cs))"

definition readTaskInput :: "Registry \<Rightarrow> Task \<Rightarrow> (gerror + gvalue) \<times> Registry" where
  "readTaskInput registry task =
     (if tk_Channels task = [] then (Inr (GMap []), registry) else read_loop registry [] (tk_Channels task))"

text \<open>
  One task of \<open>executeTasksAsync\<close> at a superstep: read the input, run the node with its retry
  policy, and report.  \<open>taskDone\<close> is the error of the context when it ends before the result
  arrives, \<open>waitDone\<close> when it ends while the executor waits after an attempt.  The conversion of the
  input to a struct schema is not modelled: the input is the map of channel values, as it is for a
  graph with a map schema.
\<close>

definition execute_task ::
    "(string \<Rightarrow> gerror option) \<Rightarrow> (string \<Rightarrow> nat \<Rightarrow> gerror option) \<Rightarrow> Engine \<Rightarrow> nat \<Rightarrow> Registry \<Rightarrow> Task \<Rightarrow> TaskResult \<times> Registry" where
  "execute_task taskDone waitDone e step registry t =
     (case readTaskInput registry t of
        (Inl err, registry') \<Rightarrow>
          (\<lparr>tr_Name = tk_Name t, tr_Output = GNil, tr_Err = Some (ErrorWrap ''failed to read task input'' err), tr_Path = []\<rparr>,
           registry')
      | (Inr input, registry') \<Rightarrow>
          let res = RetryExecutor_Execute (Engine_resolveRetryPolicy e t) (waitDone (tk_Name t)) (tk_Name t)
                (\<lambda>attempt. call_func (tk_Func t) step attempt input)
          in (case taskDone (tk_Name t) of
                Some err \<Rightarrow> \<lparr>tr_Name = tk_Name t, tr_Output = GNil, tr_Err = Some err, tr_Path = []\<rparr>
              | None \<Rightarrow>
                  (case res of
                     Inl err \<Rightarrow> \<lparr>tr_Name = tk_Name t, tr_Output = GNil, tr_Err = Some err, tr_Path = []\<rparr>
                   | Inr output \<Rightarrow> \<lparr>tr_Name = tk_Name t, tr_Output = output, tr_Err = None, tr_Path = []\<rparr>),
              registry'))"

text \<open>
  The tasks of a superstep; their reads are taken in task order, which only a channel that is
  cleared by reading could tell from another interleaving.
\<close>

fun Engine_executeTasksAsync ::
    "(string \<Rightarrow> gerror option) \<Rightarrow> (string \<Rightarrow> nat \<Rightarrow> gerror option) \<Rightarrow> Engine \<Rightarrow> nat \<Rightarrow> Registry \<Rightarrow> Task list \<Rightarrow>
     TaskResult list \<times> Registry" where
  "Engine_executeTasksAsync taskDone waitDone e step registry [] = ([], registry)"
| "Engine_executeTasksAsync taskDone waitDone e step registry (t # ts) =
     (let (r, registry1) = execute_task taskDone waitDone e step registry t;
          (rs, registry2) = Engine_executeTasksAsync taskDone waitDone e step registry1 ts
      in (r # rs, registry2))"

section \<open>Lemmas\<close>

lemma incoming_fold:
  "mget (fold (\<lambda>edge adj. mput adj (e_To edge) (case_option [] id (mget adj (e_To edge)) @ [e_From edge])) es adj) n =
     (case map e_From (filter (\<lambda>ed. e_To ed = n) es) of
        [] \<Rightarrow> mget adj n | f # fs \<Rightarrow> Some (case_option [] id (mget adj n) @ f # fs))"
proof (induction es arbitrary: adj)
  case Nil
  then show ?case by simp
next
  case (Cons ed es)
  then show ?case by (auto split: list.splits)
qed

lemma incoming_sources:
  "case_option [] id (mget (Engine_buildIncomingEdges e) n) = map e_From (filter (\<lambda>ed. e_To ed = n) (edges (eng_graph e)))"
  unfolding Engine_buildIncomingEdges_def incoming_fold by (auto split: list.splits)

text \<open>When a node is due in the mode where all predecessors must have completed.\<close>

definition dag_ready :: "Engine \<Rightarrow> bool gomap \<Rightarrow> string \<Rightarrow> bool" where
  "dag_ready e tasks n \<longleftrightarrow> mhas (nodes (eng_graph e)) n \<and> \<not> completed tasks n \<and>
     (\<forall>ed\<in>set (edges (eng_graph e)). e_To ed = n \<longrightarrow> e_From ed \<in> {Start, End} \<or> completed tasks (e_From ed))"

lemma all_done_incoming:
  "all_done tasks (case_option [] id (mget (Engine_buildIncomingEdges e) n)) \<longleftrightarrow>
     (\<forall>ed\<in>set (edges (eng_graph e)). e_To ed = n \<longrightarrow> e_From ed \<in> {Start, End} \<or> completed tasks (e_From ed))"
  unfolding incoming_sources all_done_def by (auto simp: list_all_iff)

lemma entry_named:
  assumes "graph_wf (eng_graph e)" and "range_order ro"
    and "node \<in> set (map snd (range_entries ro (nodes (eng_graph e))))"
  shows "mget (nodes (eng_graph e)) (n_Name node) = Some node"
proof -
  obtain k where "mget (nodes (eng_graph e)) k = Some node"
    using assms(3) by (auto simp: range_entries_mem [OF assms(2)])
  then show ?thesis using assms(1) unfolding graph_wf_def by metis
qed

lemma make_task_Name [simp]: "tk_Name (make_task uid x n ts) = n_Name n"
  by (simp add: make_task_def createTask_def createTaskInfo_def)

lemma map_snd_entries_names:
  assumes wf: "graph_wf (eng_graph e)" and ro: "range_order ro"
  shows "map n_Name (map snd (range_entries ro (nodes (eng_graph e)))) = map fst (range_entries ro (nodes (eng_graph e)))"
proof (unfold map_map, rule map_cong [OF refl])
  fix x assume "x \<in> set (range_entries ro (nodes (eng_graph e)))"
  then have "mget (nodes (eng_graph e)) (fst x) = Some (snd x)"
    using range_entries_mem [OF ro, of "fst x" "snd x"] by simp
  then show "(n_Name \<circ> snd) x = fst x" using wf unfolding graph_wf_def by simp
qed

lemma dag_task_names:
  assumes wf: "graph_wf (eng_graph e)" and ro: "range_order ro"
  shows "map tk_Name (fst (Engine_prepareNextTasksDAG ro uid e tasks x)) =
    filter (dag_ready e tasks) (map fst (range_entries ro (nodes (eng_graph e))))"
proof -
  let ?ns = "map snd (range_entries ro (nodes (eng_graph e)))"
  let ?P = "\<lambda>node. case Engine_getNode e (n_Name node) of None \<Rightarrow> False
     | Some n \<Rightarrow> \<not> completed tasks (n_Name node) \<and>
         all_done tasks (case_option [] id (mget (Engine_buildIncomingEdges e) (n_Name node)))"
  have P: "?P node = dag_ready e tasks (n_Name node)" and N: "n_Name (the (Engine_getNode e (n_Name node))) = n_Name node"
    if "node \<in> set ?ns" for node
    using entry_named [OF wf ro that] by (simp_all add: Engine_getNode_def all_done_incoming dag_ready_def mhas_mget)
  have "map tk_Name (fst (Engine_prepareNextTasksDAG ro uid e tasks x)) =
      map (\<lambda>node. n_Name (the (Engine_getNode e (n_Name node)))) (filter ?P ?ns)"
    by (simp add: Engine_prepareNextTasksDAG_def Let_def o_def)
  also have "filter ?P ?ns = filter (\<lambda>node. dag_ready e tasks (n_Name node)) ?ns"
    by (rule filter_cong [OF refl]) (rule P)
  also have "map (\<lambda>node. n_Name (the (Engine_getNode e (n_Name node)))) (filter (\<lambda>node. dag_ready e tasks (n_Name node)) ?ns) =
      map n_Name (filter (\<lambda>node. dag_ready e tasks (n_Name node)) ?ns)"
    by (rule map_cong [OF refl]) (rule N, simp)
  also have "\<dots> = filter (dag_ready e tasks) (map n_Name ?ns)"
    by (simp add: filter_map o_def)
  finally show ?thesis by (simp only: map_snd_entries_names [OF wf ro])
qed

lemma conditional_loop_has:
  "conditional_loop other node state has nx cs = (ended, has', nx') \<Longrightarrow>
   has' \<longleftrightarrow> has \<or> (\<exists>c\<in>set cs. ce_From c = node)"
  by (induction other node state has nx cs rule: conditional_loop.induct)
    (auto simp: Let_def split: if_splits option.splits)

section \<open>Properties\<close>



text \<open>A node with conditional edges routes only through them: its regular edges have no influence on
  the successors, whatever they are.\<close>

theorem conditional_edges_exclusive:
  assumes "\<exists>c\<in>set (conditionalEdges (eng_graph e)). ce_From c = node"
  shows "Engine_getNextNodes other (e\<lparr>eng_graph := (eng_graph e)\<lparr>edges := es\<rparr>\<rparr>) node state =
    Engine_getNextNodes other e node state"
proof -
  obtain ended has nx where run:
    "conditional_loop other node state False [] (conditionalEdges (eng_graph e)) = (ended, has, nx)" by (metis surj_pair)
  then have "has" using conditional_loop_has assms by blast
  moreover have node: "Engine_getNode (e\<lparr>eng_graph := (eng_graph e)\<lparr>edges := es\<rparr>\<rparr>) = Engine_getNode e"
    by (rule ext) (simp add: Engine_getNode_def)
  have "route_from_next (e\<lparr>eng_graph := (eng_graph e)\<lparr>edges := es\<rparr>\<rparr>) state = route_from_next e state"
    unfolding route_from_next_def node ..
  ultimately show ?thesis using run by (simp add: Engine_getNextNodes_def)
qed

theorem conditional_edges_exclusive_witness:
  "Engine_getNextNodes (\<lambda>v. [])
     (NewEngine (snd (stateGraph_AddConditionalEdges (\<lambda>ks. ks) sample_graph ''a'' (\<lambda>v. (GString ''x'', None)) [(''x'', ''b'')])) []) ''a'' GNil
   = Engine_getNextNodes (\<lambda>v. [])
     ((NewEngine (snd (stateGraph_AddConditionalEdges (\<lambda>ks. ks) sample_graph ''a'' (\<lambda>v. (GString ''x'', None)) [(''x'', ''b'')])) [])
       \<lparr>eng_graph := (snd (stateGraph_AddConditionalEdges (\<lambda>ks. ks) sample_graph ''a'' (\<lambda>v. (GString ''x'', None)) [(''x'', ''b'')]))
         \<lparr>edges := []\<rparr>\<rparr>) ''a'' GNil"
  using conditional_edges_exclusive [of
      "NewEngine (snd (stateGraph_AddConditionalEdges (\<lambda>ks. ks) sample_graph ''a'' (\<lambda>v. (GString ''x'', None)) [(''x'', ''b'')])) []"
      "''a''" "\<lambda>v. []" "[]" GNil]
  by (simp add: NewEngine_def stateGraph_AddConditionalEdges_def bad_target_def sample_graph_simps range_entries_def
      mkeys_def mget_Cons)

text \<open>The order in which edges were added decides what runs: with the edges to \<open>End\<close> and to \<open>b\<close> in
  this order a node has no successor, in the other order it has \<open>b\<close>; the first edge to \<open>End\<close> also
  hides every branch of the node.\<close>

theorem edge_order_matters:
  "Engine_getNextNodes other
     (NewEngine (sample_graph\<lparr>edges := [\<lparr>e_From = ''a'', e_To = End\<rparr>, \<lparr>e_From = ''a'', e_To = ''b''\<rparr>],
        branches := [\<lparr>br_From = ''a'', br_Condition = (\<lambda>v. (v, None)), br_Then = (\<lambda>v. [''b''])\<rparr>]\<rparr>) []) ''a'' state = [] \<and>
   Engine_getNextNodes other
     (NewEngine (sample_graph\<lparr>edges := [\<lparr>e_From = ''a'', e_To = ''b''\<rparr>, \<lparr>e_From = ''a'', e_To = End\<rparr>]\<rparr>) []) ''a'' state = [(''b'', True)]"
  by (simp add: Engine_getNextNodes_def NewEngine_def sample_graph_simps)

end
