(* ===== verification/Writes.thy ===== *)
theory Writes
  imports Scheduling
begin

text \<open>
  Writing in \<open>pregel/engine.go\<close>: applying the input of a run and the outputs of a superstep to the
  channels, with the version bookkeeping of the engine.  \<open>sort.Slice\<close> orders results by node name;
  results of equal name, which one superstep does not have, keep their order in the model.
\<close>

text \<open>The fields of the engine that a run changes while it writes.\<close>

record WriteState =
  ws_channelVersions :: "goint gomap"
  ws_versionsSeen :: "goint gomap gomap"
  ws_currentCheckpoint :: "Checkpoint option"

section \<open>Input\<close>

definition registered :: "Registry \<Rightarrow> string \<Rightarrow> bool" where
  "registered registry name \<longleftrightarrow> Registry_Get registry name \<noteq> None"

definition caseFoldKey :: "Registry \<Rightarrow> string \<Rightarrow> string" where
  "caseFoldKey registry key =
     (case key of [] \<Rightarrow> []
      | c # cs \<Rightarrow>
          let upper = char_of ((of_char c :: nat) - 32) # cs; lower = char_of ((of_char c :: nat) + 32) # cs in
          if CHR ''a'' \<le> c \<and> c \<le> CHR ''z'' \<and> registered registry upper then upper
          else if CHR ''A'' \<le> c \<and> c \<le> CHR ''Z'' \<and> registered registry lower then lower
          else [])"

text \<open>
  The loop that registers the keys of the input.  Go may also visit an entry that the loop itself
  adds; such a key is registered, so visiting it has no effect.
\<close>

fun input_loop :: "Registry \<Rightarrow> gvalue gomap \<Rightarrow> string list \<Rightarrow> Registry \<times> gvalue gomap" where
  "input_loop registry inputMap [] = (registry, inputMap)"
| "input_loop registry inputMap (key # ks) =
     (case mget inputMap key of
        None \<Rightarrow> input_loop registry inputMap ks
      | Some value \<Rightarrow>
          if registered registry key then input_loop registry inputMap ks
          else
            let guessed = caseFoldKey registry key in
            if guessed \<noteq> [] then input_loop registry (mput (mdel inputMap key) guessed value) ks
            else input_loop (Registry_Register registry key (CLastValue (NewLastValue (TypeOf value)))) inputMap ks)"

text \<open>
  \<open>applyInput\<close>: the error, the registry, and the input, whose keys the loop may have renamed in
  place when it is a \<open>map[string]any\<close>.
\<close>

definition Engine_applyInput ::
    "(string list \<Rightarrow> string list) \<Rightarrow> Registry \<Rightarrow> gvalue \<Rightarrow> gerror option \<times> Registry \<times> gvalue" where
  "Engine_applyInput ro registry input =
     (case toMap input of
        Inl err \<Rightarrow> (Some err, registry, input)
      | Inr m \<Rightarrow>
          let (registry1, inputMap) = input_loop registry m (ro (mkeys m));
              writes = mmap (\<lambda>v. [v]) inputMap;
              (err, registry2) = (if writes \<noteq> [] then Registry_UpdateChannels ro registry1 writes else (None, registry1))
          in (err, registry2, (case input of GMap _ \<Rightarrow> GMap inputMap | _ \<Rightarrow> input)))"

section \<open>Collecting the writes of a superstep\<close>

definition unwrap :: "gvalue \<Rightarrow> gvalue \<times> bool" where
  "unwrap value = (case value of GOverwrite v \<Rightarrow> (v, True) | _ \<Rightarrow> (value, False))"

fun collect_output ::
    "string \<Rightarrow> gvalue list gomap \<times> PendingWrite gomap \<Rightarrow> (string \<times> gvalue) list \<Rightarrow> gvalue list gomap \<times> PendingWrite gomap" where
  "collect_output name acc [] = acc"
| "collect_output name (writes, pending) ((key, value) # es) =
     (if value = GNil then collect_output name (writes, pending) es
      else
        let (v, overwrite) = unwrap value in
        collect_output name
          (mput writes key (case_option [] id (mget writes key) @ [v]),
           mput pending key \<lparr>pw_Channel = key, pw_Value = v, pw_Overwrite = overwrite, pw_Node = name,
             pw_Timestamp = 0, pw_TaskID = []\<rparr>) es)"

fun collect_writes ::
    "Engine \<Rightarrow> gvalue list gomap \<times> PendingWrite gomap \<Rightarrow> TaskResult list \<Rightarrow> gerror + gvalue list gomap \<times> PendingWrite gomap" where
  "collect_writes e acc [] = Inr acc"
| "collect_writes e acc (result # rs) =
     (if tr_Err result \<noteq> None \<or> tr_Output result = GNil then collect_writes e acc rs
      else
        (case toMap (tr_Output result) of
           Inl err \<Rightarrow> Inl (ErrorWrap ''failed to convert output to map'' err)
         | Inr outputMap \<Rightarrow>
             (case (case Engine_getNode e (tr_Name result) of
                      Some node \<Rightarrow> applyFieldMapping outputMap (n_FieldMapping node)
                    | None \<Rightarrow> Inr outputMap) of
                Inl err \<Rightarrow> Inl err
              | Inr mapped \<Rightarrow> collect_writes e (collect_output (tr_Name result) acc mapped) rs)))"

section \<open>Updating the channels\<close>

definition accumulates :: "channel \<Rightarrow> bool" where
  "accumulates ch = (case ch of CBinop c \<Rightarrow> True | CReducer c r \<Rightarrow> True | _ \<Rightarrow> False)"

text \<open>The values handed to \<open>Update\<close>: without nils, and only the last one for a channel that does not accumulate.\<close>

definition step_values :: "channel \<Rightarrow> gvalue list \<Rightarrow> gvalue list" where
  "step_values ch values =
     (let filtered = filter (\<lambda>v. v \<noteq> GNil) values
      in if length filtered > 1 \<and> \<not> accumulates ch then [last filtered] else filtered)"

definition channel_or_new :: "Registry \<Rightarrow> string \<Rightarrow> channel" where
  "channel_or_new registry name =
     (case Registry_Get registry name of Some ch \<Rightarrow> ch | None \<Rightarrow> CLastValue (NewLastValue None))"

fun channel_loop ::
    "WriteState \<Rightarrow> Registry \<Rightarrow> string list \<Rightarrow> (string \<times> gvalue list) list \<Rightarrow>
     gerror option \<times> WriteState \<times> Registry \<times> string list" where
  "channel_loop st registry updated [] = (None, st, registry, updated)"
| "channel_loop st registry updated ((name, values) # ws) =
     (let ch = channel_or_new registry name in
      case Channel_Update ch (step_values ch values) of
        (Inl err, ch') \<Rightarrow>
          (Some (ErrorWrap (''failed to update channel '' @ name) err), st, Registry_Register registry name ch', updated)
      | (Inr changed, ch') \<Rightarrow>
          if changed \<and> Channel_IsAvailable ch'
          then
            let version = version_at (ws_channelVersions st) name + 1 in
            channel_loop
              (st\<lparr>ws_channelVersions := mput (ws_channelVersions st) name version,
                 ws_currentCheckpoint := map_option (\<lambda>c. Checkpoint_IncrementChannel c name) (ws_currentCheckpoint st)\<rparr>)
              (Registry_Register registry name (Channel_SetVersion ch' version)) (updated @ [name]) ws
          else channel_loop st (Registry_Register registry name ch') updated ws)"

definition Engine_markSeen :: "WriteState \<Rightarrow> string \<Rightarrow> string \<Rightarrow> WriteState" where
  "Engine_markSeen st node channel =
     st\<lparr>ws_versionsSeen := mput (ws_versionsSeen st) node
          (mput (case_option [] id (mget (ws_versionsSeen st) node)) channel (version_at (ws_channelVersions st) channel)),
        ws_currentCheckpoint := map_option (\<lambda>c. Checkpoint_MarkSeen c node channel) (ws_currentCheckpoint st)\<rparr>"

definition Engine_hasSeen :: "WriteState \<Rightarrow> string \<Rightarrow> string \<Rightarrow> bool" where
  "Engine_hasSeen st node channel =
     (case mget (ws_versionsSeen st) node of
        Some versions \<Rightarrow>
          (case mget versions channel of
             Some version \<Rightarrow> version = version_at (ws_channelVersions st) channel | None \<Rightarrow> False)
      | None \<Rightarrow> False)"

definition add_pending :: "PendingWrite list \<Rightarrow> WriteState \<Rightarrow> WriteState" where
  "add_pending pws st = st\<lparr>ws_currentCheckpoint := map_option (\<lambda>c. fold (\<lambda>pw c.
     Checkpoint_AddPendingWrite c (pw_Channel pw) (pw_Value pw) (pw_Overwrite pw) (pw_Node pw)) pws c) (ws_currentCheckpoint st)\<rparr>"

definition mark_all :: "string list \<Rightarrow> string list \<Rightarrow> WriteState \<Rightarrow> WriteState" where
  "mark_all names updated st = fold (\<lambda>name st. fold (\<lambda>ch st. Engine_markSeen st name ch) updated st) names st"

definition Engine_applyWrites ::
    "(string list \<Rightarrow> string list) \<Rightarrow> Engine \<Rightarrow> WriteState \<Rightarrow> Registry \<Rightarrow> TaskResult list \<Rightarrow> string list \<Rightarrow>
     (gerror + string list) \<times> WriteState \<times> Registry" where
  "Engine_applyWrites ro e st registry results triggerToNodes =
     (case collect_writes e ([], []) (sort_key tr_Name results) of
        Inl err \<Rightarrow> (Inl err, st, registry)
      | Inr (writesByChannel, pendingWrites) \<Rightarrow>
          (case channel_loop st registry [] (range_entries ro writesByChannel) of
             (Some err, st1, registry1, updated) \<Rightarrow> (Inl err, st1, registry1)
           | (None, st1, registry1, updated) \<Rightarrow>
               let st2 = add_pending (map snd (range_entries ro pendingWrites)) st1;
                   st3 = mark_all (filter (\<lambda>n. n \<in> set triggerToNodes) (ro (mkeys writesByChannel))) updated st2
               in (Inr updated, st3, registry1)))"

section \<open>Lemmas\<close>

text \<open>What the loop makes of one channel and of its version.\<close>

definition written :: "WriteState \<Rightarrow> Registry \<Rightarrow> string \<Rightarrow> gvalue list \<Rightarrow> channel \<times> bool" where
  "written st registry name values =
     (let ch = channel_or_new registry name; (r, ch') = Channel_Update ch (step_values ch values);
          up = (r = Inr True \<and> Channel_IsAvailable ch')
      in (if up then Channel_SetVersion ch' (version_at (ws_channelVersions st) name + 1) else ch', up))"

definition accepts :: "Registry \<Rightarrow> string \<times> gvalue list \<Rightarrow> bool" where
  "accepts registry w \<longleftrightarrow> (let ch = channel_or_new registry (fst w) in
     \<exists>b. fst (Channel_Update ch (step_values ch (snd w))) = Inr b)"

lemma written_cong:
  "mget (channels r) n = mget (channels r') n \<Longrightarrow>
   version_at (ws_channelVersions s) n = version_at (ws_channelVersions s') n \<Longrightarrow> written s r n vs = written s' r' n vs"
  by (simp add: written_def channel_or_new_def Registry_Get_def Let_def split_beta)

lemma channel_loop_ok:
  "distinct (map fst ws) \<Longrightarrow> \<forall>w\<in>set ws. accepts registry w \<Longrightarrow>
   \<exists>st' registry' updated'. channel_loop st registry updated ws = (None, st', registry', updated') \<and>
     (\<forall>k. mget (channels registry') k =
        (case map_of ws k of Some vs \<Rightarrow> Some (fst (written st registry k vs)) | None \<Rightarrow> mget (channels registry) k)) \<and>
     (\<forall>k. version_at (ws_channelVersions st') k = version_at (ws_channelVersions st) k +
        (case map_of ws k of Some vs \<Rightarrow> if snd (written st registry k vs) then 1 else 0 | None \<Rightarrow> 0)) \<and>
     updated' = updated @ map fst (filter (\<lambda>w. snd (written st registry (fst w) (snd w))) ws)"
proof (induction ws arbitrary: st registry updated)
  case Nil
  then show ?case by simp
next
  case (Cons w ws)
  obtain n vs where w: "w = (n, vs)" by (cases w)
  obtain ch' up where wr: "written st registry n vs = (ch', up)" by (metis surj_pair)
  define r1 where "r1 = Registry_Register registry n ch'"
  define s1 where "s1 = (if up then st\<lparr>ws_channelVersions := mput (ws_channelVersions st) n (version_at (ws_channelVersions st) n + 1),
      ws_currentCheckpoint := map_option (\<lambda>c. Checkpoint_IncrementChannel c n) (ws_currentCheckpoint st)\<rparr> else st)"
  define u1 where "u1 = (if up then updated @ [n] else updated)"
  have step: "channel_loop st registry updated (w # ws) = channel_loop s1 r1 u1 ws"
    using Cons.prems(2) wr w
    by (auto simp: accepts_def written_def r1_def s1_def u1_def Let_def split: prod.splits sum.splits if_splits)
  have other: "mget (channels r1) k = mget (channels registry) k"
    "version_at (ws_channelVersions s1) k = version_at (ws_channelVersions st) k" if "k \<noteq> n" for k
    using that by (simp_all add: r1_def s1_def Registry_Register_def version_at_def)
  have n: "n \<notin> fst ` set ws" using Cons.prems(1) w by auto
  have same: "written s1 r1 k us = written st registry k us" if "k \<noteq> n" for k us
    using that by (intro written_cong) (simp_all add: other)
  have "accepts r1 x" if "x \<in> set ws" for x
  proof -
    have "fst x \<noteq> n" using n that by auto
    then show ?thesis
      using Cons.prems(2) that other by (auto simp: accepts_def channel_or_new_def Registry_Get_def)
  qed
  then obtain st' registry' updated' where
    run: "channel_loop s1 r1 u1 ws = (None, st', registry', updated')"
    and chans: "\<And>k. mget (channels registry') k =
        (case map_of ws k of Some vs \<Rightarrow> Some (fst (written s1 r1 k vs)) | None \<Rightarrow> mget (channels r1) k)"
    and vers: "\<And>k. version_at (ws_channelVersions st') k = version_at (ws_channelVersions s1) k +
        (case map_of ws k of Some vs \<Rightarrow> if snd (written s1 r1 k vs) then 1 else 0 | None \<Rightarrow> 0)"
    and upd: "updated' = u1 @ map fst (filter (\<lambda>w. snd (written s1 r1 (fst w) (snd w))) ws)"
    using Cons.IH [of r1 s1 u1] Cons.prems(1) by auto
  have none: "map_of ws n = None" using n by (simp add: map_of_eq_None_iff)
  have "mget (channels registry') k =
      (case map_of (w # ws) k of Some vs \<Rightarrow> Some (fst (written st registry k vs)) | None \<Rightarrow> mget (channels registry) k)" for k
    using chans [of k] none w wr same other
    by (cases "k = n") (auto simp: r1_def Registry_Register_def split: option.splits)
  moreover have "version_at (ws_channelVersions st') k = version_at (ws_channelVersions st) k +
      (case map_of (w # ws) k of Some vs \<Rightarrow> if snd (written st registry k vs) then 1 else 0 | None \<Rightarrow> 0)" for k
    using vers [of k] none w wr same other
    by (cases "k = n") (auto simp: s1_def version_at_def split: option.splits)
  moreover have "filter (\<lambda>w. snd (written s1 r1 (fst w) (snd w))) ws = filter (\<lambda>w. snd (written st registry (fst w) (snd w))) ws"
    using n same by (intro filter_cong refl) (metis image_eqI)
  ultimately show ?case
    using run step upd w wr by (auto simp: u1_def)
qed

lemma mwf_collect_output: "mwf (fst acc) \<and> mwf (snd acc) \<Longrightarrow> mwf (fst (collect_output name acc es)) \<and> mwf (snd (collect_output name acc es))"
proof (induction es arbitrary: acc)
  case Nil
  then show ?case by simp
next
  case (Cons x es)
  obtain k v where x: "x = (k, v)" by (cases x)
  obtain w p where acc: "acc = (w, p)" by (cases acc)
  obtain u b where u: "unwrap v = (u, b)" by (cases "unwrap v")
  show ?case
    using Cons.prems Cons.IH [of acc] Cons.IH [of "(mput w k (case_option [] id (mget w k) @ [u]),
      mput p k \<lparr>pw_Channel = k, pw_Value = u, pw_Overwrite = b, pw_Node = name, pw_Timestamp = 0, pw_TaskID = []\<rparr>)"]
    by (auto simp: x acc u)
qed

lemma mwf_collect_writes: "collect_writes e acc rs = Inr (w, p) \<Longrightarrow> mwf (fst acc) \<and> mwf (snd acc) \<Longrightarrow> mwf w \<and> mwf p"
proof (induction e acc rs rule: collect_writes.induct)
  case (1 e acc)
  then show ?case by simp
next
  case (2 e acc result rs)
  show ?case
  proof (cases "tr_Err result \<noteq> None \<or> tr_Output result = GNil")
    case True
    then show ?thesis using 2(1) [OF True] 2(3,4) by simp
  next
    case False
    then obtain m where m: "toMap (tr_Output result) = Inr m"
      using 2(3) by (cases "toMap (tr_Output result)") auto
    then obtain k where k: "(case Engine_getNode e (tr_Name result) of
        Some node \<Rightarrow> applyFieldMapping m (n_FieldMapping node) | None \<Rightarrow> Inr m) = Inr k"
      using 2(3) False by (cases "case Engine_getNode e (tr_Name result) of
        Some node \<Rightarrow> applyFieldMapping m (n_FieldMapping node) | None \<Rightarrow> Inr m") auto
    then show ?thesis
      using 2(2) [OF False m k] 2(3,4) False m mwf_collect_output [of acc "tr_Name result" k] by auto
  qed
qed

lemma LastValue_accepts:
  assumes "\<And>c. Registry_Get registry (fst w) = Some c \<Longrightarrow> \<exists>lv. c = CLastValue lv"
  shows "accepts registry w"
proof -
  obtain lv where ch: "channel_or_new registry (fst w) = CLastValue lv"
    using assms by (cases "Registry_Get registry (fst w)") (auto simp: channel_or_new_def)
  have "length (step_values (CLastValue lv) vs) \<le> 1" for vs
    by (simp add: step_values_def Let_def accumulates_def)
  then show ?thesis
    unfolding accepts_def ch Let_def
    by (auto simp: LastValue_Update_def le_Suc_eq split: prod.splits)
qed

lemma channel_loop_accepts:
  "channel_loop st registry updated ws = (None, st', registry', updated') \<Longrightarrow> distinct (map fst ws) \<Longrightarrow>
   \<forall>w\<in>set ws. accepts registry w"
proof (induction ws arbitrary: st registry updated)
  case Nil
  then show ?case by simp
next
  case (Cons w ws)
  obtain n vs where w: "w = (n, vs)" by (cases w)
  have acc: "accepts registry w"
    using Cons.prems(1) w by (auto simp: accepts_def Let_def split: prod.splits sum.splits if_splits)
  have "\<exists>s1 ch u1. channel_loop s1 (Registry_Register registry n ch) u1 ws = (None, st', registry', updated')"
    using Cons.prems(1) w by (fastforce simp: Let_def split: prod.splits sum.splits if_splits)
  then obtain s1 ch u1 where step: "channel_loop s1 (Registry_Register registry n ch) u1 ws = (None, st', registry', updated')"
    by blast
  have "\<forall>x\<in>set ws. accepts (Registry_Register registry n ch) x" using Cons.IH [OF step] Cons.prems(2) by simp
  moreover have "fst x \<noteq> n" if "x \<in> set ws" for x using Cons.prems(2) w that by auto
  ultimately have "\<forall>x\<in>set ws. accepts registry x"
    by (auto simp: accepts_def channel_or_new_def Registry_Get_def Registry_Register_def)
  with acc show ?case by simp
qed

lemma versions_mark: "ws_channelVersions (mark_all names updated st) = ws_channelVersions st"
proof -
  have "ws_channelVersions (fold (\<lambda>ch st. Engine_markSeen st n ch) us st) = ws_channelVersions st" for n us st
    by (induction us arbitrary: st) (auto simp: Engine_markSeen_def)
  then show ?thesis by (induction names arbitrary: st) (auto simp: mark_all_def)
qed

lemma versions_pending [simp]: "ws_channelVersions (add_pending pws st) = ws_channelVersions st"
  by (simp add: add_pending_def)

text \<open>The state after a superstep's writes, as lookups: the same for every iteration order.\<close>

lemma applyWrites_ok:
  assumes ro: "range_order ro" and col: "collect_writes e ([], []) (sort_key tr_Name results) = Inr (w, p)"
    and acc: "\<And>n vs. mget w n = Some vs \<Longrightarrow> accepts registry (n, vs)"
  shows "\<exists>updated st' registry'. Engine_applyWrites ro e st registry results trig = (Inr updated, st', registry') \<and>
    set updated = {n. \<exists>vs. mget w n = Some vs \<and> snd (written st registry n vs)} \<and>
    (\<forall>k. mget (channels registry') k =
       (case mget w k of Some vs \<Rightarrow> Some (fst (written st registry k vs)) | None \<Rightarrow> mget (channels registry) k)) \<and>
    (\<forall>k. version_at (ws_channelVersions st') k = version_at (ws_channelVersions st) k +
       (case mget w k of Some vs \<Rightarrow> if snd (written st registry k vs) then 1 else 0 | None \<Rightarrow> 0))"
proof -
  have wf: "mwf w" using mwf_collect_writes [OF col] by simp
  have "\<forall>x\<in>set (range_entries ro w). accepts registry x"
    using acc by (auto simp: range_entries_mem [OF ro])
  from channel_loop_ok [OF range_entries_distinct [OF ro wf] this, of st "[]"]
  obtain st' registry' where
    run: "channel_loop st registry [] (range_entries ro w) =
      (None, st', registry', map fst (filter (\<lambda>w. snd (written st registry (fst w) (snd w))) (range_entries ro w)))"
    and look: "\<And>k. mget (channels registry') k =
       (case mget w k of Some vs \<Rightarrow> Some (fst (written st registry k vs)) | None \<Rightarrow> mget (channels registry) k)"
    and vers: "\<And>k. version_at (ws_channelVersions st') k = version_at (ws_channelVersions st) k +
       (case mget w k of Some vs \<Rightarrow> if snd (written st registry k vs) then 1 else 0 | None \<Rightarrow> 0)"
    by (auto simp: map_of_range_entries [OF ro wf])
  let ?u = "map fst (filter (\<lambda>w. snd (written st registry (fst w) (snd w))) (range_entries ro w))"
  let ?st = "mark_all (filter (\<lambda>n. n \<in> set trig) (ro (mkeys w))) ?u (add_pending (map snd (range_entries ro p)) st')"
  have "Engine_applyWrites ro e st registry results trig = (Inr ?u, ?st, registry')"
    by (simp add: Engine_applyWrites_def col run Let_def)
  moreover have "set ?u = {n. \<exists>vs. mget w n = Some vs \<and> snd (written st registry n vs)}"
    by (auto simp: image_iff range_entries_mem [OF ro])
  moreover have "ws_channelVersions ?st = ws_channelVersions st'" by (simp add: versions_mark)
  ultimately show ?thesis using look vers by auto
qed

lemma applyWrites_success:
  assumes ro: "range_order ro" and run: "Engine_applyWrites ro e st registry results trig = (Inr updated, st', registry')"
  obtains w p where "collect_writes e ([], []) (sort_key tr_Name results) = Inr (w, p)"
    and "\<And>n vs. mget w n = Some vs \<Longrightarrow> accepts registry (n, vs)"
proof -
  obtain w p where col: "collect_writes e ([], []) (sort_key tr_Name results) = Inr (w, p)"
    using run by (auto simp: Engine_applyWrites_def split: sum.splits)
  have wf: "mwf w" using mwf_collect_writes [OF col] by simp
  obtain s r u where "channel_loop st registry [] (range_entries ro w) = (None, s, r, u)"
    using run col by (auto simp: Engine_applyWrites_def split: prod.splits option.splits)
  from channel_loop_accepts [OF this range_entries_distinct [OF ro wf]] that [OF col] show ?thesis
    by (auto simp: range_entries_mem [OF ro])
qed

lemma toMap_total: "v \<noteq> GNil \<Longrightarrow> \<exists>m. toMap v = Inr m"
  by (cases v rule: toMap.cases) auto

text \<open>What one result contributes to a channel.\<close>

definition contribution :: "string \<Rightarrow> TaskResult \<Rightarrow> gvalue list" where
  "contribution k r =
     (if tr_Err r \<noteq> None then []
      else (case tr_Output r of
              GMap m \<Rightarrow> (case mget m k of Some v \<Rightarrow> if v = GNil then [] else [fst (unwrap v)] | None \<Rightarrow> [])
            | _ \<Rightarrow> []))"

lemma collect_output_get:
  "distinct (map fst es) \<Longrightarrow>
   case_option [] id (mget (fst (collect_output name acc es)) k) =
     case_option [] id (mget (fst acc) k) @
     (case map_of es k of Some v \<Rightarrow> if v = GNil then [] else [fst (unwrap v)] | None \<Rightarrow> [])"
proof (induction es arbitrary: acc)
  case Nil
  then show ?case by simp
next
  case (Cons x es)
  obtain j v where x: "x = (j, v)" by (cases x)
  obtain w p where acc: "acc = (w, p)" by (cases acc)
  obtain u b where u: "unwrap v = (u, b)" by (cases "unwrap v")
  have none: "map_of es j = None" using Cons.prems x by (simp add: map_of_eq_None_iff)
  show ?case
    using Cons.prems none Cons.IH [of acc] Cons.IH [of "(mput w j (case_option [] id (mget w j) @ [u]),
      mput p j \<lparr>pw_Channel = j, pw_Value = u, pw_Overwrite = b, pw_Node = name, pw_Timestamp = 0, pw_TaskID = []\<rparr>)"]
    by (cases "k = j") (auto simp: x acc u)
qed

lemma collect_writes_get:
  assumes maps: "\<And>n node. Engine_getNode e n = Some node \<Longrightarrow> n_FieldMapping node = []"
  shows "\<forall>r\<in>set rs. tr_Output r = GNil \<or> (\<exists>m. tr_Output r = GMap m \<and> mwf m) \<Longrightarrow>
    collect_writes e acc rs = Inr (w, p) \<Longrightarrow>
    case_option [] id (mget w k) = case_option [] id (mget (fst acc) k) @ concat (map (contribution k) rs)"
proof (induction rs arbitrary: acc)
  case Nil
  then show ?case by simp
next
  case (Cons r rs)
  have node: "(case Engine_getNode e n of Some node \<Rightarrow> applyFieldMapping m (n_FieldMapping node) | None \<Rightarrow> Inr m) = Inr m" for n m
    using maps by (auto simp: applyFieldMapping_def split: option.splits)
  show ?case
  proof (cases "tr_Err r \<noteq> None \<or> tr_Output r = GNil")
    case True
    then have "collect_writes e acc rs = Inr (w, p)" and "contribution k r = []"
      using Cons.prems(2) by (auto simp: contribution_def)
    then show ?thesis using Cons.IH Cons.prems(1) by simp
  next
    case False
    then obtain m where m: "tr_Output r = GMap m" "mwf m" using Cons.prems(1) by auto
    then have "collect_writes e (collect_output (tr_Name r) acc m) rs = Inr (w, p)"
      using Cons.prems(2) False by (simp add: node)
    then have "case_option [] id (mget w k) =
        case_option [] id (mget (fst (collect_output (tr_Name r) acc m)) k) @ concat (map (contribution k) rs)"
      using Cons.IH Cons.prems(1) by simp
    moreover have "contribution k r = (case map_of m k of Some v \<Rightarrow> if v = GNil then [] else [fst (unwrap v)] | None \<Rightarrow> [])"
      using False m(1) by (simp add: contribution_def mget_def)
    ultimately show ?thesis
      using collect_output_get [OF mwf_distinct [OF m(2)], of "tr_Name r" acc k] by simp
  qed
qed

lemma sort_key_split:
  assumes "distinct (map tr_Name rs)" and "r \<in> set rs"
  shows "\<exists>pre post. sort_key tr_Name rs = pre @ r # post \<and> (\<forall>x\<in>set post. x \<in> set rs \<and> \<not> tr_Name x \<le> tr_Name r)"
proof -
  obtain pre post where s: "sort_key tr_Name rs = pre @ r # post"
    using assms(2) by (metis set_sort split_list)
  have "sorted (map tr_Name (pre @ r # post))" by (metis s sorted_sort_key)
  moreover have "distinct (map tr_Name (pre @ r # post))"
  proof -
    have "mset (map tr_Name (sort_key tr_Name rs)) = mset (map tr_Name rs)" by simp
    then show ?thesis using assms(1) s by (metis mset_eq_imp_distinct_iff)
  qed
  ultimately have "\<forall>x\<in>set post. \<not> tr_Name x \<le> tr_Name r"
    by (auto simp: sorted_append) (metis image_eqI order_antisym)
  moreover have "set post \<subseteq> set rs" using s by (metis set_sort set_append list.set_intros(2) Un_iff subsetI)
  ultimately show ?thesis using s by blast
qed

lemma LastValue_written:
  assumes ch: "channel_or_new registry k = CLastValue lv" and vs: "vs = us @ [v]" and v: "v \<noteq> GNil" "v \<noteq> GMissing"
  shows "value_of (fst (written st registry k vs)) = Some v"
proof -
  have "step_values (CLastValue lv) vs = [v]"
    using v(1) by (auto simp: step_values_def vs Let_def accumulates_def Suc_lessI)
  then have "written st registry k vs =
      (Channel_SetVersion (CLastValue (lv\<lparr>lv_value := v\<rparr>)) (version_at (ws_channelVersions st) k + 1), True)"
    using v(2) by (simp add: written_def ch Let_def LastValue_Update_def LastValue_IsAvailable_def IsMissing_def)
  then show ?thesis
    using v(2) by (simp add: value_of_def LastValue_Get_def BaseChannel_SetVersion_def IsMissing_def)
qed

section \<open>Properties\<close>

text \<open>C6: The superstep is deterministic.  When \<open>applyWrites\<close> succeeds, it succeeds for every order in which
  the tasks finished and every order in which Go ranges over its maps, with the same channels, the
  same channel versions and the same set of updated channels.\<close>

theorem apply_writes_deterministic:
  assumes "range_order ro" and "range_order ro'" and "mset results = mset results'"
    and "distinct (map tr_Name results)"
    and run: "Engine_applyWrites ro e st registry results trig = (Inr updated, st1, registry1)"
  shows "\<exists>updated' st2 registry2. Engine_applyWrites ro' e st registry results' trig = (Inr updated', st2, registry2) \<and>
    set updated' = set updated \<and> (\<forall>k. mget (channels registry2) k = mget (channels registry1) k) \<and>
    (\<forall>k. version_at (ws_channelVersions st2) k = version_at (ws_channelVersions st1) k)"
proof -
  obtain w p where col: "collect_writes e ([], []) (sort_key tr_Name results) = Inr (w, p)"
    and acc: "\<And>n vs. mget w n = Some vs \<Longrightarrow> accepts registry (n, vs)"
    using applyWrites_success [OF assms(1) run] by blast
  have col': "collect_writes e ([], []) (sort_key tr_Name results') = Inr (w, p)"
    using col sort_key_unique [OF assms(3,4)] by simp
  from applyWrites_ok [OF assms(2) col' acc, of st trig] obtain updated' st2 registry2 where
    run': "Engine_applyWrites ro' e st registry results' trig = (Inr updated', st2, registry2)"
    and r2: "set updated' = {n. \<exists>vs. mget w n = Some vs \<and> snd (written st registry n vs)}"
      "\<And>k. mget (channels registry2) k =
         (case mget w k of Some vs \<Rightarrow> Some (fst (written st registry k vs)) | None \<Rightarrow> mget (channels registry) k)"
      "\<And>k. version_at (ws_channelVersions st2) k = version_at (ws_channelVersions st) k +
         (case mget w k of Some vs \<Rightarrow> if snd (written st registry k vs) then 1 else 0 | None \<Rightarrow> 0)"
    by blast
  from applyWrites_ok [OF assms(1) col acc, of st trig] have
    r1: "set updated = {n. \<exists>vs. mget w n = Some vs \<and> snd (written st registry n vs)}"
      "\<And>k. mget (channels registry1) k =
         (case mget w k of Some vs \<Rightarrow> Some (fst (written st registry k vs)) | None \<Rightarrow> mget (channels registry) k)"
      "\<And>k. version_at (ws_channelVersions st1) k = version_at (ws_channelVersions st) k +
         (case mget w k of Some vs \<Rightarrow> if snd (written st registry k vs) then 1 else 0 | None \<Rightarrow> 0)"
    unfolding run by auto
  show ?thesis using run' by (simp add: r1 r2)
qed

text \<open>In a graph without field mappings whose channels are all \<open>LastValue\<close> channels, \<open>applyWrites\<close> never
  fails, however many nodes write the same channel in one superstep: the documented error for
  concurrent writes cannot happen, one of the values is kept.\<close>

theorem last_value_never_conflicts:
  assumes "range_order ro"
    and maps: "\<And>n node. Engine_getNode e n = Some node \<Longrightarrow> n_FieldMapping node = []"
    and lv: "\<And>n c. Registry_Get registry n = Some c \<Longrightarrow> \<exists>lv. c = CLastValue lv"
  shows "\<exists>updated st' registry'. Engine_applyWrites ro e st registry results trig = (Inr updated, st', registry')"
proof -
  have "\<exists>wp. collect_writes e acc rs = Inr wp" for acc rs
  proof (induction rs arbitrary: acc)
    case Nil
    then show ?case by simp
  next
    case (Cons r rs)
    have node: "(case Engine_getNode e n of Some node \<Rightarrow> applyFieldMapping m (n_FieldMapping node) | None \<Rightarrow> Inr m) = Inr m" for n m
      using maps by (auto simp: applyFieldMapping_def split: option.splits)
    show ?case
    proof (cases "tr_Err r \<noteq> None \<or> tr_Output r = GNil")
      case True
      then show ?thesis using Cons.IH by auto
    next
      case False
      then obtain m where m: "toMap (tr_Output r) = Inr m" using toMap_total by blast
      have "collect_writes e acc (r # rs) = collect_writes e (collect_output (tr_Name r) acc m) rs"
        using False by (simp add: m node)
      then show ?thesis using Cons.IH by metis
    qed
  qed
  then obtain w p where "collect_writes e ([], []) (sort_key tr_Name results) = Inr (w, p)" by (metis surj_pair)
  moreover have "accepts registry (n, vs)" for n vs
    by (rule LastValue_accepts) (rule lv, simp)
  ultimately show ?thesis using applyWrites_ok [OF assms(1), of e results w p registry st trig] by blast
qed

definition sample_result :: "string \<Rightarrow> gvalue \<Rightarrow> TaskResult" where
  "sample_result name v = \<lparr>tr_Name = name, tr_Output = GMap [(''x'', v)], tr_Err = None, tr_Path = []\<rparr>"

definition sample_state :: WriteState where
  "sample_state = \<lparr>ws_channelVersions = [], ws_versionsSeen = [], ws_currentCheckpoint = None\<rparr>"

lemmas write_eval = Engine_applyWrites_def channel_or_new_def Registry_Get_def NewRegistry_def step_values_def
  accumulates_def NewLastValue_def LastValue_Update_def LastValue_IsAvailable_def IsMissing_def Missing_def
  version_at_def Registry_Register_def BaseChannel_SetVersion_def unwrap_def range_entries_def mkeys_def mget_Cons
  add_pending_def mark_all_def Engine_getNode_def NewEngine_def applyFieldMapping_def sample_result_def sample_state_def

theorem apply_writes_deterministic_witness:
  "\<exists>updated' st2 registry2. Engine_applyWrites rev (NewEngine sample_graph []) sample_state NewRegistry
      [sample_result ''b'' (GBool True), sample_result ''a'' (GBool False)] [] = (Inr updated', st2, registry2) \<and>
    map_option value_of (mget (channels registry2) ''x'') = Some (Some (GBool True))"
proof -
  let ?e = "NewEngine sample_graph []"
  let ?rs = "[sample_result ''a'' (GBool False), sample_result ''b'' (GBool True)]"
  let ?run = "Engine_applyWrites (\<lambda>ks. ks) ?e sample_state NewRegistry ?rs []"
  have "fst ?run = Inr [''x'']"
    and x: "map_option value_of (mget (channels (snd (snd ?run))) ''x'') = Some (Some (GBool True))"
    by (simp_all add: write_eval sample_graph_simps value_of_def LastValue_Get_def)
  then have run: "?run = (Inr [''x''], fst (snd ?run), snd (snd ?run))" by (metis prod.collapse)
  show ?thesis
    using apply_writes_deterministic [OF range_order_id range_order_rev _ _ run,
        of "[sample_result ''b'' (GBool True), sample_result ''a'' (GBool False)]"] x
    by (auto simp: sample_result_def)
qed

theorem last_value_never_conflicts_witness:
  "\<exists>updated st' registry'. Engine_applyWrites rev (NewEngine sample_graph []) sample_state NewRegistry
      [sample_result ''b'' (GBool True), sample_result ''a'' (GBool False)] [] = (Inr updated, st', registry')"
proof (rule last_value_never_conflicts [OF range_order_rev])
  show "n_FieldMapping node = []" if "Engine_getNode (NewEngine sample_graph []) n = Some node" for n node
    using that by (auto simp: Engine_getNode_def NewEngine_def sample_graph_simps mget_Cons split: if_splits)
  show "\<exists>lv. c = CLastValue lv" if "Registry_Get NewRegistry n = Some c" for n c
    using that by (simp add: Registry_Get_def NewRegistry_def)
qed

text \<open>When several nodes write a \<open>LastValue\<close> channel in one superstep, the value of the node with the
  greatest name is kept, whatever the order of completion.\<close>

theorem greatest_name_wins:
  assumes "range_order ro"
    and maps: "\<And>n node. Engine_getNode e n = Some node \<Longrightarrow> n_FieldMapping node = []"
    and lv: "\<And>n c. Registry_Get registry n = Some c \<Longrightarrow> \<exists>lv. c = CLastValue lv"
    and outs: "\<forall>r\<in>set results. tr_Output r = GNil \<or> (\<exists>m. tr_Output r = GMap m \<and> mwf m)"
    and names: "distinct (map tr_Name results)"
    and r: "r \<in> set results" "contribution k r = [v]" "v \<noteq> GNil" "v \<noteq> GMissing"
    and least: "\<forall>x\<in>set results. contribution k x \<noteq> [] \<longrightarrow> tr_Name x \<le> tr_Name r"
    and run: "Engine_applyWrites ro e st registry results trig = (Inr updated, st', registry')"
  shows "map_option value_of (mget (channels registry') k) = Some (Some v)"
proof -
  obtain w p where col: "collect_writes e ([], []) (sort_key tr_Name results) = Inr (w, p)"
    and acc: "\<And>n vs. mget w n = Some vs \<Longrightarrow> accepts registry (n, vs)"
    using applyWrites_success [OF assms(1) run] by blast
  obtain pre post where split: "sort_key tr_Name results = pre @ r # post"
    and post: "\<forall>x\<in>set post. x \<in> set results \<and> \<not> tr_Name x \<le> tr_Name r"
    using sort_key_split [OF names r(1)] by blast
  have "concat (map (contribution k) post) = []" using post least by auto
  moreover have "\<forall>r\<in>set (sort_key tr_Name results). tr_Output r = GNil \<or> (\<exists>m. tr_Output r = GMap m \<and> mwf m)"
    using outs by simp
  then have "case_option [] id (mget w k) = concat (map (contribution k) (sort_key tr_Name results))"
    using collect_writes_get [where k = k and e = e and rs = "sort_key tr_Name results" and acc = "([], [])"
        and w = w and p = p] maps col by simp
  ultimately have "case_option [] id (mget w k) = concat (map (contribution k) pre) @ [v]"
    using split r(2) by simp
  then have w: "mget w k = Some (concat (map (contribution k) pre) @ [v])" by (auto split: option.splits)
  obtain l where "channel_or_new registry k = CLastValue l"
    using lv by (cases "Registry_Get registry k") (auto simp: channel_or_new_def)
  then have "value_of (fst (written st registry k (concat (map (contribution k) pre) @ [v]))) = Some v"
    by (rule LastValue_written [OF _ refl r(3,4)])
  moreover have "mget (channels registry') k = Some (fst (written st registry k (concat (map (contribution k) pre) @ [v])))"
    using applyWrites_ok [OF assms(1) col acc, of st trig] run w by auto
  ultimately show ?thesis by simp
qed

theorem greatest_name_wins_witness:
  "map_option value_of (mget (channels (snd (snd (Engine_applyWrites rev (NewEngine sample_graph []) sample_state NewRegistry
      [sample_result ''b'' (GBool True), sample_result ''a'' (GBool False)] [])))) ''x'') = Some (Some (GBool True))"
proof -
  let ?run = "Engine_applyWrites rev (NewEngine sample_graph []) sample_state NewRegistry
      [sample_result ''b'' (GBool True), sample_result ''a'' (GBool False)] []"
  have "fst ?run = Inr [''x'']" by (simp add: write_eval sample_graph_simps)
  then have run: "?run = (Inr [''x''], fst (snd ?run), snd (snd ?run))" by (metis prod.collapse)
  show ?thesis
  proof (rule greatest_name_wins [OF range_order_rev _ _ _ _ _ _ _ _ _ run, of "sample_result ''b'' (GBool True)"])
    show "n_FieldMapping node = []" if "Engine_getNode (NewEngine sample_graph []) n = Some node" for n node
      using that by (auto simp: Engine_getNode_def NewEngine_def sample_graph_simps mget_Cons split: if_splits)
    show "\<exists>lv. c = CLastValue lv" if "Registry_Get NewRegistry n = Some c" for n c
      using that by (simp add: Registry_Get_def NewRegistry_def)
  qed (auto simp: sample_result_def contribution_def unwrap_def mget_Cons mwf_def)
qed

text \<open>A failed task of a superstep in which others succeeded has no effect on the channels, their versions and
  the checkpoint: its error is dropped, and the writes are those of the successful tasks alone.\<close>

theorem failed_tasks_dropped:
  "Engine_applyWrites ro e st registry results triggers =
   Engine_applyWrites ro e st registry (filter (\<lambda>r. tr_Err r = None) results) triggers"
proof -
  have "collect_writes e acc rs = collect_writes e acc (filter (\<lambda>r. tr_Err r = None) rs)" for acc rs
    by (induction e acc rs rule: collect_writes.induct) (auto split: sum.splits)
  then show ?thesis unfolding Engine_applyWrites_def filter_sort [symmetric] by simp
qed

text \<open>\<open>types.Overwrite\<close>, documented to bypass the reducer of a channel, does not: \<open>applyWrites\<close> takes the
  wrapper off before the channel sees it, so a counter at 5 that a node overwrites with 3 reads 8.\<close>

theorem overwrite_is_reduced:
  "map_option value_of (mget (channels (snd (snd (Engine_applyWrites (\<lambda>ks. ks) (NewEngine sample_graph []) sample_state
      (Registry_Register NewRegistry ''x'' (CBinop ((NewBinaryOperatorAggregate (Some RInt) IntAdd)\<lparr>bo_value := GInt 5\<rparr>)))
      [sample_result ''a'' (GOverwrite (GInt 3))] [])))) ''x'') = Some (Some (GInt 8))"
  by (simp add: write_eval sample_graph_simps value_of_def NewBinaryOperatorAggregate_def
      BinaryOperatorAggregate_Update_def BinaryOperatorAggregate_Get_def BinaryOperatorAggregate_IsAvailable_def
      isOverwrite_def IntAdd_def)

end
