(* ===== verification/Engine.thy ===== *)
theory Engine
  imports Writes
begin

text \<open>
  \<open>Engine.Run\<close> of \<open>pregel/engine.go\<close>: starting a run, from its input or from a checkpoint; one
  superstep; the loop; and the end of the run, with the three durability modes.

  The record \<open>Env\<close> holds what the surroundings of a run decide: the order of each iteration over a
  map, the identifiers \<open>uuid.New\<close> returns, the clock, when the context ends (at the start of a
  superstep, while a task runs, while a retry waits), which of the outstanding asynchronous saves
  have been stored when a superstep starts, and the texts \<open>json.Marshal\<close> produces and
  \<open>json.Unmarshal\<close> reads.  A checkpointer is a record of functions over a state \<open>'s\<close>.  Callbacks and
  telemetry are left out, and of the streamed events those that \<open>Run\<close> itself emits are kept, in the
  order it offers them to the stream.
\<close>

section \<open>State\<close>

record deferredCheckpoint =
  dc_ThreadID :: string
  dc_CheckpointID :: string
  dc_Step :: nat
  dc_Checkpoint :: "gvalue gomap"

record Env =
  ev_order :: "nat \<Rightarrow> nat \<Rightarrow> string list \<Rightarrow> string list"
  ev_other :: "gvalue \<Rightarrow> string"
  ev_typeName :: "gerror \<Rightarrow> string"
  ev_threadID :: string
  ev_checkpointID :: string
  ev_now :: gotime
  ev_parse :: "string \<Rightarrow> gotime option"
  ev_taskID :: "nat \<Rightarrow> string \<Rightarrow> string"
  ev_stepID :: "nat \<Rightarrow> string"
  ev_done :: "nat \<Rightarrow> gerror option"
  ev_taskDone :: "nat \<Rightarrow> string \<Rightarrow> gerror option"
  ev_waitDone :: "nat \<Rightarrow> string \<Rightarrow> nat \<Rightarrow> gerror option"
  ev_marshal :: "gvalue \<Rightarrow> string option"
  ev_unmarshal :: "string \<Rightarrow> gvalue gomap option"
  ev_lands :: "nat \<Rightarrow> deferredCheckpoint list \<Rightarrow> deferredCheckpoint list \<times> deferredCheckpoint list"

record 's Checkpointer =
  ck_Get :: "'s \<Rightarrow> gvalue gomap \<Rightarrow> gerror + gvalue gomap option"
  ck_Put :: "'s \<Rightarrow> gvalue gomap \<Rightarrow> gvalue gomap \<Rightarrow> gerror option \<times> 's"

datatype StreamEvent =
    EventCheckpoint nat "gvalue gomap"
  | EventTaskStart nat string string
  | EventValues nat "gvalue gomap"
  | EventInterrupt nat "string list"
  | EventFinal nat gvalue

record 's RunState =
  rs_registry :: Registry
  rs_writes :: WriteState
  rs_completed :: "bool gomap"
  rs_lastNode :: string
  rs_lastState :: gvalue
  rs_subState :: "string option"
  rs_step :: nat
  rs_saver :: 's
  rs_deferred :: "deferredCheckpoint list"
  rs_async :: "deferredCheckpoint list"
  rs_events :: "StreamEvent list"

definition emit :: "StreamEvent \<Rightarrow> 's RunState \<Rightarrow> 's RunState" where
  "emit ev rs = rs\<lparr>rs_events := rs_events rs @ [ev]\<rparr>"

section \<open>Saving checkpoints\<close>

definition Engine_saveCheckpoint ::
    "'s Checkpointer option \<Rightarrow> 's \<Rightarrow> string \<Rightarrow> string \<Rightarrow> nat \<Rightarrow> gvalue gomap \<Rightarrow> gerror option \<times> 's" where
  "Engine_saveCheckpoint cp saver threadID checkpointID step checkpoint =
     (case cp of None \<Rightarrow> (None, saver)
      | Some ck \<Rightarrow> ck_Put ck saver (mputs [] [(''thread_id'', GString threadID),
          (''checkpoint_id'', GString checkpointID), (''step'', GInt (of_nat step))]) checkpoint)"

definition Engine_deferCheckpoint :: "string \<Rightarrow> string \<Rightarrow> nat \<Rightarrow> gvalue gomap \<Rightarrow> 's RunState \<Rightarrow> 's RunState" where
  "Engine_deferCheckpoint threadID checkpointID step checkpoint rs =
     rs\<lparr>rs_deferred := rs_deferred rs @
       [\<lparr>dc_ThreadID = threadID, dc_CheckpointID = checkpointID, dc_Step = step, dc_Checkpoint = checkpoint\<rparr>]\<rparr>"

text \<open>Saving a list of checkpoints in order; a failed save does not stop the others, the last error is kept.\<close>

fun save_all :: "'s Checkpointer option \<Rightarrow> gerror option \<Rightarrow> 's \<Rightarrow> deferredCheckpoint list \<Rightarrow> gerror option \<times> 's" where
  "save_all cp lastErr saver [] = (lastErr, saver)"
| "save_all cp lastErr saver (dc # dcs) =
     (case Engine_saveCheckpoint cp saver (dc_ThreadID dc) (dc_CheckpointID dc) (dc_Step dc) (dc_Checkpoint dc) of
        (Some err, saver') \<Rightarrow> save_all cp (Some err) saver' dcs
      | (None, saver') \<Rightarrow> save_all cp lastErr saver' dcs)"

definition Engine_saveDeferredCheckpoints :: "'s Checkpointer option \<Rightarrow> 's RunState \<Rightarrow> gerror option \<times> 's RunState" where
  "Engine_saveDeferredCheckpoints cp rs =
     (if cp = None \<or> rs_deferred rs = [] then (None, rs)
      else let (err, saver) = save_all cp None (rs_saver rs) (rs_deferred rs)
           in (err, rs\<lparr>rs_saver := saver, rs_deferred := []\<rparr>))"

text \<open>The asynchronous saves that have been stored by the start of a superstep.  Their errors are only logged.\<close>

definition land_saves :: "Env \<Rightarrow> 's Checkpointer option \<Rightarrow> 's RunState \<Rightarrow> 's RunState" where
  "land_saves env cp rs =
     (let (landed, later) = ev_lands env (rs_step rs) (rs_async rs)
      in rs\<lparr>rs_saver := snd (save_all cp None (rs_saver rs) landed), rs_async := later\<rparr>)"

section \<open>Starting a run\<close>

definition configured :: "Engine \<Rightarrow> string \<Rightarrow> string option" where
  "configured e key =
     (case eng_config e of None \<Rightarrow> None
      | Some c \<Rightarrow> (case rc_Configurable c of None \<Rightarrow> None
                   | Some m \<Rightarrow> (case mget m key of Some (GString s) \<Rightarrow> Some s | _ \<Rightarrow> None)))"

definition Engine_getThreadID :: "string \<Rightarrow> Engine \<Rightarrow> string" where
  "Engine_getThreadID newID e = (case configured e ''thread_id'' of Some tid \<Rightarrow> tid | None \<Rightarrow> newID)"

definition init_registry :: "Engine \<Rightarrow> Registry" where
  "init_registry e = fold (\<lambda>(name, ch) r. Registry_Register r name (Channel_Copy ch)) (g_channels (eng_graph e)) NewRegistry"

record Loaded =
  ld_data :: "gvalue gomap"
  ld_registry :: Registry
  ld_checkpoint :: Checkpoint

definition load_checkpoint ::
    "Env \<Rightarrow> Engine \<Rightarrow> 's Checkpointer \<Rightarrow> 's \<Rightarrow> string \<Rightarrow> Registry \<Rightarrow> gerror + Loaded option" where
  "load_checkpoint env e ck saver threadID registry =
     (let requested = case_option [] id (configured e ''checkpoint_id'');
          cpConfig = mputs [] ((''thread_id'', GString threadID) #
            (if requested \<noteq> [] then [(''checkpoint_id'', GString requested)] else []));
          missing = (\<lambda>why. if requested \<noteq> []
            then Inl (ErrorNew (''requested checkpoint_id '' @ requested @ '': '' @ why)) else Inr None)
      in case ck_Get ck saver cpConfig of
           Inl err \<Rightarrow> missing (Error err)
         | Inr None \<Rightarrow> missing ''checkpoint not found''
         | Inr (Some cpData) \<Rightarrow>
             let filtered = filter (\<lambda>en. registered registry (fst en)) cpData in
             case (if filtered \<noteq> [] then Registry_RestoreFromCheckpoint (ev_order env 0 1) registry filtered
                   else (None, registry)) of
               (Some err, r) \<Rightarrow> Inl (ErrorWrap ''failed to restore from checkpoint'' err)
             | (None, r) \<Rightarrow>
                 (case FromMap (ev_parse env) cpData of
                    Inl err \<Rightarrow> Inr (Some \<lparr>ld_data = cpData, ld_registry = r,
                      ld_checkpoint = NewCheckpoint (ev_checkpointID env) (ev_now env) threadID 0\<rparr>)
                  | Inr c \<Rightarrow> Inr (Some \<lparr>ld_data = cpData, ld_registry = r, ld_checkpoint = c\<rparr>)))"

definition loaded_completed :: "gvalue gomap \<Rightarrow> bool gomap" where
  "loaded_completed cpData =
     (case mget cpData ''__completed_tasks__'' of
        Some (GString str) \<Rightarrow> case_option [] id (deserializeStringSet str) | _ \<Rightarrow> [])"

definition loaded_lastNode :: "gvalue gomap \<Rightarrow> string" where
  "loaded_lastNode cpData = (case mget cpData ''__last_completed_node__'' of Some (GString str) \<Rightarrow> str | _ \<Rightarrow> [])"

definition loaded_subState :: "gvalue gomap \<Rightarrow> string option" where
  "loaded_subState cpData =
     (case mget cpData ''__sub_state__'' of Some (GBytes v) \<Rightarrow> Some v | Some (GString v) \<Rightarrow> Some v | _ \<Rightarrow> None)"

definition loaded_lastState :: "Env \<Rightarrow> gvalue gomap \<Rightarrow> gvalue" where
  "loaded_lastState env cpData =
     (case (case mget cpData ''__last_state__'' of Some (GString v) \<Rightarrow> Some v | Some (GBytes v) \<Rightarrow> Some v | _ \<Rightarrow> None) of
        None \<Rightarrow> GNil
      | Some jsonBytes \<Rightarrow> (case ev_unmarshal env jsonBytes of Some decoded \<Rightarrow> GMap decoded | None \<Rightarrow> GNil))"

definition fresh_writes :: "Checkpoint \<Rightarrow> WriteState" where
  "fresh_writes c = \<lparr>ws_channelVersions = [], ws_versionsSeen = [], ws_currentCheckpoint = Some c\<rparr>"

definition start_run :: "Env \<Rightarrow> Engine \<Rightarrow> 's Checkpointer option \<Rightarrow> 's \<Rightarrow> gvalue \<Rightarrow> gerror + 's RunState" where
  "start_run env e cp saver input =
     (let threadID = Engine_getThreadID (ev_threadID env) e in
      case Engine_applyInput (ev_order env 0 0) (init_registry e) input of
        (Some err, r) \<Rightarrow> Inl (ErrorWrap ''failed to apply input'' err)
      | (None, registry1, input1) \<Rightarrow>
          (case (case cp of None \<Rightarrow> Inr None | Some ck \<Rightarrow> load_checkpoint env e ck saver threadID registry1) of
             Inl err \<Rightarrow> Inl err
           | Inr (Some ld) \<Rightarrow>
               Inr \<lparr>rs_registry = ld_registry ld, rs_writes = fresh_writes (ld_checkpoint ld),
                 rs_completed = loaded_completed (ld_data ld), rs_lastNode = loaded_lastNode (ld_data ld),
                 rs_lastState = loaded_lastState env (ld_data ld), rs_subState = loaded_subState (ld_data ld),
                 rs_step = 0, rs_saver = saver, rs_deferred = [], rs_async = [], rs_events = []\<rparr>
           | Inr None \<Rightarrow>
               (case Engine_applyInput (ev_order env 0 2) registry1 input1 of
                  (Some err, r) \<Rightarrow> Inl (ErrorWrap ''failed to apply input'' err)
                | (None, registry2, input2) \<Rightarrow>
                    Inr \<lparr>rs_registry = registry2,
                      rs_writes = fresh_writes (NewCheckpoint (ev_checkpointID env) (ev_now env) threadID 0),
                      rs_completed = [], rs_lastNode = [], rs_lastState = input2, rs_subState = None,
                      rs_step = 0, rs_saver = saver, rs_deferred = [], rs_async = [], rs_events = []\<rparr>)))"

section \<open>One superstep\<close>

datatype 's step_result = Continue "'s RunState" | Finished "'s RunState" | Stop gerror "'s RunState"

text \<open>The interrupt before the tasks run: the channel values are stored, without the progress of the run.\<close>

definition interrupt_before ::
    "'s Checkpointer option \<Rightarrow> string \<Rightarrow> Task list \<Rightarrow> 's RunState \<Rightarrow> 's step_result" where
  "interrupt_before cp threadID interruptedTasks rs =
     (let (err, saver) =
            (case cp of None \<Rightarrow> (None, rs_saver rs)
             | Some ck \<Rightarrow> ck_Put ck (rs_saver rs) [(''thread_id'', GString threadID)]
                 (Registry_CreateCheckpoint (rs_registry rs)));
          rs1 = rs\<lparr>rs_saver := saver\<rparr>
      in case err of
           Some err \<Rightarrow> Stop (ErrorWrap ''failed to save checkpoint'' err) rs1
         | None \<Rightarrow> Stop (GraphInterrupt []) (emit (EventInterrupt (rs_step rs) (map tk_Name interruptedTasks)) rs1))"

text \<open>The bookkeeping for the successful results of a superstep.\<close>

fun mark_results :: "bool gomap \<Rightarrow> string \<Rightarrow> gvalue \<Rightarrow> TaskResult list \<Rightarrow> bool gomap \<times> string \<times> gvalue" where
  "mark_results completedTasks lastNode lastState [] = (completedTasks, lastNode, lastState)"
| "mark_results completedTasks lastNode lastState (result # rs) =
     (if tr_Err result = None
      then mark_results (mput completedTasks (tr_Name result) True) (tr_Name result)
             (mergeStates lastState (tr_Output result)) rs
      else mark_results completedTasks lastNode lastState rs)"

definition interrupted :: "TaskResult \<Rightarrow> bool" where
  "interrupted r = (case tr_Err r of Some err \<Rightarrow> IsGraphInterrupt err | None \<Rightarrow> False)"

fun first_interrupts :: "TaskResult list \<Rightarrow> interrupt list" where
  "first_interrupts [] = []"
| "first_interrupts (r # rs) =
     (case tr_Err r of Some (GraphInterrupt (i # is)) \<Rightarrow> i # is | _ \<Rightarrow> first_interrupts rs)"

definition interrupt_payload :: "Env \<Rightarrow> 's RunState \<Rightarrow> TaskResult list \<Rightarrow> gvalue gomap" where
  "interrupt_payload env rs results =
     (let p1 = mputs (mputs [] (Registry_CreateCheckpoint (rs_registry rs)))
            [(''__completed_tasks__'', GString (serializeStringSet (rs_completed rs))),
             (''__last_completed_node__'', GString (rs_lastNode rs)),
             (''__step__'', GFloat (float_of_goint (of_nat (rs_step rs))))];
          p2 = (if rs_lastState rs = GNil then p1
                else (case ev_marshal env (rs_lastState rs) of
                        Some ls \<Rightarrow> mput p1 ''__last_state__'' (GString ls) | None \<Rightarrow> p1))
      in case first_interrupts results of
           Interrupt v i # is \<Rightarrow>
             if v = GNil then p2
             else (case ev_marshal env v of Some b \<Rightarrow> mput p2 ''__sub_state__'' (GBytes b) | None \<Rightarrow> p2)
         | _ \<Rightarrow> p2)"

definition interrupt_in_task ::
    "Env \<Rightarrow> 's Checkpointer option \<Rightarrow> string \<Rightarrow> TaskResult list \<Rightarrow> 's RunState \<Rightarrow> 's step_result" where
  "interrupt_in_task env cp threadID results rs =
     (let (err, saver) =
            (case cp of None \<Rightarrow> (None, rs_saver rs)
             | Some ck \<Rightarrow> ck_Put ck (rs_saver rs) [(''thread_id'', GString threadID)] (interrupt_payload env rs results));
          rs1 = rs\<lparr>rs_saver := saver\<rparr>
      in case err of
           Some err \<Rightarrow> Stop (ErrorWrap ''failed to save checkpoint on interrupt'' err) rs1
         | None \<Rightarrow> Stop (GraphInterrupt (first_interrupts results))
             (emit (EventInterrupt (rs_step rs) (map tr_Name (filter interrupted results))) rs1))"

definition all_failed :: "TaskResult list \<Rightarrow> bool" where
  "all_failed results \<longleftrightarrow> results \<noteq> [] \<and> list_all (\<lambda>r. tr_Err r \<noteq> None) results"

definition all_failed_error :: "Env \<Rightarrow> nat \<Rightarrow> TaskResult list \<Rightarrow> gerror" where
  "all_failed_error env step results =
     ErrorNew (''all '' @ nat_digits (length results) @ '' tasks failed in step '' @ nat_digits step @ '': '' @
       concat (map (\<lambda>r. case tr_Err r of
          Some err \<Rightarrow> '' '' @ tr_Name r @ ''='' @ ev_typeName env err @ ''('' @ Error err @ '')'' | None \<Rightarrow> []) results))"

definition nil_config_panic :: gerror where
  "nil_config_panic = ErrorNew ''panic: runtime error: invalid memory address or nil pointer dereference''"

text \<open>Saving after a superstep, by durability.\<close>

definition save_step ::
    "Env \<Rightarrow> Engine \<Rightarrow> 's Checkpointer option \<Rightarrow> string \<Rightarrow> 's RunState \<Rightarrow> gerror option \<times> 's RunState" where
  "save_step env e cp threadID rs =
     (if cp = None then (None, rs)
      else
        let checkpoint = Registry_CreateCheckpoint (rs_registry rs); checkpointID = ev_stepID env (rs_step rs) in
        case eng_config e of
          None \<Rightarrow> (Some nil_config_panic, rs)
        | Some c \<Rightarrow>
            (case rc_Durability c of
               DurabilityAsync \<Rightarrow>
                 (None, rs\<lparr>rs_async := rs_async rs @ [\<lparr>dc_ThreadID = threadID, dc_CheckpointID = checkpointID,
                    dc_Step = rs_step rs, dc_Checkpoint = checkpoint\<rparr>]\<rparr>)
             | DurabilityExit \<Rightarrow> (None, Engine_deferCheckpoint threadID checkpointID (rs_step rs) checkpoint rs)
             | _ \<Rightarrow>
                 (case Engine_saveCheckpoint cp (rs_saver rs) threadID checkpointID (rs_step rs) checkpoint of
                    (Some err, saver) \<Rightarrow> (Some (ErrorWrap ''failed to save checkpoint'' err), rs\<lparr>rs_saver := saver\<rparr>)
                  | (None, saver) \<Rightarrow> (None, rs\<lparr>rs_saver := saver\<rparr>))))"

definition emit_values :: "Env \<Rightarrow> 's RunState \<Rightarrow> 's RunState" where
  "emit_values env rs =
     (case Registry_GetValues (ev_order env (Suc (rs_step rs)) 2) (rs_registry rs) of
        (Inr vals, registry) \<Rightarrow> emit (EventValues (rs_step rs) vals) (rs\<lparr>rs_registry := registry\<rparr>)
      | (Inl err, registry) \<Rightarrow> rs\<lparr>rs_registry := registry\<rparr>)"

text \<open>The rest of a superstep once its tasks have run without interrupt and not all failed.\<close>

definition finish_step ::
    "Env \<Rightarrow> Engine \<Rightarrow> 's Checkpointer option \<Rightarrow> string \<Rightarrow> TaskResult list \<Rightarrow> string list \<Rightarrow> 's RunState \<Rightarrow> 's step_result" where
  "finish_step env e cp threadID results triggers rs =
     (case Engine_applyWrites (ev_order env (Suc (rs_step rs)) 1) e (rs_writes rs) (rs_registry rs) results triggers of
        (Inl err, st, registry) \<Rightarrow>
          Stop (ErrorWrap ''failed to apply writes'' err) (rs\<lparr>rs_writes := st, rs_registry := registry\<rparr>)
      | (Inr updated, st, registry) \<Rightarrow>
          (case save_step env e cp threadID (emit_values env (rs\<lparr>rs_writes := st, rs_registry := registry\<rparr>)) of
             (Some err, rs1) \<Rightarrow> Stop err rs1
           | (None, rs1) \<Rightarrow>
               if Engine_shouldInterruptAfter e results then Stop (GraphInterrupt []) rs1
               else Continue (rs1\<lparr>rs_step := Suc (rs_step rs1)\<rparr>)))"

text \<open>The tasks of a superstep run, and the outcome decides how it goes on.\<close>

definition run_tasks ::
    "Env \<Rightarrow> Engine \<Rightarrow> 's Checkpointer option \<Rightarrow> string \<Rightarrow> Task list \<Rightarrow> string list \<Rightarrow> 's RunState \<Rightarrow> 's step_result" where
  "run_tasks env e cp threadID tasks triggers rs =
     (let step = rs_step rs;
          (results, registry) = Engine_executeTasksAsync (ev_taskDone env step) (ev_waitDone env step) e step (rs_registry rs) tasks;
          (completedTasks, lastNode, lastState) = mark_results (rs_completed rs) (rs_lastNode rs) (rs_lastState rs) results;
          rs1 = rs\<lparr>rs_registry := registry, rs_completed := completedTasks, rs_lastNode := lastNode, rs_lastState := lastState\<rparr>
      in if list_ex interrupted results then interrupt_in_task env cp threadID results rs1
         else if all_failed results then Stop (all_failed_error env step results) rs1
         else finish_step env e cp threadID results triggers rs1)"

definition superstep :: "Env \<Rightarrow> Engine \<Rightarrow> 's Checkpointer option \<Rightarrow> string \<Rightarrow> 's RunState \<Rightarrow> 's step_result" where
  "superstep env e cp threadID rs0 =
     (let rs = land_saves env cp rs0; step = rs_step rs in
      case ev_done env step of
        Some err \<Rightarrow> Stop err rs
      | None \<Rightarrow>
          if sint (eng_recursionLimit e) \<le> int step
          then Stop (GraphRecursionError (sint (eng_recursionLimit e))) rs
          else
            let rs1 = emit (EventCheckpoint step (Registry_CreateCheckpoint (rs_registry rs))) rs in
            case Engine_prepareNextTasksWithMode (ev_order env (Suc step) 0) (ev_taskID env step) (ev_other env) e
                   (rs_registry rs1) (rs_completed rs1) (rs_lastNode rs1) (rs_lastState rs1) True of
              Inl err \<Rightarrow> Stop (ErrorWrap ''failed to prepare next tasks'' err) rs1
            | Inr (tasks, triggers) \<Rightarrow>
                let rs2 = fold (\<lambda>t. emit (EventTaskStart step (tk_Name t) (tk_ID t))) tasks rs1;
                    interruptedTasks = Engine_shouldInterrupt e tasks
                in if tasks = [] then Finished rs2
                   else if interruptedTasks \<noteq> [] then interrupt_before cp threadID interruptedTasks rs2
                   else run_tasks env e cp threadID tasks triggers rs2)"

section \<open>The run\<close>

text \<open>The steps left before the recursion limit bound the loop.\<close>

definition steps_left :: "Engine \<Rightarrow> 's RunState \<Rightarrow> nat" where
  "steps_left e rs = nat (sint (eng_recursionLimit e) - int (rs_step rs))"

lemma emit_simps [simp]:
  "rs_registry (emit ev rs) = rs_registry rs" "rs_writes (emit ev rs) = rs_writes rs"
  "rs_completed (emit ev rs) = rs_completed rs" "rs_lastNode (emit ev rs) = rs_lastNode rs"
  "rs_lastState (emit ev rs) = rs_lastState rs" "rs_subState (emit ev rs) = rs_subState rs"
  "rs_step (emit ev rs) = rs_step rs" "rs_saver (emit ev rs) = rs_saver rs"
  "rs_deferred (emit ev rs) = rs_deferred rs" "rs_async (emit ev rs) = rs_async rs"
  "rs_events (emit ev rs) = rs_events rs @ [ev]"
  by (simp_all add: emit_def)

lemma emit_all_simps [simp]:
  "rs_registry (fold (\<lambda>x. emit (f x)) xs rs) = rs_registry rs" "rs_writes (fold (\<lambda>x. emit (f x)) xs rs) = rs_writes rs"
  "rs_completed (fold (\<lambda>x. emit (f x)) xs rs) = rs_completed rs" "rs_lastNode (fold (\<lambda>x. emit (f x)) xs rs) = rs_lastNode rs"
  "rs_lastState (fold (\<lambda>x. emit (f x)) xs rs) = rs_lastState rs" "rs_step (fold (\<lambda>x. emit (f x)) xs rs) = rs_step rs"
  "rs_saver (fold (\<lambda>x. emit (f x)) xs rs) = rs_saver rs" "rs_deferred (fold (\<lambda>x. emit (f x)) xs rs) = rs_deferred rs"
  "rs_async (fold (\<lambda>x. emit (f x)) xs rs) = rs_async rs"
  "rs_events (fold (\<lambda>x. emit (f x)) xs rs) = rs_events rs @ map f xs"
  by (induction xs arbitrary: rs) simp_all

lemma land_saves_simps [simp]:
  "rs_registry (land_saves env cp rs) = rs_registry rs" "rs_writes (land_saves env cp rs) = rs_writes rs"
  "rs_completed (land_saves env cp rs) = rs_completed rs" "rs_lastNode (land_saves env cp rs) = rs_lastNode rs"
  "rs_lastState (land_saves env cp rs) = rs_lastState rs" "rs_step (land_saves env cp rs) = rs_step rs"
  "rs_deferred (land_saves env cp rs) = rs_deferred rs" "rs_events (land_saves env cp rs) = rs_events rs"
  by (simp_all add: land_saves_def split_beta)

lemma emit_values_simps [simp]:
  "rs_step (emit_values env rs) = rs_step rs" "rs_completed (emit_values env rs) = rs_completed rs"
  "rs_lastNode (emit_values env rs) = rs_lastNode rs" "rs_lastState (emit_values env rs) = rs_lastState rs"
  "rs_saver (emit_values env rs) = rs_saver rs" "rs_deferred (emit_values env rs) = rs_deferred rs"
  "rs_async (emit_values env rs) = rs_async rs" "rs_writes (emit_values env rs) = rs_writes rs"
  by (simp_all add: emit_values_def split: prod.split sum.split)

lemma save_step_simps:
  assumes "save_step env e cp threadID rs = (err, rs')"
  shows "rs_step rs' = rs_step rs" "rs_completed rs' = rs_completed rs" "rs_lastNode rs' = rs_lastNode rs"
    "rs_lastState rs' = rs_lastState rs" "rs_registry rs' = rs_registry rs" "rs_events rs' = rs_events rs"
  using assms
  by (auto simp: save_step_def Engine_deferCheckpoint_def Let_def split: if_splits option.splits Durability.splits prod.splits)

lemma finish_step_Continue:
  assumes "finish_step env e cp threadID results triggers rs = Continue rs'"
  shows "rs_step rs' = Suc (rs_step rs)" "rs_completed rs' = rs_completed rs"
    "rs_lastNode rs' = rs_lastNode rs" "rs_lastState rs' = rs_lastState rs"
  using assms
  by (auto simp: finish_step_def split: prod.splits sum.splits option.splits if_splits dest: save_step_simps)

lemma superstep_Continue:
  assumes "superstep env e cp threadID rs = Continue rs'"
  shows "rs_step rs' = Suc (rs_step rs)" "int (rs_step rs) < sint (eng_recursionLimit e)"
  using assms
  by (auto simp: superstep_def run_tasks_def interrupt_before_def interrupt_in_task_def Let_def
      split: option.splits if_splits sum.splits prod.splits dest: finish_step_Continue)

function run_loop :: "Env \<Rightarrow> Engine \<Rightarrow> 's Checkpointer option \<Rightarrow> string \<Rightarrow> 's RunState \<Rightarrow> gerror option \<times> 's RunState" where
  "run_loop env e cp threadID rs =
     (case superstep env e cp threadID rs of
        Continue rs' \<Rightarrow> run_loop env e cp threadID rs'
      | Finished rs' \<Rightarrow> (None, rs')
      | Stop err rs' \<Rightarrow> (Some err, rs'))"
  by pat_completeness auto

termination
  by (relation "measure (\<lambda>(env, e, cp, threadID, rs). steps_left e rs)")
    (auto simp: steps_left_def dest: superstep_Continue)

declare run_loop.simps [simp del]

definition Engine_buildOutput ::
    "(string list \<Rightarrow> string list) \<Rightarrow> Registry \<Rightarrow> gvalue \<Rightarrow> gvalue \<times> Registry" where
  "Engine_buildOutput ro registry lastState =
     (case Registry_GetValues ro registry of
        (Inl err, registry') \<Rightarrow> (lastState, registry')
      | (Inr vals, registry') \<Rightarrow> (if vals \<noteq> [] then GMap vals else lastState, registry'))"

definition finish_run :: "Env \<Rightarrow> Engine \<Rightarrow> 's Checkpointer option \<Rightarrow> 's RunState \<Rightarrow> gerror option \<times> 's RunState" where
  "finish_run env e cp rs =
     (let (finalState, registry) = Engine_buildOutput (ev_order env (Suc (rs_step rs)) 3) (rs_registry rs) (rs_lastState rs);
          rs1 = rs\<lparr>rs_registry := registry\<rparr>
      in case eng_config e of
           None \<Rightarrow> (Some nil_config_panic, rs1)
         | Some c \<Rightarrow>
             (case (if rc_Durability c = DurabilityExit then Engine_saveDeferredCheckpoints cp rs1 else (None, rs1)) of
                (Some err, rs2) \<Rightarrow> (Some (ErrorWrap ''failed to save deferred checkpoints'' err), rs2)
              | (None, rs2) \<Rightarrow> (None, emit (EventFinal (rs_step rs2) finalState) rs2)))"

text \<open>What a run leaves behind: the error, the checkpointer, the saves still outstanding, the events.\<close>

record 's RunResult =
  rr_err :: "gerror option"
  rr_saver :: 's
  rr_async :: "deferredCheckpoint list"
  rr_events :: "StreamEvent list"

datatype StreamMode = StreamModeValues | StreamModeUpdates | StreamModeCheckpoints | StreamModeTasks | StreamModeDebug
  | StreamModeCustom | StreamModeMessages | StreamModeOther string

definition shouldEmit :: "StreamMode \<Rightarrow> StreamEvent \<Rightarrow> bool" where
  "shouldEmit mode ev =
     (case ev of
        EventFinal s v \<Rightarrow> True
      | EventValues s vs \<Rightarrow> (case mode of StreamModeUpdates \<Rightarrow> False | StreamModeTasks \<Rightarrow> False | StreamModeCheckpoints \<Rightarrow> False | _ \<Rightarrow> True)
      | EventCheckpoint s c \<Rightarrow> mode \<in> {StreamModeCheckpoints, StreamModeDebug}
      | EventTaskStart s n i \<Rightarrow> mode \<in> {StreamModeTasks, StreamModeDebug}
      | EventInterrupt s ns \<Rightarrow> mode = StreamModeDebug)"

definition Engine_Run :: "Env \<Rightarrow> Engine \<Rightarrow> 's Checkpointer option \<Rightarrow> 's \<Rightarrow> gvalue \<Rightarrow> StreamMode \<Rightarrow> 's RunResult" where
  "Engine_Run env e cp saver input mode =
     (case start_run env e cp saver input of
        Inl err \<Rightarrow> \<lparr>rr_err = Some err, rr_saver = saver, rr_async = [], rr_events = []\<rparr>
      | Inr rs \<Rightarrow>
          let (err, rs') =
                (case run_loop env e cp (Engine_getThreadID (ev_threadID env) e) rs of
                   (Some err, rs1) \<Rightarrow> (Some err, rs1)
                 | (None, rs1) \<Rightarrow> finish_run env e cp rs1)
          in \<lparr>rr_err = err, rr_saver = rs_saver rs', rr_async = rs_async rs', rr_events = filter (shouldEmit mode) (rs_events rs')\<rparr>)"

fun final_state :: "gvalue \<Rightarrow> StreamEvent list \<Rightarrow> gvalue" where
  "final_state finalState [] = finalState"
| "final_state finalState (EventFinal s v # evs) = final_state v evs"
| "final_state finalState (ev # evs) = final_state finalState evs"

definition Engine_RunSync :: "Env \<Rightarrow> Engine \<Rightarrow> 's Checkpointer option \<Rightarrow> 's \<Rightarrow> gvalue \<Rightarrow> (gerror + gvalue) \<times> 's RunResult" where
  "Engine_RunSync env e cp saver input =
     (let rr = Engine_Run env e cp saver input StreamModeValues
      in (case rr_err rr of Some err \<Rightarrow> Inl err | None \<Rightarrow> Inr (final_state GNil (rr_events rr)), rr))"

end
