(* ===== verification/RunLaws.thy ===== *)
theory RunLaws
  imports Engine
begin

text \<open>
  The states a run passes through, as an inductive relation over supersteps, and the invariants of
  the loop: the recursion limit, and the order in which nodes complete when all predecessors must
  have completed.
\<close>

inductive passes :: "Env \<Rightarrow> Engine \<Rightarrow> 's Checkpointer option \<Rightarrow> string \<Rightarrow> 's RunState \<Rightarrow> 's RunState \<Rightarrow> bool"
  for env e cp threadID rs0 where
  start: "passes env e cp threadID rs0 rs0"
| step: "passes env e cp threadID rs0 rs \<Longrightarrow> superstep env e cp threadID rs = Continue rs' \<Longrightarrow>
    passes env e cp threadID rs0 rs'"

inductive_simps passes_simps: "passes env e cp threadID rs0 rs"

lemma passes_trans:
  assumes "passes env e cp t rs1 rs2" and "passes env e cp t rs0 rs1"
  shows "passes env e cp t rs0 rs2"
  using assms by (induction rule: passes.induct) (auto intro: passes.step)

text \<open>The loop ends in the state a last superstep leaves, and every state before it was passed.\<close>

lemma run_loop_last:
  "\<exists>last. passes env e cp t rs last \<and>
    (case run_loop env e cp t rs of
       (None, rs') \<Rightarrow> superstep env e cp t last = Finished rs'
     | (Some err, rs') \<Rightarrow> superstep env e cp t last = Stop err rs')"
proof (induction env e cp t rs rule: run_loop.induct)
  case (1 env e cp t rs)
  show ?case
  proof (cases "superstep env e cp t rs")
    case (Continue rs1)
    from 1 [OF Continue] obtain last where last: "passes env e cp t rs1 last"
      and l: "case run_loop env e cp t rs1 of (None, rs') \<Rightarrow> superstep env e cp t last = Finished rs'
        | (Some err, rs') \<Rightarrow> superstep env e cp t last = Stop err rs'"
      by (elim exE conjE)
    have "passes env e cp t rs rs1" using passes.start Continue by (rule passes.step)
    with last have "passes env e cp t rs last" by (rule passes_trans)
    moreover have "run_loop env e cp t rs = run_loop env e cp t rs1"
      by (subst run_loop.simps) (simp add: Continue)
    ultimately show ?thesis using l by (intro exI [of _ last]) simp
  next
    case (Finished rs1)
    then show ?thesis by (intro exI [of _ rs]) (simp add: run_loop.simps passes.start)
  next
    case (Stop err rs1)
    then show ?thesis by (intro exI [of _ rs]) (simp add: run_loop.simps passes.start)
  qed
qed

lemma passes_step: "passes env e cp t rs0 rs \<Longrightarrow>
  rs_step rs0 \<le> rs_step rs \<and> rs_step rs \<le> max (rs_step rs0) (nat (sint (eng_recursionLimit e)))"
proof (induction rule: passes.induct)
  case start
  then show ?case by simp
next
  case (step rs rs')
  then show ?case using superstep_Continue [OF step(2)] by simp
qed

section \<open>Tasks and results\<close>

lemma executeTasks_names:
  "Engine_executeTasksAsync td wd e step registry tasks = (results, registry') \<Longrightarrow> map tr_Name results = map tk_Name tasks"
proof (induction tasks arbitrary: registry results registry')
  case Nil
  then show ?case by simp
next
  case (Cons t ts)
  have "tr_Name (fst (execute_task td wd e step registry t)) = tk_Name t"
    by (auto simp: execute_task_def Let_def split: prod.splits sum.splits option.splits)
  with Cons show ?case by (auto split: prod.splits)
qed

lemma mark_results_completed:
  "mark_results tasks lastNode lastState results = (tasks', lastNode', lastState') \<Longrightarrow>
   completed tasks' n \<longleftrightarrow> completed tasks n \<or> (\<exists>r\<in>set results. tr_Name r = n \<and> tr_Err r = None)"
  by (induction tasks lastNode lastState results rule: mark_results.induct)
    (auto simp: completed_def split: if_splits)

lemma mark_results_last:
  "mark_results tasks lastNode lastState results = (tasks', lastNode', lastState') \<Longrightarrow>
   (\<exists>r\<in>set results. tr_Err r = None) \<Longrightarrow> \<exists>r\<in>set results. tr_Err r = None \<and> lastNode' = tr_Name r"
proof (induction tasks lastNode lastState results rule: mark_results.induct)
  case (1 tasks lastNode lastState)
  then show ?case by simp
next
  case (2 tasks lastNode lastState r rs)
  show ?case
  proof (cases "\<exists>r\<in>set rs. tr_Err r = None")
    case True
    with 2 show ?thesis by (auto split: if_splits)
  next
    case False
    then have "mark_results ts ln ls rs = (ts, ln, ls)" for ts ln ls
      by (induction rs) auto
    with 2 False show ?thesis by (auto split: if_splits)
  qed
qed

text \<open>What a superstep that continues has done: tasks were scheduled, and some of them succeeded.\<close>

lemma run_tasks_Continue:
  assumes run: "run_tasks env e cp t tasks triggers rs = Continue rs'"
    and ex: "Engine_executeTasksAsync (ev_taskDone env (rs_step rs)) (ev_waitDone env (rs_step rs)) e (rs_step rs)
      (rs_registry rs) tasks = (results, registry)"
  shows "\<not> list_ex interrupted results" "\<not> all_failed results"
    "mark_results (rs_completed rs) (rs_lastNode rs) (rs_lastState rs) results =
       (rs_completed rs', rs_lastNode rs', rs_lastState rs')"
proof -
  obtain c n s where mark: "mark_results (rs_completed rs) (rs_lastNode rs) (rs_lastState rs) results = (c, n, s)"
    by (metis surj_pair)
  show int: "\<not> list_ex interrupted results"
    using run ex mark by (auto simp: run_tasks_def Let_def interrupt_in_task_def split: prod.splits option.splits)
  show fail: "\<not> all_failed results"
    using run ex mark int by (auto simp: run_tasks_def Let_def)
  have "finish_step env e cp t results triggers
      (rs\<lparr>rs_registry := registry, rs_completed := c, rs_lastNode := n, rs_lastState := s\<rparr>) = Continue rs'"
    using run ex mark int fail by (simp add: run_tasks_def Let_def)
  from finish_step_Continue [OF this] show
    "mark_results (rs_completed rs) (rs_lastNode rs) (rs_lastState rs) results =
       (rs_completed rs', rs_lastNode rs', rs_lastState rs')"
    using mark by simp
qed

definition begin_step :: "Env \<Rightarrow> 's Checkpointer option \<Rightarrow> Task list \<Rightarrow> 's RunState \<Rightarrow> 's RunState" where
  "begin_step env cp tasks rs =
     fold (\<lambda>t. emit (EventTaskStart (rs_step rs) (tk_Name t) (tk_ID t))) tasks
       (emit (EventCheckpoint (rs_step rs) (Registry_CreateCheckpoint (rs_registry rs))) (land_saves env cp rs))"

lemma begin_step_simps [simp]:
  "rs_registry (begin_step env cp tasks rs) = rs_registry rs" "rs_writes (begin_step env cp tasks rs) = rs_writes rs"
  "rs_completed (begin_step env cp tasks rs) = rs_completed rs" "rs_lastNode (begin_step env cp tasks rs) = rs_lastNode rs"
  "rs_lastState (begin_step env cp tasks rs) = rs_lastState rs" "rs_step (begin_step env cp tasks rs) = rs_step rs"
  "rs_deferred (begin_step env cp tasks rs) = rs_deferred rs"
  by (simp_all add: begin_step_def)

text \<open>The tasks the engine prepares in a state.\<close>

definition prepared :: "Env \<Rightarrow> Engine \<Rightarrow> 's RunState \<Rightarrow> gerror + Task list \<times> string list" where
  "prepared env e rs =
     Engine_prepareNextTasksWithMode (ev_order env (Suc (rs_step rs)) 0) (ev_taskID env (rs_step rs)) (ev_other env) e
       (rs_registry rs) (rs_completed rs) (rs_lastNode rs) (rs_lastState rs) True"

lemma superstep_prepared:
  assumes "ev_done env (rs_step rs) = None" and "int (rs_step rs) < sint (eng_recursionLimit e)"
    and "prepared env e rs = Inr (tasks, triggers)"
  shows "superstep env e cp t rs =
    (if tasks = [] then Finished (begin_step env cp tasks rs)
     else if Engine_shouldInterrupt e tasks \<noteq> []
     then interrupt_before cp t (Engine_shouldInterrupt e tasks) (begin_step env cp tasks rs)
     else run_tasks env e cp t tasks triggers (begin_step env cp tasks rs))"
  using assms by (simp add: superstep_def prepared_def begin_step_def Let_def)

lemma superstep_Continue_prepared:
  assumes "superstep env e cp t rs = Continue rs'"
  obtains tasks triggers where "prepared env e rs = Inr (tasks, triggers)" "tasks \<noteq> []" "Engine_shouldInterrupt e tasks = []"
    "run_tasks env e cp t tasks triggers (begin_step env cp tasks rs) = Continue rs'"
proof -
  have run: "ev_done env (rs_step rs) = None" "int (rs_step rs) < sint (eng_recursionLimit e)"
    using assms superstep_Continue(2) [OF assms] by (auto simp: superstep_def Let_def split: option.splits)
  obtain tasks triggers where prep: "prepared env e rs = Inr (tasks, triggers)"
    using assms run by (auto simp: superstep_def prepared_def Let_def split: sum.splits)
  with assms superstep_prepared [OF run prep] show thesis
    by (intro that [OF prep]) (auto simp: interrupt_before_def Let_def split: if_splits option.splits prod.splits)
qed

lemma superstep_ran:
  assumes "superstep env e cp t rs = Continue rs'"
  obtains tasks triggers results where
    "prepared env e rs = Inr (tasks, triggers)" "map tr_Name results = map tk_Name tasks"
    "\<exists>r\<in>set results. tr_Err r = None"
    "mark_results (rs_completed rs) (rs_lastNode rs) (rs_lastState rs) results =
      (rs_completed rs', rs_lastNode rs', rs_lastState rs')"
proof -
  from assms obtain tasks triggers where prep: "prepared env e rs = Inr (tasks, triggers)" and ne: "tasks \<noteq> []"
    and run: "run_tasks env e cp t tasks triggers (begin_step env cp tasks rs) = Continue rs'"
    by (rule superstep_Continue_prepared)
  let ?rs = "begin_step env cp tasks rs"
  obtain results registry where ex: "Engine_executeTasksAsync (ev_taskDone env (rs_step ?rs)) (ev_waitDone env (rs_step ?rs)) e
      (rs_step ?rs) (rs_registry ?rs) tasks = (results, registry)" by (metis surj_pair)
  note names = executeTasks_names [OF ex] and ran = run_tasks_Continue [OF run ex]
  have "results \<noteq> []" using names ne by (metis map_is_Nil_conv)
  then have "\<exists>r\<in>set results. tr_Err r = None" using ran(2) by (auto simp: all_failed_def list_all_iff)
  with prep names ran(3) show thesis by (auto intro: that)
qed

section \<open>The mode where all predecessors must have completed\<close>

text \<open>Every completed node but the entry point has had all its predecessors complete.\<close>

definition dag_inv :: "Engine \<Rightarrow> bool gomap \<Rightarrow> bool" where
  "dag_inv e tasks \<longleftrightarrow> (\<forall>n. completed tasks n \<longrightarrow> mhas (nodes (eng_graph e)) n \<and>
     (n = entryPoint (eng_graph e) \<or>
      (\<forall>ed\<in>set (edges (eng_graph e)). e_To ed = n \<longrightarrow> e_From ed \<in> {Start, End} \<or> completed tasks (e_From ed))))"

lemma dag_prepared:
  assumes wf: "graph_wf (eng_graph e)" and ro: "\<And>i j. range_order (ev_order env i j)"
    and mode: "nodeTriggerMode (eng_graph e) = NodeTriggerAllPredecessor"
    and prep: "prepared env e rs = Inr (tasks, triggers)" and t: "t \<in> set tasks"
  shows "mhas (nodes (eng_graph e)) (tk_Name t) \<and>
    (if rs_completed rs = [] then tk_Name t = entryPoint (eng_graph e) else dag_ready e (rs_completed rs) (tk_Name t))"
proof (cases "rs_completed rs = []")
  case True
  then obtain node where "Engine_getNode e (entryPoint (eng_graph e)) = Some node" "tk_Name t = n_Name node"
    using prep t by (auto simp: prepared_def Engine_prepareNextTasksWithMode_def createTask_def Let_def
        split: if_splits option.splits)
  moreover from this(1) have "n_Name node = entryPoint (eng_graph e)"
    using wf by (simp add: Engine_getNode_def graph_wf_def)
  ultimately show ?thesis using True by (simp add: Engine_getNode_def mhas_mget)
next
  case False
  then have "tasks = fst (Engine_prepareNextTasksDAG (ev_order env (Suc (rs_step rs)) 0) (ev_taskID env (rs_step rs)) e
      (rs_completed rs) True)"
    using prep mode by (auto simp: prepared_def Engine_prepareNextTasksWithMode_def)
  then have "tk_Name t \<in> set (filter (dag_ready e (rs_completed rs))
      (map fst (range_entries (ev_order env (Suc (rs_step rs)) 0) (nodes (eng_graph e)))))"
    using t dag_task_names [OF wf ro, of _ _ "ev_taskID env (rs_step rs)" "rs_completed rs" True]
    by (metis image_eqI set_map)
  then show ?thesis using False by (auto simp: dag_ready_def)
qed

lemma dag_superstep:
  assumes wf: "graph_wf (eng_graph e)" and ro: "\<And>i j. range_order (ev_order env i j)"
    and mode: "nodeTriggerMode (eng_graph e) = NodeTriggerAllPredecessor"
    and step: "superstep env e cp t rs = Continue rs'" and inv: "dag_inv e (rs_completed rs)"
  shows "dag_inv e (rs_completed rs') \<and> {n. completed (rs_completed rs) n} \<subset> {n. completed (rs_completed rs') n}"
proof -
  from step obtain tasks triggers results where prep: "prepared env e rs = Inr (tasks, triggers)"
    and names: "map tr_Name results = map tk_Name tasks" and ok: "\<exists>r\<in>set results. tr_Err r = None"
    and mark: "mark_results (rs_completed rs) (rs_lastNode rs) (rs_lastState rs) results =
      (rs_completed rs', rs_lastNode rs', rs_lastState rs')"
    by (rule superstep_ran)
  note comp = mark_results_completed [OF mark]
  have task: "mhas (nodes (eng_graph e)) (tr_Name r) \<and>
      (if rs_completed rs = [] then tr_Name r = entryPoint (eng_graph e) else dag_ready e (rs_completed rs) (tr_Name r))"
    if "r \<in> set results" for r
  proof -
    have "tr_Name r \<in> tk_Name ` set tasks" using that names by (metis image_eqI list.set_map)
    then obtain t where "t \<in> set tasks" and t: "tr_Name r = tk_Name t" by blast
    from dag_prepared [OF wf ro mode prep this(1)] show ?thesis unfolding t .
  qed
  obtain r where r: "r \<in> set results" "tr_Err r = None" using ok by blast
  have "\<not> completed (rs_completed rs) (tr_Name r)"
    using task [OF r(1)] by (auto simp: dag_ready_def completed_def split: if_splits)
  then have "{n. completed (rs_completed rs) n} \<subset> {n. completed (rs_completed rs') n}"
    using comp r by blast
  moreover have "dag_inv e (rs_completed rs')"
    unfolding dag_inv_def comp
  proof (intro allI impI)
    fix n assume "completed (rs_completed rs) n \<or> (\<exists>r\<in>set results. tr_Name r = n \<and> tr_Err r = None)"
    then show "mhas (nodes (eng_graph e)) n \<and> (n = entryPoint (eng_graph e) \<or>
        (\<forall>ed\<in>set (edges (eng_graph e)). e_To ed = n \<longrightarrow> e_From ed \<in> {Start, End} \<or>
          completed (rs_completed rs) (e_From ed) \<or> (\<exists>r\<in>set results. tr_Name r = e_From ed \<and> tr_Err r = None)))"
    proof
      assume "completed (rs_completed rs) n"
      then show ?thesis using inv unfolding dag_inv_def by blast
    next
      assume "\<exists>r\<in>set results. tr_Name r = n \<and> tr_Err r = None"
      then obtain r where r: "r \<in> set results" "tr_Name r = n" by blast
      from task [OF r(1)] show ?thesis unfolding r(2) by (auto simp: dag_ready_def split: if_splits)
    qed
  qed
  ultimately show ?thesis by blast
qed

lemma dag_passes:
  assumes "graph_wf (eng_graph e)" and "\<And>i j. range_order (ev_order env i j)"
    and "nodeTriggerMode (eng_graph e) = NodeTriggerAllPredecessor"
    and "passes env e cp t rs0 rs" and "rs_completed rs0 = []"
  shows "dag_inv e (rs_completed rs) \<and> rs_step rs \<le> rs_step rs0 + card {n. completed (rs_completed rs) n}"
  using assms(4)
proof (induction rule: passes.induct)
  case start
  then show ?case using assms(5) by (simp add: dag_inv_def completed_def)
next
  case (step rs rs')
  then have inv: "dag_inv e (rs_completed rs')" and more: "{n. completed (rs_completed rs) n} \<subset> {n. completed (rs_completed rs') n}"
    using dag_superstep [OF assms(1-3) step(2)] by auto
  have "{n. completed (rs_completed rs') n} \<subseteq> fst ` set (nodes (eng_graph e))"
    using inv by (auto simp: dag_inv_def mhas_def)
  then have "finite {n. completed (rs_completed rs') n}" by (rule finite_subset) simp
  from psubset_card_mono [OF this more] show ?case
    using step.IH inv superstep_Continue(1) [OF step(2)] by simp
qed

lemma dag_completed_bound: "dag_inv e tasks \<Longrightarrow> card {n. completed tasks n} \<le> length (nodes (eng_graph e))"
proof -
  assume "dag_inv e tasks"
  then have "{n. completed tasks n} \<subseteq> set (map fst (nodes (eng_graph e)))"
    by (auto simp: dag_inv_def mhas_def)
  then have "card {n. completed tasks n} \<le> card (set (map fst (nodes (eng_graph e))))" by (intro card_mono) auto
  also have "\<dots> \<le> length (nodes (eng_graph e))" using card_length [of "map fst (nodes (eng_graph e))"] by simp
  finally show ?thesis .
qed

section \<open>The end of the loop\<close>

lemma interrupt_before_Stop:
  "interrupt_before cp t ts rs = Stop err rs' \<Longrightarrow> rs_step rs' = rs_step rs \<and> \<not> IsGraphRecursionError err"
  by (auto simp: interrupt_before_def Let_def split: prod.splits option.splits)

lemma interrupt_in_task_Stop:
  "interrupt_in_task env cp t results rs = Stop err rs' \<Longrightarrow> rs_step rs' = rs_step rs \<and> \<not> IsGraphRecursionError err"
  by (auto simp: interrupt_in_task_def Let_def split: prod.splits option.splits)

lemma save_step_error: "save_step env e cp t rs = (Some err, rs') \<Longrightarrow> \<not> IsGraphRecursionError err"
  by (auto simp: save_step_def nil_config_panic_def Let_def split: if_splits option.splits Durability.splits prod.splits)

lemma finish_step_Stop:
  "finish_step env e cp t results triggers rs = Stop err rs' \<Longrightarrow> rs_step rs' = rs_step rs \<and> \<not> IsGraphRecursionError err"
  by (auto simp: finish_step_def split: prod.splits sum.splits option.splits if_splits
      dest: save_step_simps(1) save_step_error)

lemma run_tasks_Stop:
  assumes "run_tasks env e cp t tasks triggers rs = Stop err rs'"
  shows "rs_step rs' = rs_step rs \<and> \<not> IsGraphRecursionError err"
proof -
  obtain results registry where ex: "Engine_executeTasksAsync (ev_taskDone env (rs_step rs)) (ev_waitDone env (rs_step rs)) e
      (rs_step rs) (rs_registry rs) tasks = (results, registry)" by (metis surj_pair)
  obtain c n s where mark: "mark_results (rs_completed rs) (rs_lastNode rs) (rs_lastState rs) results = (c, n, s)"
    by (metis surj_pair)
  show ?thesis
    using assms ex mark
    by (auto simp: run_tasks_def Let_def all_failed_error_def split: if_splits dest!: interrupt_in_task_Stop finish_step_Stop)
qed

lemma not_Finished [simp]:
  "interrupt_before cp t ts rs \<noteq> Finished rs'" "interrupt_in_task env cp t results rs \<noteq> Finished rs'"
  "finish_step env e cp t results triggers rs \<noteq> Finished rs'" "run_tasks env e cp t tasks triggers rs \<noteq> Finished rs'"
  by (auto simp: interrupt_before_def interrupt_in_task_def finish_step_def run_tasks_def Let_def
      split: prod.splits option.splits sum.splits)

lemma superstep_Stop:
  assumes "superstep env e cp t rs = Stop err rs'" and "ev_done env (rs_step rs) = None"
  shows "rs_step rs' = rs_step rs"
    and "IsGraphRecursionError err \<Longrightarrow>
      err = GraphRecursionError (sint (eng_recursionLimit e)) \<and> sint (eng_recursionLimit e) \<le> int (rs_step rs)"
proof -
  consider "sint (eng_recursionLimit e) \<le> int (rs_step rs)"
    | "int (rs_step rs) < sint (eng_recursionLimit e)" "\<exists>err. prepared env e rs = Inl err"
    | tasks triggers where "int (rs_step rs) < sint (eng_recursionLimit e)" "prepared env e rs = Inr (tasks, triggers)"
    by (cases "prepared env e rs") force+
  then have "rs_step rs' = rs_step rs \<and> (IsGraphRecursionError err \<longrightarrow>
      err = GraphRecursionError (sint (eng_recursionLimit e)) \<and> sint (eng_recursionLimit e) \<le> int (rs_step rs))"
  proof cases
    case 1
    then show ?thesis using assms by (auto simp: superstep_def Let_def)
  next
    case 2
    then show ?thesis using assms by (auto simp: superstep_def prepared_def Let_def)
  next
    case 3
    then show ?thesis
      using assms superstep_prepared [OF assms(2) 3]
      by (auto split: if_splits dest!: interrupt_before_Stop run_tasks_Stop)
  qed
  then show "rs_step rs' = rs_step rs" and "IsGraphRecursionError err \<Longrightarrow>
      err = GraphRecursionError (sint (eng_recursionLimit e)) \<and> sint (eng_recursionLimit e) \<le> int (rs_step rs)"
    by auto
qed

lemma superstep_Finished:
  assumes "superstep env e cp t rs = Finished rs'"
  shows "prepared env e rs = Inr ([], snd (projr (prepared env e rs)))" "rs' = begin_step env cp [] rs"
proof -
  have run: "ev_done env (rs_step rs) = None" "int (rs_step rs) < sint (eng_recursionLimit e)"
    using assms by (auto simp: superstep_def Let_def split: option.splits if_splits)
  obtain tasks triggers where prep: "prepared env e rs = Inr (tasks, triggers)"
    using assms run by (auto simp: superstep_def prepared_def Let_def split: sum.splits)
  with assms superstep_prepared [OF run prep] have "tasks = [] \<and> rs' = begin_step env cp [] rs"
    by (auto split: if_splits)
  with prep show "prepared env e rs = Inr ([], snd (projr (prepared env e rs)))" "rs' = begin_step env cp [] rs"
    by simp_all
qed

section \<open>A sample run\<close>

definition sample_env :: Env where
  "sample_env = \<lparr>ev_order = (\<lambda>i j ks. ks), ev_other = (\<lambda>v. []), ev_typeName = (\<lambda>err. []), ev_threadID = ''t'',
     ev_checkpointID = ''c'', ev_now = 0, ev_parse = (\<lambda>s. None), ev_taskID = (\<lambda>i n. n), ev_stepID = nat_digits,
     ev_done = (\<lambda>i. None), ev_taskDone = (\<lambda>i n. None), ev_waitDone = (\<lambda>i n a. None), ev_marshal = (\<lambda>v. None),
     ev_unmarshal = (\<lambda>s. None), ev_lands = (\<lambda>i ds. ([], ds))\<rparr>"

definition dag_engine :: Engine where
  "dag_engine = NewEngine (stateGraph_SetNodeTriggerMode sample_graph NodeTriggerAllPredecessor) []"

definition sample_run :: "unit RunState" where
  "sample_run = projr (start_run sample_env dag_engine None () (GMap [(''x'', GBool True)]))"

lemma sample_env_simps [simp]:
  "range_order (ev_order sample_env i j)" "ev_done sample_env i = None" "ev_lands sample_env i ds = ([], ds)"
  by (simp_all add: sample_env_def)

lemma dag_engine_simps:
  "built (eng_graph dag_engine)" "nodeTriggerMode (eng_graph dag_engine) = NodeTriggerAllPredecessor"
  by (simp_all add: dag_engine_def NewEngine_def stateGraph_SetNodeTriggerMode_def
      built.step [OF built_sample builder_step.set_mode, unfolded stateGraph_SetNodeTriggerMode_def])

definition after_step :: "Env \<Rightarrow> Engine \<Rightarrow> 's Checkpointer option \<Rightarrow> string \<Rightarrow> 's RunState \<Rightarrow> 's RunState option" where
  "after_step env e cp t rs = (case superstep env e cp t rs of Continue rs' \<Rightarrow> Some rs' | _ \<Rightarrow> None)"

definition sample_run1 :: "unit RunState" where
  "sample_run1 = the (after_step sample_env dag_engine None ''t'' sample_run)"

definition sample_run2 :: "unit RunState" where
  "sample_run2 = the (after_step sample_env dag_engine None ''t'' sample_run1)"

lemma after_step_passes:
  "passes env e cp t rs0 rs \<Longrightarrow> \<not> Option.is_none (after_step env e cp t rs) \<Longrightarrow>
   passes env e cp t rs0 (the (after_step env e cp t rs))"
  by (auto simp: after_step_def split: step_result.splits intro: passes.step)

lemma passes_sample2: "passes sample_env dag_engine None ''t'' sample_run sample_run2"
proof -
  have "\<not> Option.is_none (after_step sample_env dag_engine None ''t'' sample_run)" by code_simp
  from after_step_passes [OF passes.start this] have "passes sample_env dag_engine None ''t'' sample_run sample_run1"
    unfolding sample_run1_def .
  moreover have "\<not> Option.is_none (after_step sample_env dag_engine None ''t'' sample_run1)" by code_simp
  ultimately show ?thesis unfolding sample_run2_def by (rule after_step_passes)
qed

lemma start_run_step: "start_run env e cp saver input = Inr rs \<Longrightarrow> rs_step rs = 0"
  by (auto simp: start_run_def Let_def split: prod.splits option.splits sum.splits)

section \<open>Properties\<close>

text \<open>C3: A run ends: its loop takes at most as many supersteps as the recursion limit allows, and reports
  \<open>GraphRecursionError\<close> only with the configured limit and only once that many supersteps were taken.\<close>

theorem run_bounded:
  assumes "rs_step rs = 0" and "\<forall>n. ev_done env n = None" and run: "run_loop env e cp t rs = (err, rs')"
  shows "rs_step rs' \<le> nat (sint (eng_recursionLimit e)) \<and>
    (\<forall>l. err = Some (GraphRecursionError l) \<longrightarrow>
       l = sint (eng_recursionLimit e) \<and> rs_step rs' = nat (sint (eng_recursionLimit e)))"
proof -
  obtain last where "passes env e cp t rs last"
    and l: "case err of None \<Rightarrow> superstep env e cp t last = Finished rs' | Some err \<Rightarrow> superstep env e cp t last = Stop err rs'"
    using run_loop_last [of env e cp t rs] run by (auto split: option.splits)
  then have "rs_step last \<le> nat (sint (eng_recursionLimit e))" using passes_step assms(1) by fastforce
  then show ?thesis
    using l assms(2) superstep_Stop [of env e cp t last _ rs'] superstep_Finished(2) [of env e cp t last rs']
    by (fastforce split: option.splits)
qed

theorem run_bounded_witness:
  "rs_step (snd (run_loop sample_env dag_engine None ''t'' sample_run)) \<le> 25"
proof -
  obtain err rs' where run: "run_loop sample_env dag_engine None ''t'' sample_run = (err, rs')" by (metis surj_pair)
  have "rs_step sample_run = 0" by code_simp
  from run_bounded [OF this _ run] show ?thesis using run by (simp add: dag_engine_def NewEngine_def)
qed

text \<open>C2: In the mode where all predecessors must have completed, whatever the iteration orders and whichever
  tasks fail, a node that has completed during a run is the entry point or has had every predecessor
  complete before.\<close>

theorem dag_order_respected:
  assumes "built (eng_graph e)" and "\<And>i j. range_order (ev_order env i j)"
    and "nodeTriggerMode (eng_graph e) = NodeTriggerAllPredecessor"
    and "start_run env e cp saver input = Inr rs0" and "rs_completed rs0 = []"
    and "passes env e cp t rs0 rs" and "completed (rs_completed rs) n" and "n \<noteq> entryPoint (eng_graph e)"
    and "ed \<in> set (edges (eng_graph e))" and "e_To ed = n" and "e_From ed \<notin> {Start, End}"
  shows "completed (rs_completed rs) (e_From ed)"
  using dag_passes [OF built_graph_wf [OF assms(1)] assms(2,3,6,5)] assms(7-11) by (auto simp: dag_inv_def)

theorem dag_order_respected_witness: "completed (rs_completed sample_run2) ''a''"
proof -
  have "\<not> isl (start_run sample_env dag_engine None () (GMap [(''x'', GBool True)]))" by code_simp
  then have "start_run sample_env dag_engine None () (GMap [(''x'', GBool True)]) = Inr sample_run"
    unfolding sample_run_def by simp
  moreover have "rs_completed sample_run = []" by code_simp
  moreover have "completed (rs_completed sample_run2) ''b''" by code_simp
  moreover have "''b'' \<noteq> entryPoint (eng_graph dag_engine)" by code_simp
  moreover have "\<lparr>e_From = ''a'', e_To = ''b''\<rparr> \<in> set (edges (eng_graph dag_engine))" by code_simp
  ultimately show ?thesis
    using dag_order_respected [OF dag_engine_simps(1) sample_env_simps(1) dag_engine_simps(2) _ _ passes_sample2,
        where n = "''b''" and ed = "\<lparr>e_From = ''a'', e_To = ''b''\<rparr>"] by (simp add: Start_def End_def)
qed

text \<open>C4: In that mode a run of a graph with fewer nodes than the recursion limit never fails with
  \<open>GraphRecursionError\<close>: every superstep that goes on completes a node that had not completed.\<close>

theorem dag_within_limit:
  assumes "built (eng_graph e)" and "\<And>i j. range_order (ev_order env i j)"
    and "nodeTriggerMode (eng_graph e) = NodeTriggerAllPredecessor"
    and "start_run env e cp saver input = Inr rs0" and "rs_completed rs0 = []"
    and "\<forall>n. ev_done env n = None" and "int (length (nodes (eng_graph e))) < sint (eng_recursionLimit e)"
  shows "fst (run_loop env e cp t rs0) \<noteq> Some (GraphRecursionError l)"
proof
  assume "fst (run_loop env e cp t rs0) = Some (GraphRecursionError l)"
  then obtain rs' where run: "run_loop env e cp t rs0 = (Some (GraphRecursionError l), rs')" by (metis prod.collapse)
  obtain last where pass: "passes env e cp t rs0 last" and stop: "superstep env e cp t last = Stop (GraphRecursionError l) rs'"
    using run_loop_last [of env e cp t rs0] run by auto
  have "sint (eng_recursionLimit e) \<le> int (rs_step last)"
    using superstep_Stop(2) [OF stop] assms(6) by simp
  moreover have "rs_step last \<le> rs_step rs0 + card {n. completed (rs_completed last) n}"
    and inv: "dag_inv e (rs_completed last)"
    using dag_passes [OF built_graph_wf [OF assms(1)] assms(2,3) pass assms(5)] by auto
  moreover have "rs_step rs0 = 0" using assms(4) by (rule start_run_step)
  ultimately show False using dag_completed_bound [OF inv] assms(7) by simp
qed

theorem dag_within_limit_witness:
  "fst (run_loop sample_env dag_engine None ''t'' sample_run) \<noteq> Some (GraphRecursionError 25)"
proof -
  have "\<not> isl (start_run sample_env dag_engine None () (GMap [(''x'', GBool True)]))" by code_simp
  then have "start_run sample_env dag_engine None () (GMap [(''x'', GBool True)]) = Inr sample_run"
    unfolding sample_run_def by simp
  moreover have "rs_completed sample_run = []" by code_simp
  moreover have "int (length (nodes (eng_graph dag_engine))) < sint (eng_recursionLimit dag_engine)"
    by (simp add: dag_engine_def NewEngine_def stateGraph_SetNodeTriggerMode_def sample_graph_simps)
  ultimately show ?thesis
    by (intro dag_within_limit [OF dag_engine_simps(1) sample_env_simps(1) dag_engine_simps(2)]) simp_all
qed

end
