(* ===== verification/Resume.thy ===== *)
theory Resume
  imports RunLaws
begin

text \<open>
  Checkpointing and resuming in \<open>Engine.Run\<close>.  The locale \<open>engine_checkpointer\<close> states what the
  engine relies on in a checkpointer: a put under a thread succeeds, and the newest checkpoint of
  the thread is then the one that was put, as storage reproduces it.  The in-memory saver is an
  instance.  The laws say what a run that starts after an interrupt finds.
\<close>

locale engine_checkpointer =
  fixes ck :: "'s Checkpointer" and stored :: "gvalue gomap \<Rightarrow> gvalue gomap"
  assumes put_ok: "config_string cfg ''thread_id'' = Some t \<Longrightarrow> fst (ck_Put ck s cfg cp) = None"
    and get_put: "config_string cfg ''thread_id'' = Some t \<Longrightarrow>
      ck_Get ck (snd (ck_Put ck s cfg cp)) [(''thread_id'', GString t)] = Inr (Some (stored cp))"
    and stored_absent: "mget cp k = None \<Longrightarrow> mget (stored cp) k = None"
    and stored_string: "mget cp k = Some (GString v) \<Longrightarrow> ascii v \<Longrightarrow> mget (stored cp) k = Some (GString v)"
begin

text \<open>A run on the thread whose newest checkpoint is \<open>stored cp\<close>.\<close>

lemma loads_stored:
  assumes "ck_Get ck s [(''thread_id'', GString t)] = Inr (Some (stored cp))" and "configured e ''checkpoint_id'' = None"
    and "load_checkpoint env e ck s t registry = Inr res"
  shows "\<exists>ld. res = Some ld \<and> ld_data ld = stored cp"
  using assms by (auto simp: load_checkpoint_def Let_def FromMap_def split: prod.splits option.splits)

lemma start_run_loads:
  assumes get: "ck_Get ck s [(''thread_id'', GString t)] = Inr (Some (stored cp))"
    and tid: "configured e ''thread_id'' = Some t" and cid: "configured e ''checkpoint_id'' = None"
    and run: "start_run env e (Some ck) s input = Inr rs"
  shows "rs_completed rs = loaded_completed (stored cp)" "rs_lastNode rs = loaded_lastNode (stored cp)"
    "rs_lastState rs = loaded_lastState env (stored cp)"
proof -
  obtain registry1 input1 where "Engine_applyInput (ev_order env 0 0) (init_registry e) input = (None, registry1, input1)"
    using run by (auto simp: start_run_def Let_def split: prod.splits option.splits)
  moreover from this obtain res where "load_checkpoint env e ck s t registry1 = Inr res"
    using run tid by (auto simp: start_run_def Engine_getThreadID_def Let_def split: sum.splits)
  moreover from loads_stored [OF get cid this] obtain ld where "res = Some ld" "ld_data ld = stored cp" by blast
  ultimately show "rs_completed rs = loaded_completed (stored cp)" "rs_lastNode rs = loaded_lastNode (stored cp)"
    "rs_lastState rs = loaded_lastState env (stored cp)"
    using run tid by (auto simp: start_run_def Engine_getThreadID_def Let_def)
qed

lemma put_thread:
  "ck_Put ck s [(''thread_id'', GString t)] cp = (err, s') \<Longrightarrow>
   err = None \<and> ck_Get ck s' [(''thread_id'', GString t)] = Inr (Some (stored cp))"
  using put_ok [of "[(''thread_id'', GString t)]" t s cp] get_put [of "[(''thread_id'', GString t)]" t s cp]
  by (simp add: config_string_def mget_Cons)

text \<open>A checkpoint without the progress of the run: the next run starts at the entry point.\<close>

lemma resume_restarts:
  assumes "ck_Get ck s [(''thread_id'', GString t)] = Inr (Some (stored cp))"
    and "mget cp ''__completed_tasks__'' = None"
    and "configured e ''thread_id'' = Some t" and "configured e ''checkpoint_id'' = None"
    and "start_run env e (Some ck) s input = Inr rs"
  shows "rs_completed rs = []"
  using start_run_loads(1) [OF assms(1,3,4,5)] stored_absent [OF assms(2)] by (simp add: loaded_completed_def)

lemma resume_progress:
  assumes "ck_Get ck s [(''thread_id'', GString t)] = Inr (Some (stored cp))"
    and "mget cp ''__completed_tasks__'' = Some (GString (serializeStringSet tasks))"
    and "mget cp ''__last_completed_node__'' = Some (GString node)"
    and "mwf tasks" and "\<forall>e\<in>set tasks. snd e \<and> NUL \<notin> set (fst e) \<and> ascii (fst e)" and "mkeys tasks \<noteq> [[]]" and "ascii node"
    and "configured e ''thread_id'' = Some t" and "configured e ''checkpoint_id'' = None"
    and "start_run env e (Some ck) s input = Inr rs"
  shows "rs_completed rs = tasks \<and> rs_lastNode rs = node"
proof -
  have "ascii (serializeStringSet tasks)"
    using assms(5) by (auto simp: serializeStringSet_def mkeys_def NUL_def intro!: ascii_Join)
  then have "loaded_completed (stored cp) = tasks"
    using stored_string [OF assms(2)] deserialize_serialize [OF assms(4) _ assms(6)] assms(5)
    by (simp add: loaded_completed_def)
  moreover have "loaded_lastNode (stored cp) = node"
    using stored_string [OF assms(3) assms(7)] by (simp add: loaded_lastNode_def)
  ultimately show ?thesis using start_run_loads [OF assms(1,8,9,10)] by simp
qed

end

section \<open>The in-memory saver under the engine\<close>

text \<open>The state is the saver with a count of the puts, which picks the identifiers \<open>uuid.New\<close> returns and the times.\<close>

definition memory_checkpointer :: "(nat \<Rightarrow> string) \<Rightarrow> (nat \<Rightarrow> gotime) \<Rightarrow> (nat \<times> MemorySaver) Checkpointer" where
  "memory_checkpointer ids now =
     \<lparr>ck_Get = (\<lambda>(n, s) config. MemorySaver_Get s config),
      ck_Put = (\<lambda>(n, s) config cp. let (err, s') = MemorySaver_Put (ids n) (now n) s config cp in (err, (Suc n, s')))\<rparr>"

interpretation memory: engine_checkpointer "memory_checkpointer ids now" "\<lambda>cp. deepCopyMap (deepCopyMap cp)" for ids now
proof unfold_locales
  fix cfg :: "gvalue gomap" and t :: string and s :: "nat \<times> MemorySaver" and cp :: "gvalue gomap"
  assume t: "config_string cfg ''thread_id'' = Some t"
  obtain n ms where s: "s = (n, ms)" by (cases s)
  show "fst (ck_Put (memory_checkpointer ids now) s cfg cp) = None"
    using t s by (simp add: memory_checkpointer_def MemorySaver_Put_def Let_def)
  show "ck_Get (memory_checkpointer ids now) (snd (ck_Put (memory_checkpointer ids now) s cfg cp)) [(''thread_id'', GString t)] =
      Inr (Some (deepCopyMap (deepCopyMap cp)))"
    using t s by (simp add: memory_checkpointer_def MemorySaver_Put_def MemorySaver_Get_def thread_versions_def Let_def
        config_string_def mget_Cons)
next
  fix cp :: "gvalue gomap" and k
  assume "mget cp k = None"
  then show "mget (deepCopyMap (deepCopyMap cp)) k = None" by simp
next
  fix cp :: "gvalue gomap" and k v
  assume "mget cp k = Some (GString v)" and "ascii v"
  then show "mget (deepCopyMap (deepCopyMap cp)) k = Some (GString v)" by (simp add: utf8_fix_ascii)
qed

section \<open>What a superstep leaves in the checkpointer\<close>

lemma interrupt_in_task_payload:
  assumes "interrupt_in_task env (Some ck) t results rs = Stop (GraphInterrupt ints) rs'"
  shows "ck_Put ck (rs_saver rs) [(''thread_id'', GString t)] (interrupt_payload env rs results) = (None, rs_saver rs')"
    "rs_completed rs' = rs_completed rs" "rs_lastNode rs' = rs_lastNode rs"
  using assms by (auto simp: interrupt_in_task_def Let_def split: prod.splits option.splits)

lemma payload_progress:
  "mget (interrupt_payload env rs results) ''__completed_tasks__'' = Some (GString (serializeStringSet (rs_completed rs)))"
  "mget (interrupt_payload env rs results) ''__last_completed_node__'' = Some (GString (rs_lastNode rs))"
  by (simp_all add: interrupt_payload_def Let_def split: list.splits option.splits interrupt.splits)

lemma finish_step_interrupts: "finish_step env e cp t results triggers rs = Stop (GraphInterrupt ints) rs' \<Longrightarrow> ints = []"
  by (auto simp: finish_step_def save_step_def nil_config_panic_def Let_def
      split: prod.splits sum.splits option.splits if_splits Durability.splits)

lemma run_tasks_interrupt:
  assumes "run_tasks env e cp t tasks triggers rs = Stop (GraphInterrupt (i # ints)) rs'"
  obtains results rs1 where "interrupt_in_task env cp t results rs1 = Stop (GraphInterrupt (i # ints)) rs'"
proof -
  obtain results registry where ex: "Engine_executeTasksAsync (ev_taskDone env (rs_step rs)) (ev_waitDone env (rs_step rs)) e
      (rs_step rs) (rs_registry rs) tasks = (results, registry)" by (metis surj_pair)
  obtain c n s where mark: "mark_results (rs_completed rs) (rs_lastNode rs) (rs_lastState rs) results = (c, n, s)"
    by (metis surj_pair)
  show thesis
    using assms ex mark that
    by (auto simp: run_tasks_def Let_def all_failed_error_def split: if_splits dest: finish_step_interrupts)
qed

lemma superstep_interrupt:
  assumes "superstep env e cp t rs = Stop (GraphInterrupt (i # ints)) rs'" and "ev_done env (rs_step rs) = None"
  obtains results rs1 where "interrupt_in_task env cp t results rs1 = Stop (GraphInterrupt (i # ints)) rs'"
proof -
  have lim: "int (rs_step rs) < sint (eng_recursionLimit e)"
    using assms by (auto simp: superstep_def Let_def split: if_splits)
  obtain tasks triggers where prep: "prepared env e rs = Inr (tasks, triggers)"
    using assms lim by (auto simp: superstep_def prepared_def Let_def split: sum.splits)
  have "interrupt_before cp t ts rs2 \<noteq> Stop (GraphInterrupt (i # ints)) rs'" for ts rs2
    by (auto simp: interrupt_before_def Let_def split: prod.splits option.splits)
  then have "run_tasks env e cp t tasks triggers (begin_step env cp tasks rs) = Stop (GraphInterrupt (i # ints)) rs'"
    using assms(1) superstep_prepared [OF assms(2) lim prep] by (auto split: if_splits)
  then show thesis by (rule run_tasks_interrupt) (rule that)
qed

lemma put_get_thread:
  "ck_Put (memory_checkpointer ids now) s [(''thread_id'', GString t)] cp = (None, s') \<Longrightarrow>
   ck_Get (memory_checkpointer ids now) s' [(''thread_id'', GString t)] = Inr (Some (deepCopyMap (deepCopyMap cp)))"
  using memory.put_thread by blast

lemma interrupt_before_payload:
  assumes "interrupt_before (Some ck) t ts rs = Stop (GraphInterrupt ints) rs'"
  shows "ck_Put ck (rs_saver rs) [(''thread_id'', GString t)] (Registry_CreateCheckpoint (rs_registry rs)) = (None, rs_saver rs')"
  using assms by (auto simp: interrupt_before_def Let_def split: prod.splits option.splits)

lemma first_tasks:
  assumes "graph_wf (eng_graph e)" and "rs_completed rs = []" and "prepared env e rs = Inr (tasks, triggers)" and "t \<in> set tasks"
  shows "tk_Name t = entryPoint (eng_graph e)"
proof -
  obtain node where "Engine_getNode e (entryPoint (eng_graph e)) = Some node" "tk_Name t = n_Name node"
    using assms(2-4) by (auto simp: prepared_def Engine_prepareNextTasksWithMode_def createTask_def Let_def
        split: if_splits option.splits)
  then show ?thesis using assms(1) by (simp add: Engine_getNode_def graph_wf_def)
qed

text \<open>The durability mode in force.\<close>

definition durability :: "Engine \<Rightarrow> Durability option" where
  "durability e = map_option rc_Durability (eng_config e)"

lemma finish_step_saves:
  assumes "finish_step env e cp t results triggers rs = Continue rs'"
  obtains rs1 where "save_step env e cp t rs1 = (None, rs'\<lparr>rs_step := rs_step rs1\<rparr>)"
    "rs_saver rs1 = rs_saver rs" "rs_deferred rs1 = rs_deferred rs" "rs_async rs1 = rs_async rs" "rs_step rs' = Suc (rs_step rs1)"
proof -
  obtain updated st registry where w: "Engine_applyWrites (ev_order env (Suc (rs_step rs)) 1) e (rs_writes rs) (rs_registry rs) results triggers
      = (Inr updated, st, registry)"
    using assms by (auto simp: finish_step_def split: prod.splits sum.splits)
  let ?rs1 = "emit_values env (rs\<lparr>rs_writes := st, rs_registry := registry\<rparr>)"
  obtain rs2 where rs2: "save_step env e cp t ?rs1 = (None, rs2)" "rs' = rs2\<lparr>rs_step := Suc (rs_step rs2)\<rparr>"
    using assms w by (auto simp: finish_step_def split: prod.splits option.splits if_splits)
  have "rs_step rs2 = rs_step ?rs1" using save_step_simps(1) [OF rs2(1)] .
  with rs2 show thesis by (intro that [of ?rs1]) simp_all
qed

lemma run_tasks_saves:
  assumes run: "run_tasks env e cp t tasks triggers rs = Continue rs'"
  obtains rs1 where "save_step env e cp t rs1 = (None, rs'\<lparr>rs_step := rs_step rs1\<rparr>)"
    "rs_saver rs1 = rs_saver rs" "rs_deferred rs1 = rs_deferred rs" "rs_async rs1 = rs_async rs" "rs_step rs' = Suc (rs_step rs1)"
proof -
  obtain results registry where ex: "Engine_executeTasksAsync (ev_taskDone env (rs_step rs)) (ev_waitDone env (rs_step rs)) e
      (rs_step rs) (rs_registry rs) tasks = (results, registry)" by (metis surj_pair)
  obtain c n s where mark: "mark_results (rs_completed rs) (rs_lastNode rs) (rs_lastState rs) results = (c, n, s)"
    by (metis surj_pair)
  have "finish_step env e cp t results triggers
      (rs\<lparr>rs_registry := registry, rs_completed := c, rs_lastNode := n, rs_lastState := s\<rparr>) = Continue rs'"
    using run ex mark run_tasks_Continue(1,2) [OF run ex] by (simp add: run_tasks_def Let_def)
  then show thesis by (rule finish_step_saves) (rule that, simp_all)
qed

lemma superstep_saves:
  assumes "superstep env e cp t rs = Continue rs'"
  obtains rs1 where "save_step env e cp t rs1 = (None, rs'\<lparr>rs_step := rs_step rs1\<rparr>)"
    "rs_saver rs1 = rs_saver (land_saves env cp rs)" "rs_async rs1 = rs_async (land_saves env cp rs)"
    "rs_deferred rs1 = rs_deferred rs" "rs_step rs' = Suc (rs_step rs1)"
proof -
  from assms obtain tasks triggers where "run_tasks env e cp t tasks triggers (begin_step env cp tasks rs) = Continue rs'"
    by (rule superstep_Continue_prepared)
  then show thesis
    by (rule run_tasks_saves) (rule that, simp_all add: begin_step_def)
qed

lemma exit_superstep:
  assumes "superstep env e (Some ck) t rs = Continue rs'" and "durability e = Some DurabilityExit"
    and "rs_async rs = []" and "\<forall>n. ev_lands env n [] = ([], [])"
  shows "rs_saver rs' = rs_saver rs" "rs_async rs' = []"
    "rs_deferred rs' = rs_deferred rs @ [\<lparr>dc_ThreadID = t, dc_CheckpointID = ev_stepID env (rs_step rs), dc_Step = rs_step rs,
       dc_Checkpoint = Registry_CreateCheckpoint (rs_registry rs')\<rparr>]"
proof -
  obtain rs1 where s: "save_step env e (Some ck) t rs1 = (None, rs'\<lparr>rs_step := rs_step rs1\<rparr>)"
    "rs_saver rs1 = rs_saver (land_saves env (Some ck) rs)" "rs_async rs1 = rs_async (land_saves env (Some ck) rs)"
    "rs_deferred rs1 = rs_deferred rs" "rs_step rs' = Suc (rs_step rs1)"
    using assms(1) by (rule superstep_saves)
  have "save_step env e (Some ck) t rs1 =
      (None, Engine_deferCheckpoint t (ev_stepID env (rs_step rs1)) (rs_step rs1) (Registry_CreateCheckpoint (rs_registry rs1)) rs1)"
    using assms(2) by (auto simp: save_step_def durability_def Let_def)
  with s(1) have rs': "rs'\<lparr>rs_step := rs_step rs1\<rparr> =
      Engine_deferCheckpoint t (ev_stepID env (rs_step rs1)) (rs_step rs1) (Registry_CreateCheckpoint (rs_registry rs1)) rs1"
    by simp
  have step: "rs_step rs1 = rs_step rs" using superstep_Continue(1) [OF assms(1)] s(5) by simp
  from arg_cong [OF rs', of rs_saver] arg_cong [OF rs', of rs_async] arg_cong [OF rs', of rs_deferred]
    arg_cong [OF rs', of rs_registry] step s(2-4) assms(3,4)
  show "rs_saver rs' = rs_saver rs" "rs_async rs' = []"
    "rs_deferred rs' = rs_deferred rs @ [\<lparr>dc_ThreadID = t, dc_CheckpointID = ev_stepID env (rs_step rs), dc_Step = rs_step rs,
       dc_Checkpoint = Registry_CreateCheckpoint (rs_registry rs')\<rparr>]"
    by (simp_all add: Engine_deferCheckpoint_def land_saves_def)
qed

section \<open>Sample runs with a checkpointer\<close>

definition memory_ck :: "(nat \<times> MemorySaver) Checkpointer" where
  "memory_ck = memory_checkpointer nat_digits (\<lambda>n. 0)"

definition put_x :: "gvalue \<Rightarrow> NodeFunc" where
  "put_x v step attempt state = Done (GMap [(''x'', v)])"

definition asking :: NodeFunc where
  "asking step attempt state = Failed GNil (GraphInterrupt [Interrupt (GString ''q'') ''i''])"

text \<open>A graph from nodes and edges, the start edge included.\<close>

definition graph_of :: "(string \<times> NodeFunc) list \<Rightarrow> (string \<times> string) list \<Rightarrow> stateGraph" where
  "graph_of ns es = fold (\<lambda>(a, b) g. snd (stateGraph_AddEdge g a b)) es
     (fold (\<lambda>(n, f) g. stateGraph_AddNode g n (Some f)) ns (NewStateGraph (SchemaMap True)))"

lemma built_graph_of: "built (graph_of ns es)"
proof -
  have nodes: "built g \<Longrightarrow> built (fold (\<lambda>(n, f) g. stateGraph_AddNode g n (Some f)) ns g)" for g
    by (induction ns arbitrary: g) (auto intro: built_AddNode)
  have "built g \<Longrightarrow> built (fold (\<lambda>(a, b) g. snd (stateGraph_AddEdge g a b)) es g)" for g
    by (induction es arbitrary: g) (auto intro: built_AddEdge)
  with nodes show ?thesis unfolding graph_of_def by (blast intro: built.new)
qed

definition on_thread :: "stateGraph \<Rightarrow> Durability \<Rightarrow> Engine" where
  "on_thread g d = (NewEngine g [])\<lparr>eng_config :=
     Some ((RunnableConfig_Set NewRunnableConfig ''thread_id'' (GString ''t''))\<lparr>rc_Durability := d\<rparr>)\<rparr>"

lemma on_thread_configured [simp]:
  "configured (on_thread g d) ''thread_id'' = Some ''t''" "configured (on_thread g d) ''checkpoint_id'' = None"
  "configured ((on_thread g d)\<lparr>eng_interrupts := is'\<rparr>) ''thread_id'' = Some ''t''"
  "configured ((on_thread g d)\<lparr>eng_interrupts := is'\<rparr>) ''checkpoint_id'' = None"
  "durability (on_thread g d) = Some d"
  by (simp_all add: configured_def durability_def on_thread_def RunnableConfig_Set_def NewRunnableConfig_def mget_Cons)

definition asking_engine :: Engine where
  "asking_engine = on_thread (graph_of [(''a'', put_x (GBool True)), (''b'', asking)]
     [(Start, ''a''), (''a'', ''b''), (''b'', End)]) DurabilitySync"

definition stopped :: "'s step_result \<Rightarrow> (gerror \<times> 's RunState) option" where
  "stopped r = (case r of Stop err rs \<Rightarrow> Some (err, rs) | _ \<Rightarrow> None)"

definition first_state :: "Engine \<Rightarrow> (nat \<times> MemorySaver) RunState" where
  "first_state e = projr (start_run sample_env e (Some memory_ck) (0, NewMemorySaver) (GMap []))"

definition second_state :: "Engine \<Rightarrow> (nat \<times> MemorySaver) RunState" where
  "second_state e = the (after_step sample_env e (Some memory_ck) ''t'' (first_state e))"

lemma stopped_Some: "stopped r = Some (err, rs) \<Longrightarrow> r = Stop err rs"
  by (cases r) (simp_all add: stopped_def)

lemma stopped_with: "map_option fst (stopped r) = Some err \<Longrightarrow> r = Stop err (snd (the (stopped r)))"
  by (cases r) (simp_all add: stopped_def)

lemma Inr_projr: "\<not> isl x \<Longrightarrow> x = Inr (projr x)"
  by simp

section \<open>Properties\<close>




definition guarded_engine :: Engine where
  "guarded_engine = (on_thread (graph_of [(''a'', put_x (GBool True)), (''b'', put_x (GBool False))]
     [(Start, ''a''), (''a'', ''b''), (''b'', End)]) DurabilitySync)\<lparr>eng_interrupts := [(''b'', True)]\<rparr>"


text \<open>C9: With synchronous durability, what a superstep leaves in the channels is, before the next
  superstep begins, the newest checkpoint of the thread.\<close>

theorem sync_step_persisted:
  assumes step: "superstep env e (Some (memory_checkpointer ids now)) t rs = Continue rs'"
    and "durability e \<in> {Some DurabilitySync, Some DurabilityNone}"
  shows "ck_Get (memory_checkpointer ids now) (rs_saver rs') [(''thread_id'', GString t)] =
    Inr (Some (deepCopyMap (deepCopyMap (Registry_CreateCheckpoint (rs_registry rs')))))"
proof -
  obtain rs1 where s: "save_step env e (Some (memory_checkpointer ids now)) t rs1 = (None, rs'\<lparr>rs_step := rs_step rs1\<rparr>)"
    using step by (rule superstep_saves)
  let ?cfg = "mputs [] [(''thread_id'', GString t), (''checkpoint_id'', GString (ev_stepID env (rs_step rs1))),
      (''step'', GInt (of_nat (rs_step rs1)))]"
  let ?cp = "Registry_CreateCheckpoint (rs_registry rs1)"
  have "ck_Put (memory_checkpointer ids now) (rs_saver rs1) ?cfg ?cp = (None, rs_saver rs')"
    using s assms(2)
    by (auto simp: save_step_def durability_def Engine_saveCheckpoint_def Let_def split: Durability.splits prod.splits option.splits
        dest!: arg_cong [where f = rs_saver])
  moreover have "rs_registry rs' = rs_registry rs1" using save_step_simps(5) [OF s] by simp
  moreover have "config_string ?cfg ''thread_id'' = Some t" by (simp add: config_string_def mget_Cons)
  ultimately show ?thesis using memory.get_put [of ?cfg t ids now "rs_saver rs1" ?cp] by simp
qed

theorem sync_step_persisted_witness:
  "ck_Get memory_ck (rs_saver (second_state asking_engine)) [(''thread_id'', GString ''t'')] = Inr (Some [(''x'', GBool True)])"
proof -
  have "\<not> Option.is_none (after_step sample_env asking_engine (Some memory_ck) ''t'' (first_state asking_engine))" by code_simp
  then have "superstep sample_env asking_engine (Some memory_ck) ''t'' (first_state asking_engine) = Continue (second_state asking_engine)"
    by (auto simp: second_state_def after_step_def split: step_result.splits)
  moreover have "deepCopyMap (deepCopyMap (Registry_CreateCheckpoint (rs_registry (second_state asking_engine)))) = [(''x'', GBool True)]"
    by code_simp
  ultimately show ?thesis
    using sync_step_persisted [of sample_env asking_engine nat_digits "\<lambda>n. 0" "''t''"]
    by (simp add: memory_ck_def asking_engine_def)
qed

text \<open>With durability at exit, the checkpointer is not touched while the run goes on: after \<open>k\<close> supersteps
  \<open>k\<close> checkpoints wait in memory, one per superstep in order, and none has been stored.\<close>

theorem exit_mode_defers:
  assumes "passes env e (Some ck) t rs0 rs" and "durability e = Some DurabilityExit"
    and "rs_async rs0 = []" and "\<forall>n. ev_lands env n [] = ([], [])"
  shows "rs_saver rs = rs_saver rs0 \<and>
    map dc_Step (rs_deferred rs) = map dc_Step (rs_deferred rs0) @ [rs_step rs0..<rs_step rs]"
proof -
  from assms(1) have "rs_saver rs = rs_saver rs0 \<and> rs_async rs = [] \<and>
      map dc_Step (rs_deferred rs) = map dc_Step (rs_deferred rs0) @ [rs_step rs0..<rs_step rs]"
  proof (induction rule: passes.induct)
    case start
    then show ?case using assms(3) by simp
  next
    case (step rs rs')
    have "rs_step rs' = Suc (rs_step rs)" "rs_step rs0 \<le> rs_step rs"
      using superstep_Continue(1) [OF step(2)] passes_step [OF step(1)] by auto
    with step.IH exit_superstep [OF step(2) assms(2) _ assms(4)] show ?case by simp
  qed
  then show ?thesis by simp
qed

definition exit_engine :: Engine where
  "exit_engine = (on_thread (graph_of [(''a'', put_x (GBool True)), (''b'', put_x (GBool False))]
     [(Start, ''a''), (''a'', ''b''), (''b'', End)]) DurabilityExit)\<lparr>eng_interruptsAfter := [(''b'', True)]\<rparr>"

theorem exit_mode_defers_witness:
  "rs_saver (second_state exit_engine) = (0, NewMemorySaver) \<and> map dc_Step (rs_deferred (second_state exit_engine)) = [0]"
proof -
  have "\<not> Option.is_none (after_step sample_env exit_engine (Some memory_ck) ''t'' (first_state exit_engine))" by code_simp
  from after_step_passes [OF passes.start this]
  have "passes sample_env exit_engine (Some memory_ck) ''t'' (first_state exit_engine) (second_state exit_engine)"
    unfolding second_state_def .
  moreover have "rs_async (first_state exit_engine) = []" by code_simp
  moreover have "durability exit_engine = Some DurabilityExit" by code_simp
  moreover have "rs_saver (first_state exit_engine) = (0, NewMemorySaver)" "rs_deferred (first_state exit_engine) = []"
    "rs_step (first_state exit_engine) = 0" "rs_step (second_state exit_engine) = 1"
    by code_simp+
  ultimately show ?thesis
    using exit_mode_defers [of sample_env exit_engine memory_ck "''t''"] by simp
qed

text \<open>With durability at exit, an interrupt after a node loses every checkpoint of the run: the run stops with
  \<open>GraphInterrupt\<close> and the checkpointer is still empty, so nothing can be resumed.\<close>

theorem exit_mode_interrupt_saves_nothing:
  "fst (Engine_RunSync sample_env exit_engine (Some memory_ck) (0, NewMemorySaver) (GMap [])) = Inl (GraphInterrupt []) \<and>
   rr_saver (snd (Engine_RunSync sample_env exit_engine (Some memory_ck) (0, NewMemorySaver) (GMap []))) = (0, NewMemorySaver)"
  by code_simp

text \<open>A run with a nil input fails before it looks for a checkpoint, whatever the graph and the
  checkpointer hold: a run cannot be resumed without an input.\<close>

theorem nil_input_fails:
  "fst (Engine_RunSync env e cp saver GNil) = Inl (ErrorWrap ''failed to apply input'' (ErrorNew ''nil value''))"
  by (simp add: Engine_RunSync_def Engine_Run_def start_run_def Engine_applyInput_def)

text \<open>A run without a checkpoint applies its input twice: a counter channel that receives 1 as input reads 2,
  although no node writes to it.\<close>

theorem input_applied_twice:
  "fst (Engine_RunSync sample_env
     (on_thread (stateGraph_AddChannel (graph_of [(''a'', \<lambda>s n st. Done GNil)] [(Start, ''a''), (''a'', End)]) ''x''
        (Some (CBinop (NewBinaryOperatorAggregate (Some RInt) IntAdd)))) DurabilitySync)
     None () (GMap [(''x'', GInt 1)])) = Inr (GMap [(''x'', GInt 2)])"
  by code_simp

text \<open>In the mode where any predecessor triggers a node, only the successors of one of the nodes of a
  superstep are scheduled, and the iteration order of a map decides which: with \<open>b\<close> and \<open>c\<close> both after
  \<open>a\<close>, and \<open>d\<close> after \<open>b\<close>, one order runs \<open>d\<close> and the other ends the run without it.\<close>

theorem parallel_successors_lost:
  "fst (Engine_RunSync sample_env
     (on_thread (graph_of [(''a'', put_x (GInt 1)), (''b'', put_x (GInt 2)), (''c'', put_x (GInt 3)), (''d'', put_x (GInt 4))]
        [(Start, ''a''), (''a'', ''b''), (''a'', ''c''), (''b'', ''d''), (''c'', End), (''d'', End)]) DurabilitySync)
     None () (GMap [])) = Inr (GMap [(''x'', GInt 3)]) \<and>
   fst (Engine_RunSync (sample_env\<lparr>ev_order := \<lambda>i j. rev\<rparr>)
     (on_thread (graph_of [(''a'', put_x (GInt 1)), (''b'', put_x (GInt 2)), (''c'', put_x (GInt 3)), (''d'', put_x (GInt 4))]
        [(Start, ''a''), (''a'', ''b''), (''a'', ''c''), (''b'', ''d''), (''c'', End), (''d'', End)]) DurabilitySync)
     None () (GMap [])) = Inr (GMap [(''x'', GInt 4)])"
  by code_simp

end
