(* ===== verification/Compiled.thy ===== *)
theory Compiled
  imports Resume
begin

text \<open>
  Invoking a compiled graph: \<open>Invoke\<close> and \<open>run\<close> of \<open>graph/graph.go\<close>, \<open>runCompiledGraph\<close> of
  \<open>pregel/init_pregel.go\<close>, and the engine options it uses.  The properties join the validation of
  the builder with the engine.
\<close>

definition Engine_WithInterrupts :: "string list \<Rightarrow> Engine \<Rightarrow> Engine" where
  "Engine_WithInterrupts ns e = e\<lparr>eng_interrupts := mputs (eng_interrupts e) (map (\<lambda>n. (n, True)) ns)\<rparr>"

definition Engine_WithInterruptsAfter :: "string list \<Rightarrow> Engine \<Rightarrow> Engine" where
  "Engine_WithInterruptsAfter ns e = e\<lparr>eng_interruptsAfter := mputs (eng_interruptsAfter e) (map (\<lambda>n. (n, True)) ns)\<rparr>"

definition Engine_WithRecursionLimit :: "goint \<Rightarrow> Engine \<Rightarrow> Engine" where
  "Engine_WithRecursionLimit limit e = e\<lparr>eng_recursionLimit := limit\<rparr>"

definition Engine_WithConfig :: "RunnableConfig option \<Rightarrow> Engine \<Rightarrow> Engine" where
  "Engine_WithConfig cfg e = e\<lparr>eng_config := cfg\<rparr>"

definition Engine_WithRetryPolicy :: "RetryPolicy option \<Rightarrow> Engine \<Rightarrow> Engine" where
  "Engine_WithRetryPolicy policy e = e\<lparr>eng_retryPolicy := policy\<rparr>"

text \<open>The engine that \<open>runCompiledGraph\<close> builds.\<close>

definition compiled_engine ::
    "(string list \<Rightarrow> string list) \<Rightarrow> compiledGraph \<Rightarrow> stateGraph \<Rightarrow> RunnableConfig option \<Rightarrow> Engine" where
  "compiled_engine ro cg g config = NewEngine g
     [Engine_WithInterrupts (ro (mkeys (cg_interrupts cg))), Engine_WithInterruptsAfter (ro (mkeys (cg_interruptsAfter cg))),
      Engine_WithRecursionLimit (cg_recursionLimit cg), Engine_WithConfig config]"

definition runCompiledGraph ::
    "Env \<Rightarrow> compiledGraph \<Rightarrow> stateGraph \<Rightarrow> 's Checkpointer option \<Rightarrow> 's \<Rightarrow> gvalue \<Rightarrow> RunnableConfig option \<Rightarrow>
     (gerror + gvalue) \<times> 's RunResult" where
  "runCompiledGraph env cg g cp saver input config =
     Engine_RunSync env (compiled_engine (ev_order env 0 3) cg g config) cp saver input"

text \<open>The configuration with zero fields that \<open>Invoke\<close> uses when it is given none.\<close>

definition zero_config :: RunnableConfig where
  "zero_config = \<lparr>rc_Configurable = None, rc_RecursionLimit = 0, rc_Tags = [], rc_Metadata = None, rc_RunID = [],
     rc_ThreadID = [], rc_Durability = DurabilityNone\<rparr>"

definition compiledGraph_Invoke ::
    "Env \<Rightarrow> compiledGraph \<Rightarrow> stateGraph \<Rightarrow> 's Checkpointer option \<Rightarrow> 's \<Rightarrow> gvalue \<Rightarrow> RunnableConfig option list \<Rightarrow>
     (gerror + gvalue) \<times> 's RunResult" where
  "compiledGraph_Invoke env cg g cp saver input configs =
     (let rc = (case configs of Some c # cs \<Rightarrow> c | _ \<Rightarrow> zero_config)
      in runCompiledGraph env cg g cp saver input (Some rc))"

section \<open>Lemmas\<close>

lemma compiled_engine_simps [simp]:
  "eng_graph (compiled_engine ro cg g config) = g" "eng_config (compiled_engine ro cg g config) = config"
  "eng_recursionLimit (compiled_engine ro cg g config) = cg_recursionLimit cg"
  by (simp_all add: compiled_engine_def NewEngine_def Engine_WithInterrupts_def Engine_WithInterruptsAfter_def
      Engine_WithRecursionLimit_def Engine_WithConfig_def)

lemma Compile_graph:
  assumes "stateGraph_Compile ro g opts = Inr (cg, g')"
  shows "entryPoint g' = entryPoint g" "nodes g' = nodes g" "entryPoint g \<noteq> []"
proof -
  obtain infos where v: "stateGraph_Validate ro g = None" and i: "validateStateSchema (stateSchema g) = Inr infos"
    using assms
    by (cases "validateStateSchema (stateSchema g)")
      (auto simp: stateGraph_Compile_def stateGraph_configureChannelsFromSchema_def split: option.splits)
  then have "g' = (configure_loop g infos)\<lparr>nodeTriggerMode := cg_nodeTriggerMode cg\<rparr>"
    using assms by (auto simp: stateGraph_Compile_def stateGraph_configureChannelsFromSchema_def Let_def)
  then show "entryPoint g' = entryPoint g" "nodes g' = nodes g" by (simp_all add: configure_loop_keeps)
  show "entryPoint g \<noteq> []" using v by (auto simp: stateGraph_Validate_def)
qed

text \<open>A compiled graph always has something to schedule from: preparing tasks does not fail.\<close>

lemma compiled_prepares:
  assumes "built g" and "stateGraph_Compile ro g opts = Inr (cg, g')" and "eng_graph e = g'"
  shows "\<exists>r. prepared env e rs = Inr r"
proof -
  have "entryPoint g = End \<or> mhas (nodes g) (entryPoint g)"
    using built_graph_wf [OF assms(1)] Compile_graph(3) [OF assms(2)] by (auto simp: graph_wf_def)
  then show ?thesis
    using Compile_graph [OF assms(2)] assms(3)
    by (auto simp: prepared_def Engine_prepareNextTasksWithMode_def Engine_getNode_def mhas_mget Let_def)
qed

text \<open>The other errors of a superstep do not carry the text of a failed preparation.\<close>

definition prepare_error :: "gerror \<Rightarrow> bool" where
  "prepare_error err \<longleftrightarrow> (\<exists>x. err = ErrorWrap ''failed to prepare next tasks'' x)"

lemma finish_step_no_prepare: "finish_step env e cp t results triggers rs = Stop err rs' \<Longrightarrow> \<not> prepare_error err"
  by (auto simp: finish_step_def save_step_def nil_config_panic_def prepare_error_def Let_def
      split: prod.splits sum.splits option.splits if_splits Durability.splits)

lemma run_tasks_no_prepare:
  assumes "run_tasks env e cp t tasks triggers rs = Stop err rs'"
  shows "\<not> prepare_error err"
proof -
  obtain results registry where ex: "Engine_executeTasksAsync (ev_taskDone env (rs_step rs)) (ev_waitDone env (rs_step rs)) e
      (rs_step rs) (rs_registry rs) tasks = (results, registry)" by (metis surj_pair)
  obtain c n s where mark: "mark_results (rs_completed rs) (rs_lastNode rs) (rs_lastState rs) results = (c, n, s)"
    by (metis surj_pair)
  show ?thesis
    using assms ex mark
    by (auto simp: run_tasks_def interrupt_in_task_def all_failed_error_def Let_def prepare_error_def
        split: if_splits prod.splits option.splits dest!: finish_step_no_prepare [unfolded prepare_error_def])
qed

lemma superstep_no_prepare:
  assumes "superstep env e cp t rs = Stop err rs'" and "ev_done env (rs_step rs) = None" and "\<exists>r. prepared env e rs = Inr r"
  shows "\<not> prepare_error err"
proof (cases "sint (eng_recursionLimit e) \<le> int (rs_step rs)")
  case True
  then show ?thesis using assms by (auto simp: superstep_def Let_def prepare_error_def)
next
  case False
  obtain tasks triggers where prep: "prepared env e rs = Inr (tasks, triggers)" using assms(3) by auto
  show ?thesis
    using assms(1) superstep_prepared [OF assms(2) _ prep] False
    by (auto simp: interrupt_before_def prepare_error_def Let_def split: if_splits prod.splits option.splits
        dest!: run_tasks_no_prepare [unfolded prepare_error_def])
qed

lemma load_checkpoint_no_prepare: "load_checkpoint env e ck saver t registry = Inl err \<Longrightarrow> \<not> prepare_error err"
  by (auto simp: load_checkpoint_def prepare_error_def Let_def FromMap_def split: prod.splits option.splits sum.splits if_splits)

lemma start_run_no_prepare:
  assumes "start_run env e cp saver input = Inl err"
  shows "\<not> prepare_error err"
proof (cases "\<exists>registry. (case cp of None \<Rightarrow> Inr None | Some ck \<Rightarrow>
    load_checkpoint env e ck saver (Engine_getThreadID (ev_threadID env) e) registry) = Inl err")
  case True
  then show ?thesis by (auto split: option.splits dest: load_checkpoint_no_prepare)
next
  case False
  then show ?thesis
    using assms by (auto simp: start_run_def prepare_error_def Let_def split: prod.splits option.splits sum.splits)
qed

lemma finish_run_no_prepare: "finish_run env e cp rs = (Some err, rs') \<Longrightarrow> \<not> prepare_error err"
  by (auto simp: finish_run_def nil_config_panic_def prepare_error_def Let_def split: prod.splits option.splits if_splits)

section \<open>What a run reads of its configuration\<close>

text \<open>Two engines that differ in parts of the configuration other than the durability and the values set under names.\<close>

definition with_limit :: "goint \<Rightarrow> Engine \<Rightarrow> Engine" where
  "with_limit l e = e\<lparr>eng_config := map_option (\<lambda>c. c\<lparr>rc_RecursionLimit := l\<rparr>) (eng_config e)\<rparr>"

lemma with_limit_simps [simp]:
  "eng_graph (with_limit l e) = eng_graph e" "eng_interrupts (with_limit l e) = eng_interrupts e"
  "eng_interruptsAfter (with_limit l e) = eng_interruptsAfter e" "eng_recursionLimit (with_limit l e) = eng_recursionLimit e"
  "eng_retryPolicy (with_limit l e) = eng_retryPolicy e"
  "eng_config (with_limit l e) = map_option (\<lambda>c. c\<lparr>rc_RecursionLimit := l\<rparr>) (eng_config e)"
  by (simp_all add: with_limit_def)

lemma with_limit_data [simp]:
  "configured (with_limit l e) key = configured e key" "Engine_getNode (with_limit l e) n = Engine_getNode e n"
  "Engine_buildIncomingEdges (with_limit l e) = Engine_buildIncomingEdges e"
  "Engine_resolveRetryPolicy (with_limit l e) t = Engine_resolveRetryPolicy e t"
  "Engine_shouldInterrupt (with_limit l e) ts = Engine_shouldInterrupt e ts"
  "Engine_shouldInterruptAfter (with_limit l e) results = Engine_shouldInterruptAfter e results"
  "init_registry (with_limit l e) = init_registry e"
  by (auto simp: configured_def Engine_getNode_def Engine_buildIncomingEdges_def Engine_resolveRetryPolicy_def
      Engine_shouldInterrupt_def Engine_shouldInterruptAfter_def init_registry_def split: option.splits)

lemma with_limit_getNode [simp]: "Engine_getNode (with_limit l e) = Engine_getNode e"
  by (rule ext) simp

lemma with_limit_schedule [simp]:
  "Engine_getNextNodes other (with_limit l e) node state = Engine_getNextNodes other e node state"
  "Engine_prepareNextTasksDAG ro uid (with_limit l e) tasks x = Engine_prepareNextTasksDAG ro uid e tasks x"
  unfolding Engine_getNextNodes_def Engine_prepareNextTasksDAG_def route_from_next_def with_limit_simps with_limit_data with_limit_getNode
  by (rule refl)+

lemma with_limit_prepare [simp]:
  "Engine_prepareNextTasksWithMode ro uid other (with_limit l e) registry tasks node state x =
   Engine_prepareNextTasksWithMode ro uid other e registry tasks node state x"
  unfolding Engine_prepareNextTasksWithMode_def with_limit_simps with_limit_schedule with_limit_getNode by (rule refl)

lemma with_limit_execute [simp]:
  "Engine_executeTasksAsync td wd (with_limit l e) step registry ts = Engine_executeTasksAsync td wd e step registry ts"
proof -
  have "execute_task td wd (with_limit l e) step registry t = execute_task td wd e step registry t" for registry t
    unfolding execute_task_def with_limit_data by (rule refl)
  then show ?thesis by (induction ts arbitrary: registry) simp_all
qed

lemma with_limit_writes [simp]:
  "Engine_applyWrites ro (with_limit l e) st registry results triggers = Engine_applyWrites ro e st registry results triggers"
proof -
  have "collect_writes (with_limit l e) acc rs = collect_writes e acc rs" for acc rs
    by (induction rs arbitrary: acc) (auto split: sum.splits)
  then show ?thesis by (simp add: Engine_applyWrites_def)
qed

lemma with_limit_save [simp]: "save_step env (with_limit l e) cp t rs = save_step env e cp t rs"
  by (auto simp: save_step_def Let_def split: option.splits)

lemma with_limit_superstep [simp]: "superstep env (with_limit l e) cp t rs = superstep env e cp t rs"
  unfolding superstep_def run_tasks_def finish_step_def with_limit_simps with_limit_data with_limit_prepare with_limit_execute
    with_limit_writes with_limit_save by (rule refl)

lemma with_limit_loop [simp]: "run_loop env (with_limit l e) cp t rs = run_loop env e cp t rs"
proof (induction env e cp t rs rule: run_loop.induct)
  case (1 env e cp t rs)
  then show ?case
    by (subst (1 2) run_loop.simps) (auto split: step_result.splits)
qed

lemma with_limit_start [simp]: "start_run env (with_limit l e) cp saver input = start_run env e cp saver input"
  unfolding start_run_def load_checkpoint_def Engine_getThreadID_def with_limit_data by (rule refl)

lemma with_limit_finish [simp]: "finish_run env (with_limit l e) cp rs = finish_run env e cp rs"
  by (auto simp: finish_run_def Let_def split: option.splits prod.splits)

lemma with_limit_run: "Engine_RunSync env (with_limit l e) cp saver input = Engine_RunSync env e cp saver input"
  unfolding Engine_RunSync_def Engine_Run_def Engine_getThreadID_def with_limit_data with_limit_start with_limit_loop with_limit_finish
  by (rule refl)

section \<open>Properties\<close>

text \<open>A run of a graph that compiled never fails to prepare its tasks: the entry point is set and names a
  node, in every superstep and whatever was restored from a checkpoint.\<close>

theorem compiled_run_prepares:
  assumes "built g" and "stateGraph_Compile ro g opts = Inr (cg, g')" and "\<forall>n. ev_done env n = None"
  shows "fst (compiledGraph_Invoke env cg g' cp saver input configs) \<noteq> Inl (ErrorWrap ''failed to prepare next tasks'' err)"
proof -
  define e where "e = compiled_engine (ev_order env 0 3) cg g' (Some (case configs of Some c # cs \<Rightarrow> c | _ \<Rightarrow> zero_config))"
  have prep: "\<exists>r. prepared env e rs = Inr r" for rs :: "'a RunState"
    by (rule compiled_prepares [OF assms(1,2)]) (simp add: e_def)
  have loop: "\<not> prepare_error err" if run: "run_loop env e cp t rs = (Some err, rs')" for t rs err rs'
  proof -
    obtain last where "superstep env e cp t last = Stop err rs'"
      using run_loop_last [of env e cp t rs] run by auto
    then show ?thesis using superstep_no_prepare assms(3) prep by blast
  qed
  have "\<not> prepare_error err" if "rr_err (Engine_Run env e cp saver input mode) = Some err" for err mode
    using that
    by (auto simp: Engine_Run_def Let_def split: sum.splits prod.splits option.splits
        dest: start_run_no_prepare loop finish_run_no_prepare)
  then show ?thesis
    unfolding compiledGraph_Invoke_def runCompiledGraph_def Engine_RunSync_def Let_def e_def [symmetric]
    by (auto simp: prepare_error_def split: option.splits)
qed

theorem compiled_run_prepares_witness:
  "fst (compiledGraph_Invoke sample_env (fst (projr (stateGraph_Compile (\<lambda>ks. ks) sample_graph [])))
     (snd (projr (stateGraph_Compile (\<lambda>ks. ks) sample_graph []))) None () (GMap []) []) \<noteq>
   Inl (ErrorWrap ''failed to prepare next tasks'' (ErrorNew ''no entry point set''))"
proof -
  have "\<not> isl (stateGraph_Compile (\<lambda>ks. ks) sample_graph [])" by code_simp
  then have "stateGraph_Compile (\<lambda>ks. ks) sample_graph [] =
      Inr (fst (projr (stateGraph_Compile (\<lambda>ks. ks) sample_graph [])), snd (projr (stateGraph_Compile (\<lambda>ks. ks) sample_graph [])))"
    by (simp add: Inr_projr)
  from compiled_run_prepares [OF built_sample this, of sample_env] show ?thesis by simp
qed

text \<open>The recursion limit of the configuration given to \<open>Invoke\<close> has no effect on a run, although the text of
  \<open>GraphRecursionError\<close> asks to raise it: only the limit given to \<open>Compile\<close> counts.\<close>

theorem config_limit_ignored:
  "compiledGraph_Invoke env cg g cp saver input [Some (c\<lparr>rc_RecursionLimit := l\<rparr>)] =
   compiledGraph_Invoke env cg g cp saver input [Some c]"
proof -
  have "compiled_engine ro cg g (Some (c\<lparr>rc_RecursionLimit := l\<rparr>)) = with_limit l (compiled_engine ro cg g (Some c))" for ro
    by (simp add: compiled_engine_def with_limit_def NewEngine_def Engine_WithInterrupts_def Engine_WithInterruptsAfter_def
        Engine_WithRecursionLimit_def Engine_WithConfig_def)
  then show ?thesis by (simp add: compiledGraph_Invoke_def runCompiledGraph_def with_limit_run)
qed

end
