(* ===== verification/Store.thy ===== *)
theory Store
  imports Registry
begin

text \<open>
  \<open>store/memory.go\<close>: the in-memory key-value store with namespaces and times to live.  Every method
  runs under the store's lock and is one step of the model; \<open>now\<close> is the time \<open>time.Now\<close> returns
  in it.  \<open>strings.ToLower\<close> and the match of a regular expression (\<open>None\<close> for a pattern that does not
  compile) are arguments.  The vector index of \<open>PutItem\<close> and \<open>SearchItems\<close> is not modelled: they are the
  methods as called without an index and without an embedding.
\<close>

type_synonym store_value = "gvalue gomap"

record InMemoryStore =
  st_data :: "store_value gomap gomap"
  st_ttl :: "int gomap"
  st_closed :: bool

definition NewInMemoryStore :: InMemoryStore where
  "NewInMemoryStore = \<lparr>st_data = [], st_ttl = [], st_closed = False\<rparr>"

definition closed_error :: gerror where
  "closed_error = ErrorNew ''store is closed''"

section \<open>Keys and times\<close>

definition InMemoryStore_nsKey :: "string list \<Rightarrow> string" where
  "InMemoryStore_nsKey namespace = strings_Join (CHR ''|'') namespace"

definition InMemoryStore_fullKey :: "string \<Rightarrow> string \<Rightarrow> string" where
  "InMemoryStore_fullKey nsKey key = nsKey @ '':'' @ key"

definition InMemoryStore_checkTTL :: "InMemoryStore \<Rightarrow> int \<Rightarrow> string \<Rightarrow> bool" where
  "InMemoryStore_checkTTL s now fullKey = (case mget (st_ttl s) fullKey of Some expiry \<Rightarrow> now < expiry | None \<Rightarrow> True)"

definition InMemoryStore_copyValue :: "store_value \<Rightarrow> store_value" where
  "InMemoryStore_copyValue value = mputs [] value"

section \<open>Single keys\<close>

definition read_key :: "InMemoryStore \<Rightarrow> int \<Rightarrow> string \<Rightarrow> string \<Rightarrow> store_value option" where
  "read_key s now nsKey key =
     (case mget (st_data s) nsKey of None \<Rightarrow> None
      | Some nsData \<Rightarrow>
          if \<not> InMemoryStore_checkTTL s now (InMemoryStore_fullKey nsKey key) then None
          else map_option InMemoryStore_copyValue (mget nsData key))"

definition write_key :: "InMemoryStore \<Rightarrow> string \<Rightarrow> string \<Rightarrow> store_value \<Rightarrow> InMemoryStore" where
  "write_key s nsKey key value =
     s\<lparr>st_data := mput (st_data s) nsKey
        (mput (case_option [] id (mget (st_data s) nsKey)) key (InMemoryStore_copyValue value))\<rparr>"

definition InMemoryStore_Get :: "InMemoryStore \<Rightarrow> int \<Rightarrow> string list \<Rightarrow> string \<Rightarrow> gerror + store_value option" where
  "InMemoryStore_Get s now namespace key =
     (if st_closed s then Inl closed_error else Inr (read_key s now (InMemoryStore_nsKey namespace) key))"

definition InMemoryStore_Put :: "InMemoryStore \<Rightarrow> string list \<Rightarrow> string \<Rightarrow> store_value \<Rightarrow> gerror option \<times> InMemoryStore" where
  "InMemoryStore_Put s namespace key value =
     (if st_closed s then (Some closed_error, s) else (None, write_key s (InMemoryStore_nsKey namespace) key value))"

definition InMemoryStore_Delete :: "InMemoryStore \<Rightarrow> string list \<Rightarrow> string \<Rightarrow> gerror option \<times> InMemoryStore" where
  "InMemoryStore_Delete s namespace key =
     (if st_closed s then (Some closed_error, s)
      else
        let nsKey = InMemoryStore_nsKey namespace in
        case mget (st_data s) nsKey of
          None \<Rightarrow> (None, s)
        | Some nsData \<Rightarrow>
            (None, s\<lparr>st_data := mput (st_data s) nsKey (mdel nsData key),
               st_ttl := mdel (st_ttl s) (InMemoryStore_fullKey nsKey key)\<rparr>))"

definition InMemoryStore_SetTTL :: "InMemoryStore \<Rightarrow> int \<Rightarrow> string list \<Rightarrow> string \<Rightarrow> goint \<Rightarrow> gerror option \<times> InMemoryStore" where
  "InMemoryStore_SetTTL s now namespace key ttl =
     (if st_closed s then (Some closed_error, s)
      else if sint ttl \<le> 0 then (None, s)
      else (None, s\<lparr>st_ttl := mput (st_ttl s) (InMemoryStore_fullKey (InMemoryStore_nsKey namespace) key) (now + sint ttl)\<rparr>))"

definition put_ttl :: "InMemoryStore \<Rightarrow> int \<Rightarrow> string \<Rightarrow> string \<Rightarrow> goint option \<Rightarrow> InMemoryStore" where
  "put_ttl s now nsKey key ttl =
     (case ttl of None \<Rightarrow> s
      | Some d \<Rightarrow> s\<lparr>st_ttl := mput (st_ttl s) (InMemoryStore_fullKey nsKey key) (now + sint d)\<rparr>)"

definition InMemoryStore_PutItem ::
    "InMemoryStore \<Rightarrow> int \<Rightarrow> string list \<Rightarrow> string \<Rightarrow> store_value \<Rightarrow> goint option \<Rightarrow> gerror option \<times> InMemoryStore" where
  "InMemoryStore_PutItem s now namespace key value ttl =
     (if st_closed s then (Some closed_error, s)
      else let nsKey = InMemoryStore_nsKey namespace in (None, put_ttl (write_key s nsKey key value) now nsKey key ttl))"

record Item =
  it_Value :: store_value
  it_Key :: string
  it_Namespace :: "string list"
  it_CreatedAt :: int
  it_UpdatedAt :: int
  it_ExpiresAt :: "int option"

definition make_item :: "InMemoryStore \<Rightarrow> int \<Rightarrow> string list \<Rightarrow> string \<Rightarrow> store_value \<Rightarrow> Item" where
  "make_item s now namespace key value =
     \<lparr>it_Value = InMemoryStore_copyValue value, it_Key = key, it_Namespace = namespace, it_CreatedAt = now, it_UpdatedAt = now,
      it_ExpiresAt = mget (st_ttl s) (InMemoryStore_fullKey (InMemoryStore_nsKey namespace) key)\<rparr>"

definition InMemoryStore_GetItem :: "InMemoryStore \<Rightarrow> int \<Rightarrow> string list \<Rightarrow> string \<Rightarrow> gerror + Item option" where
  "InMemoryStore_GetItem s now namespace key =
     (if st_closed s then Inl closed_error
      else
        let nsKey = InMemoryStore_nsKey namespace in
        case mget (st_data s) nsKey of None \<Rightarrow> Inr None
        | Some nsData \<Rightarrow>
            if \<not> InMemoryStore_checkTTL s now (InMemoryStore_fullKey nsKey key) then Inr None
            else Inr (map_option (make_item s now namespace key) (mget nsData key)))"

section \<open>Filters\<close>

definition runtime_panic :: gerror where
  "runtime_panic = ErrorNew ''panic: runtime error: comparing uncomparable type''"

definition uncomparable :: "gvalue \<Rightarrow> bool" where
  "uncomparable v =
     (case v of GSlice vs \<Rightarrow> True | GMap m \<Rightarrow> True | GMapBool m \<Rightarrow> True | GMapInt m \<Rightarrow> True | GMapMapInt m \<Rightarrow> True
      | GSliceMap ms \<Rightarrow> True | GBytes b \<Rightarrow> True | GEmptySlice t \<Rightarrow> True | GEmptyMap k w \<Rightarrow> True
      | GZero (RSlice t) \<Rightarrow> True | GZero (RMap k w) \<Rightarrow> True | GZero RFunc \<Rightarrow> True | _ \<Rightarrow> False)"

text \<open>The comparison \<open>a == b\<close> of two \<open>interface{}\<close> values: it panics on values of one uncomparable type.\<close>

definition InMemoryStore_equal :: "gvalue \<Rightarrow> gvalue \<Rightarrow> gerror + bool" where
  "InMemoryStore_equal a b =
     (if TypeOf a \<noteq> TypeOf b then Inr False
      else if uncomparable a then Inl runtime_panic
      else Inr (case (a, b) of (GFloat x, GFloat y) \<Rightarrow> f_eq x y | _ \<Rightarrow> a = b))"

definition InMemoryStore_greaterThan :: "gvalue \<Rightarrow> gvalue \<Rightarrow> bool" where
  "InMemoryStore_greaterThan a b =
     (case (a, b) of (GInt av, GInt bv) \<Rightarrow> sint av > sint bv | (GFloat av, GFloat bv) \<Rightarrow> f_less bv av
      | (GString av, GString bv) \<Rightarrow> av > bv | _ \<Rightarrow> False)"

definition InMemoryStore_lessThan :: "gvalue \<Rightarrow> gvalue \<Rightarrow> bool" where
  "InMemoryStore_lessThan a b =
     (case (a, b) of (GInt av, GInt bv) \<Rightarrow> sint av < sint bv | (GFloat av, GFloat bv) \<Rightarrow> f_less av bv
      | (GString av, GString bv) \<Rightarrow> av < bv | _ \<Rightarrow> False)"

fun in_loop :: "gvalue \<Rightarrow> gvalue list \<Rightarrow> gerror + bool" where
  "in_loop value [] = Inr False"
| "in_loop value (v # vs) =
     (case InMemoryStore_equal value v of Inl e \<Rightarrow> Inl e | Inr True \<Rightarrow> Inr True | Inr False \<Rightarrow> in_loop value vs)"

definition InMemoryStore_inArray :: "gvalue \<Rightarrow> gvalue \<Rightarrow> gerror + bool" where
  "InMemoryStore_inArray value array = (case array of GSlice arr \<Rightarrow> in_loop value arr | _ \<Rightarrow> Inr False)"

definition InMemoryStore_regexMatch :: "(string \<Rightarrow> string \<Rightarrow> bool option) \<Rightarrow> gvalue \<Rightarrow> gvalue \<Rightarrow> bool" where
  "InMemoryStore_regexMatch regex value pattern =
     (case (value, pattern) of (GString str, GString p) \<Rightarrow> (case regex p str of Some b \<Rightarrow> b | None \<Rightarrow> False) | _ \<Rightarrow> False)"

definition InMemoryStore_compare :: "(string \<Rightarrow> string \<Rightarrow> bool option) \<Rightarrow> gvalue \<Rightarrow> string \<Rightarrow> gvalue \<Rightarrow> gerror + bool" where
  "InMemoryStore_compare regex fieldValue operator opValue =
     (if operator = ''$eq'' then InMemoryStore_equal fieldValue opValue
      else if operator = ''$ne'' then map_sum id Not (InMemoryStore_equal fieldValue opValue)
      else if operator = ''$gt'' then Inr (InMemoryStore_greaterThan fieldValue opValue)
      else if operator = ''$gte'' then
        (if InMemoryStore_greaterThan fieldValue opValue then Inr True else InMemoryStore_equal fieldValue opValue)
      else if operator = ''$lt'' then Inr (InMemoryStore_lessThan fieldValue opValue)
      else if operator = ''$lte'' then
        (if InMemoryStore_lessThan fieldValue opValue then Inr True else InMemoryStore_equal fieldValue opValue)
      else if operator = ''$in'' then InMemoryStore_inArray fieldValue opValue
      else if operator = ''$nin'' then map_sum id Not (InMemoryStore_inArray fieldValue opValue)
      else if operator = ''$regex'' then Inr (InMemoryStore_regexMatch regex fieldValue opValue)
      else Inr False)"

fun op_loop :: "(string \<Rightarrow> string \<Rightarrow> bool option) \<Rightarrow> gvalue \<Rightarrow> (string \<times> gvalue) list \<Rightarrow> gerror + bool" where
  "op_loop regex fieldValue [] = Inr True"
| "op_loop regex fieldValue ((op, opValue) # ops) =
     (case InMemoryStore_compare regex fieldValue op opValue of
        Inl e \<Rightarrow> Inl e | Inr False \<Rightarrow> Inr False | Inr True \<Rightarrow> op_loop regex fieldValue ops)"

fun filter_loop ::
    "(string list \<Rightarrow> string list) \<Rightarrow> (string \<Rightarrow> string \<Rightarrow> bool option) \<Rightarrow> store_value \<Rightarrow> (string \<times> gvalue) list \<Rightarrow> gerror + bool" where
  "filter_loop ro regex value [] = Inr True"
| "filter_loop ro regex value ((field, condition) # cs) =
     (case mget value field of None \<Rightarrow> Inr False
      | Some fieldValue \<Rightarrow>
          (case (case condition of GMap condMap \<Rightarrow> op_loop regex fieldValue (range_entries ro condMap)
                 | _ \<Rightarrow> InMemoryStore_compare regex fieldValue ''$eq'' condition) of
             Inl e \<Rightarrow> Inl e | Inr False \<Rightarrow> Inr False | Inr True \<Rightarrow> filter_loop ro regex value cs))"

definition InMemoryStore_matchFilter ::
    "(string list \<Rightarrow> string list) \<Rightarrow> (string \<Rightarrow> string \<Rightarrow> bool option) \<Rightarrow> store_value \<Rightarrow> gvalue gomap \<Rightarrow> gerror + bool" where
  "InMemoryStore_matchFilter ro regex value filt = filter_loop ro regex value (range_entries ro filt)"

definition has_infix :: "string \<Rightarrow> string \<Rightarrow> bool" where
  "has_infix sub s \<longleftrightarrow> list_ex (\<lambda>t. take (length sub) t = sub) (map (\<lambda>i. drop i s) [0..<Suc (length s)])"

definition InMemoryStore_matchQuery :: "(string \<Rightarrow> string) \<Rightarrow> store_value \<Rightarrow> string \<Rightarrow> bool" where
  "InMemoryStore_matchQuery lower value query =
     list_ex (\<lambda>v. case v of GString str \<Rightarrow> has_infix (lower query) (lower str) | _ \<Rightarrow> False) (map snd value)"

section \<open>Searching and listing\<close>

text \<open>Collecting in a loop that stops once \<open>limit\<close> results are there, when the limit is positive.\<close>

fun collect_loop :: "goint \<Rightarrow> ('a \<Rightarrow> gerror + 'b option) \<Rightarrow> 'b list \<Rightarrow> 'a list \<Rightarrow> gerror + 'b list" where
  "collect_loop limit pick results [] = Inr results"
| "collect_loop limit pick results (x # xs) =
     (case pick x of
        Inl e \<Rightarrow> Inl e
      | Inr None \<Rightarrow> collect_loop limit pick results xs
      | Inr (Some r) \<Rightarrow>
          if sint limit > 0 \<and> int (length (results @ [r])) \<ge> sint limit then Inr (results @ [r])
          else collect_loop limit pick (results @ [r]) xs)"

definition live :: "InMemoryStore \<Rightarrow> int \<Rightarrow> string \<Rightarrow> string \<Rightarrow> bool" where
  "live s now nsKey key \<longleftrightarrow> InMemoryStore_checkTTL s now (InMemoryStore_fullKey nsKey key)"

definition InMemoryStore_Search ::
    "(string list \<Rightarrow> string list) \<Rightarrow> (string \<Rightarrow> string) \<Rightarrow> InMemoryStore \<Rightarrow> int \<Rightarrow> string list \<Rightarrow> string \<Rightarrow> goint \<Rightarrow> gerror + store_value list" where
  "InMemoryStore_Search ro lower s now namespace query limit =
     (if st_closed s then Inl closed_error
      else
        let nsKey = InMemoryStore_nsKey namespace in
        case mget (st_data s) nsKey of None \<Rightarrow> Inr []
        | Some nsData \<Rightarrow>
            collect_loop limit (\<lambda>(key, value).
              Inr (if live s now nsKey key \<and> (query = [] \<or> InMemoryStore_matchQuery lower value query)
                   then Some (InMemoryStore_copyValue value) else None)) [] (range_entries ro nsData))"

definition InMemoryStore_List ::
    "(string list \<Rightarrow> string list) \<Rightarrow> InMemoryStore \<Rightarrow> int \<Rightarrow> string list \<Rightarrow> goint \<Rightarrow> gerror + string list" where
  "InMemoryStore_List ro s now namespace limit =
     (if st_closed s then Inl closed_error
      else
        let nsKey = InMemoryStore_nsKey namespace in
        case mget (st_data s) nsKey of None \<Rightarrow> Inr []
        | Some nsData \<Rightarrow>
            collect_loop limit (\<lambda>key. Inr (if live s now nsKey key then Some key else None)) [] (ro (mkeys nsData)))"

text \<open>The test of one entry in \<open>SearchItems\<close> and in the search of \<open>Batch\<close>; a nil query or filter is \<open>None\<close>.\<close>

definition selects ::
    "(string list \<Rightarrow> string list) \<Rightarrow> (string \<Rightarrow> string) \<Rightarrow> (string \<Rightarrow> string \<Rightarrow> bool option) \<Rightarrow> string option \<Rightarrow> gvalue gomap option \<Rightarrow>
     store_value \<Rightarrow> gerror + bool" where
  "selects ro lower regex query filt value =
     (if (case query of Some q \<Rightarrow> q \<noteq> [] \<and> \<not> InMemoryStore_matchQuery lower value q | None \<Rightarrow> False) then Inr False
      else (case filt of Some f \<Rightarrow> InMemoryStore_matchFilter ro regex value f | None \<Rightarrow> Inr True))"

definition apply_offset :: "goint \<Rightarrow> 'b list \<Rightarrow> 'b list" where
  "apply_offset offset results =
     (if sint offset > 0 \<and> sint offset < int (length results) then drop (nat (sint offset)) results else results)"

definition search_entries ::
    "(string list \<Rightarrow> string list) \<Rightarrow> (string \<Rightarrow> string) \<Rightarrow> (string \<Rightarrow> string \<Rightarrow> bool option) \<Rightarrow> InMemoryStore \<Rightarrow> int \<Rightarrow> string \<Rightarrow>
     string option \<Rightarrow> gvalue gomap option \<Rightarrow> goint \<Rightarrow> store_value gomap \<Rightarrow> gerror + (string \<times> store_value) list" where
  "search_entries ro lower regex s now nsKey query filt limit nsData =
     collect_loop limit (\<lambda>(key, value).
       if \<not> live s now nsKey key then Inr None
       else map_sum id (\<lambda>b. if b then Some (key, value) else None) (selects ro lower regex query filt value))
       [] (range_entries ro nsData)"

definition InMemoryStore_SearchItems ::
    "(string list \<Rightarrow> string list) \<Rightarrow> (string \<Rightarrow> string) \<Rightarrow> (string \<Rightarrow> string \<Rightarrow> bool option) \<Rightarrow> InMemoryStore \<Rightarrow> int \<Rightarrow> string list \<Rightarrow>
     string option \<Rightarrow> gvalue gomap option \<Rightarrow> goint \<Rightarrow> goint \<Rightarrow> gerror + Item list" where
  "InMemoryStore_SearchItems ro lower regex s now namespace query filt limit offset =
     (if st_closed s then Inl closed_error
      else
        let nsKey = InMemoryStore_nsKey namespace in
        case mget (st_data s) nsKey of None \<Rightarrow> Inr []
        | Some nsData \<Rightarrow>
            map_sum id (\<lambda>es. apply_offset offset (map (\<lambda>(key, value). make_item s now namespace key value) es))
              (search_entries ro lower regex s now nsKey query filt limit nsData))"

record MatchCondition =
  mc_MatchType :: string
  mc_Path :: "string list"

text \<open>The first condition of a known kind decides.\<close>

fun InMemoryStore_matchNamespaceConditions :: "string list \<Rightarrow> MatchCondition list \<Rightarrow> bool" where
  "InMemoryStore_matchNamespaceConditions namespace [] = True"
| "InMemoryStore_matchNamespaceConditions namespace (c # cs) =
     (if mc_MatchType c = ''prefix'' then take (length (mc_Path c)) namespace = mc_Path c
      else if mc_MatchType c = ''suffix''
      then length (mc_Path c) \<le> length namespace \<and> drop (length namespace - length (mc_Path c)) namespace = mc_Path c
      else cs \<noteq> [] \<and> InMemoryStore_matchNamespaceConditions namespace cs)"

definition prefixes_of :: "string \<Rightarrow> (string \<times> string list) list" where
  "prefixes_of nsKey = (let parts = strings_Split (CHR ''|'') nsKey
     in map (\<lambda>i. (strings_Join (CHR ''|'') (take i parts), take i parts)) [1..<Suc (length parts)])"

definition slice_panic :: gerror where
  "slice_panic = ErrorNew ''panic: runtime error: slice bounds out of range''"

definition InMemoryStore_ListNamespaces ::
    "(string list \<Rightarrow> string list) \<Rightarrow> InMemoryStore \<Rightarrow> MatchCondition list \<Rightarrow> goint option \<Rightarrow> goint \<Rightarrow> goint \<Rightarrow> gerror + string list list" where
  "InMemoryStore_ListNamespaces ro s conditions maxDepth limit offset =
     (if st_closed s then Inl closed_error
      else
        let namespaceSet = fold (\<lambda>(p, parts) m. if mhas m p then m else mput m p parts)
              (concat (map prefixes_of (ro (mkeys (st_data s))))) [];
            filtered = filter (\<lambda>ns. InMemoryStore_matchNamespaceConditions ns conditions) (map snd (range_entries ro namespaceSet));
            shallow = (case maxDepth of None \<Rightarrow> filtered | Some d \<Rightarrow> filter (\<lambda>ns. int (length ns) \<le> sint d) filtered)
        in if sint offset > int (length shallow) then Inl slice_panic
           else
             let rest = (if sint offset > 0 then drop (nat (sint offset)) shallow else shallow)
             in Inr (if sint limit > 0 \<and> sint limit < int (length rest) then take (nat (sint limit)) rest else rest))"

section \<open>Batches\<close>

datatype Op =
    GetOp "string list" string
  | PutOp "string list" string store_value "goint option"
  | SearchOp "string list" "gvalue gomap option" goint goint "string option"
  | ListNamespacesOp "MatchCondition list" "goint option" goint goint
  | UnknownOp

datatype op_result = ResValue "store_value option" | ResFound "store_value list" | ResNone | ResError gerror

text \<open>
  One operation of a batch.  \<open>None\<close> is an operation that never returns: \<open>ListNamespaces\<close> asks for the
  read lock of the mutex that \<open>Batch\<close> holds.  A panic ends the batch.
\<close>

fun batch_op ::
    "(string list \<Rightarrow> string list) \<Rightarrow> (string \<Rightarrow> string) \<Rightarrow> (string \<Rightarrow> string \<Rightarrow> bool option) \<Rightarrow> int \<Rightarrow> InMemoryStore \<Rightarrow> Op \<Rightarrow>
     (gerror + op_result \<times> InMemoryStore) option" where
  "batch_op ro lower regex now s (GetOp namespace key) =
     Some (Inr (ResValue (read_key s now (InMemoryStore_nsKey namespace) key), s))"
| "batch_op ro lower regex now s (PutOp namespace key value ttl) =
     (let nsKey = InMemoryStore_nsKey namespace in
      Some (Inr (ResNone, put_ttl (write_key s nsKey key value) now nsKey key ttl)))"
| "batch_op ro lower regex now s (SearchOp namespacePrefix filt limit offset query) =
     (let nsKey = InMemoryStore_nsKey namespacePrefix in
      case mget (st_data s) nsKey of None \<Rightarrow> Some (Inr (ResNone, s))
      | Some nsData \<Rightarrow>
          Some (map_sum id (\<lambda>es. (ResFound (apply_offset offset (map (\<lambda>(key, value). InMemoryStore_copyValue value) es)), s))
            (search_entries ro lower regex s now nsKey query filt limit nsData)))"
| "batch_op ro lower regex now s (ListNamespacesOp conditions maxDepth limit offset) = None"
| "batch_op ro lower regex now s UnknownOp = Some (Inr (ResError (ErrorNew ''unknown operation type''), s))"

fun batch_loop ::
    "(string list \<Rightarrow> string list) \<Rightarrow> (string \<Rightarrow> string) \<Rightarrow> (string \<Rightarrow> string \<Rightarrow> bool option) \<Rightarrow> (nat \<Rightarrow> int) \<Rightarrow> nat \<Rightarrow> op_result list \<Rightarrow>
     InMemoryStore \<Rightarrow> Op list \<Rightarrow> ((gerror + op_result list) \<times> InMemoryStore) option" where
  "batch_loop ro lower regex now i results s [] = Some (Inr results, s)"
| "batch_loop ro lower regex now i results s (op # ops) =
     (case batch_op ro lower regex (now i) s op of
        None \<Rightarrow> None
      | Some (Inl e) \<Rightarrow> Some (Inl e, s)
      | Some (Inr (r, s')) \<Rightarrow> batch_loop ro lower regex now (Suc i) (results @ [r]) s' ops)"

definition InMemoryStore_Batch ::
    "(string list \<Rightarrow> string list) \<Rightarrow> (string \<Rightarrow> string) \<Rightarrow> (string \<Rightarrow> string \<Rightarrow> bool option) \<Rightarrow> (nat \<Rightarrow> int) \<Rightarrow> InMemoryStore \<Rightarrow> Op list \<Rightarrow>
     ((gerror + op_result list) \<times> InMemoryStore) option" where
  "InMemoryStore_Batch ro lower regex now s ops =
     (if st_closed s then Some (Inl closed_error, s) else batch_loop ro lower regex now 0 [] s ops)"

definition InMemoryStore_BatchPut ::
    "InMemoryStore \<Rightarrow> (string list \<times> string \<times> store_value) list \<Rightarrow> gerror option \<times> InMemoryStore" where
  "InMemoryStore_BatchPut s ops =
     (if st_closed s then (Some closed_error, s)
      else (None, fold (\<lambda>(namespace, key, value) s. write_key s (InMemoryStore_nsKey namespace) key value) ops s))"

section \<open>Maintenance\<close>

definition InMemoryStore_Clear :: "InMemoryStore \<Rightarrow> InMemoryStore" where
  "InMemoryStore_Clear s = s\<lparr>st_data := [], st_ttl := []\<rparr>"

definition InMemoryStore_Close :: "InMemoryStore \<Rightarrow> InMemoryStore" where
  "InMemoryStore_Close s = s\<lparr>st_closed := True\<rparr>"

text \<open>One entry of the sweep over the times to live: the data is only removed when the key splits at one colon.\<close>

definition sweep_entry :: "int \<Rightarrow> string \<times> int \<Rightarrow> InMemoryStore \<Rightarrow> InMemoryStore" where
  "sweep_entry now entry s =
     (if now > snd entry then
        let s1 = (case strings_Split (CHR '':'') (fst entry) of
              [nsKey, key] \<Rightarrow>
                (case mget (st_data s) nsKey of None \<Rightarrow> s
                 | Some nsData \<Rightarrow>
                     let rest = mdel nsData key
                     in s\<lparr>st_data := (if rest = [] then mdel (st_data s) nsKey else mput (st_data s) nsKey rest)\<rparr>)
            | _ \<Rightarrow> s)
        in s1\<lparr>st_ttl := mdel (st_ttl s1) (fst entry)\<rparr>
      else s)"

definition InMemoryStore_cleanupExpired :: "(string list \<Rightarrow> string list) \<Rightarrow> int \<Rightarrow> InMemoryStore \<Rightarrow> InMemoryStore" where
  "InMemoryStore_cleanupExpired ro now s = fold (sweep_entry now) (range_entries ro (st_ttl s)) s"

section \<open>Laws\<close>

text \<open>Names that are kept apart: a namespace has parts without the separators.\<close>

definition clean :: "string list \<Rightarrow> bool" where
  "clean ns \<longleftrightarrow> ns \<noteq> [] \<and> (\<forall>p\<in>set ns. CHR ''|'' \<notin> set p \<and> CHR '':'' \<notin> set p)"

lemma nsKey_inj: "clean ns \<Longrightarrow> clean ns' \<Longrightarrow> InMemoryStore_nsKey ns = InMemoryStore_nsKey ns' \<longleftrightarrow> ns = ns'"
  unfolding InMemoryStore_nsKey_def clean_def using strings_Split_Join by metis

lemma set_strings_Join: "set (strings_Join c ps) \<subseteq> insert c (\<Union>p\<in>set ps. set p)"
  by (induction c ps rule: strings_Join.induct) auto

lemma nsKey_colon: "clean ns \<Longrightarrow> CHR '':'' \<notin> set (InMemoryStore_nsKey ns)"
  unfolding InMemoryStore_nsKey_def clean_def using set_strings_Join [of "CHR ''|''" ns] by auto

lemma fullKey_inj:
  assumes "CHR '':'' \<notin> set nk" and "CHR '':'' \<notin> set nk'"
  shows "InMemoryStore_fullKey nk k = InMemoryStore_fullKey nk' k' \<longleftrightarrow> nk = nk' \<and> k = k'"
proof
  assume eq: "InMemoryStore_fullKey nk k = InMemoryStore_fullKey nk' k'"
  have "takeWhile (\<lambda>c. c \<noteq> CHR '':'') (InMemoryStore_fullKey n k) = n" if "CHR '':'' \<notin> set n" for n k
    using that by (auto simp: InMemoryStore_fullKey_def takeWhile_append)
  with eq assms have "nk = nk'" by metis
  with eq show "nk = nk' \<and> k = k'" by (simp add: InMemoryStore_fullKey_def)
qed simp

text \<open>The contract: values and expiry times by name, how writing and deleting change them, and reading.\<close>

datatype store_op = OpPut int "string list" string store_value "goint option" | OpDelete "string list" string

locale ttl_store =
  fixes val :: "'s \<Rightarrow> string list \<Rightarrow> string \<Rightarrow> store_value option"
    and exp :: "'s \<Rightarrow> string list \<Rightarrow> string \<Rightarrow> int option"
    and put :: "int \<Rightarrow> string list \<Rightarrow> string \<Rightarrow> store_value \<Rightarrow> goint option \<Rightarrow> 's \<Rightarrow> 's"
    and del :: "string list \<Rightarrow> string \<Rightarrow> 's \<Rightarrow> 's"
    and ok :: "'s \<Rightarrow> bool" and name :: "string list \<Rightarrow> bool" and doc :: "store_value \<Rightarrow> bool"
  assumes ok_put: "ok s \<Longrightarrow> name ns \<Longrightarrow> ok (put now ns k v ttl s)"
    and ok_del: "ok s \<Longrightarrow> name ns \<Longrightarrow> ok (del ns k s)"
    and val_put: "ok s \<Longrightarrow> name ns \<Longrightarrow> name ns' \<Longrightarrow> doc v \<Longrightarrow>
      val (put now ns k v ttl s) ns' k' = (if ns' = ns \<and> k' = k then Some v else val s ns' k')"
    and exp_put: "ok s \<Longrightarrow> name ns \<Longrightarrow> name ns' \<Longrightarrow>
      exp (put now ns k v ttl s) ns' k' = (if ns' = ns \<and> k' = k \<and> ttl \<noteq> None then map_option (\<lambda>d. now + sint d) ttl else exp s ns' k')"
    and val_del: "ok s \<Longrightarrow> name ns \<Longrightarrow> name ns' \<Longrightarrow> val (del ns k s) ns' k' = (if ns' = ns \<and> k' = k then None else val s ns' k')"
    and exp_del: "ok s \<Longrightarrow> name ns \<Longrightarrow> name ns' \<Longrightarrow> exp (del ns k s) ns' k' = (if ns' = ns \<and> k' = k then None else exp s ns' k')"
begin

primrec apply_op :: "store_op \<Rightarrow> 's \<Rightarrow> 's" where
  "apply_op (OpPut now ns k v ttl) s = put now ns k v ttl s"
| "apply_op (OpDelete ns k) s = del ns k s"

end

text \<open>The specification: a map of values and a map of expiry times.\<close>

type_synonym store_spec = "(string list \<times> string \<Rightarrow> store_value option) \<times> (string list \<times> string \<Rightarrow> int option)"

primrec spec_op :: "store_op \<Rightarrow> store_spec \<Rightarrow> store_spec" where
  "spec_op (OpPut now ns k v ttl) st =
     ((fst st)((ns, k) \<mapsto> v), (case ttl of None \<Rightarrow> snd st | Some d \<Rightarrow> (snd st)((ns, k) \<mapsto> now + sint d)))"
| "spec_op (OpDelete ns k) st = ((fst st)((ns, k) := None), (snd st)((ns, k) := None))"

definition spec_get :: "store_spec \<Rightarrow> int \<Rightarrow> string list \<Rightarrow> string \<Rightarrow> store_value option" where
  "spec_get st now ns k = (case snd st (ns, k) of Some x \<Rightarrow> if now < x then fst st (ns, k) else None | None \<Rightarrow> fst st (ns, k))"

primrec op_ok :: "(string list \<Rightarrow> bool) \<Rightarrow> (store_value \<Rightarrow> bool) \<Rightarrow> store_op \<Rightarrow> bool" where
  "op_ok name doc (OpPut now ns k v ttl) = (name ns \<and> doc v)"
| "op_ok name doc (OpDelete ns k) = name ns"

context ttl_store
begin

definition refines :: "'s \<Rightarrow> store_spec \<Rightarrow> bool" where
  "refines s st \<longleftrightarrow> ok s \<and> (\<forall>ns k. name ns \<longrightarrow> val s ns k = fst st (ns, k) \<and> exp s ns k = snd st (ns, k))"

lemma refines_step: "refines s st \<Longrightarrow> op_ok name doc op \<Longrightarrow> refines (apply_op op s) (spec_op op st)"
  by (cases op) (auto simp: refines_def ok_put ok_del val_put exp_put val_del exp_del split: option.splits)

lemma refines_run: "refines s st \<Longrightarrow> list_all (op_ok name doc) ops \<Longrightarrow> refines (fold apply_op ops s) (fold spec_op ops st)"
  by (induction ops arbitrary: s st) (simp_all add: refines_step)

end

section \<open>The in-memory store keeps the contract\<close>

definition store_val :: "InMemoryStore \<Rightarrow> string list \<Rightarrow> string \<Rightarrow> store_value option" where
  "store_val s ns k = (case mget (st_data s) (InMemoryStore_nsKey ns) of Some d \<Rightarrow> mget d k | None \<Rightarrow> None)"

definition store_exp :: "InMemoryStore \<Rightarrow> string list \<Rightarrow> string \<Rightarrow> int option" where
  "store_exp s ns k = mget (st_ttl s) (InMemoryStore_fullKey (InMemoryStore_nsKey ns) k)"

definition store_put :: "int \<Rightarrow> string list \<Rightarrow> string \<Rightarrow> store_value \<Rightarrow> goint option \<Rightarrow> InMemoryStore \<Rightarrow> InMemoryStore" where
  "store_put now ns k v ttl s = snd (InMemoryStore_PutItem s now ns k v ttl)"

definition store_del :: "string list \<Rightarrow> string \<Rightarrow> InMemoryStore \<Rightarrow> InMemoryStore" where
  "store_del ns k s = snd (InMemoryStore_Delete s ns k)"

text \<open>An open store where an expiry time is only kept in a namespace that exists.\<close>

definition store_ok :: "InMemoryStore \<Rightarrow> bool" where
  "store_ok s \<longleftrightarrow> \<not> st_closed s \<and>
     (\<forall>ns k. clean ns \<longrightarrow> store_exp s ns k \<noteq> None \<longrightarrow> mget (st_data s) (InMemoryStore_nsKey ns) \<noteq> None)"

lemma copyValue_id [simp]: "mwf v \<Longrightarrow> InMemoryStore_copyValue v = v"
  by (simp add: InMemoryStore_copyValue_def mputs_Nil_sorted)

lemmas store_defs = store_val_def store_exp_def store_put_def store_del_def InMemoryStore_PutItem_def InMemoryStore_Delete_def
  write_key_def put_ttl_def Let_def

lemma fullKey_clean:
  "clean ns \<Longrightarrow> clean ns' \<Longrightarrow>
   InMemoryStore_fullKey (InMemoryStore_nsKey ns) k = InMemoryStore_fullKey (InMemoryStore_nsKey ns') k' \<longleftrightarrow> ns = ns' \<and> k = k'"
  by (simp add: fullKey_inj nsKey_colon nsKey_inj)

interpretation memory_store: ttl_store store_val store_exp store_put store_del store_ok clean mwf
proof unfold_locales
  fix s ns k now ttl and v :: store_value
  assume "store_ok s" and "clean ns"
  then show "store_ok (store_put now ns k v ttl s)"
    by (auto simp: store_ok_def store_defs fullKey_clean nsKey_inj split: option.splits)
next
  fix s ns k
  assume "store_ok s" and "clean ns"
  then show "store_ok (store_del ns k s)"
    by (auto simp: store_ok_def store_defs fullKey_clean nsKey_inj split: option.splits)
next
  fix s ns ns' k k' now ttl and v :: store_value
  assume "store_ok s" "clean ns" "clean ns'" "mwf v"
  then show "store_val (store_put now ns k v ttl s) ns' k' = (if ns' = ns \<and> k' = k then Some v else store_val s ns' k')"
    by (auto simp: store_ok_def store_defs nsKey_inj mget_Cons split: option.splits)
next
  fix s ns ns' k k' now ttl and v :: store_value
  assume "store_ok s" "clean ns" "clean ns'"
  then show "store_exp (store_put now ns k v ttl s) ns' k' =
      (if ns' = ns \<and> k' = k \<and> ttl \<noteq> None then map_option (\<lambda>d. now + sint d) ttl else store_exp s ns' k')"
    by (auto simp: store_ok_def store_defs fullKey_clean split: option.splits)
next
  fix s ns ns' k k'
  assume "store_ok s" "clean ns" "clean ns'"
  then show "store_val (store_del ns k s) ns' k' = (if ns' = ns \<and> k' = k then None else store_val s ns' k')"
    by (auto simp: store_ok_def store_defs nsKey_inj split: option.splits)
next
  fix s ns ns' k k'
  assume s: "store_ok s" "clean ns" "clean ns'"
  then show "store_exp (store_del ns k s) ns' k' = (if ns' = ns \<and> k' = k then None else store_exp s ns' k')"
    by (auto simp: store_ok_def store_defs fullKey_clean split: option.splits)
qed

primrec store_apply :: "store_op \<Rightarrow> InMemoryStore \<Rightarrow> InMemoryStore" where
  "store_apply (OpPut now ns k v ttl) s = snd (InMemoryStore_PutItem s now ns k v ttl)"
| "store_apply (OpDelete ns k) s = snd (InMemoryStore_Delete s ns k)"

lemma store_apply_eq: "memory_store.apply_op = store_apply"
proof
  fix op
  show "memory_store.apply_op op = store_apply op"
    by (cases op) (auto simp: store_put_def store_del_def fun_eq_iff)
qed

lemma Get_val:
  "\<not> st_closed s \<Longrightarrow> InMemoryStore_Get s now ns k =
     Inr (case store_exp s ns k of
            Some x \<Rightarrow> if now < x then map_option InMemoryStore_copyValue (store_val s ns k) else None
          | None \<Rightarrow> map_option InMemoryStore_copyValue (store_val s ns k))"
  by (auto simp: InMemoryStore_Get_def read_key_def InMemoryStore_checkTTL_def store_exp_def store_val_def split: option.splits)

section \<open>The sweep\<close>

text \<open>A key of a time to live that splits at exactly one colon.\<close>

definition one_colon :: "string \<Rightarrow> bool" where
  "one_colon fk \<longleftrightarrow> length (strings_Split (CHR '':'') fk) = 2"

lemma Split_fullKey:
  "strings_Split (CHR '':'') (InMemoryStore_fullKey nk k) = strings_Split (CHR '':'') nk @ strings_Split (CHR '':'') k"
proof -
  have "strings_Split c (p @ c # s) = strings_Split c p @ strings_Split c s" for c p s
  proof (induction c p rule: strings_Split.induct)
    case (1 c)
    then show ?case by simp
  next
    case (2 c x xs)
    then show ?case by (cases "strings_Split c xs") (auto split: list.splits)
  qed
  then show ?thesis by (simp add: InMemoryStore_fullKey_def)
qed

lemma one_colon_fullKey: "one_colon (InMemoryStore_fullKey nk k) \<Longrightarrow> strings_Split (CHR '':'') (InMemoryStore_fullKey nk k) = [nk, k]"
proof -
  assume "one_colon (InMemoryStore_fullKey nk k)"
  then have "length (strings_Split (CHR '':'') nk) + length (strings_Split (CHR '':'') k) = 2"
    by (simp add: one_colon_def Split_fullKey)
  moreover have "length (strings_Split c p) \<ge> 1" for c p by (cases "strings_Split c p") auto
  ultimately have "length (strings_Split (CHR '':'') nk) = 1" "length (strings_Split (CHR '':'') k) = 1"
    by (metis Suc_1 add_le_cancel_left le_antisym one_add_one plus_1_eq_Suc add_le_cancel_right)+
  then obtain a b where "strings_Split (CHR '':'') nk = [a]" "strings_Split (CHR '':'') k = [b]"
    by (metis One_nat_def length_0_conv length_Suc_conv)
  moreover from this have "nk = a" "k = b"
    using strings_Join_Split [of "CHR '':''" nk] strings_Join_Split [of "CHR '':''" k] by simp_all
  ultimately show ?thesis by (simp add: Split_fullKey)
qed

lemma sweep_entry_read:
  assumes "mget (st_ttl s) fk = Some x" and "one_colon fk" and "now \<le> now'"
  shows "read_key (sweep_entry now (fk, x) s) now' nk k = read_key s now' nk k"
proof (cases "now > x")
  case True
  obtain nk0 k0 where sp: "strings_Split (CHR '':'') fk = [nk0, k0]"
    using assms(2) by (auto simp: one_colon_def numeral_2_eq_2 length_Suc_conv)
  show ?thesis
  proof (cases "InMemoryStore_fullKey nk k = fk")
    case True
    then have "nk0 = nk" "k0 = k" using one_colon_fullKey assms(2) sp by auto
    then show ?thesis
      using True assms(1,3) \<open>now > x\<close> sp
      by (auto simp: sweep_entry_def read_key_def InMemoryStore_checkTTL_def Let_def split: option.splits)
  next
    case False
    then have "\<not> (nk0 = nk \<and> k0 = k)"
      using sp strings_Join_Split [of "CHR '':''" fk] by (auto simp: InMemoryStore_fullKey_def)
    moreover have "mget d k = None" if "mdel d k0 = []" "k \<noteq> k0" for d :: "store_value gomap"
      using mget_mdel [of d k0 k] that by simp
    ultimately show ?thesis
      using False \<open>now > x\<close> sp
      by (auto simp: sweep_entry_def read_key_def InMemoryStore_checkTTL_def Let_def split: option.splits)
  qed
qed (simp add: sweep_entry_def)

lemma sweep_entry_ttl: "fk' \<noteq> fk \<Longrightarrow> mget (st_ttl (sweep_entry now (fk, x) s)) fk' = mget (st_ttl s) fk'"
  by (auto simp: sweep_entry_def Let_def split: list.splits option.splits)

lemma sweep_read:
  assumes "distinct (map fst es)" and "\<forall>e\<in>set es. mget (st_ttl s) (fst e) = Some (snd e) \<and> one_colon (fst e)" and "now \<le> now'"
  shows "read_key (fold (sweep_entry now) es s) now' nk k = read_key s now' nk k"
  using assms(1,2)
proof (induction es arbitrary: s)
  case (Cons e es)
  obtain fk x where e: "e = (fk, x)" by (cases e)
  have "\<forall>e'\<in>set es. mget (st_ttl (sweep_entry now e s)) (fst e') = Some (snd e') \<and> one_colon (fst e')"
    using Cons.prems e sweep_entry_ttl by (fastforce simp: image_iff)
  then have "read_key (fold (sweep_entry now) es (sweep_entry now e s)) now' nk k = read_key (sweep_entry now e s) now' nk k"
    using Cons by simp
  also have "\<dots> = read_key s now' nk k" using Cons.prems e assms(3) sweep_entry_read by simp
  finally show ?case by simp
qed simp

lemma sweep_closed: "st_closed (fold (sweep_entry now) es s) = st_closed s"
proof -
  have "st_closed (sweep_entry now e s) = st_closed s" for e s
    by (auto simp: sweep_entry_def Let_def split: list.splits option.splits)
  then show ?thesis by (induction es arbitrary: s) simp_all
qed

lemma spec_values_wf:
  "fst (fold spec_op ops st) x = Some v \<Longrightarrow> list_all (op_ok clean mwf) ops \<Longrightarrow> (\<And>x v. fst st x = Some v \<Longrightarrow> mwf v) \<Longrightarrow> mwf v"
proof (induction ops arbitrary: st)
  case Nil
  then show ?case by simp
next
  case (Cons op ops)
  have "mwf w" if "fst (spec_op op st) y = Some w" for y w
    using Cons.prems that by (cases op) (auto split: if_splits)
  with Cons show ?case by simp
qed

section \<open>Properties\<close>



text \<open>The sweep that removes expired entries cannot be observed: when every key with a time to live splits at
  exactly one colon, a \<open>Get\<close> at any later time answers as it would have without the sweep.\<close>

theorem sweep_not_observable:
  assumes "range_order ro" and "mwf (st_ttl s)" and "\<forall>fk\<in>set (mkeys (st_ttl s)). one_colon fk" and "now \<le> now'"
  shows "InMemoryStore_Get (InMemoryStore_cleanupExpired ro now s) now' ns k = InMemoryStore_Get s now' ns k"
proof -
  have "\<forall>e\<in>set (range_entries ro (st_ttl s)). mget (st_ttl s) (fst e) = Some (snd e) \<and> one_colon (fst e)"
    using range_entries_mem [OF assms(1)] assms(3) by (force simp: mkeys_def dest: mget_SomeD)
  from sweep_read [OF range_entries_distinct [OF assms(1,2)] this assms(4)] show ?thesis
    by (simp add: InMemoryStore_Get_def InMemoryStore_cleanupExpired_def sweep_closed)
qed

theorem sweep_not_observable_witness:
  "InMemoryStore_Get (InMemoryStore_cleanupExpired rev 7 (store_apply (OpPut 0 [''a''] ''k'' [] (Some 5)) NewInMemoryStore)) 8 [''a''] ''k'' = Inr None"
proof -
  let ?s = "store_apply (OpPut 0 [''a''] ''k'' [] (Some 5)) NewInMemoryStore"
  have s: "?s = \<lparr>st_data = [(''a'', [(''k'', [])])], st_ttl = [(''a:k'', 5)], st_closed = False\<rparr>" by code_simp
  have "InMemoryStore_Get ?s 8 [''a''] ''k'' = Inr None" by code_simp
  moreover have "mwf (st_ttl ?s)" "\<forall>fk\<in>set (mkeys (st_ttl ?s)). one_colon fk"
    unfolding s by (simp_all add: mwf_def mkeys_def one_colon_def)
  ultimately show ?thesis using sweep_not_observable [of rev ?s 7 8 "[''a'']" "''k''"] by simp
qed

text \<open>\<open>Put\<close> does not renew a time to live: once the time to live of a key has passed, no value put under the key is
  ever returned, until the sweep or a \<open>Delete\<close> removes the old time.\<close>

theorem expired_key_stays_hidden:
  assumes "\<not> st_closed s" and "mget (st_ttl s) (InMemoryStore_fullKey (InMemoryStore_nsKey ns) k) = Some expiry" and "expiry \<le> now"
  shows "fst (InMemoryStore_Put s ns k v) = None \<and> InMemoryStore_Get (snd (InMemoryStore_Put s ns k v)) now ns k = Inr None"
  using assms
  by (auto simp: InMemoryStore_Put_def InMemoryStore_Get_def read_key_def write_key_def InMemoryStore_checkTTL_def split: option.splits)

theorem expired_key_stays_hidden_witness:
  "InMemoryStore_Get (snd (InMemoryStore_Put (store_apply (OpPut 0 [''a''] ''k'' [] (Some 5)) NewInMemoryStore) [''a''] ''k'' [(''x'', GInt 1)]))
     5 [''a''] ''k'' = Inr None"
proof -
  have "store_apply (OpPut 0 [''a''] ''k'' [] (Some 5)) NewInMemoryStore =
      \<lparr>st_data = [(''a'', [(''k'', [])])], st_ttl = [(''a:k'', 5)], st_closed = False\<rparr>" by code_simp
  then show ?thesis
    using expired_key_stays_hidden [of "store_apply (OpPut 0 [''a''] ''k'' [] (Some 5)) NewInMemoryStore" "[''a'']" "''k''" 5 5]
    by (simp add: mget_Cons InMemoryStore_nsKey_def InMemoryStore_fullKey_def)
qed

text \<open>With a colon in the key the sweep drops the time to live and keeps the value, which becomes visible again.\<close>

theorem sweep_resurrects:
  "InMemoryStore_Get (store_apply (OpPut 0 [''a''] ''k:1'' [] (Some 5)) NewInMemoryStore) 7 [''a''] ''k:1'' = Inr None \<and>
   InMemoryStore_Get (InMemoryStore_cleanupExpired (\<lambda>ks. ks) 7
     (store_apply (OpPut 0 [''a''] ''k:1'' [] (Some 5)) NewInMemoryStore)) 7 [''a''] ''k:1'' = Inr (Some [])"
  by code_simp

text \<open>A batch that lists namespaces never returns.\<close>

theorem batch_list_namespaces_blocks:
  "\<not> st_closed s \<Longrightarrow> InMemoryStore_Batch ro lower regex now s (ListNamespacesOp cs d l off # ops) = None"
  by (simp add: InMemoryStore_Batch_def)

text \<open>A positive limit bounds the number of results of \<open>Search\<close> and \<open>List\<close>.\<close>

lemma collect_loop_bound:
  "collect_loop limit pick results xs = Inr rs \<Longrightarrow> sint limit > 0 \<Longrightarrow> int (length results) < sint limit \<Longrightarrow> int (length rs) \<le> sint limit"
  by (induction limit pick results xs rule: collect_loop.induct) (auto split: sum.splits option.splits if_splits)

theorem list_within_limit:
  "InMemoryStore_List ro s now ns limit = Inr keys \<Longrightarrow> sint limit > 0 \<Longrightarrow> int (length keys) \<le> sint limit"
  by (auto simp: InMemoryStore_List_def Let_def split: if_splits option.splits intro: collect_loop_bound)

end
