(* ===== verification/Cache.thy ===== *)
theory Cache
  imports Errors
begin

text \<open>
  \<open>pregel/cache.go\<close>: the bounded in-memory cache of node outputs with its eviction policies, the cache
  that stores nothing, and the executor that wraps a node function with a cache.  A method of the cache
  runs under its lock and is one step; \<open>now\<close> is the time \<open>time.Now\<close> returns in it, and \<open>ro\<close> the
  order in which \<open>range\<close> visits the entries.  The zero \<open>time.Time\<close> is \<open>None\<close>.
\<close>

datatype EvictionPolicy = EvictLRU | EvictLFU | EvictRandom

record cacheEntry =
  ent_value :: gvalue
  ent_expiration :: "int option"
  ent_lastAccess :: int
  ent_hits :: goint

record MemoryCache =
  mc_data :: "cacheEntry gomap"
  mc_maxSize :: goint
  mc_eviction :: EvictionPolicy

definition NewMemoryCache :: "goint \<Rightarrow> EvictionPolicy \<Rightarrow> MemoryCache" where
  "NewMemoryCache maxSize eviction = \<lparr>mc_data = [], mc_maxSize = maxSize, mc_eviction = eviction\<rparr>"

definition expired_entry :: "int \<Rightarrow> cacheEntry \<Rightarrow> bool" where
  "expired_entry now entry \<longleftrightarrow> (case ent_expiration entry of None \<Rightarrow> False | Some t \<Rightarrow> now > t)"

definition MemoryCache_Get :: "int \<Rightarrow> MemoryCache \<Rightarrow> string \<Rightarrow> gvalue option \<times> MemoryCache" where
  "MemoryCache_Get now c key =
     (case mget (mc_data c) key of
        None \<Rightarrow> (None, c)
      | Some entry \<Rightarrow>
          if expired_entry now entry then (None, c)
          else (Some (ent_value entry),
                c\<lparr>mc_data := mput (mc_data c) key (entry\<lparr>ent_hits := ent_hits entry + 1, ent_lastAccess := now\<rparr>)\<rparr>))"

section \<open>Eviction\<close>

fun lru_loop :: "int option \<Rightarrow> string \<Rightarrow> (string \<times> cacheEntry) list \<Rightarrow> string" where
  "lru_loop oldest keyToDelete [] = keyToDelete"
| "lru_loop oldest keyToDelete ((k, v) # es) =
     (if oldest = None \<or> ent_lastAccess v < the oldest then lru_loop (Some (ent_lastAccess v)) k es
      else lru_loop oldest keyToDelete es)"

fun lfu_loop :: "goint \<Rightarrow> string \<Rightarrow> (string \<times> cacheEntry) list \<Rightarrow> string" where
  "lfu_loop minHits keyToDelete [] = keyToDelete"
| "lfu_loop minHits keyToDelete ((k, v) # es) =
     (if minHits = - 1 \<or> sint (ent_hits v) < sint minHits then lfu_loop (ent_hits v) k es
      else lfu_loop minHits keyToDelete es)"

definition victim :: "(string list \<Rightarrow> string list) \<Rightarrow> MemoryCache \<Rightarrow> string" where
  "victim ro c =
     (case mc_eviction c of
        EvictLRU \<Rightarrow> lru_loop None [] (range_entries ro (mc_data c))
      | EvictLFU \<Rightarrow> lfu_loop (- 1) [] (range_entries ro (mc_data c))
      | EvictRandom \<Rightarrow> (case range_entries ro (mc_data c) of [] \<Rightarrow> [] | (k, v) # es \<Rightarrow> k))"

definition MemoryCache_evict :: "(string list \<Rightarrow> string list) \<Rightarrow> MemoryCache \<Rightarrow> MemoryCache" where
  "MemoryCache_evict ro c =
     (if mc_data c = [] then c
      else
        let keyToDelete = victim ro c
        in if keyToDelete \<noteq> [] then c\<lparr>mc_data := mdel (mc_data c) keyToDelete\<rparr> else c)"

definition MemoryCache_Set ::
    "(string list \<Rightarrow> string list) \<Rightarrow> int \<Rightarrow> MemoryCache \<Rightarrow> string \<Rightarrow> gvalue \<Rightarrow> goint \<Rightarrow> MemoryCache" where
  "MemoryCache_Set ro now c key value ttl =
     (let c1 = (if int (length (mc_data c)) \<ge> sint (mc_maxSize c) then MemoryCache_evict ro c else c);
          expiration = (if sint ttl > 0 then Some (now + sint ttl) else None)
      in c1\<lparr>mc_data := mput (mc_data c1) key
           \<lparr>ent_value = value, ent_expiration = expiration, ent_lastAccess = now, ent_hits = 0\<rparr>\<rparr>)"

definition MemoryCache_Delete :: "MemoryCache \<Rightarrow> string \<Rightarrow> MemoryCache" where
  "MemoryCache_Delete c key = c\<lparr>mc_data := mdel (mc_data c) key\<rparr>"

definition MemoryCache_Clear :: "MemoryCache \<Rightarrow> MemoryCache" where
  "MemoryCache_Clear c = c\<lparr>mc_data := []\<rparr>"

section \<open>The cache that stores nothing\<close>

definition NoopCache_Get :: "unit \<Rightarrow> string \<Rightarrow> gvalue option \<times> unit" where
  "NoopCache_Get n key = (None, n)"

definition NoopCache_Set :: "unit \<Rightarrow> string \<Rightarrow> gvalue \<Rightarrow> goint \<Rightarrow> unit" where
  "NoopCache_Set n key value ttl = n"

definition NoopCache_Delete :: "unit \<Rightarrow> string \<Rightarrow> unit" where
  "NoopCache_Delete n key = n"

section \<open>The caching executor\<close>

text \<open>
  \<open>marshal\<close> is \<open>json.Marshal\<close> (\<open>None\<close> for an error) and \<open>sha\<close> the SHA-256 digest in hexadecimal.  A cache
  is given by its \<open>Get\<close> and \<open>Set\<close>, which act on the state of the cache.
\<close>

record CachePolicy =
  cpo_KeyFunc :: "(gvalue \<Rightarrow> string) option"
  cpo_TTL :: "goint option"

definition GenerateCacheKey :: "(gvalue \<Rightarrow> string option) \<Rightarrow> (string \<Rightarrow> string) \<Rightarrow> string \<Rightarrow> gvalue \<Rightarrow> string" where
  "GenerateCacheKey marshal sha nodeName input =
     (case marshal input of
        None \<Rightarrow> nodeName @ '':'' @ fmt_T input
      | Some data \<Rightarrow> nodeName @ '':'' @ sha data)"

definition cache_key ::
    "(gvalue \<Rightarrow> string option) \<Rightarrow> (string \<Rightarrow> string) \<Rightarrow> CachePolicy option \<Rightarrow> string \<Rightarrow> gvalue \<Rightarrow> string" where
  "cache_key marshal sha cachePolicy nodeName input =
     (case cachePolicy of
        Some p \<Rightarrow> (case cpo_KeyFunc p of Some f \<Rightarrow> f input | None \<Rightarrow> GenerateCacheKey marshal sha nodeName input)
      | None \<Rightarrow> GenerateCacheKey marshal sha nodeName input)"

definition policy_ttl :: "CachePolicy option \<Rightarrow> goint" where
  "policy_ttl cachePolicy = (case cachePolicy of Some p \<Rightarrow> case_option 0 id (cpo_TTL p) | None \<Rightarrow> 0)"

definition CachedExecutor_Execute ::
    "('c \<Rightarrow> string \<Rightarrow> gvalue option \<times> 'c) \<Rightarrow> ('c \<Rightarrow> string \<Rightarrow> gvalue \<Rightarrow> goint \<Rightarrow> 'c) \<Rightarrow> (gvalue \<Rightarrow> string option) \<Rightarrow> (string \<Rightarrow> string) \<Rightarrow>
     CachePolicy option \<Rightarrow> 'c \<Rightarrow> string \<Rightarrow> gvalue \<Rightarrow> (gvalue \<Rightarrow> gerror + gvalue) \<Rightarrow> (gerror + gvalue) \<times> 'c" where
  "CachedExecutor_Execute get put marshal sha cachePolicy cache nodeName input fn =
     (let key = cache_key marshal sha cachePolicy nodeName input in
      case get cache key of
        (Some cached, cache1) \<Rightarrow> (Inr cached, cache1)
      | (None, cache1) \<Rightarrow>
          (case fn input of
             Inl err \<Rightarrow> (Inl err, cache1)
           | Inr result \<Rightarrow> (Inr result, put cache1 key result (policy_ttl cachePolicy))))"

section \<open>Sizes\<close>

lemma length_mput: "mwf m \<Longrightarrow> length (mput m k v) = (if mhas m k then length m else Suc (length m))"
  by (induction m) (auto simp: mhas_def mwf_Cons)

lemma length_mdel: "mwf m \<Longrightarrow> mhas m k \<Longrightarrow> length (mdel m k) = length m - 1"
proof (induction m)
  case (Cons e m)
  have rest: "mdel m k = m" if "fst e = k"
    using Cons.prems(1) that by (auto simp: mwf_Cons mdel_def intro!: filter_True)
  show ?case
  proof (cases "fst e = k")
    case True
    then show ?thesis using rest by (auto simp: mdel_def)
  next
    case False
    then have "mhas m k" using Cons.prems by (auto simp: mhas_def)
    then have "length (mdel m k) = length m - 1" "m \<noteq> []" using Cons by (auto simp: mwf_Cons mhas_def)
    then show ?thesis using False by (cases m) (auto simp: mdel_def)
  qed
qed (simp add: mhas_def)

text \<open>The key chosen for eviction is a key of the cache.\<close>

lemma lru_loop_mem: "lru_loop oldest k0 es \<in> insert k0 (fst ` set es)"
  by (induction oldest k0 es rule: lru_loop.induct) auto

lemma lfu_loop_mem: "lfu_loop m k0 es \<in> insert k0 (fst ` set es)"
  by (induction m k0 es rule: lfu_loop.induct) auto

lemma victim_mem:
  assumes "range_order ro" and "mc_data c \<noteq> []"
  shows "mhas (mc_data c) (victim ro c)"
proof -
  let ?es = "range_entries ro (mc_data c)"
  obtain k v where "mget (mc_data c) k = Some v"
    using assms(2) by (metis list.exhaust mget_Cons)
  then have "(k, v) \<in> set ?es" by (simp add: range_entries_mem [OF assms(1)])
  then obtain k1 v1 es where es: "?es = (k1, v1) # es" by (cases ?es) auto
  have "lru_loop None [] ?es \<in> fst ` set ?es" "lfu_loop (- 1) [] ?es \<in> fst ` set ?es"
    unfolding es using lru_loop_mem [of _ k1 es] lfu_loop_mem [of _ k1 es] by auto
  then have "victim ro c \<in> fst ` set ?es"
    by (cases "mc_eviction c") (auto simp: victim_def es)
  then show ?thesis by (auto simp: mhas_mget range_entries_mem [OF assms(1)])
qed

lemma evict_data:
  assumes "range_order ro" and "mc_data c \<noteq> []" and "\<not> mhas (mc_data c) []"
  shows "mc_data (MemoryCache_evict ro c) = mdel (mc_data c) (victim ro c)"
  using victim_mem [OF assms(1,2)] assms(2,3) by (auto simp: MemoryCache_evict_def Let_def)

lemma mc_frame [simp]:
  "mc_maxSize (MemoryCache_evict ro c) = mc_maxSize c" "mc_eviction (MemoryCache_evict ro c) = mc_eviction c"
  "mc_maxSize (MemoryCache_Set ro now c key value ttl) = mc_maxSize c"
  "mc_maxSize (snd (MemoryCache_Get now c key)) = mc_maxSize c"
  by (auto simp: MemoryCache_evict_def MemoryCache_Set_def MemoryCache_Get_def Let_def split: option.splits)

text \<open>The invariant of a cache whose keys are not empty: at most \<open>maxSize\<close> entries, or one.\<close>

definition cache_inv :: "MemoryCache \<Rightarrow> bool" where
  "cache_inv c \<longleftrightarrow> mwf (mc_data c) \<and> \<not> mhas (mc_data c) [] \<and> int (length (mc_data c)) \<le> max 1 (sint (mc_maxSize c))"

lemma set_inv:
  assumes "range_order ro" and "cache_inv c" and "key \<noteq> []"
  shows "cache_inv (MemoryCache_Set ro now c key value ttl)"
proof -
  define c1 where "c1 = (if int (length (mc_data c)) \<ge> sint (mc_maxSize c) then MemoryCache_evict ro c else c)"
  have keys: "mwf (mc_data c)" "\<not> mhas (mc_data c) []" using assms(2) by (auto simp: cache_inv_def)
  have c1: "mwf (mc_data c1)" "\<not> mhas (mc_data c1) []" "int (length (mc_data c1)) < max 1 (sint (mc_maxSize c))"
  proof -
    show "mwf (mc_data c1)" "\<not> mhas (mc_data c1) []"
      using keys by (auto simp: c1_def MemoryCache_evict_def Let_def mhas_mget)
    have "int (length (mc_data (MemoryCache_evict ro c))) < max 1 (sint (mc_maxSize c))"
    proof (cases "mc_data c = []")
      case True
      then show ?thesis by (simp add: MemoryCache_evict_def)
    next
      case False
      then have "length (mc_data (MemoryCache_evict ro c)) = length (mc_data c) - 1"
        using evict_data [OF assms(1) False keys(2)] length_mdel [OF keys(1) victim_mem [OF assms(1) False]] by simp
      then show ?thesis using assms(2) False by (auto simp: cache_inv_def)
    qed
    then show "int (length (mc_data c1)) < max 1 (sint (mc_maxSize c))" by (simp add: c1_def)
  qed
  have "mc_maxSize c1 = mc_maxSize c" by (simp add: c1_def)
  with c1 show ?thesis
    unfolding cache_inv_def MemoryCache_Set_def c1_def [symmetric] Let_def
    using assms(3) by (simp add: length_mput mhas_mget mwf_mput)
qed

lemma get_inv: "cache_inv c \<Longrightarrow> cache_inv (snd (MemoryCache_Get now c key))"
  by (auto simp: cache_inv_def MemoryCache_Get_def length_mput mhas_mget split: option.splits)

lemma mhas_mdel: "mhas (mdel m k) k' \<longleftrightarrow> k' \<noteq> k \<and> mhas m k'"
  by (auto simp: mhas_mget)

lemma delete_inv: "cache_inv c \<Longrightarrow> cache_inv (MemoryCache_Delete c key)"
  using length_filter_le [of "\<lambda>e. fst e \<noteq> key" "mc_data c"]
  by (auto simp: cache_inv_def MemoryCache_Delete_def mhas_mdel mdel_def [symmetric])

text \<open>The states a cache can reach by calls with keys that are not empty.\<close>

inductive cache_step :: "MemoryCache \<Rightarrow> MemoryCache \<Rightarrow> bool" where
  step_get: "cache_step c (snd (MemoryCache_Get now c key))"
| step_set: "range_order ro \<Longrightarrow> key \<noteq> [] \<Longrightarrow> cache_step c (MemoryCache_Set ro now c key value ttl)"
| step_delete: "cache_step c (MemoryCache_Delete c key)"
| step_clear: "cache_step c (MemoryCache_Clear c)"

lemma cache_step_inv: "cache_step c c' \<Longrightarrow> cache_inv c \<Longrightarrow> cache_inv c' \<and> mc_maxSize c' = mc_maxSize c"
  by (induction rule: cache_step.induct)
    (auto simp: set_inv get_inv delete_inv, auto simp: MemoryCache_Delete_def MemoryCache_Clear_def cache_inv_def mhas_def)

lemma cache_steps_inv: "cache_step\<^sup>*\<^sup>* c c' \<Longrightarrow> cache_inv c \<Longrightarrow> cache_inv c' \<and> mc_maxSize c' = mc_maxSize c"
  by (induction rule: rtranclp_induct) (use cache_step_inv in force)+

text \<open>The two loops find a minimum.\<close>

lemma lru_loop_least:
  assumes "\<forall>k v. (k, v) \<in> set es \<longrightarrow> m k = Some v" and "\<forall>t. oldest = Some t \<longrightarrow> (\<exists>v. m k0 = Some v \<and> ent_lastAccess v = t)"
    and "es \<noteq> [] \<or> oldest \<noteq> None"
  shows "\<exists>v. m (lru_loop oldest k0 es) = Some v \<and> (\<forall>t. oldest = Some t \<longrightarrow> ent_lastAccess v \<le> t) \<and>
    (\<forall>e\<in>set es. ent_lastAccess v \<le> ent_lastAccess (snd e))"
  using assms
proof (induction oldest k0 es rule: lru_loop.induct)
  case (2 oldest k0 k v es)
  have tail: "\<forall>k v. (k, v) \<in> set es \<longrightarrow> m k = Some v" and kv: "m k = Some v" using 2(3) by auto
  show ?case
  proof (cases "oldest = None \<or> ent_lastAccess v < the oldest")
    case True
    from 2(1) [OF True tail] kv show ?thesis using True by fastforce
  next
    case False
    from 2(2) [OF False tail 2(4)] show ?thesis using False by fastforce
  qed
qed auto

lemma lfu_loop_least:
  assumes "\<forall>k v. (k, v) \<in> set es \<longrightarrow> m k = Some v \<and> 0 \<le> sint (ent_hits v)"
    and "h \<noteq> - 1 \<longrightarrow> (\<exists>v. m k0 = Some v \<and> ent_hits v = h)" and "es \<noteq> [] \<or> h \<noteq> - 1"
  shows "\<exists>v. m (lfu_loop h k0 es) = Some v \<and> (h \<noteq> - 1 \<longrightarrow> sint (ent_hits v) \<le> sint h) \<and>
    (\<forall>e\<in>set es. sint (ent_hits v) \<le> sint (ent_hits (snd e)))"
  using assms
proof (induction h k0 es rule: lfu_loop.induct)
  case (2 h k0 k v es)
  have tail: "\<forall>k v. (k, v) \<in> set es \<longrightarrow> m k = Some v \<and> 0 \<le> sint (ent_hits v)" and kv: "m k = Some v" "0 \<le> sint (ent_hits v)"
    using 2(3) by auto
  then have "ent_hits v \<noteq> - 1" by (metis sint_n1 not_one_le_zero neg_0_le_iff_le)
  show ?case
  proof (cases "h = - 1 \<or> sint (ent_hits v) < sint h")
    case True
    from 2(1) [OF True tail] kv \<open>ent_hits v \<noteq> - 1\<close> show ?thesis using True by fastforce
  next
    case False
    from 2(2) [OF False tail 2(4)] show ?thesis using False by fastforce
  qed
qed auto

section \<open>The contract of a cache and its client\<close>

text \<open>
  What the executor relies on: \<open>Get\<close> returns only a value the cache holds under the key, and values come
  into the cache by \<open>Set\<close> only.  The type \<open>'e\<close> stands for what a call takes from its surroundings, the
  time and the iteration order.  Nothing is promised about how long a value is kept.
\<close>

fun cached_calls ::
    "('e \<Rightarrow> 'c \<Rightarrow> string \<Rightarrow> gvalue option \<times> 'c) \<Rightarrow> ('e \<Rightarrow> 'c \<Rightarrow> string \<Rightarrow> gvalue \<Rightarrow> goint \<Rightarrow> 'c) \<Rightarrow> (gvalue \<Rightarrow> string option) \<Rightarrow> (string \<Rightarrow> string) \<Rightarrow>
     CachePolicy option \<Rightarrow> string \<Rightarrow> (gvalue \<Rightarrow> gerror + gvalue) \<Rightarrow> 'c \<Rightarrow> ('e \<times> gvalue) list \<Rightarrow> (gerror + gvalue) list" where
  "cached_calls get put marshal sha policy name fn c [] = []"
| "cached_calls get put marshal sha policy name fn c ((e, input) # calls) =
     (case CachedExecutor_Execute (get e) (put e) marshal sha policy c name input fn of
        (r, c') \<Rightarrow> r # cached_calls get put marshal sha policy name fn c' calls)"

locale node_cache =
  fixes get :: "'e \<Rightarrow> 'c \<Rightarrow> string \<Rightarrow> gvalue option \<times> 'c"
    and put :: "'e \<Rightarrow> 'c \<Rightarrow> string \<Rightarrow> gvalue \<Rightarrow> goint \<Rightarrow> 'c"
    and held :: "'c \<Rightarrow> string \<Rightarrow> gvalue option"
  assumes get_held: "get e c k = (Some v, c') \<Longrightarrow> held c k = Some v"
    and get_keeps: "held (snd (get e c k)) k' = Some v \<Longrightarrow> held c k' = Some v"
    and put_held: "held (put e c k v ttl) k' = Some w \<Longrightarrow> (k' = k \<and> w = v) \<or> held c k' = Some w"
begin

definition memo :: "(gvalue \<Rightarrow> string) \<Rightarrow> (gvalue \<Rightarrow> gerror + gvalue) \<Rightarrow> gvalue set \<Rightarrow> 'c \<Rightarrow> bool" where
  "memo key fn I c \<longleftrightarrow> (\<forall>k v. held c k = Some v \<longrightarrow> (\<exists>i\<in>I. key i = k \<and> fn i = Inr v))"

lemma execute_memo:
  assumes "memo (cache_key marshal sha policy name) fn I c" and "input \<in> I"
    and "\<forall>i\<in>I. \<forall>j\<in>I. cache_key marshal sha policy name i = cache_key marshal sha policy name j \<longrightarrow> fn i = fn j"
    and "CachedExecutor_Execute (get e) (put e) marshal sha policy c name input fn = (r, c')"
  shows "r = fn input \<and> memo (cache_key marshal sha policy name) fn I c'"
proof -
  let ?k = "cache_key marshal sha policy name input"
  obtain got c1 where g: "get e c ?k = (got, c1)" by (metis surj_pair)
  have c1: "memo (cache_key marshal sha policy name) fn I c1"
    using assms(1) get_keeps [of e c ?k] g unfolding memo_def by (metis snd_conv)
  show ?thesis
  proof (cases got)
    case None
    then show ?thesis
      using assms(2,4) g c1
      by (auto simp: CachedExecutor_Execute_def Let_def memo_def split: sum.splits dest!: put_held)
  next
    case (Some v)
    then have "held c ?k = Some v" using get_held g by simp
    then obtain i where "i \<in> I" "cache_key marshal sha policy name i = ?k" "fn i = Inr v"
      using assms(1) by (auto simp: memo_def)
    then have "fn input = Inr v" using assms(2,3) by metis
    then show ?thesis using assms(4) g c1 Some by (auto simp: CachedExecutor_Execute_def Let_def)
  qed
qed

lemma calls_transparent:
  assumes "memo (cache_key marshal sha policy name) fn I c" and "snd ` set calls \<subseteq> I"
    and "\<forall>i\<in>I. \<forall>j\<in>I. cache_key marshal sha policy name i = cache_key marshal sha policy name j \<longrightarrow> fn i = fn j"
  shows "cached_calls get put marshal sha policy name fn c calls = map (\<lambda>(e, input). fn input) calls"
  using assms(1,2)
proof (induction calls arbitrary: c)
  case (Cons call calls)
  obtain e input r c' where call: "call = (e, input)"
    and ex: "CachedExecutor_Execute (get e) (put e) marshal sha policy c name input fn = (r, c')" by (metis surj_pair)
  have "r = fn input" "memo (cache_key marshal sha policy name) fn I c'"
    using execute_memo [OF Cons.prems(1) _ assms(3) ex] Cons.prems(2) call by auto
  then show ?case using Cons call ex by simp
qed simp

end

definition memory_held :: "MemoryCache \<Rightarrow> string \<Rightarrow> gvalue option" where
  "memory_held c key = map_option ent_value (mget (mc_data c) key)"

type_synonym cache_env = "(string list \<Rightarrow> string list) \<times> int \<times> int"

text \<open>A call of the executor on the in-memory cache: iteration order, time of the lookup, time of the store.\<close>

definition memory_get :: "cache_env \<Rightarrow> MemoryCache \<Rightarrow> string \<Rightarrow> gvalue option \<times> MemoryCache" where
  "memory_get e = MemoryCache_Get (fst (snd e))"

definition memory_put :: "cache_env \<Rightarrow> MemoryCache \<Rightarrow> string \<Rightarrow> gvalue \<Rightarrow> goint \<Rightarrow> MemoryCache" where
  "memory_put e = MemoryCache_Set (fst e) (snd (snd e))"

interpretation memory_cache: node_cache memory_get memory_put memory_held
proof
  show "memory_held c k = Some v" if "memory_get e c k = (Some v, c')" for e c k v c'
    using that by (auto simp: memory_get_def MemoryCache_Get_def memory_held_def split: option.splits if_splits)
  show "memory_held c k' = Some v" if "memory_held (snd (memory_get e c k)) k' = Some v" for e c k k' v
    using that by (auto simp: memory_get_def MemoryCache_Get_def memory_held_def split: option.splits if_splits)
  show "(k' = k \<and> w = v) \<or> memory_held c k' = Some w" if "memory_held (memory_put e c k v ttl) k' = Some w" for e c k v ttl k' w
    using that by (auto simp: memory_put_def MemoryCache_Set_def MemoryCache_evict_def memory_held_def Let_def split: if_splits)
qed

interpretation noop_cache: node_cache "\<lambda>e::unit. NoopCache_Get" "\<lambda>e::unit. NoopCache_Set" "\<lambda>c k. None"
  by unfold_locales (auto simp: NoopCache_Get_def)

section \<open>Properties\<close>

text \<open>Caching does not change results.  However many calls are made through the executor with an in-memory cache,
  at whatever times, with whatever size and eviction policy, each returns what the node function returns
  for its input, as long as inputs with equal cache keys have equal results.\<close>

theorem cached_calls_transparent:
  assumes "\<forall>i\<in>snd ` set calls. \<forall>j\<in>snd ` set calls.
    cache_key marshal sha policy name i = cache_key marshal sha policy name j \<longrightarrow> fn i = fn j"
  shows "cached_calls memory_get memory_put marshal sha policy name fn (NewMemoryCache maxSize eviction) calls =
    map (\<lambda>(e, input). fn input) calls"
  by (rule memory_cache.calls_transparent [OF _ order_refl assms])
    (simp add: memory_cache.memo_def memory_held_def NewMemoryCache_def)

definition twice :: "gvalue \<Rightarrow> gerror + gvalue" where
  "twice v = (case v of GInt i \<Rightarrow> Inr (GInt (2 * i)) | _ \<Rightarrow> Inl (ErrorNew ''not an int''))"

definition digits :: "gvalue \<Rightarrow> string option" where
  "digits v = (case v of GInt i \<Rightarrow> Some (goint_digits i) | _ \<Rightarrow> None)"

theorem cached_calls_transparent_witness:
  "cached_calls memory_get memory_put digits id None ''n'' twice (NewMemoryCache 1 EvictLRU)
     [((\<lambda>ks. ks, 1, 2), GInt 3), ((\<lambda>ks. ks, 3, 4), GInt 3), ((\<lambda>ks. ks, 5, 6), GInt 4), ((\<lambda>ks. ks, 7, 8), GBool True)] =
   [Inr (GInt 6), Inr (GInt 6), Inr (GInt 8), Inl (ErrorNew ''not an int'')]"
proof -
  have "digits (GInt 3) = Some ''3''" "digits (GInt 4) = Some ''4''" "digits (GBool True) = None" "fmt_T (GBool True) = ''bool''" by code_simp+
  then show ?thesis
    using cached_calls_transparent [of "[((\<lambda>ks. ks, 1, 2), GInt 3), ((\<lambda>ks. ks, 3, 4), GInt 3), ((\<lambda>ks. ks, 5, 6), GInt 4),
        ((\<lambda>ks. ks, 7, 8), GBool True)]" digits id None "''n''" twice 1 EvictLRU]
    by (simp add: cache_key_def GenerateCacheKey_def twice_def)
qed

text \<open>The cache is bounded.  Whatever is stored, looked up, deleted and cleared under keys that are not empty, in any
  order and for every eviction policy and iteration order, at most \<open>maxSize\<close> entries are in the cache (one when
  \<open>maxSize\<close> is not positive).\<close>

theorem cache_bounded:
  assumes "cache_step\<^sup>*\<^sup>* (NewMemoryCache maxSize eviction) c"
  shows "int (length (mc_data c)) \<le> max 1 (sint maxSize)"
proof -
  have "cache_inv (NewMemoryCache maxSize eviction)" by (simp add: cache_inv_def NewMemoryCache_def mhas_def)
  from cache_steps_inv [OF assms this] show ?thesis by (auto simp: cache_inv_def NewMemoryCache_def)
qed

theorem cache_bounded_witness:
  "int (length (mc_data (MemoryCache_Set (\<lambda>ks. ks) 2 (MemoryCache_Set (\<lambda>ks. ks) 1 (NewMemoryCache 1 EvictLFU) ''a'' GNil 0) ''b'' GNil 0))) \<le> 1"
proof -
  let ?c0 = "NewMemoryCache 1 EvictLFU"
  have "cache_step\<^sup>*\<^sup>* ?c0 (MemoryCache_Set (\<lambda>ks. ks) 2 (MemoryCache_Set (\<lambda>ks. ks) 1 ?c0 ''a'' GNil 0) ''b'' GNil 0)"
    by (rule converse_rtranclp_into_rtranclp [OF step_set r_into_rtranclp [where r = cache_step, OF step_set]]) simp_all
  from cache_bounded [OF this] show ?thesis by simp
qed

text \<open>A full cache evicts by its policy: under LRU the entry whose last access is the oldest, under LFU one with the
  fewest hits, for every iteration order.\<close>

theorem evicts_by_policy:
  assumes "range_order ro" and "mc_data c \<noteq> []" and "\<not> mhas (mc_data c) []" and "mc_eviction c \<noteq> EvictRandom"
    and "\<forall>k e. mget (mc_data c) k = Some e \<longrightarrow> 0 \<le> sint (ent_hits e)"
  shows "\<exists>k e. mget (mc_data c) k = Some e \<and> mc_data (MemoryCache_evict ro c) = mdel (mc_data c) k \<and>
    (\<forall>k' e'. mget (mc_data c) k' = Some e' \<longrightarrow>
       (if mc_eviction c = EvictLRU then ent_lastAccess e \<le> ent_lastAccess e' else sint (ent_hits e) \<le> sint (ent_hits e')))"
proof -
  let ?es = "range_entries ro (mc_data c)" and ?m = "mget (mc_data c)"
  note mem = range_entries_mem [OF assms(1), of _ _ "mc_data c"]
  have ne: "?es \<noteq> []"
    using victim_mem [OF assms(1,2)] mem by (auto simp: mhas_mget)
  have lru: "\<exists>v. ?m (lru_loop None [] ?es) = Some v \<and> (\<forall>e\<in>set ?es. ent_lastAccess v \<le> ent_lastAccess (snd e))"
    using lru_loop_least [of ?es ?m None "[]"] mem ne by simp
  have lfu: "\<exists>v. ?m (lfu_loop (- 1) [] ?es) = Some v \<and> (\<forall>e\<in>set ?es. sint (ent_hits v) \<le> sint (ent_hits (snd e)))"
    using lfu_loop_least [of ?es ?m "- 1" "[]"] mem ne assms(5) by simp
  show ?thesis
  proof (cases "mc_eviction c")
    case EvictLRU
    then show ?thesis using lru mem evict_data [OF assms(1-3)] by (fastforce simp: victim_def)
  next
    case EvictLFU
    then show ?thesis using lfu mem evict_data [OF assms(1-3)] by (fastforce simp: victim_def)
  qed (use assms(4) in simp)
qed

theorem evicts_by_policy_witness:
  "mget (mc_data (MemoryCache_evict rev (MemoryCache_Set rev 2 (MemoryCache_Set rev 1 (NewMemoryCache 2 EvictLRU) ''a'' GNil 0) ''b'' GNil 0))) ''a'' = None"
proof -
  let ?c = "MemoryCache_Set rev 2 (MemoryCache_Set rev 1 (NewMemoryCache 2 EvictLRU) ''a'' GNil 0) ''b'' GNil 0"
  have c: "?c = \<lparr>mc_data = [(''a'', \<lparr>ent_value = GNil, ent_expiration = None, ent_lastAccess = 1, ent_hits = 0\<rparr>),
      (''b'', \<lparr>ent_value = GNil, ent_expiration = None, ent_lastAccess = 2, ent_hits = 0\<rparr>)], mc_maxSize = 2, mc_eviction = EvictLRU\<rparr>"
    by code_simp
  have "\<exists>k e. mget (mc_data ?c) k = Some e \<and> mc_data (MemoryCache_evict rev ?c) = mdel (mc_data ?c) k \<and>
      (\<forall>k' e'. mget (mc_data ?c) k' = Some e' \<longrightarrow>
         (if mc_eviction ?c = EvictLRU then ent_lastAccess e \<le> ent_lastAccess e' else sint (ent_hits e) \<le> sint (ent_hits e')))"
    by (rule evicts_by_policy) (simp_all add: c mhas_def mget_Cons split: if_splits)
  then obtain k e where ke: "mget (mc_data ?c) k = Some e" "mc_data (MemoryCache_evict rev ?c) = mdel (mc_data ?c) k"
    and least: "\<forall>k' e'. mget (mc_data ?c) k' = Some e' \<longrightarrow> ent_lastAccess e \<le> ent_lastAccess e'"
    by (auto simp: c)
  have "mget (mc_data ?c) ''a'' = Some \<lparr>ent_value = GNil, ent_expiration = None, ent_lastAccess = 1, ent_hits = 0\<rparr>"
    by (simp add: c mget_Cons)
  with least have "ent_lastAccess e \<le> 1" by fastforce
  then have "k = ''a''" using ke(1) by (auto simp: c mget_Cons split: if_splits)
  then show ?thesis using ke(2) by simp
qed

text \<open>Storing under a key that is already in a full cache evicts an entry all the same: here the entry of another key, so
  the cache loses a value without need.\<close>

theorem overwriting_evicts:
  "memory_held (MemoryCache_Set (\<lambda>ks. ks) 3 (MemoryCache_Set (\<lambda>ks. ks) 2
     (MemoryCache_Set (\<lambda>ks. ks) 1 (NewMemoryCache 2 EvictLRU) ''a'' (GBool True) 0) ''b'' GNil 0) ''b'' GNil 0) ''a'' = None"
  by code_simp

text \<open>For inputs that \<open>json.Marshal\<close> rejects the key consists of the node and the type of the input: two inputs of one
  type share a key and the second call returns the result of the first.\<close>

theorem fallback_key_collides:
  "cached_calls memory_get memory_put (\<lambda>_. None) id None ''n'' twice (NewMemoryCache 1 EvictLRU)
     [((\<lambda>ks. ks, 1, 2), GInt 3), ((\<lambda>ks. ks, 3, 4), GInt 4)] = [Inr (GInt 6), Inr (GInt 6)]"
  by code_simp

end
