(* ===== verification/ChannelIO.thy ===== *)
theory ChannelIO
  imports Registry
begin

text \<open>
  Channel access of nodes: \<open>ChannelWrite\<close>, its transformers and validators, \<open>WriteBatch\<close> and
  \<open>WriteContext\<close> of \<open>pregel/write.go\<close>, and \<open>ChannelRead\<close>, its selectors and transformers, triggers
  and \<open>ReadContext\<close> of \<open>pregel/read.go\<close>.  The registry, which readers and writers share by pointer,
  is passed explicitly.  A value of a Go interface is the function its one method is; a nil interface
  is \<open>None\<close>.  \<open>Transform\<close> of a writer returns the transformed entry and the entry it was given, because
  \<open>MetadataWriteTransformer\<close> writes into a map the two share.  Batches hold entries by value: the
  metadata of an entry, which no write reads, is not shared between a batch and the writer.
\<close>

section \<open>Writing\<close>

record ChannelWriteEntry =
  we_Channel :: string
  we_Value :: gvalue
  we_Overwrite :: bool
  we_Node :: string
  we_Metadata :: "gvalue gomap option"

type_synonym WriteTransformer = "ChannelWriteEntry \<Rightarrow> (gerror + ChannelWriteEntry) \<times> ChannelWriteEntry"
type_synonym WriteValidator = "ChannelWriteEntry \<Rightarrow> gerror option"

subsection \<open>Transformers\<close>

definition IdentityWriteTransformer_Transform :: WriteTransformer where
  "IdentityWriteTransformer_Transform entry = (Inr entry, entry)"

definition MappingWriteTransformer_Transform :: "string gomap \<Rightarrow> WriteTransformer" where
  "MappingWriteTransformer_Transform mappings entry =
     (case mget mappings (we_Channel entry) of
        Some newName \<Rightarrow> (Inr (entry\<lparr>we_Channel := newName\<rparr>), entry)
      | None \<Rightarrow> (Inr entry, entry))"

definition PrefixWriteTransformer_Transform :: "string \<Rightarrow> WriteTransformer" where
  "PrefixWriteTransformer_Transform pre entry = (Inr (entry\<lparr>we_Channel := pre @ we_Channel entry\<rparr>), entry)"

definition MetadataWriteTransformer_Transform :: "gvalue gomap \<Rightarrow> WriteTransformer" where
  "MetadataWriteTransformer_Transform metadata entry =
     (case we_Metadata entry of
        None \<Rightarrow> (Inr (entry\<lparr>we_Metadata := Some (mputs [] metadata)\<rparr>), entry)
      | Some m \<Rightarrow> let shared = entry\<lparr>we_Metadata := Some (mputs m metadata)\<rparr> in (Inr shared, shared))"

definition NodeWriteTransformer_Transform :: "string \<Rightarrow> WriteTransformer" where
  "NodeWriteTransformer_Transform node entry =
     (if we_Node entry = [] then (Inr (entry\<lparr>we_Node := node\<rparr>), entry) else (Inr entry, entry))"

definition FilterWriteTransformer_Transform :: "(ChannelWriteEntry \<Rightarrow> bool) option \<Rightarrow> WriteTransformer" where
  "FilterWriteTransformer_Transform predicate entry =
     (case predicate of
        Some p \<Rightarrow> if \<not> p entry then (Inl (WriteSkipError (we_Channel entry)), entry) else (Inr entry, entry)
      | None \<Rightarrow> (Inr entry, entry))"

fun IsWriteSkipError :: "gerror \<Rightarrow> bool" where
  "IsWriteSkipError (WriteSkipError c) = True"
| "IsWriteSkipError _ = False"

subsection \<open>Validators\<close>

definition NoOpValidator_Validate :: WriteValidator where
  "NoOpValidator_Validate entry = None"

definition TypeWriteValidator_Validate :: "gvalue gomap \<Rightarrow> WriteValidator" where
  "TypeWriteValidator_Validate types entry =
     (case mget types (we_Channel entry) of
        Some expectedType \<Rightarrow>
          if we_Value entry \<noteq> GNil \<and> fmt_T (we_Value entry) \<noteq> fmt_T expectedType
          then Some (WriteValidationError (we_Channel entry)
                 (''expected type '' @ fmt_T expectedType @ '', got '' @ fmt_T (we_Value entry)))
          else None
      | None \<Rightarrow> None)"

definition NonNullWriteValidator_Validate :: "string list \<Rightarrow> WriteValidator" where
  "NonNullWriteValidator_Validate whitelist entry =
     (if we_Channel entry \<in> set whitelist then None
      else if we_Value entry = GNil then Some (WriteValidationError (we_Channel entry) ''value cannot be nil'')
      else None)"

definition value_length :: "gvalue \<Rightarrow> nat option" where
  "value_length v = (case v of GSlice vs \<Rightarrow> Some (length vs) | GString s \<Rightarrow> Some (length s) | GMap m \<Rightarrow> Some (length m) | _ \<Rightarrow> None)"

definition LengthWriteValidator_Validate :: "goint gomap \<Rightarrow> goint gomap \<Rightarrow> WriteValidator" where
  "LengthWriteValidator_Validate minLengths maxLengths entry =
     (case value_length (we_Value entry) of
        None \<Rightarrow> None
      | Some l \<Rightarrow>
          let lo = mget minLengths (we_Channel entry); hi = mget maxLengths (we_Channel entry) in
          if (case lo of Some m \<Rightarrow> int l < sint m | None \<Rightarrow> False)
          then Some (WriteValidationError (we_Channel entry)
                 (''length '' @ nat_digits l @ '' is less than minimum '' @ goint_digits (the lo)))
          else if (case hi of Some m \<Rightarrow> int l > sint m | None \<Rightarrow> False)
          then Some (WriteValidationError (we_Channel entry)
                 (''length '' @ nat_digits l @ '' exceeds maximum '' @ goint_digits (the hi)))
          else None)"

subsection \<open>The writer\<close>

record ChannelWrite =
  cw_entries :: "ChannelWriteEntry list"
  cw_transformer :: "WriteTransformer option"
  cw_validator :: "WriteValidator option"

definition NewChannelWrite :: "(ChannelWrite \<Rightarrow> ChannelWrite) list \<Rightarrow> ChannelWrite" where
  "NewChannelWrite opts = fold (\<lambda>opt cw. opt cw) opts
     \<lparr>cw_entries = [], cw_transformer = Some IdentityWriteTransformer_Transform, cw_validator = Some NoOpValidator_Validate\<rparr>"

definition WithWriteTransformer :: "WriteTransformer option \<Rightarrow> ChannelWrite \<Rightarrow> ChannelWrite" where
  "WithWriteTransformer transformer cw = cw\<lparr>cw_transformer := transformer\<rparr>"

definition WithValidator :: "WriteValidator option \<Rightarrow> ChannelWrite \<Rightarrow> ChannelWrite" where
  "WithValidator validator cw = cw\<lparr>cw_validator := validator\<rparr>"

definition ChannelWrite_AddEntry :: "ChannelWrite \<Rightarrow> ChannelWriteEntry \<Rightarrow> ChannelWrite" where
  "ChannelWrite_AddEntry cw entry = cw\<lparr>cw_entries := cw_entries cw @ [entry]\<rparr>"

definition ChannelWrite_AddEntries :: "ChannelWrite \<Rightarrow> ChannelWriteEntry list \<Rightarrow> ChannelWrite" where
  "ChannelWrite_AddEntries cw entries = cw\<lparr>cw_entries := cw_entries cw @ entries\<rparr>"

definition write_entry :: "string \<Rightarrow> string \<Rightarrow> gvalue \<Rightarrow> bool \<Rightarrow> ChannelWriteEntry" where
  "write_entry node ch value overwrite =
     \<lparr>we_Channel = ch, we_Value = value, we_Overwrite = overwrite, we_Node = node, we_Metadata = None\<rparr>"

definition ChannelWrite_WriteTo :: "ChannelWrite \<Rightarrow> string \<Rightarrow> gvalue \<Rightarrow> ChannelWrite" where
  "ChannelWrite_WriteTo cw ch value = ChannelWrite_AddEntry cw (write_entry [] ch value False)"

definition ChannelWrite_Overwrite :: "ChannelWrite \<Rightarrow> string \<Rightarrow> gvalue \<Rightarrow> ChannelWrite" where
  "ChannelWrite_Overwrite cw ch value = ChannelWrite_AddEntry cw (write_entry [] ch value True)"

definition ChannelWrite_WriteNode :: "ChannelWrite \<Rightarrow> string \<Rightarrow> string \<Rightarrow> gvalue \<Rightarrow> ChannelWrite" where
  "ChannelWrite_WriteNode cw node ch value = ChannelWrite_AddEntry cw (write_entry node ch value False)"

text \<open>Validation and transformation of one entry; the second component is the entry afterwards.\<close>

definition prepare_entry ::
    "WriteValidator option \<Rightarrow> WriteTransformer option \<Rightarrow> ChannelWriteEntry \<Rightarrow> (gerror + ChannelWriteEntry) \<times> ChannelWriteEntry" where
  "prepare_entry validator transformer entry =
     (case (case validator of Some v \<Rightarrow> v entry | None \<Rightarrow> None) of
        Some err \<Rightarrow> (Inl (ErrorWrap (''validation failed for channel '' @ we_Channel entry) err), entry)
      | None \<Rightarrow>
          (case transformer of
             None \<Rightarrow> (Inr entry, entry)
           | Some t \<Rightarrow>
               (case t entry of
                  (Inl err, entry') \<Rightarrow> (Inl (ErrorWrap (''transformation failed for channel '' @ we_Channel entry') err), entry')
                | (Inr transformed, entry') \<Rightarrow> (Inr transformed, entry'))))"

text \<open>The update of the channel a transformed entry names.\<close>

definition apply_entry :: "Registry \<Rightarrow> ChannelWriteEntry \<Rightarrow> (gerror + bool) \<times> Registry" where
  "apply_entry r transformed =
     (case Registry_Get r (we_Channel transformed) of
        None \<Rightarrow> (Inl (ErrorNew (''channel not found: '' @ we_Channel transformed)), r)
      | Some ch \<Rightarrow>
          let value = (if we_Overwrite transformed then GOverwrite (we_Value transformed) else we_Value transformed) in
          (case Channel_Update ch [value] of
             (Inl err, ch') \<Rightarrow> (Inl (ErrorWrap (''failed to update channel '' @ we_Channel transformed) err),
                Registry_Register r (we_Channel transformed) ch')
           | (Inr wasUpdated, ch') \<Rightarrow> (Inr wasUpdated, Registry_Register r (we_Channel transformed) ch')))"

fun write_loop ::
    "WriteValidator option \<Rightarrow> WriteTransformer option \<Rightarrow> bool gomap \<Rightarrow> Registry \<Rightarrow> ChannelWriteEntry list \<Rightarrow>
     (gerror + bool gomap) \<times> Registry \<times> ChannelWriteEntry list" where
  "write_loop validator transformer updated r [] = (Inr updated, r, [])"
| "write_loop validator transformer updated r (entry # entries) =
     (case prepare_entry validator transformer entry of
        (Inl err, entry') \<Rightarrow> (Inl err, r, entry' # entries)
      | (Inr transformed, entry') \<Rightarrow>
          (case apply_entry r transformed of
             (Inl err, r') \<Rightarrow> (Inl err, r', entry' # entries)
           | (Inr wasUpdated, r') \<Rightarrow>
               (case write_loop validator transformer
                       (if wasUpdated then mput updated (we_Channel transformed) True else updated) r' entries of
                  (res, r'', entries') \<Rightarrow> (res, r'', entry' # entries'))))"

definition ChannelWrite_Write :: "ChannelWrite \<Rightarrow> Registry \<Rightarrow> (gerror + bool gomap) \<times> ChannelWrite \<times> Registry" where
  "ChannelWrite_Write cw r =
     (case write_loop (cw_validator cw) (cw_transformer cw) [] r (cw_entries cw) of
        (Inl err, r', entries') \<Rightarrow> (Inl err, cw\<lparr>cw_entries := entries'\<rparr>, r')
      | (Inr updated, r', entries') \<Rightarrow> (Inr updated, cw\<lparr>cw_entries := []\<rparr>, r'))"

definition ChannelWrite_Clear :: "ChannelWrite \<Rightarrow> ChannelWrite" where
  "ChannelWrite_Clear cw = cw\<lparr>cw_entries := []\<rparr>"

definition ChannelWrite_EntryCount :: "ChannelWrite \<Rightarrow> nat" where
  "ChannelWrite_EntryCount cw = length (cw_entries cw)"

definition ChannelWrite_GetEntries :: "ChannelWrite \<Rightarrow> ChannelWriteEntry list" where
  "ChannelWrite_GetEntries cw = cw_entries cw"

subsection \<open>Batches and contexts\<close>

record WriteBatch =
  wb_entries :: "ChannelWriteEntry list"

definition NewWriteBatch :: WriteBatch where
  "NewWriteBatch = \<lparr>wb_entries = []\<rparr>"

definition WriteBatch_Add :: "WriteBatch \<Rightarrow> ChannelWriteEntry \<Rightarrow> WriteBatch" where
  "WriteBatch_Add b entry = b\<lparr>wb_entries := wb_entries b @ [entry]\<rparr>"

definition WriteBatch_WriteTo :: "WriteBatch \<Rightarrow> string \<Rightarrow> gvalue \<Rightarrow> WriteBatch" where
  "WriteBatch_WriteTo b ch value = WriteBatch_Add b (write_entry [] ch value False)"

definition WriteBatch_Overwrite :: "WriteBatch \<Rightarrow> string \<Rightarrow> gvalue \<Rightarrow> WriteBatch" where
  "WriteBatch_Overwrite b ch value = WriteBatch_Add b (write_entry [] ch value True)"

definition WriteBatch_Entries :: "WriteBatch \<Rightarrow> ChannelWriteEntry list" where
  "WriteBatch_Entries b = wb_entries b"

definition WriteBatch_Size :: "WriteBatch \<Rightarrow> nat" where
  "WriteBatch_Size b = length (wb_entries b)"

definition WriteBatch_Clear :: "WriteBatch \<Rightarrow> WriteBatch" where
  "WriteBatch_Clear b = b\<lparr>wb_entries := []\<rparr>"

record WriteContext =
  wc_Node :: string
  wc_Step :: goint
  wc_Writer :: ChannelWrite
  wc_Batches :: "WriteBatch gomap"

definition NewWriteContext :: "string \<Rightarrow> goint \<Rightarrow> ChannelWrite \<Rightarrow> WriteContext" where
  "NewWriteContext node step writer = \<lparr>wc_Node = node, wc_Step = step, wc_Writer = writer, wc_Batches = []\<rparr>"

definition WriteContext_CreateBatch :: "WriteContext \<Rightarrow> string \<Rightarrow> WriteContext" where
  "WriteContext_CreateBatch wc name = wc\<lparr>wc_Batches := mput (wc_Batches wc) name NewWriteBatch\<rparr>"

definition WriteContext_GetBatch :: "WriteContext \<Rightarrow> string \<Rightarrow> WriteBatch option" where
  "WriteContext_GetBatch wc name = mget (wc_Batches wc) name"

definition WriteContext_Flush ::
    "(string list \<Rightarrow> string list) \<Rightarrow> WriteContext \<Rightarrow> Registry \<Rightarrow> (gerror + bool gomap) \<times> WriteContext \<times> Registry" where
  "WriteContext_Flush ro wc r =
     (let writer = fold (\<lambda>b cw. ChannelWrite_AddEntries cw (WriteBatch_Entries b))
            (map snd (range_entries ro (wc_Batches wc))) (wc_Writer wc);
          (res, writer', r') = ChannelWrite_Write writer r
      in (res, wc\<lparr>wc_Writer := writer'\<rparr>, r'))"

section \<open>Reading\<close>

type_synonym ChannelSelector = "(string list \<Rightarrow> string list) \<Rightarrow> Registry \<Rightarrow> gerror + string list"
type_synonym ChannelTransformer = "(string list \<Rightarrow> string list) \<Rightarrow> gvalue gomap \<Rightarrow> gerror + gvalue gomap"

subsection \<open>Selectors\<close>

definition AllChannelsSelector_Select :: ChannelSelector where
  "AllChannelsSelector_Select ro r = Inr (Registry_List ro r)"

definition SpecificChannelsSelector_Select :: "string list \<Rightarrow> ChannelSelector" where
  "SpecificChannelsSelector_Select names ro r = Inr (filter (\<lambda>name. Registry_Get r name \<noteq> None) names)"

definition PrefixChannelsSelector_Select :: "string \<Rightarrow> ChannelSelector" where
  "PrefixChannelsSelector_Select pre ro r =
     Inr (filter (\<lambda>name. length name \<ge> length pre \<and> take (length pre) name = pre) (Registry_List ro r))"

definition AvailableChannelsSelector_Select :: ChannelSelector where
  "AvailableChannelsSelector_Select ro r =
     Inr (filter (\<lambda>name. case Registry_Get r name of Some ch \<Rightarrow> Channel_IsAvailable ch | None \<Rightarrow> False) (Registry_List ro r))"

subsection \<open>Transformers of values\<close>

definition IdentityTransformer_Transform :: ChannelTransformer where
  "IdentityTransformer_Transform ro values = Inr values"

definition MappingTransformer_Transform :: "string gomap \<Rightarrow> ChannelTransformer" where
  "MappingTransformer_Transform mappings ro values =
     Inr (mputs [] (map (\<lambda>(oldName, value). (case mget mappings oldName of Some mapped \<Rightarrow> mapped | None \<Rightarrow> oldName, value))
       (range_entries ro values)))"

definition NewFilterTransformer :: "string list \<Rightarrow> bool gomap" where
  "NewFilterTransformer keep = mputs [] (map (\<lambda>name. (name, True)) keep)"

definition FilterTransformer_Transform :: "bool gomap \<Rightarrow> ChannelTransformer" where
  "FilterTransformer_Transform filt ro values =
     Inr (mputs [] (filter (\<lambda>(name, value). mget filt name = Some True) (range_entries ro values)))"

definition DefaultTransformer_Transform :: "gvalue gomap \<Rightarrow> ChannelTransformer" where
  "DefaultTransformer_Transform defaults ro values =
     (let result = mputs [] (map (\<lambda>(name, defValue). (name, case mget values name of Some value \<Rightarrow> value | None \<Rightarrow> defValue))
            (range_entries ro defaults))
      in Inr (fold (\<lambda>(name, value) m. if mhas m name then m else mput m name value) (range_entries ro values) result))"

definition MergingTransformer_Transform :: "string \<Rightarrow> (gvalue list \<Rightarrow> gerror + gvalue) \<Rightarrow> ChannelTransformer" where
  "MergingTransformer_Transform target merger ro values =
     (case merger (map snd (range_entries ro values)) of Inl err \<Rightarrow> Inl err | Inr merged \<Rightarrow> Inr [(target, merged)])"

subsection \<open>The reader\<close>

record ChannelRead =
  cr_selector :: ChannelSelector
  cr_transformer :: "ChannelTransformer option"

definition NewChannelRead :: "(ChannelRead \<Rightarrow> ChannelRead) list \<Rightarrow> ChannelRead" where
  "NewChannelRead opts = fold (\<lambda>opt cr. opt cr) opts
     \<lparr>cr_selector = AllChannelsSelector_Select, cr_transformer = Some IdentityTransformer_Transform\<rparr>"

definition WithSelector :: "ChannelSelector \<Rightarrow> ChannelRead \<Rightarrow> ChannelRead" where
  "WithSelector selector cr = cr\<lparr>cr_selector := selector\<rparr>"

definition WithTransformer :: "ChannelTransformer option \<Rightarrow> ChannelRead \<Rightarrow> ChannelRead" where
  "WithTransformer transformer cr = cr\<lparr>cr_transformer := transformer\<rparr>"

text \<open>Channels that cannot be read are left out; reading clears an \<open>EphemeralValue\<close>.\<close>

fun read_values :: "gvalue gomap \<Rightarrow> Registry \<Rightarrow> string list \<Rightarrow> gvalue gomap \<times> Registry" where
  "read_values values r [] = (values, r)"
| "read_values values r (name # names) =
     (case Registry_Get r name of
        None \<Rightarrow> read_values values r names
      | Some ch \<Rightarrow>
          (case Channel_Get ch of
             (Inl err, ch') \<Rightarrow> read_values values (Registry_Register r name ch') names
           | (Inr val, ch') \<Rightarrow> read_values (mput values name val) (Registry_Register r name ch') names))"

definition ChannelRead_Read ::
    "(string list \<Rightarrow> string list) \<Rightarrow> ChannelRead \<Rightarrow> Registry \<Rightarrow> (gerror + gvalue gomap) \<times> Registry" where
  "ChannelRead_Read ro cr r =
     (case cr_selector cr ro r of
        Inl err \<Rightarrow> (Inl (ErrorWrap ''channel selection failed'' err), r)
      | Inr channelNames \<Rightarrow>
          let (values, r') = read_values [] r channelNames in
          (case cr_transformer cr of
             None \<Rightarrow> (Inr values, r')
           | Some t \<Rightarrow>
               (case t ro values of
                  Inl err \<Rightarrow> (Inl (ErrorWrap ''channel transformation failed'' err), r')
                | Inr transformed \<Rightarrow> (Inr transformed, r'))))"

definition ChannelRead_ReadChannel :: "Registry \<Rightarrow> string \<Rightarrow> (gerror + gvalue) \<times> Registry" where
  "ChannelRead_ReadChannel r name =
     (case Registry_Get r name of
        Some ch \<Rightarrow> (let (res, ch') = Channel_Get ch in (res, Registry_Register r name ch'))
      | None \<Rightarrow> (Inl (ErrorNew (''channel not found: '' @ name)), r))"

definition ChannelRead_HasChannel :: "Registry \<Rightarrow> string \<Rightarrow> bool" where
  "ChannelRead_HasChannel r name \<longleftrightarrow> Registry_Get r name \<noteq> None"

definition ChannelRead_ListChannels :: "(string list \<Rightarrow> string list) \<Rightarrow> Registry \<Rightarrow> string list" where
  "ChannelRead_ListChannels ro r = Registry_List ro r"

subsection \<open>Triggers and contexts\<close>

datatype Trigger =
    AlwaysTrigger
  | AnyAvailableTrigger "string list"
  | AllAvailableTrigger "string list"
  | ChannelChangedTrigger string goint

definition NewChannelChangedTrigger :: "string \<Rightarrow> Trigger" where
  "NewChannelChangedTrigger ch = ChannelChangedTrigger ch (- 1)"

definition ch_available :: "Registry \<Rightarrow> string \<Rightarrow> bool" where
  "ch_available r name \<longleftrightarrow> (case Registry_Get r name of Some ch \<Rightarrow> Channel_IsAvailable ch | None \<Rightarrow> False)"

text \<open>\<open>ShouldTrigger\<close> returns the trigger too: a change trigger remembers the version it fired for.\<close>

fun ShouldTrigger :: "Trigger \<Rightarrow> Registry \<Rightarrow> bool \<times> Trigger" where
  "ShouldTrigger AlwaysTrigger r = (True, AlwaysTrigger)"
| "ShouldTrigger (AnyAvailableTrigger names) r = (list_ex (ch_available r) names, AnyAvailableTrigger names)"
| "ShouldTrigger (AllAvailableTrigger names) r = (list_all (ch_available r) names, AllAvailableTrigger names)"
| "ShouldTrigger (ChannelChangedTrigger name lastVersion) r =
     (case Registry_Get r name of
        None \<Rightarrow> (False, ChannelChangedTrigger name lastVersion)
      | Some ch \<Rightarrow>
          let version = Channel_GetVersion ch in
          if sint version \<ge> 0 \<and> version \<noteq> lastVersion then (True, ChannelChangedTrigger name version)
          else (sint version < 0 \<and> Channel_IsAvailable ch, ChannelChangedTrigger name lastVersion))"

record ReadContext =
  rx_Node :: string
  rx_Step :: goint
  rx_Triggers :: "Trigger list"
  rx_Readers :: "ChannelRead gomap"

definition NewReadContext :: "string \<Rightarrow> goint \<Rightarrow> ReadContext" where
  "NewReadContext node step = \<lparr>rx_Node = node, rx_Step = step, rx_Triggers = [], rx_Readers = []\<rparr>"

definition ReadContext_AddReader :: "ReadContext \<Rightarrow> string \<Rightarrow> ChannelRead \<Rightarrow> ReadContext" where
  "ReadContext_AddReader rc name reader = rc\<lparr>rx_Readers := mput (rx_Readers rc) name reader\<rparr>"

definition ReadContext_GetReader :: "ReadContext \<Rightarrow> string \<Rightarrow> ChannelRead option" where
  "ReadContext_GetReader rc name = mget (rx_Readers rc) name"

fun trigger_loop :: "Registry \<Rightarrow> Trigger list \<Rightarrow> bool \<times> Trigger list" where
  "trigger_loop r [] = (False, [])"
| "trigger_loop r (t # ts) =
     (let (fired, t') = ShouldTrigger t r in
      if fired then (True, t' # ts) else (let (b, ts') = trigger_loop r ts in (b, t' # ts')))"

definition ReadContext_ShouldExecute :: "ReadContext \<Rightarrow> Registry \<Rightarrow> bool \<times> ReadContext" where
  "ReadContext_ShouldExecute rc r =
     (if rx_Triggers rc = [] then (True, rc)
      else (let (b, ts) = trigger_loop r (rx_Triggers rc) in (b, rc\<lparr>rx_Triggers := ts\<rparr>)))"

fun readers_loop ::
    "(string list \<Rightarrow> string list) \<Rightarrow> gvalue gomap \<Rightarrow> Registry \<Rightarrow> (string \<times> ChannelRead) list \<Rightarrow> (gerror + gvalue gomap) \<times> Registry" where
  "readers_loop ro combined r [] = (Inr combined, r)"
| "readers_loop ro combined r ((name, reader) # rs) =
     (case ChannelRead_Read ro reader r of
        (Inl err, r') \<Rightarrow> (Inl (ErrorWrap (''reader '' @ name @ '' failed'') err), r')
      | (Inr values, r') \<Rightarrow>
          readers_loop ro (mputs combined (map (\<lambda>(k, v). (name @ ''.'' @ k, v)) (range_entries ro values))) r' rs)"

definition ReadContext_ReadAll ::
    "(string list \<Rightarrow> string list) \<Rightarrow> ReadContext \<Rightarrow> Registry \<Rightarrow> (gerror + gvalue gomap) \<times> Registry" where
  "ReadContext_ReadAll ro rc r = readers_loop ro [] r (range_entries ro (rx_Readers rc))"

section \<open>What a write changes\<close>

lemmas update_defs =
  LastValue_Update_def AnyValue_Update_def EphemeralValue_Update_def UntrackedValue_Update_def Topic_Update_def
  BinaryOperatorAggregate_Update_def NamedBarrierValue_Update_def NamedBarrierValueAfterFinish_Update_def
  LastValueAfterFinish_Update_def

lemma get_version [simp]: "Channel_GetVersion (snd (Channel_Get ch)) = Channel_GetVersion ch"
  by (induction ch) (auto simp: EphemeralValue_Get_def BaseChannel_GetVersion_def Let_def split: prod.splits if_splits)

text \<open>No update of a channel changes its version.\<close>

lemma update_version [simp]: "Channel_GetVersion (snd (Channel_Update ch vs)) = Channel_GetVersion ch"
  by (induction ch vs rule: Channel_Update.induct)
    (auto simp: update_defs BaseChannel_GetVersion_def Let_def split: prod.splits)

lemma Get_Register [simp]: "Registry_Get (Registry_Register r n ch) k = (if k = n then Some ch else Registry_Get r k)"
  by (simp add: Registry_Get_def Registry_Register_def)

lemma apply_entry_frame: "k \<noteq> we_Channel t \<Longrightarrow> Registry_Get (snd (apply_entry r t)) k = Registry_Get r k"
  by (auto simp: apply_entry_def Let_def split: option.splits prod.splits sum.splits)

lemma apply_entry_version:
  "map_option Channel_GetVersion (Registry_Get (snd (apply_entry r t)) k) = map_option Channel_GetVersion (Registry_Get r k)"
proof (cases "Registry_Get r (we_Channel t)")
  case (Some ch)
  let ?vs = "[if we_Overwrite t then GOverwrite (we_Value t) else we_Value t]"
  have "snd (apply_entry r t) = Registry_Register r (we_Channel t) (snd (Channel_Update ch ?vs))"
    using Some by (auto simp: apply_entry_def Let_def split: prod.splits sum.splits)
  then show ?thesis using Some by simp
qed (simp add: apply_entry_def)

text \<open>A loop that writes keeps what every single write keeps.\<close>

lemma write_loop_keeps:
  assumes "write_loop v t upd r es = (res, r', es')"
    and "\<And>r e e1. e \<in> set es \<Longrightarrow> fst (prepare_entry v t e) = Inr e1 \<Longrightarrow> f (snd (apply_entry r e1)) = f r"
  shows "f r' = f r"
  using assms
proof (induction v t upd r es arbitrary: res r' es' rule: write_loop.induct)
  case (2 v t upd r e es)
  obtain p e' where p: "prepare_entry v t e = (p, e')" by (metis surj_pair)
  show ?case
  proof (cases p)
    case (Inl err)
    then show ?thesis using 2(2) p by simp
  next
    case (Inr e1)
    obtain a r1 where a: "apply_entry r e1 = (a, r1)" by (metis surj_pair)
    have step: "f r1 = f r" using 2(3) [of e e1 r] p Inr a by simp
    show ?thesis
    proof (cases a)
      case (Inl err)
      then show ?thesis using 2(2) p Inr a step by simp
    next
      case (Inr b)
      obtain res2 r2 es2 where w: "write_loop v t (if b then mput upd (we_Channel e1) True else upd) r1 es = (res2, r2, es2)"
        by (metis surj_pair)
      have "f r2 = f r1"
        by (rule 2(1) [OF p [symmetric] \<open>p = Inr e1\<close> a [symmetric] Inr w]) (erule (1) 2(3) [OF list.set_intros(2)])
      then show ?thesis using 2(2) p \<open>p = Inr e1\<close> a Inr w step by simp
    qed
  qed
qed simp

lemma Write_loop:
  assumes "ChannelWrite_Write cw r = (res, cw', r')"
  shows "\<exists>es'. write_loop (cw_validator cw) (cw_transformer cw) [] r (cw_entries cw) = (res, r', es')"
  using assms by (auto simp: ChannelWrite_Write_def split: prod.splits sum.splits)

lemma write_versions:
  assumes "ChannelWrite_Write cw r = (res, cw', r')"
  shows "map_option Channel_GetVersion (Registry_Get r' k) = map_option Channel_GetVersion (Registry_Get r k)"
  using Write_loop [OF assms]
    write_loop_keeps [where f = "\<lambda>r. map_option Channel_GetVersion (Registry_Get r k)", OF _ apply_entry_version] by blast

section \<open>The contract of write transformers\<close>

text \<open>
  A write transformer may rename the channel of an entry and change its node and metadata; what is
  written, and whether it is an overwrite, stays.  Every transformer of the source meets this; then a write
  touches renamed channels only.
\<close>

locale renaming_transformer =
  fixes transform :: WriteTransformer and rename :: "string \<Rightarrow> string"
  assumes renames: "fst (transform e) = Inr e1 \<Longrightarrow>
    we_Channel e1 = rename (we_Channel e) \<and> we_Value e1 = we_Value e \<and> we_Overwrite e1 = we_Overwrite e"
begin

lemma prepared:
  assumes "fst (prepare_entry v (Some transform) e) = Inr e1"
  shows "we_Channel e1 = rename (we_Channel e) \<and> we_Value e1 = we_Value e \<and> we_Overwrite e1 = we_Overwrite e"
  using assms renames [of e e1] by (auto simp: prepare_entry_def split: option.splits prod.splits sum.splits)

lemma write_touches:
  assumes "ChannelWrite_Write cw r = (res, cw', r')" and "cw_transformer cw = Some transform"
    and "k \<notin> rename ` we_Channel ` set (cw_entries cw)"
  shows "Registry_Get r' k = Registry_Get r k"
proof -
  obtain es' where "write_loop (cw_validator cw) (Some transform) [] r (cw_entries cw) = (res, r', es')"
    using Write_loop [OF assms(1)] assms(2) by auto
  then show ?thesis
    by (rule write_loop_keeps [where f = "\<lambda>r. Registry_Get r k"])
      (use assms(3) prepared in \<open>fastforce intro: apply_entry_frame\<close>)
qed

end

interpretation identity_transformer: renaming_transformer IdentityWriteTransformer_Transform id
  by unfold_locales (auto simp: IdentityWriteTransformer_Transform_def)

interpretation mapping_transformer: renaming_transformer "MappingWriteTransformer_Transform m"
    "\<lambda>n. case mget m n of Some n' \<Rightarrow> n' | None \<Rightarrow> n" for m
  by unfold_locales (auto simp: MappingWriteTransformer_Transform_def split: option.splits)

interpretation prefix_transformer: renaming_transformer "PrefixWriteTransformer_Transform pre" "\<lambda>n. pre @ n" for pre
  by unfold_locales (auto simp: PrefixWriteTransformer_Transform_def)

interpretation metadata_transformer: renaming_transformer "MetadataWriteTransformer_Transform m" id for m
  by unfold_locales (auto simp: MetadataWriteTransformer_Transform_def Let_def split: option.splits)

interpretation node_transformer: renaming_transformer "NodeWriteTransformer_Transform n" id for n
  by unfold_locales (auto simp: NodeWriteTransformer_Transform_def split: if_splits)

interpretation filter_transformer: renaming_transformer "FilterWriteTransformer_Transform p" id for p
  by unfold_locales (auto simp: FilterWriteTransformer_Transform_def split: option.splits if_splits)

section \<open>Writing and reading back\<close>

definition plain_writer :: "(string \<times> gvalue) list \<Rightarrow> ChannelWrite" where
  "plain_writer ws = fold (\<lambda>(n, v) cw. ChannelWrite_WriteTo cw n v) ws (NewChannelWrite [])"

lemma plain_writer_eq:
  "plain_writer ws = (NewChannelWrite [])\<lparr>cw_entries := map (\<lambda>(n, v). write_entry [] n v False) ws\<rparr>"
proof -
  have "fold (\<lambda>(n, v) cw. ChannelWrite_WriteTo cw n v) ws cw = cw\<lparr>cw_entries := cw_entries cw @ map (\<lambda>(n, v). write_entry [] n v False) ws\<rparr>"
    for cw by (induction ws arbitrary: cw) (auto simp: ChannelWrite_WriteTo_def ChannelWrite_AddEntry_def)
  then show ?thesis by (simp add: plain_writer_def NewChannelWrite_def)
qed

lemma plain_prepare [simp]:
  "prepare_entry (Some NoOpValidator_Validate) (Some IdentityWriteTransformer_Transform) e = (Inr e, e)"
  by (simp add: prepare_entry_def NoOpValidator_Validate_def IdentityWriteTransformer_Transform_def)

lemma last_value_apply:
  "Registry_Get r n = Some (CLastValue c) \<Longrightarrow>
   apply_entry r (write_entry [] n v False) = (Inr True, Registry_Register r n (CLastValue (c\<lparr>lv_value := v\<rparr>)))"
  by (simp add: apply_entry_def write_entry_def LastValue_Update_def)

lemma last_value_writes:
  assumes "\<forall>w\<in>set ws. \<exists>c. Registry_Get r (fst w) = Some (CLastValue c)"
  shows "\<exists>updated r' es'. write_loop (Some NoOpValidator_Validate) (Some IdentityWriteTransformer_Transform) upd r
      (map (\<lambda>(n, v). write_entry [] n v False) ws) = (Inr updated, r', es') \<and>
    (\<forall>n. case map_of (rev ws) n of
       Some v \<Rightarrow> \<exists>c. Registry_Get r' n = Some (CLastValue (c\<lparr>lv_value := v\<rparr>))
     | None \<Rightarrow> Registry_Get r' n = Registry_Get r n)"
  using assms
proof (induction ws arbitrary: upd r)
  case (Cons w ws)
  obtain n v where w: "w = (n, v)" by (cases w)
  then obtain c where c: "Registry_Get r n = Some (CLastValue c)" using Cons.prems by auto
  let ?r = "Registry_Register r n (CLastValue (c\<lparr>lv_value := v\<rparr>))"
  have "\<forall>w\<in>set ws. \<exists>c. Registry_Get ?r (fst w) = Some (CLastValue c)" using Cons.prems by auto
  from Cons.IH [OF this, of "mput upd n True"]
  obtain updated r' es' where run: "write_loop (Some NoOpValidator_Validate) (Some IdentityWriteTransformer_Transform) (mput upd n True) ?r
      (map (\<lambda>(n, v). write_entry [] n v False) ws) = (Inr updated, r', es')"
    and look: "\<And>k. case map_of (rev ws) k of
       Some u \<Rightarrow> \<exists>c. Registry_Get r' k = Some (CLastValue (c\<lparr>lv_value := u\<rparr>)) | None \<Rightarrow> Registry_Get r' k = Registry_Get ?r k"
    by auto
  have "case map_of (rev (w # ws)) k of
      Some u \<Rightarrow> \<exists>c. Registry_Get r' k = Some (CLastValue (c\<lparr>lv_value := u\<rparr>)) | None \<Rightarrow> Registry_Get r' k = Registry_Get r k" for k
    using look [of k] by (auto simp: w map_add_def split: option.splits)
  moreover have "write_loop (Some NoOpValidator_Validate) (Some IdentityWriteTransformer_Transform) upd r
      (map (\<lambda>(n, v). write_entry [] n v False) (w # ws)) = (Inr updated, r', write_entry [] n v False # es')"
    using run by (simp add: w last_value_apply [OF c]) (simp add: write_entry_def)
  ultimately show ?case by blast
qed simp

section \<open>Reading everything\<close>

lemma read_values_ok:
  assumes "distinct names" and "set names \<subseteq> {n. Registry_Get r n \<noteq> None}" and "mwf acc"
  shows "\<exists>vals r'. read_values acc r names = (vals, r') \<and> mwf vals \<and>
    (\<forall>k. mget vals k = (if k \<in> set names
       then (case Option.bind (Registry_Get r k) value_of of Some v \<Rightarrow> Some v | None \<Rightarrow> mget acc k) else mget acc k)) \<and>
    (\<forall>k. Registry_Get r' k = (if k \<in> set names then map_option (\<lambda>ch. snd (Channel_Get ch)) (Registry_Get r k) else Registry_Get r k))"
  using assms
proof (induction names arbitrary: acc r)
  case (Cons n names)
  then obtain ch where ch: "Registry_Get r n = Some ch" by auto
  let ?acc = "case value_of ch of Some v \<Rightarrow> mput acc n v | None \<Rightarrow> acc"
  let ?r = "Registry_Register r n (snd (Channel_Get ch))"
  have step: "read_values acc r (n # names) = read_values ?acc ?r names"
    using ch by (auto simp: value_of_def split: prod.splits sum.splits)
  have "set names \<subseteq> {k. Registry_Get ?r k \<noteq> None}" using Cons.prems by auto
  moreover have "mwf ?acc" using Cons.prems by (auto split: option.splits)
  ultimately obtain vals r' where "read_values ?acc ?r names = (vals, r')" "mwf vals"
    and v: "\<And>k. mget vals k = (if k \<in> set names
       then (case Option.bind (Registry_Get ?r k) value_of of Some v \<Rightarrow> Some v | None \<Rightarrow> mget ?acc k) else mget ?acc k)"
    and g: "\<And>k. Registry_Get r' k = (if k \<in> set names then map_option (\<lambda>ch. snd (Channel_Get ch)) (Registry_Get ?r k) else Registry_Get ?r k)"
    using Cons.IH [of ?r ?acc] Cons.prems(1) by auto
  moreover have "n \<notin> set names" using Cons.prems by simp
  ultimately show ?case
    unfolding step using ch by (auto split: option.splits)
qed simp

lemma Get_channels: "Registry_Get r k = mget (channels r) k"
  by (simp add: Registry_Get_def)

section \<open>Properties\<close>

definition two_channels :: Registry where
  "two_channels = Registry_Register (Registry_Register NewRegistry ''x'' (CLastValue (NewLastValue None)))
     ''t'' (CTopic (NewTopic None True))"

lemma two_channels_eq:
  "two_channels = \<lparr>channels = [(''t'', CTopic (NewTopic None True)), (''x'', CLastValue (NewLastValue None))]\<rparr>"
  by (simp add: two_channels_def Registry_Register_def NewRegistry_def less_char_def)

text \<open>Writes through a \<open>ChannelWrite\<close> with a prefix stay in their name space: whatever the entries, and whether the
  write succeeds or fails half way, only channels whose name begins with the prefix change.\<close>

theorem prefix_isolates:
  assumes "ChannelWrite_Write cw r = (res, cw', r')" and "cw_transformer cw = Some (PrefixWriteTransformer_Transform pre)"
    and "take (length pre) k \<noteq> pre"
  shows "Registry_Get r' k = Registry_Get r k"
proof -
  have "k \<notin> (\<lambda>n. pre @ n) ` we_Channel ` set (cw_entries cw)" using assms(3) by auto
  from prefix_transformer.write_touches [OF assms(1,2) this] show ?thesis .
qed

theorem prefix_isolates_witness:
  "Registry_Get (snd (snd (ChannelWrite_Write (ChannelWrite_WriteTo
     (NewChannelWrite [WithWriteTransformer (Some (PrefixWriteTransformer_Transform ''p/''))]) ''x'' GNil) two_channels))) ''x'' =
   Registry_Get two_channels ''x''"
proof -
  let ?cw = "ChannelWrite_WriteTo (NewChannelWrite [WithWriteTransformer (Some (PrefixWriteTransformer_Transform ''p/''))]) ''x'' GNil"
  obtain res cw' r' where run: "ChannelWrite_Write ?cw two_channels = (res, cw', r')" by (metis surj_pair)
  have "cw_transformer ?cw = Some (PrefixWriteTransformer_Transform ''p/'')"
    by (simp add: ChannelWrite_WriteTo_def ChannelWrite_AddEntry_def NewChannelWrite_def WithWriteTransformer_def)
  from prefix_isolates [OF run this, of "''x''"] show ?thesis using run by simp
qed

text \<open>Writing and reading back: after \<open>WriteTo\<close>s to \<open>LastValue\<close> channels and one \<open>Write\<close> every channel reads the last
  value written to it, other channels are as they were, and the writer is empty.\<close>

theorem write_then_read:
  assumes "\<forall>w\<in>set ws. \<exists>c. Registry_Get r (fst w) = Some (CLastValue c)" and "\<forall>w\<in>set ws. snd w \<noteq> GMissing"
    and "ChannelWrite_Write (plain_writer ws) r = (res, cw', r')"
  shows "\<not> isl res \<and> cw_entries cw' = [] \<and>
    (case map_of (rev ws) n of
       Some v \<Rightarrow> fst (ChannelRead_ReadChannel r' n) = Inr v | None \<Rightarrow> Registry_Get r' n = Registry_Get r n)"
proof -
  obtain updated r1 es' where run: "write_loop (Some NoOpValidator_Validate) (Some IdentityWriteTransformer_Transform) [] r
      (map (\<lambda>(n, v). write_entry [] n v False) ws) = (Inr updated, r1, es')"
    and look: "case map_of (rev ws) n of
      Some v \<Rightarrow> \<exists>c. Registry_Get r1 n = Some (CLastValue (c\<lparr>lv_value := v\<rparr>)) | None \<Rightarrow> Registry_Get r1 n = Registry_Get r n"
    using last_value_writes [OF assms(1), of "[]"] by blast
  have "res = Inr updated" "r' = r1" "cw_entries cw' = []"
    using assms(3) run by (auto simp: ChannelWrite_Write_def plain_writer_eq NewChannelWrite_def)
  moreover have "v \<noteq> GMissing" if "map_of (rev ws) n = Some v" for v
    using map_of_SomeD [OF that] assms(2) by auto
  ultimately show ?thesis
    using look by (auto simp: ChannelRead_ReadChannel_def LastValue_Get_def Missing_def IsMissing_def split: option.splits)
qed

theorem write_then_read_witness:
  "fst (ChannelRead_ReadChannel (snd (snd (ChannelWrite_Write (plain_writer [(''x'', GBool True), (''x'', GBool False)]) two_channels))) ''x'') =
   Inr (GBool False)"
proof -
  let ?ws = "[(''x'', GBool True), (''x'', GBool False)]"
  obtain res cw' r' where run: "ChannelWrite_Write (plain_writer ?ws) two_channels = (res, cw', r')" by (metis surj_pair)
  have "\<forall>w\<in>set ?ws. \<exists>c. Registry_Get two_channels (fst w) = Some (CLastValue c)"
    by (simp add: two_channels_eq Registry_Get_def mget_Cons)
  from write_then_read [OF this _ run, of "''x''"] show ?thesis using run by simp
qed

text \<open>Two ways to read the state agree: \<open>ChannelRead.Read\<close> with its default selector and transformer returns what
  \<open>Registry.GetValues\<close> returns, for all iteration orders, and both leave the same registry, with the ephemeral
  channels cleared.\<close>

theorem read_agrees_with_GetValues:
  assumes "range_order ro" and "range_order ro'" and "mwf (channels r)"
  shows "fst (ChannelRead_Read ro (NewChannelRead []) r) = fst (Registry_GetValues ro' r) \<and>
    (\<forall>k. Registry_Get (snd (ChannelRead_Read ro (NewChannelRead []) r)) k = Registry_Get (snd (Registry_GetValues ro' r)) k)"
proof -
  let ?names = "ro (mkeys (channels r))"
  have names: "set ?names = {n. Registry_Get r n \<noteq> None}"
    using range_order_set [OF assms(1)] set_keys_mget [of "channels r"] by (simp add: mkeys_def Registry_Get_def)
  have "distinct ?names"
    using range_order_distinct [OF assms(1)] mwf_distinct [OF assms(3)] by (simp add: mkeys_def)
  from read_values_ok [OF this equalityD1 [OF names] mwf_Nil] obtain vals r1
    where read: "read_values [] r ?names = (vals, r1)" "mwf vals"
      and vals: "\<And>k. mget vals k = Option.bind (Registry_Get r k) value_of"
      and r1: "\<And>k. Registry_Get r1 k = map_option (\<lambda>ch. snd (Channel_Get ch)) (Registry_Get r k)"
    unfolding names by (fastforce split: option.splits if_splits)
  obtain vals' r2 where gv: "Registry_GetValues ro' r = (Inr vals', r2)"
    and vals': "\<And>k. mget vals' k = Option.bind (mget (channels r) k) value_of"
    and r2: "\<And>k. mget (channels r2) k = map_option (\<lambda>ch. snd (Channel_Get ch)) (mget (channels r) k)"
    using GetValues_ok [OF assms(2,3)] by blast
  have "vals = vals'"
    by (rule mwf_ext [OF read(2) GetValues_mwf [OF gv]]) (simp add: vals vals' Registry_Get_def)
  then show ?thesis
    using read(1) gv r1 r2
    by (simp add: ChannelRead_Read_def NewChannelRead_def AllChannelsSelector_Select_def Registry_List_def Registry_Names_def
        IdentityTransformer_Transform_def Registry_Get_def)
qed

theorem read_agrees_with_GetValues_witness:
  "fst (ChannelRead_Read rev (NewChannelRead []) two_channels) = fst (Registry_GetValues (\<lambda>ks. ks) two_channels)"
  using read_agrees_with_GetValues [of rev "\<lambda>ks. ks" two_channels] by (simp add: two_channels_eq mwf_def)

text \<open>A change trigger fires exactly once per version: it fires when the version of its channel is not the one it last
  fired for, and then not again before the version changes.  A write through \<open>ChannelWrite\<close> does not count
  as a change, since it does not advance the version.\<close>

theorem change_trigger_once:
  assumes "Registry_Get r name = Some ch" and "0 \<le> sint (Channel_GetVersion ch)"
    and "ShouldTrigger (ChannelChangedTrigger name lastVersion) r = (fired, t')"
    and "ChannelWrite_Write cw r = (res, cw', r')"
  shows "fired = (Channel_GetVersion ch \<noteq> lastVersion) \<and> fst (ShouldTrigger t' r) = False \<and> fst (ShouldTrigger t' r') = False"
proof -
  obtain ch' where "Registry_Get r' name = Some ch'" "Channel_GetVersion ch' = Channel_GetVersion ch"
    using write_versions [OF assms(4), of name] assms(1) by (cases "Registry_Get r' name") auto
  then show ?thesis using assms(1-3) by (auto simp: Let_def split: if_splits)
qed

theorem change_trigger_once_witness:
  "fst (ShouldTrigger (NewChannelChangedTrigger ''x'') two_channels) = True \<and>
   fst (ShouldTrigger (snd (ShouldTrigger (NewChannelChangedTrigger ''x'') two_channels))
     (snd (snd (ChannelWrite_Write (plain_writer [(''x'', GNil)]) two_channels)))) = False"
proof -
  obtain res cw' r' where run: "ChannelWrite_Write (plain_writer [(''x'', GNil)]) two_channels = (res, cw', r')" by (metis surj_pair)
  obtain fired t' where fire: "ShouldTrigger (ChannelChangedTrigger ''x'' (- 1)) two_channels = (fired, t')" by (metis surj_pair)
  have x: "Registry_Get two_channels ''x'' = Some (CLastValue (NewLastValue None))"
    by (simp add: two_channels_eq Registry_Get_def mget_Cons)
  have v: "Channel_GetVersion (CLastValue (NewLastValue None)) = 0"
    by (simp add: NewLastValue_def BaseChannel_GetVersion_def)
  have "fired" "fst (ShouldTrigger t' r') = False"
    using change_trigger_once [OF x _ fire run] unfolding v by simp_all
  then show ?thesis unfolding NewChannelChangedTrigger_def fire run by simp
qed

text \<open>\<open>ChannelWrite.Overwrite\<close> stores the wrapper: a \<open>LastValue\<close> channel reads a pointer to \<open>types.Overwrite\<close>, not the value.\<close>

theorem overwrite_stores_wrapper:
  assumes "Registry_Get r n = Some (CLastValue c)"
  shows "fst (ChannelRead_ReadChannel (snd (snd (ChannelWrite_Write (ChannelWrite_Overwrite (NewChannelWrite []) n v) r))) n) =
    Inr (GOverwrite v)"
  using assms
  by (simp add: ChannelWrite_Overwrite_def ChannelWrite_AddEntry_def NewChannelWrite_def ChannelWrite_Write_def apply_entry_def
      write_entry_def LastValue_Update_def ChannelRead_ReadChannel_def LastValue_Get_def Missing_def IsMissing_def)

text \<open>An entry that a filter rejects is not skipped: the write fails and the entries after it are not written.  A write
  that failed keeps all its entries, so writing again repeats the ones that had succeeded.  \<open>Flush\<close> keeps the
  batches, so a second one writes their entries again.\<close>

definition topic_values :: "Registry \<Rightarrow> gvalue list" where
  "topic_values r = (case Registry_Get r ''t'' of Some (CTopic c) \<Rightarrow> tp_values c | _ \<Rightarrow> [])"

definition filtered_writer :: ChannelWrite where
  "filtered_writer = ChannelWrite_WriteTo (ChannelWrite_WriteTo (ChannelWrite_WriteTo
     (NewChannelWrite [WithWriteTransformer (Some (FilterWriteTransformer_Transform (Some (\<lambda>e. we_Channel e \<noteq> ''y''))))])
     ''t'' (GBool True)) ''y'' GNil) ''x'' GNil"

theorem filter_fails_write:
  "fst (ChannelWrite_Write filtered_writer two_channels) =
     Inl (ErrorWrap ''transformation failed for channel y'' (WriteSkipError ''y'')) \<and>
   topic_values (snd (snd (ChannelWrite_Write (fst (snd (ChannelWrite_Write filtered_writer two_channels)))
     (snd (snd (ChannelWrite_Write filtered_writer two_channels)))))) = [GBool True, GBool True]"
  by code_simp

definition sample_context :: WriteContext where
  "sample_context = (NewWriteContext ''n'' 0 (NewChannelWrite []))
     \<lparr>wc_Batches := [(''b'', WriteBatch_WriteTo NewWriteBatch ''t'' (GBool True))]\<rparr>"

theorem flush_repeats:
  "topic_values (snd (snd (WriteContext_Flush (\<lambda>ks. ks) (fst (snd (WriteContext_Flush (\<lambda>ks. ks) sample_context two_channels)))
     (snd (snd (WriteContext_Flush (\<lambda>ks. ks) sample_context two_channels)))))) = [GBool True, GBool True]"
  by code_simp

end
