(* ===== verification/Streaming.thy ===== *)
theory Streaming
  imports Resume "HOL-Library.Sublist"
begin

text \<open>
  How the events of a run reach its caller: the bounded channel of \<open>StreamManager\<close> (\<open>pregel/stream.go\<close>), the
  goroutine of \<open>Engine.Run\<close> that forwards events to the output channel, and the caller that reads it.  The
  three run concurrently; \<open>pipe_step\<close> is one action of one of them, and an execution is any interleaving.
  \<open>Emit*\<close> drops an event when the channel is full, \<open>EmitFinal\<close> waits.  The capacities are arguments;
  \<open>Run\<close> uses 100 for both channels.  \<open>ctxDone\<close> says whether the context of the run may end.
\<close>

section \<open>The pipeline\<close>

record 'e pipe =
  pp_todo :: "'e list"
  pp_eventCh :: "'e list"
  pp_closed :: bool
  pp_hand :: "'e option"
  pp_fwdDone :: bool
  pp_outputCh :: "'e list"
  pp_outClosed :: bool
  pp_got :: "'e list"

definition NewPipe :: "'e list \<Rightarrow> 'e pipe" where
  "NewPipe events = \<lparr>pp_todo = events, pp_eventCh = [], pp_closed = False, pp_hand = None, pp_fwdDone = False,
     pp_outputCh = [], pp_outClosed = False, pp_got = []\<rparr>"

inductive pipe_step :: "('e \<Rightarrow> bool) \<Rightarrow> nat \<Rightarrow> nat \<Rightarrow> bool \<Rightarrow> 'e pipe \<Rightarrow> 'e pipe \<Rightarrow> bool"
  for final :: "'e \<Rightarrow> bool" and capE :: nat and capO :: nat and ctxDone :: bool where
  emit: "pp_todo s = e # es \<Longrightarrow> length (pp_eventCh s) < capE \<Longrightarrow>
    pipe_step final capE capO ctxDone s (s\<lparr>pp_todo := es, pp_eventCh := pp_eventCh s @ [e]\<rparr>)"
| drop: "pp_todo s = e # es \<Longrightarrow> \<not> final e \<Longrightarrow> capE \<le> length (pp_eventCh s) \<Longrightarrow>
    pipe_step final capE capO ctxDone s (s\<lparr>pp_todo := es\<rparr>)"
| close: "pp_todo s = [] \<Longrightarrow> \<not> pp_closed s \<Longrightarrow> pipe_step final capE capO ctxDone s (s\<lparr>pp_closed := True\<rparr>)"
| take: "\<not> pp_fwdDone s \<Longrightarrow> pp_hand s = None \<Longrightarrow> pp_eventCh s = e # es \<Longrightarrow>
    pipe_step final capE capO ctxDone s (s\<lparr>pp_hand := Some e, pp_eventCh := es\<rparr>)"
| forward: "\<not> pp_fwdDone s \<Longrightarrow> pp_hand s = Some e \<Longrightarrow> length (pp_outputCh s) < capO \<Longrightarrow>
    pipe_step final capE capO ctxDone s (s\<lparr>pp_hand := None, pp_outputCh := pp_outputCh s @ [e]\<rparr>)"
| cancel: "ctxDone \<Longrightarrow> \<not> pp_fwdDone s \<Longrightarrow> pp_hand s = Some e \<Longrightarrow>
    pipe_step final capE capO ctxDone s (s\<lparr>pp_hand := None, pp_fwdDone := True\<rparr>)"
| stop: "\<not> pp_fwdDone s \<Longrightarrow> pp_hand s = None \<Longrightarrow> pp_eventCh s = [] \<Longrightarrow> pp_closed s \<Longrightarrow>
    pipe_step final capE capO ctxDone s (s\<lparr>pp_fwdDone := True\<rparr>)"
| close_out: "pp_closed s \<Longrightarrow> pp_fwdDone s \<Longrightarrow> \<not> pp_outClosed s \<Longrightarrow>
    pipe_step final capE capO ctxDone s (s\<lparr>pp_outClosed := True\<rparr>)"
| receive: "pp_outputCh s = e # es \<Longrightarrow>
    pipe_step final capE capO ctxDone s (s\<lparr>pp_outputCh := es, pp_got := pp_got s @ [e]\<rparr>)"

inductive_cases pipe_stepE: "pipe_step final capE capO ctxDone s s'"

text \<open>The caller has read the output channel until it was closed.\<close>

definition drained :: "'e pipe \<Rightarrow> bool" where
  "drained s \<longleftrightarrow> pp_outClosed s \<and> pp_outputCh s = []"

section \<open>Invariant\<close>

definition in_hand :: "'e pipe \<Rightarrow> 'e list" where
  "in_hand s = (case pp_hand s of None \<Rightarrow> [] | Some e \<Rightarrow> [e])"

text \<open>The events received, under way and still to be emitted, in order.\<close>

definition flight :: "'e pipe \<Rightarrow> 'e list" where
  "flight s = pp_got s @ pp_outputCh s @ in_hand s @ pp_eventCh s @ pp_todo s"

definition pipe_inv :: "('e \<Rightarrow> bool) \<Rightarrow> nat \<Rightarrow> nat \<Rightarrow> 'e list \<Rightarrow> 'e pipe \<Rightarrow> bool" where
  "pipe_inv final capE capO events s \<longleftrightarrow>
     subseq (flight s) events \<and> filter final (flight s) = filter final events \<and>
     length (pp_eventCh s) \<le> capE \<and> length (pp_outputCh s) \<le> capO \<and>
     (pp_closed s \<longrightarrow> pp_todo s = []) \<and> (pp_fwdDone s \<longrightarrow> pp_closed s \<and> in_hand s = [] \<and> pp_eventCh s = []) \<and>
     (pp_outClosed s \<longrightarrow> pp_fwdDone s)"

lemma NewPipe_inv: "pipe_inv final capE capO events (NewPipe events)"
  by (simp add: pipe_inv_def NewPipe_def flight_def in_hand_def)

text \<open>A step without cancellation loses nothing but an event that is not final.\<close>

lemma step_flight:
  assumes "pipe_step final capE capO False s s'"
  shows "flight s' = flight s \<or>
    (\<exists>e es. pp_todo s = e # es \<and> \<not> final e \<and> capE \<le> length (pp_eventCh s) \<and> flight s = pp_got s @ pp_outputCh s @ in_hand s @ pp_eventCh s @ e # es \<and>
       flight s' = pp_got s @ pp_outputCh s @ in_hand s @ pp_eventCh s @ es)"
  using assms by cases (auto simp: flight_def in_hand_def)

lemma pipe_step_inv:
  assumes "pipe_step final capE capO False s s'" and "pipe_inv final capE capO events s"
  shows "pipe_inv final capE capO events s'"
proof -
  have "subseq (flight s') (flight s) \<and> filter final (flight s') = filter final (flight s)"
    using step_flight [OF assms(1)] by (auto simp: subseq_append')
  moreover have "length (pp_eventCh s') \<le> capE \<and> length (pp_outputCh s') \<le> capO \<and>
      (pp_closed s' \<longrightarrow> pp_todo s' = []) \<and> (pp_fwdDone s' \<longrightarrow> pp_closed s' \<and> in_hand s' = [] \<and> pp_eventCh s' = []) \<and>
      (pp_outClosed s' \<longrightarrow> pp_fwdDone s')"
    using assms by cases (auto simp: pipe_inv_def in_hand_def)
  ultimately show ?thesis
    using assms(2) subseq_order.order_trans unfolding pipe_inv_def by (metis (no_types, lifting))
qed

lemma pipe_steps_inv:
  "(pipe_step final capE capO False)\<^sup>*\<^sup>* (NewPipe events) s \<Longrightarrow> pipe_inv final capE capO events s"
  by (induction rule: rtranclp_induct) (auto simp: NewPipe_inv intro: pipe_step_inv)

section \<open>Progress and termination\<close>

lemma progress:
  assumes "pipe_inv final capE capO events s" and "0 < capE" and "0 < capO" and "\<not> drained s"
  shows "\<exists>s'. pipe_step final capE capO False s s'"
proof (cases "pp_outputCh s")
  case (Cons e es)
  then show ?thesis by (blast intro: receive)
next
  case Nil
  then have out: "\<not> pp_outClosed s" using assms(4) by (simp add: drained_def)
  show ?thesis
  proof (cases "pp_fwdDone s")
    case True
    then show ?thesis using assms(1) out by (blast intro: close_out dest: pipe_inv_def [THEN iffD1])
  next
    case fwd: False
    show ?thesis
    proof (cases "pp_hand s")
      case (Some e)
      then show ?thesis using fwd Nil assms(3) by (metis forward length_0_conv)
    next
      case None
      have "\<exists>s'. pipe_step final capE capO False s s'" if "pp_todo s = e # es" "pp_eventCh s = []" for e es
        using emit [of s e es capE] that assms(2) by fastforce
      then show ?thesis
        using fwd None by (cases "pp_eventCh s"; cases "pp_todo s"; cases "pp_closed s") (blast intro: pipe_step.intros)+
    qed
  qed
qed

definition work :: "'e pipe \<Rightarrow> nat" where
  "work s = 4 * length (pp_todo s) + 3 * length (pp_eventCh s) + 2 * length (in_hand s) + length (pp_outputCh s) +
     (if pp_closed s then 0 else 1) + (if pp_fwdDone s then 0 else 1) + (if pp_outClosed s then 0 else 1)"

lemma step_work: "pipe_step final capE capO ctxDone s s' \<Longrightarrow> work s' < work s"
  by (erule pipe_stepE) (auto simp: work_def in_hand_def)

lemma steps_work: "(pipe_step final capE capO ctxDone ^^ n) s s' \<Longrightarrow> work s' + n \<le> work s"
proof (induction n arbitrary: s')
  case (Suc n)
  then show ?case using step_work by (fastforce elim!: relcompp.cases)
qed simp

text \<open>Every execution can be continued to an end.\<close>

lemma runs_to_end: "\<exists>s'. (pipe_step final capE capO ctxDone)\<^sup>*\<^sup>* s s' \<and> (\<nexists>s''. pipe_step final capE capO ctxDone s' s'')"
proof (induction "work s" arbitrary: s rule: less_induct)
  case less
  then show ?case
    by (cases "\<exists>s1. pipe_step final capE capO ctxDone s s1") (blast dest: step_work intro: converse_rtranclp_into_rtranclp)+
qed

lemma drained_flight:
  assumes "pipe_inv final capE capO events s" and "drained s"
  shows "flight s = pp_got s"
  using assms by (auto simp: pipe_inv_def drained_def flight_def)

text \<open>When the channel has room for all events, none is dropped.\<close>

lemma roomy_flight:
  assumes "(pipe_step final capE capO False)\<^sup>*\<^sup>* (NewPipe events) s" and "length events \<le> capE"
  shows "flight s = events"
  using assms(1)
proof (induction rule: rtranclp_induct)
  case base
  then show ?case by (simp add: NewPipe_def flight_def in_hand_def)
next
  case (step s s')
  show ?case
  proof (rule ccontr)
    assume "flight s' \<noteq> events"
    then have "length (pp_eventCh s) + 1 \<le> length (flight s)" "capE \<le> length (pp_eventCh s)"
      using step_flight [OF step(2)] step.IH by auto
    then show False using step.IH assms(2) by simp
  qed
qed

section \<open>The last state\<close>

fun is_final :: "StreamEvent \<Rightarrow> bool" where
  "is_final (EventFinal n v) = True"
| "is_final _ = False"

lemma final_state_filter: "final_state v (filter is_final evs) = final_state v evs"
  by (induction v evs rule: final_state.induct) auto

lemma final_state_cong: "filter is_final evs = filter is_final evs' \<Longrightarrow> final_state v evs = final_state v evs'"
  by (metis final_state_filter)

section \<open>A forwarder that has gone\<close>

lemma emits:
  assumes "pp_todo s = es @ fs" and "length (pp_eventCh s) + length es \<le> capE"
  shows "(pipe_step final capE capO ctxDone)\<^sup>*\<^sup>* s (s\<lparr>pp_todo := fs, pp_eventCh := pp_eventCh s @ es\<rparr>)"
  using assms
proof (induction es arbitrary: s)
  case (Cons e es)
  let ?s = "s\<lparr>pp_todo := es @ fs, pp_eventCh := pp_eventCh s @ [e]\<rparr>"
  have "pipe_step final capE capO ctxDone s ?s" using Cons.prems by (auto intro: emit)
  also have "(pipe_step final capE capO ctxDone)\<^sup>*\<^sup>* ?s (?s\<lparr>pp_todo := fs, pp_eventCh := pp_eventCh ?s @ es\<rparr>)"
    by (rule Cons.IH) (use Cons.prems in auto)
  finally show ?case by simp
next
  case Nil
  then have "s\<lparr>pp_todo := fs, pp_eventCh := pp_eventCh s @ []\<rparr> = s" by simp
  then show ?case by simp
qed

section \<open>Properties\<close>




definition counter_engine :: Engine where
  "counter_engine = on_thread (stateGraph_AddChannel (graph_of [(''a'', \<lambda>s n st. Done GNil)] [(Start, ''a''), (''a'', End)]) ''x''
     (Some (CBinop (NewBinaryOperatorAggregate (Some RInt) IntAdd)))) DurabilitySync"


text \<open>When the context ends while the forwarder holds an event, the forwarder returns and nobody reads the event channel
  any more.  If the channel is full by then, \<open>EmitFinal\<close> waits forever and the output channel is never closed: a
  caller that reads until it is closed hangs.\<close>

theorem cancelled_run_hangs:
  assumes "0 < capE"
  shows "\<exists>s. (pipe_step is_final capE capO True)\<^sup>*\<^sup>* (NewPipe (replicate (Suc capE) (EventValues 0 []) @ [EventFinal 0 GNil])) s \<and>
    (\<nexists>s'. pipe_step is_final capE capO True s s') \<and> \<not> drained s"
proof -
  let ?v = "EventValues 0 []" and ?f = "EventFinal 0 GNil"
  let ?step = "pipe_step is_final capE capO True"
  let ?s0 = "NewPipe (replicate (Suc capE) ?v @ [?f])"
  let ?s1 = "?s0\<lparr>pp_todo := replicate capE ?v @ [?f], pp_eventCh := pp_eventCh ?s0 @ [?v]\<rparr>"
  let ?s2 = "?s1\<lparr>pp_hand := Some ?v, pp_eventCh := []\<rparr>"
  let ?s3 = "?s2\<lparr>pp_todo := [?f], pp_eventCh := pp_eventCh ?s2 @ replicate capE ?v\<rparr>"
  let ?s4 = "?s3\<lparr>pp_hand := None, pp_fwdDone := True\<rparr>"
  have "?step ?s0 ?s1" by (rule emit) (use assms in \<open>simp_all add: NewPipe_def\<close>)
  moreover have "?step ?s1 ?s2" by (rule take) (simp_all add: NewPipe_def)
  moreover have "?step\<^sup>*\<^sup>* ?s2 ?s3" by (rule emits) (simp_all add: NewPipe_def)
  moreover have "?step ?s3 ?s4" by (rule cancel [of _ _ ?v]) (simp_all add: NewPipe_def)
  ultimately have "?step\<^sup>*\<^sup>* ?s0 ?s4" by (meson converse_rtranclp_into_rtranclp rtranclp.rtrancl_into_rtrancl)
  moreover have "\<nexists>s'. ?step ?s4 s'" by (auto simp: NewPipe_def elim: pipe_stepE)
  moreover have "\<not> drained ?s4" by (simp add: drained_def NewPipe_def)
  ultimately show ?thesis by blast
qed

end
