(* ===== verification/Inspector.thy ===== *)
theory Inspector
  imports Compiled
begin

text \<open>
  \<open>graph/state_inspector.go\<close>: reading and changing the stored state of a thread from outside a run, with
  \<open>GetState\<close>, \<open>GetStateHistory\<close>, \<open>UpdateState\<close> and \<open>ForkThread\<close> of a compiled graph.  The checkpointer of the
  graph is nil (\<open>None\<close>), a value of another type (\<open>Inl\<close> with its type), or a checkpointer.  Of a snapshot
  the fields the code sets are kept; \<open>ParentConfig\<close>, \<open>Tasks\<close> and \<open>Interrupts\<close> are always nil.  \<open>now\<close> is the
  time \<open>time.Now\<close> returns.
\<close>

record 's BaseCheckpointer = "'s Checkpointer" +
  ck_List :: "'s \<Rightarrow> gvalue gomap \<Rightarrow> goint \<Rightarrow> gerror + meta_value gomap list"

record StateSnapshot =
  ss_Values :: "gvalue gomap"
  ss_Next :: "string list"
  ss_Config :: "RunnableConfig option"
  ss_Metadata :: "gvalue gomap"
  ss_CreatedAt :: gotime

record StateUpdate =
  su_Values :: "gvalue gomap"
  su_AsNode :: string
  su_CheckID :: string
  su_ThreadID :: string

type_synonym 's graph_checkpointer = "(string + 's BaseCheckpointer) option"

section \<open>Helpers\<close>

definition compiledGraph_getCheckpointer :: "'s graph_checkpointer \<Rightarrow> string \<Rightarrow> gerror + 's BaseCheckpointer" where
  "compiledGraph_getCheckpointer cp what =
     (case cp of
        None \<Rightarrow> Inl (ErrorNew (''checkpointer is required for '' @ what))
      | Some (Inl t) \<Rightarrow> Inl (ErrorNew (''checkpointer is not a BaseCheckpointer (got '' @ t @ '')''))
      | Some (Inr ck) \<Rightarrow> Inr ck)"

definition buildCheckpointerConfig :: "RunnableConfig option \<Rightarrow> gvalue gomap" where
  "buildCheckpointerConfig config =
     (case config of None \<Rightarrow> []
      | Some c \<Rightarrow>
          (case rc_Configurable c of None \<Rightarrow> []
           | Some m \<Rightarrow> fold (\<lambda>key cpConfig. case mget m key of Some v \<Rightarrow> mput cpConfig key v | None \<Rightarrow> cpConfig)
               [''thread_id'', ''checkpoint_id'', ''checkpoint_ns''] []))"

definition extractMeta :: "gvalue gomap \<Rightarrow> gvalue gomap" where
  "extractMeta cpData =
     (let meta = (case mget cpData ''__step__'' of Some v \<Rightarrow> [(''step'', v)] | None \<Rightarrow> [])
      in case mget cpData ''__last_completed_node__'' of Some v \<Rightarrow> mput meta ''last_completed_node'' v | None \<Rightarrow> meta)"

definition compiledGraph_determineNextFromCheckpoint :: "gvalue gomap \<Rightarrow> string list" where
  "compiledGraph_determineNextFromCheckpoint cpData = []"

definition graph_registry :: "stateGraph \<Rightarrow> Registry" where
  "graph_registry g = fold (\<lambda>(name, ch) r. Registry_Register r name (Channel_Copy ch)) (g_channels g) NewRegistry"

text \<open>The values of the channels of a graph restored from the data of a checkpoint.\<close>

definition restored_values :: "(string list \<Rightarrow> string list) \<Rightarrow> stateGraph \<Rightarrow> gvalue gomap \<Rightarrow> gerror + gvalue gomap" where
  "restored_values ro g cpData =
     (let registry = graph_registry g;
          filtered = filter (\<lambda>en. Registry_Get registry (fst en) \<noteq> None) cpData
      in case (if filtered \<noteq> [] then Registry_RestoreFromCheckpoint ro registry filtered else (None, registry)) of
           (Some err, r) \<Rightarrow> Inl (ErrorWrap ''failed to restore from checkpoint'' err)
         | (None, r) \<Rightarrow> Inr (case fst (Registry_GetValues ro r) of Inr values \<Rightarrow> values | Inl err \<Rightarrow> []))"

section \<open>Operations\<close>

definition compiledGraph_GetState ::
    "(string list \<Rightarrow> string list) \<Rightarrow> gotime \<Rightarrow> 's graph_checkpointer \<Rightarrow> stateGraph \<Rightarrow> 's \<Rightarrow> RunnableConfig option \<Rightarrow>
     gerror + StateSnapshot option" where
  "compiledGraph_GetState ro now cp g s config =
     (case compiledGraph_getCheckpointer cp ''GetState, configure with WithCheckpointer during Compile'' of
        Inl err \<Rightarrow> Inl err
      | Inr ck \<Rightarrow>
          (case ck_Get ck s (buildCheckpointerConfig config) of
             Inl err \<Rightarrow> Inl (ErrorWrap ''failed to get checkpoint'' err)
           | Inr None \<Rightarrow> Inr None
           | Inr (Some cpData) \<Rightarrow>
               (case restored_values ro g cpData of
                  Inl err \<Rightarrow> Inl err
                | Inr values \<Rightarrow>
                    Inr (Some \<lparr>ss_Values = values, ss_Next = compiledGraph_determineNextFromCheckpoint cpData, ss_Config = config,
                      ss_Metadata = extractMeta cpData, ss_CreatedAt = now\<rparr>))))"

definition entry_string :: "meta_value gomap \<Rightarrow> string \<Rightarrow> string" where
  "entry_string entry key = (case mget entry key of Some (MValue (GString v)) \<Rightarrow> v | _ \<Rightarrow> [])"

text \<open>The configuration that points to a listed checkpoint.\<close>

definition snap_config :: "RunnableConfig option \<Rightarrow> string \<Rightarrow> RunnableConfig" where
  "snap_config config cpID =
     (let m = (case config of Some c \<Rightarrow> case_option [] (mputs []) (rc_Configurable c) | None \<Rightarrow> [])
      in zero_config\<lparr>rc_Configurable := Some (if cpID \<noteq> [] then mput m ''checkpoint_id'' (GString cpID) else m)\<rparr>)"

definition with_entry :: "meta_value gomap \<Rightarrow> StateSnapshot \<Rightarrow> StateSnapshot" where
  "with_entry entry snap =
     (let s1 = (case mget entry ''created_at'' of Some (MTime t) \<Rightarrow> snap\<lparr>ss_CreatedAt := t\<rparr> | _ \<Rightarrow> snap)
      in case mget entry ''metadata'' of Some (MValue (GMap meta)) \<Rightarrow> s1\<lparr>ss_Metadata := meta\<rparr> | _ \<Rightarrow> s1)"

definition compiledGraph_GetStateHistory ::
    "(string list \<Rightarrow> string list) \<Rightarrow> gotime \<Rightarrow> 's graph_checkpointer \<Rightarrow> stateGraph \<Rightarrow> 's \<Rightarrow> RunnableConfig option \<Rightarrow> goint \<Rightarrow>
     gerror + StateSnapshot list" where
  "compiledGraph_GetStateHistory ro now cp g s config limit =
     (case compiledGraph_getCheckpointer cp ''GetStateHistory'' of
        Inl err \<Rightarrow> Inl err
      | Inr ck \<Rightarrow>
          (case ck_List ck s (buildCheckpointerConfig config) limit of
             Inl err \<Rightarrow> Inl (ErrorWrap ''failed to list checkpoints'' err)
           | Inr entries \<Rightarrow>
               Inr (concat (map (\<lambda>entry.
                 case compiledGraph_GetState ro now cp g s (Some (snap_config config (entry_string entry ''checkpoint_id''))) of
                   Inr (Some snap) \<Rightarrow> [with_entry entry snap] | _ \<Rightarrow> []) entries))))"

definition compiledGraph_UpdateState ::
    "'s graph_checkpointer \<Rightarrow> 's \<Rightarrow> RunnableConfig option \<Rightarrow> StateUpdate \<Rightarrow> (gerror + RunnableConfig option) \<times> 's" where
  "compiledGraph_UpdateState cp s config update =
     (case compiledGraph_getCheckpointer cp ''UpdateState'' of
        Inl err \<Rightarrow> (Inl err, s)
      | Inr ck \<Rightarrow>
          let base = buildCheckpointerConfig config;
              cpConfig = (if su_CheckID update \<noteq> [] then mput base ''checkpoint_id'' (GString (su_CheckID update)) else base)
          in case ck_Get ck s cpConfig of
               Inl err \<Rightarrow> (Inl (ErrorWrap ''failed to get checkpoint for update'' err), s)
             | Inr None \<Rightarrow> (Inl (ErrorNew ''no checkpoint found for the given config''), s)
             | Inr (Some cpData) \<Rightarrow>
                 let updated = mputs cpData (su_Values update);
                     newThreadID = (if su_ThreadID update \<noteq> [] then su_ThreadID update
                       else case_option [] id (config_string cpConfig ''thread_id''))
                 in if newThreadID = [] then (Inl (ErrorNew ''thread_id is required for UpdateState''), s)
                    else
                      let parentID = case_option [] id (config_string cpConfig ''checkpoint_id'');
                          newConfig = mputs [] [(''thread_id'', GString newThreadID), (''parent_checkpoint_id'', GString parentID),
                            (''checkpoint_id'', GString [])]
                      in case ck_Put ck s newConfig updated of
                           (Some err, s') \<Rightarrow> (Inl (ErrorWrap ''failed to save updated checkpoint'' err), s')
                         | (None, s') \<Rightarrow>
                             (case ck_List ck s' [(''thread_id'', GString newThreadID)] 1 of
                                Inr (entry # entries) \<Rightarrow>
                                  let m = (case config of Some c \<Rightarrow> case_option [] (mputs []) (rc_Configurable c) | None \<Rightarrow> [])
                                  in (Inr (Some (NewRunnableConfig\<lparr>rc_Configurable := Some (mputs m
                                        [(''checkpoint_id'', GString (entry_string entry ''checkpoint_id'')),
                                         (''thread_id'', GString newThreadID)])\<rparr>)), s')
                              | _ \<Rightarrow> (Inr config, s')))"

definition compiledGraph_ForkThread ::
    "'s graph_checkpointer \<Rightarrow> 's \<Rightarrow> string \<Rightarrow> string \<Rightarrow> string \<Rightarrow> (gerror + RunnableConfig) \<times> 's" where
  "compiledGraph_ForkThread cp s sourceThreadID newThreadID sourceCheckpointID =
     (case compiledGraph_getCheckpointer cp ''ForkThread'' of
        Inl err \<Rightarrow> (Inl err, s)
      | Inr ck \<Rightarrow>
          let cpConfig = (let c = [(''thread_id'', GString sourceThreadID)]
                in if sourceCheckpointID \<noteq> [] then mput c ''checkpoint_id'' (GString sourceCheckpointID) else c)
          in case ck_Get ck s cpConfig of
               Inl err \<Rightarrow> (Inl (ErrorWrap ''failed to get source checkpoint'' err), s)
             | Inr None \<Rightarrow> (Inl (ErrorNew (''no checkpoint found for thread '' @ sourceThreadID)), s)
             | Inr (Some cpData) \<Rightarrow>
                 let newConfig = [(''thread_id'', GString newThreadID)]
                 in case ck_Put ck s newConfig cpData of
                      (Some err, s') \<Rightarrow> (Inl (ErrorWrap ''failed to write forked checkpoint'' err), s')
                    | (None, s') \<Rightarrow>
                        (case ck_List ck s' newConfig 1 of
                           Inr (entry # entries) \<Rightarrow>
                             let newCPID = entry_string entry ''checkpoint_id''; m = [(''thread_id'', GString newThreadID)]
                             in (Inr (NewRunnableConfig\<lparr>rc_Configurable :=
                                   Some (if newCPID \<noteq> [] then mput m ''checkpoint_id'' (GString newCPID) else m)\<rparr>), s')
                         | _ \<Rightarrow> (Inr (zero_config\<lparr>rc_Configurable := Some newConfig\<rparr>), s')))"

section \<open>The contract of a listing checkpointer\<close>

text \<open>
  What the operations rely on: a put names the checkpoint by the identifier of its configuration, or else by a
  fresh one; the newest entry of the list is the one put last; a new identifier reads what was put; other threads stay.
\<close>

definition put_id :: "string \<Rightarrow> gvalue gomap \<Rightarrow> string" where
  "put_id new cfg = (case config_string cfg ''checkpoint_id'' of Some i \<Rightarrow> i | None \<Rightarrow> new)"

lemma mget_build:
  "mget (buildCheckpointerConfig (Some (c\<lparr>rc_Configurable := Some m\<rparr>))) k =
     (if k \<in> {''thread_id'', ''checkpoint_id'', ''checkpoint_ns''} then mget m k else None)"
  by (simp add: buildCheckpointerConfig_def split: option.splits) (auto simp: mget_Cons)

lemma build_string:
  "k \<in> {''thread_id'', ''checkpoint_id'', ''checkpoint_ns''} \<Longrightarrow>
   config_string (buildCheckpointerConfig (Some (c\<lparr>rc_Configurable := Some m\<rparr>))) k = config_string m k"
  by (simp add: config_string_def mget_build)

locale listing_checkpointer =
  fixes ck :: "'s BaseCheckpointer" and known :: "'s \<Rightarrow> string \<Rightarrow> string \<Rightarrow> bool" and new :: "'s \<Rightarrow> string"
    and stored :: "gvalue gomap \<Rightarrow> gvalue gomap"
  assumes put_succeeds: "config_string cfg ''thread_id'' = Some t \<Longrightarrow> fst (ck_Put ck s cfg cp) = None"
    and list_newest: "config_string cfg ''thread_id'' = Some t \<Longrightarrow>
      \<exists>e. ck_List ck (snd (ck_Put ck s cfg cp)) [(''thread_id'', GString t)] 1 = Inr [e] \<and> entry_string e ''checkpoint_id'' = put_id (new s) cfg"
    and get_new: "config_string cfg ''thread_id'' = Some t \<Longrightarrow> \<not> known s t (put_id (new s) cfg) \<Longrightarrow>
      config_string q ''thread_id'' = Some t \<Longrightarrow> config_string q ''checkpoint_id'' = Some (put_id (new s) cfg) \<Longrightarrow>
      ck_Get ck (snd (ck_Put ck s cfg cp)) q = Inr (Some (stored cp))"
    and get_others: "config_string cfg ''thread_id'' = Some t \<Longrightarrow> config_string q ''thread_id'' = Some u \<Longrightarrow> u \<noteq> t \<Longrightarrow>
      ck_Get ck (snd (ck_Put ck s cfg cp)) q = ck_Get ck s q"
begin

lemma fork_points_to_copy:
  assumes get: "ck_Get ck s (if i \<noteq> [] then mput [(''thread_id'', GString t)] ''checkpoint_id'' (GString i) else [(''thread_id'', GString t)]) =
      Inr (Some cpData)"
    and fresh: "\<not> known s u (new s)" "new s \<noteq> []"
  shows "\<exists>c s'. compiledGraph_ForkThread (Some (Inr ck)) s t u i = (Inr c, s') \<and>
    ck_Get ck s' (buildCheckpointerConfig (Some c)) = Inr (Some (stored cpData)) \<and>
    (\<forall>q v. config_string q ''thread_id'' = Some v \<longrightarrow> v \<noteq> u \<longrightarrow> ck_Get ck s' q = ck_Get ck s q)"
proof -
  let ?cfg = "[(''thread_id'', GString u)]"
  have cfg: "config_string ?cfg ''thread_id'' = Some u" "put_id (new s) ?cfg = new s"
    by (simp_all add: config_string_def put_id_def mget_Cons)
  obtain s' where put: "ck_Put ck s ?cfg cpData = (None, s')"
    using put_succeeds [OF cfg(1), of s cpData] by (metis prod.collapse)
  obtain e where e: "ck_List ck s' ?cfg 1 = Inr [e]" "entry_string e ''checkpoint_id'' = new s"
    using list_newest [OF cfg(1), of s cpData] put cfg(2) by auto
  let ?c = "NewRunnableConfig\<lparr>rc_Configurable := Some (mput ?cfg ''checkpoint_id'' (GString (new s)))\<rparr>"
  have "compiledGraph_ForkThread (Some (Inr ck)) s t u i = (Inr ?c, s')"
    using get put e fresh(2) by (simp add: compiledGraph_ForkThread_def compiledGraph_getCheckpointer_def Let_def)
  moreover have "ck_Get ck s' (buildCheckpointerConfig (Some ?c)) = Inr (Some (stored cpData))"
    using get_new [OF cfg(1), of s "buildCheckpointerConfig (Some ?c)" cpData] put cfg(2) fresh(1)
    by (simp add: build_string) (simp add: config_string_def mget_Cons)
  moreover have "ck_Get ck s' q = ck_Get ck s q" if "config_string q ''thread_id'' = Some v" "v \<noteq> u" for q v
    using get_others [OF cfg(1) that, of s cpData] put by simp
  ultimately show ?thesis by blast
qed

text \<open>An update stores its checkpoint under the empty identifier.\<close>

lemma update_points_to_result:
  assumes get: "ck_Get ck s (buildCheckpointerConfig config) = Inr (Some cpData)"
    and tid: "config_string (buildCheckpointerConfig config) ''thread_id'' = Some t" "t \<noteq> []"
    and upd: "su_CheckID update = []" "su_ThreadID update = []"
    and first: "\<not> known s t []"
  shows "\<exists>c s'. compiledGraph_UpdateState (Some (Inr ck)) s config update = (Inr (Some c), s') \<and>
    ck_Get ck s' (buildCheckpointerConfig (Some c)) = Inr (Some (stored (mputs cpData (su_Values update))))"
proof -
  let ?parent = "case_option [] id (config_string (buildCheckpointerConfig config) ''checkpoint_id'')"
  let ?cfg = "mputs [] [(''thread_id'', GString t), (''parent_checkpoint_id'', GString ?parent), (''checkpoint_id'', GString [])]"
  let ?data = "mputs cpData (su_Values update)"
  have cfg: "config_string ?cfg ''thread_id'' = Some t" "put_id (new s) ?cfg = []"
    by (simp_all add: config_string_def put_id_def mget_Cons)
  obtain s' where put: "ck_Put ck s ?cfg ?data = (None, s')"
    using put_succeeds [OF cfg(1), of s ?data] by (metis prod.collapse)
  obtain e where e: "ck_List ck s' [(''thread_id'', GString t)] 1 = Inr [e]" "entry_string e ''checkpoint_id'' = []"
    using list_newest [OF cfg(1), of s ?data] put cfg(2) by auto
  let ?m = "case config of Some c \<Rightarrow> case_option [] (mputs []) (rc_Configurable c) | None \<Rightarrow> []"
  let ?c = "NewRunnableConfig\<lparr>rc_Configurable := Some (mputs ?m [(''checkpoint_id'', GString []), (''thread_id'', GString t)])\<rparr>"
  have "compiledGraph_UpdateState (Some (Inr ck)) s config update = (Inr (Some ?c), s')"
    using get tid upd put e by (simp add: compiledGraph_UpdateState_def compiledGraph_getCheckpointer_def Let_def)
  moreover have "ck_Get ck s' (buildCheckpointerConfig (Some ?c)) = Inr (Some (stored ?data))"
  proof -
    have "config_string (buildCheckpointerConfig (Some ?c)) ''thread_id'' = Some t"
      "config_string (buildCheckpointerConfig (Some ?c)) ''checkpoint_id'' = Some (put_id (new s) ?cfg)"
      unfolding cfg(2) by (simp_all add: build_string) (simp_all add: config_string_def)
    from get_new [OF cfg(1) _ this, of ?data] show ?thesis using put cfg(2) first by simp
  qed
  ultimately show ?thesis by blast
qed

end

section \<open>The in-memory saver\<close>

definition memory_base :: "(nat \<Rightarrow> string) \<Rightarrow> (nat \<Rightarrow> gotime) \<Rightarrow> (nat \<times> MemorySaver) BaseCheckpointer" where
  "memory_base ids now =
     \<lparr>ck_Get = (\<lambda>(n, s) config. MemorySaver_Get s config),
      ck_Put = (\<lambda>(n, s) config cp. let (err, s') = MemorySaver_Put (ids n) (now n) s config cp in (err, (Suc n, s'))),
      ck_List = (\<lambda>(n, s) config limit. MemorySaver_List s config limit)\<rparr>"

lemma memory_base_simps [simp]:
  "ck_Get (memory_base ids now) (n, s) q = MemorySaver_Get s q"
  "ck_List (memory_base ids now) (n, s) q limit = MemorySaver_List s q limit"
  by (simp_all add: memory_base_def)

lemma memory_Put:
  assumes "config_string cfg ''thread_id'' = Some t"
  shows "\<exists>s' entry. ck_Put (memory_base ids now) (n, s) cfg cp = (None, (Suc n, s')) \<and> ce_ID entry = put_id (ids n) cfg \<and>
    ce_Checkpoint entry = deepCopyMap cp \<and>
    (\<forall>u. thread_versions s' u = (if u = t then thread_versions s t @ [entry] else thread_versions s u))"
proof -
  obtain s' where put: "MemorySaver_Put (ids n) (now n) s cfg cp = (None, s')"
    using assms by (simp add: MemorySaver_Put_def Let_def)
  from thread_versions_Put [OF this assms] show ?thesis
    by (auto simp: memory_base_def put put_id_def)
qed

interpretation memory_listing: listing_checkpointer "memory_base ids now"
  "\<lambda>s. saver_known (snd s)" "\<lambda>s. ids (fst s)" "\<lambda>cp. deepCopyMap (deepCopyMap cp)" for ids now
proof unfold_locales
  fix cfg :: "gvalue gomap" and t :: string and s :: "nat \<times> MemorySaver" and cp :: "gvalue gomap"
  assume t: "config_string cfg ''thread_id'' = Some t"
  obtain n ms where s: "s = (n, ms)" by (cases s)
  obtain ms' entry where put: "ck_Put (memory_base ids now) s cfg cp = (None, (Suc n, ms'))"
    and entry: "ce_ID entry = put_id (ids n) cfg" "ce_Checkpoint entry = deepCopyMap cp"
    and versions: "\<And>u. thread_versions ms' u = (if u = t then thread_versions ms t @ [entry] else thread_versions ms u)"
    using memory_Put [OF t, of ids now n ms cp] s by auto
  show "fst (ck_Put (memory_base ids now) s cfg cp) = None" by (simp add: put)
  show "\<exists>e. ck_List (memory_base ids now) (snd (ck_Put (memory_base ids now) s cfg cp)) [(''thread_id'', GString t)] 1 = Inr [e] \<and>
      entry_string e ''checkpoint_id'' = put_id (ids (fst s)) cfg"
  proof -
    have "ck_List (memory_base ids now) (Suc n, ms') [(''thread_id'', GString t)] 1 = Inr [list_entry entry]"
      by (simp add: versions MemorySaver_List_def config_string_def mget_Cons list_limit_def Let_def nth_append)
    moreover have "entry_string (list_entry entry) ''checkpoint_id'' = ce_ID entry"
      by (simp add: list_entry_def entry_string_def mget_Cons)
    ultimately show ?thesis unfolding s put [unfolded s] snd_conv fst_conv entry(1) [symmetric] by blast
  qed
  show "ck_Get (memory_base ids now) (snd (ck_Put (memory_base ids now) s cfg cp)) q = Inr (Some (deepCopyMap (deepCopyMap cp)))"
    if "\<not> saver_known (snd s) t (put_id (ids (fst s)) cfg)" "config_string q ''thread_id'' = Some t"
      "config_string q ''checkpoint_id'' = Some (put_id (ids (fst s)) cfg)" for q
  proof -
    have "find (\<lambda>e. ce_ID e = put_id (ids n) cfg) (thread_versions ms t) = None"
      using that(1) find_None_list_ex [of "\<lambda>e. ce_ID e = put_id (ids n) cfg" "thread_versions ms t"] by (auto simp: saver_known_def s)
    then show ?thesis
      using that unfolding s put [unfolded s] by (simp add: entry versions MemorySaver_Get_def Let_def find_append)
  qed
  show "ck_Get (memory_base ids now) (snd (ck_Put (memory_base ids now) s cfg cp)) q = ck_Get (memory_base ids now) s q"
    if "config_string q ''thread_id'' = Some u" "u \<noteq> t" for q u
    using that unfolding s put [unfolded s] by (simp add: versions MemorySaver_Get_def Let_def split: option.splits)
qed

section \<open>Values of a snapshot\<close>

lemma graph_registry_get:
  assumes "mwf (g_channels g)"
  shows "mget (channels (graph_registry g)) k = map_option Channel_Copy (mget (g_channels g) k)" "mwf (channels (graph_registry g))"
proof -
  have fold: "mget (channels (fold (\<lambda>(name, ch) r. Registry_Register r name (Channel_Copy ch)) es r)) k =
      (case map_of (rev es) k of Some ch \<Rightarrow> Some (Channel_Copy ch) | None \<Rightarrow> mget (channels r) k)" for es r
    by (induction es arbitrary: r) (auto simp: Registry_Register_def map_add_def split: option.splits)
  have wf: "mwf (channels r) \<Longrightarrow> mwf (channels (fold (\<lambda>(name, ch) r. Registry_Register r name (Channel_Copy ch)) es r))" for es r
    by (induction es arbitrary: r) (auto simp: Registry_Register_def mwf_mput)
  have "map_of (rev (g_channels g)) k = mget (g_channels g) k"
    by (rule map_of_rev_distinct [OF assms])
  then show "mget (channels (graph_registry g)) k = map_option Channel_Copy (mget (g_channels g) k)"
    by (simp add: graph_registry_def fold NewRegistry_def split: option.split)
  show "mwf (channels (graph_registry g))" by (simp add: graph_registry_def wf NewRegistry_def)
qed

text \<open>The value of a channel restored from what a checkpoint has for it.\<close>

definition restored_channel :: "channel \<Rightarrow> gvalue option \<Rightarrow> gvalue option" where
  "restored_channel ch v = value_of (case v of Some cp \<Rightarrow> Channel_FromCheckpoint (Channel_Copy ch) cp | None \<Rightarrow> Channel_Copy ch)"

lemma restored_values_ok:
  assumes "range_order ro" and "mwf (g_channels g)" and "mwf cpData"
  shows "\<exists>vals. restored_values ro g cpData = Inr vals \<and>
    (\<forall>k. mget vals k = Option.bind (mget (g_channels g) k) (\<lambda>ch. restored_channel ch (mget cpData k)))"
proof -
  let ?r = "graph_registry g"
  let ?f = "filter (\<lambda>en. Registry_Get ?r (fst en) \<noteq> None) cpData"
  have f: "mget ?f k = (if Registry_Get ?r k \<noteq> None then mget cpData k else None)" for k
    by (rule mget_filter_key)
  have "mwf ?f" using assms(3) by (rule mwf_filter)
  moreover have "\<forall>k. mhas ?f k \<longrightarrow> mhas (channels ?r) k"
    unfolding mhas_mget f by (simp add: Registry_Get_def)
  ultimately obtain r1 where restore: "Registry_RestoreFromCheckpoint ro ?r ?f = (None, r1)"
    and r1: "\<And>k. mget (channels r1) k = (case mget ?f k of
      Some v \<Rightarrow> map_option (\<lambda>ch. Channel_FromCheckpoint ch v) (mget (channels ?r) k) | None \<Rightarrow> mget (channels ?r) k)"
    using RestoreFromCheckpoint_ok [OF assms(1)] by metis
  have "mwf (channels r1)"
  proof -
    have "mwf m \<Longrightarrow> mwf (snd (restore_loop m es))" for m es
      by (induction m es rule: restore_loop.induct) (auto split: option.splits)
    then show ?thesis
      using restore graph_registry_get(2) [OF assms(2)] by (auto simp: Registry_RestoreFromCheckpoint_def split: prod.splits) (metis snd_conv)
  qed
  from GetValues_ok [OF assms(1) this] obtain vals where vals: "fst (Registry_GetValues ro r1) = Inr vals"
    "\<And>k. mget vals k = Option.bind (mget (channels r1) k) value_of" by fastforce
  have same: "r1 = ?r" if "?f = []"
    using restore that by (simp add: Registry_RestoreFromCheckpoint_def range_entries_def mkeys_def range_order_Nil [OF assms(1)])
  have "restored_values ro g cpData = Inr vals"
    using restore vals(1) same by (cases "?f = []") (simp_all add: restored_values_def Let_def)
  moreover have "mget vals k = Option.bind (mget (g_channels g) k) (\<lambda>ch. restored_channel ch (mget cpData k))" for k
    unfolding vals(2) r1 f
    by (auto simp: graph_registry_get(1) [OF assms(2)] Registry_Get_def restored_channel_def split: option.splits)
  ultimately show ?thesis by blast
qed

definition values_at :: "gerror + StateSnapshot option \<Rightarrow> (gvalue gomap) option" where
  "values_at r = (case r of Inr (Some snap) \<Rightarrow> Some (ss_Values snap) | _ \<Rightarrow> None)"

lemma GetState_values:
  assumes "ck_Get ck s (buildCheckpointerConfig config) = Inr (Some cpData)"
  shows "values_at (compiledGraph_GetState ro now (Some (Inr ck)) g s config) =
    (case restored_values ro g cpData of Inr vals \<Rightarrow> Some vals | Inl err \<Rightarrow> None)"
  using assms by (simp add: compiledGraph_GetState_def compiledGraph_getCheckpointer_def values_at_def split: sum.splits)

section \<open>Properties\<close>

definition thread_config :: "string \<Rightarrow> string \<Rightarrow> RunnableConfig" where
  "thread_config t i = NewRunnableConfig\<lparr>rc_Configurable :=
     Some (if i \<noteq> [] then mput [(''thread_id'', GString t)] ''checkpoint_id'' (GString i) else [(''thread_id'', GString t)])\<rparr>"

lemma build_thread_config:
  "buildCheckpointerConfig (Some (thread_config t i)) =
     (if i \<noteq> [] then mput [(''thread_id'', GString t)] ''checkpoint_id'' (GString i) else [(''thread_id'', GString t)])"
  by (simp add: thread_config_def buildCheckpointerConfig_def mget_Cons)

definition x_graph :: stateGraph where
  "x_graph = stateGraph_AddChannel (graph_of [] []) ''x'' (Some (CLastValue (NewLastValue None)))"

definition x_saver :: MemorySaver where
  "x_saver = saver_put NewMemorySaver ''t'' ''a'' [(''x'', GBool True)]"

definition x_update :: "bool \<Rightarrow> StateUpdate" where
  "x_update b = \<lparr>su_Values = [(''x'', GBool b)], su_AsNode = [], su_CheckID = [], su_ThreadID = []\<rparr>"

abbreviation x_cp :: "(nat \<times> MemorySaver) graph_checkpointer" where
  "x_cp \<equiv> Some (Inr (memory_base (\<lambda>n. ''u'' @ nat_digits n) int))"

text \<open>C17: A fork of a thread reads like its source.  For an in-memory saver whose source checkpoint holds JSON
  documents, \<open>ForkThread\<close> succeeds, \<open>GetState\<close> with the configuration it returns gives the values \<open>GetState\<close> gives for the
  source, and no other thread changes.\<close>

theorem fork_preserves_state:
  assumes "MemorySaver_Get ms (buildCheckpointerConfig (Some (thread_config t i))) = Inr (Some cpData)" and "doc_map cpData"
    and "\<not> saver_known ms u (ids n)" and "ids n \<noteq> []"
  shows "\<exists>c s'. compiledGraph_ForkThread (Some (Inr (memory_base ids now))) (n, ms) t u i = (Inr c, s') \<and>
    values_at (compiledGraph_GetState ro tm (Some (Inr (memory_base ids now))) g s' (Some c)) =
      values_at (compiledGraph_GetState ro tm (Some (Inr (memory_base ids now))) g (n, ms) (Some (thread_config t i))) \<and>
    (\<forall>v j. v \<noteq> u \<longrightarrow> compiledGraph_GetState ro tm (Some (Inr (memory_base ids now))) g s' (Some (thread_config v j)) =
      compiledGraph_GetState ro tm (Some (Inr (memory_base ids now))) g (n, ms) (Some (thread_config v j)))"
proof -
  let ?ck = "memory_base ids now"
  have get: "ck_Get ?ck (n, ms) (buildCheckpointerConfig (Some (thread_config t i))) = Inr (Some cpData)" using assms(1) by simp
  from memory_listing.fork_points_to_copy [where ids = ids and now = now and s = "(n, ms)" and u = u, OF get [unfolded build_thread_config]] assms(3,4)
  obtain c s' where fork: "compiledGraph_ForkThread (Some (Inr ?ck)) (n, ms) t u i = (Inr c, s')"
    and copy: "ck_Get ?ck s' (buildCheckpointerConfig (Some c)) = Inr (Some (deepCopyMap (deepCopyMap cpData)))"
    and others: "\<And>q v. config_string q ''thread_id'' = Some v \<Longrightarrow> v \<noteq> u \<Longrightarrow> ck_Get ?ck s' q = ck_Get ?ck (n, ms) q"
    by auto
  have "deepCopyMap (deepCopyMap cpData) = cpData" using doc_map_deepCopy [OF assms(2)] by (simp add: deepCopyMap_def)
  then have "values_at (compiledGraph_GetState ro tm (Some (Inr ?ck)) g s' (Some c)) =
      values_at (compiledGraph_GetState ro tm (Some (Inr ?ck)) g (n, ms) (Some (thread_config t i)))"
    unfolding GetState_values [OF copy] GetState_values [OF get] by simp
  moreover have "compiledGraph_GetState ro tm (Some (Inr ?ck)) g s' (Some (thread_config v j)) =
      compiledGraph_GetState ro tm (Some (Inr ?ck)) g (n, ms) (Some (thread_config v j))" if "v \<noteq> u" for v j
  proof -
    have "config_string (buildCheckpointerConfig (Some (thread_config v j))) ''thread_id'' = Some v"
      unfolding build_thread_config by (simp add: config_string_def mget_Cons)
    from others [OF this that] show ?thesis by (simp add: compiledGraph_GetState_def compiledGraph_getCheckpointer_def)
  qed
  ultimately show ?thesis using fork by blast
qed

theorem fork_preserves_state_witness:
  "\<exists>c s'. compiledGraph_ForkThread x_cp (0, x_saver) ''t'' ''f'' [] = (Inr c, s') \<and>
    values_at (compiledGraph_GetState rev 9 x_cp x_graph s' (Some c)) = Some [(''x'', GBool True)]"
proof -
  have "MemorySaver_Get x_saver (buildCheckpointerConfig (Some (thread_config ''t'' []))) = Inr (Some [(''x'', GBool True)])"
    "\<not> saver_known x_saver ''f'' (''u'' @ nat_digits 0)" "doc_map [(''x'', GBool True)]"
    "values_at (compiledGraph_GetState rev 9 x_cp x_graph (0, x_saver) (Some (thread_config ''t'' []))) = Some [(''x'', GBool True)]"
    by code_simp+
  then show ?thesis
    using fork_preserves_state [of x_saver "''t''" "[]" "[(''x'', GBool True)]" "''f''" "\<lambda>n. ''u'' @ nat_digits n" 0 int rev 9 x_graph]
    by auto
qed

text \<open>The first \<open>UpdateState\<close> of a thread: \<open>GetState\<close> with the configuration it returns reads every channel of the graph
  as restored from the updated value, or from the value of the checkpoint when the update does not name it.\<close>

theorem first_update_read_back:
  assumes "range_order ro" and "mwf (g_channels g)" and "mwf (mputs cpData (su_Values update))" and "doc_map (mputs cpData (su_Values update))"
    and "MemorySaver_Get ms (buildCheckpointerConfig (Some (thread_config t i))) = Inr (Some cpData)" and "t \<noteq> []"
    and "su_CheckID update = []" and "su_ThreadID update = []" and "\<not> saver_known ms t []"
  shows "\<exists>c s' vals. compiledGraph_UpdateState (Some (Inr (memory_base ids now))) (n, ms) (Some (thread_config t i)) update = (Inr (Some c), s') \<and>
    values_at (compiledGraph_GetState ro tm (Some (Inr (memory_base ids now))) g s' (Some c)) = Some vals \<and>
    (\<forall>k. mget vals k = Option.bind (mget (g_channels g) k) (\<lambda>ch. restored_channel ch (mget (mputs cpData (su_Values update)) k)))"
proof -
  let ?ck = "memory_base ids now" and ?data = "mputs cpData (su_Values update)"
  have get: "ck_Get ?ck (n, ms) (buildCheckpointerConfig (Some (thread_config t i))) = Inr (Some cpData)" using assms(5) by simp
  have tid: "config_string (buildCheckpointerConfig (Some (thread_config t i))) ''thread_id'' = Some t"
    unfolding build_thread_config by (simp add: config_string_def mget_Cons)
  from memory_listing.update_points_to_result [where ids = ids and now = now, OF get tid assms(6-8)] assms(9)
  obtain c s' where upd: "compiledGraph_UpdateState (Some (Inr ?ck)) (n, ms) (Some (thread_config t i)) update = (Inr (Some c), s')"
    and read: "ck_Get ?ck s' (buildCheckpointerConfig (Some c)) = Inr (Some (deepCopyMap (deepCopyMap ?data)))" by auto
  have "deepCopyMap (deepCopyMap ?data) = ?data" using doc_map_deepCopy [OF assms(4)] by (simp add: deepCopyMap_def)
  with read have read': "ck_Get ?ck s' (buildCheckpointerConfig (Some c)) = Inr (Some ?data)" by simp
  obtain vals where "restored_values ro g ?data = Inr vals"
    and "\<forall>k. mget vals k = Option.bind (mget (g_channels g) k) (\<lambda>ch. restored_channel ch (mget ?data k))"
    using restored_values_ok [OF assms(1-3)] by blast
  then show ?thesis using upd GetState_values [OF read', of ro tm g] by auto
qed

theorem first_update_read_back_witness:
  "\<exists>c s' vals. compiledGraph_UpdateState x_cp (0, x_saver) (Some (thread_config ''t'' [])) (x_update False) = (Inr (Some c), s') \<and>
    values_at (compiledGraph_GetState rev 9 x_cp x_graph s' (Some c)) = Some vals \<and> mget vals ''x'' = Some (GBool False)"
proof -
  let ?data = "mputs [(''x'', GBool True)] (su_Values (x_update False))"
  have ch: "g_channels x_graph = [(''x'', CLastValue (BaseChannel_SetKey (NewLastValue None) ''x''))]"
    by (simp add: x_graph_def stateGraph_AddChannel_def graph_of_def NewStateGraph_def)
  have "MemorySaver_Get x_saver (buildCheckpointerConfig (Some (thread_config ''t'' []))) = Inr (Some [(''x'', GBool True)])"
    "\<not> saver_known x_saver ''t'' []" "doc_map ?data" "mwf ?data"
    by code_simp+
  moreover have "mwf (g_channels x_graph)" by (simp add: ch mwf_def)
  moreover have "restored_channel (CLastValue (BaseChannel_SetKey (NewLastValue None) ''x'')) (Some (GBool False)) = Some (GBool False)" by code_simp
  ultimately show ?thesis
    using first_update_read_back [of rev x_graph "[(''x'', GBool True)]" "x_update False" x_saver "''t''" "[]" "\<lambda>n. ''u'' @ nat_digits n" int 0 9]
    by (auto simp: ch mget_Cons x_update_def)
qed

text \<open>Every update is stored under the empty identifier: the configuration a second update of a thread returns reads the
  result of the first.\<close>

definition twice_updated :: "(gerror + RunnableConfig option) \<times> nat \<times> MemorySaver" where
  "twice_updated = compiledGraph_UpdateState x_cp (snd (compiledGraph_UpdateState x_cp (0, x_saver) (Some (thread_config ''t'' [])) (x_update False)))
     (Some (thread_config ''t'' [])) (x_update True)"

theorem second_update_reads_first:
  "values_at (compiledGraph_GetState (\<lambda>ks. ks) 9 x_cp x_graph (snd twice_updated) (projr (fst twice_updated))) = Some [(''x'', GBool False)]"
  by code_simp

end
