(* ===== verification/Messages.thy ===== *)
theory Messages
  imports StateGraph
begin

text \<open>
  \<open>graph/message.go\<close>: messages, the reducer that adds messages to a conversation, the message graph, filters and
  the conversion to the format of a chat API.  A \<open>*Message\<close> is an option, \<open>None\<close> the nil pointer; the code never
  assigns to a message another holder can see, so that pointers need no identity.  Reading a field through the
  nil pointer is the failure \<open>NilDereference\<close>.  Nil and empty slices are not told apart.
\<close>

record Message =
  msg_ID :: string
  msg_Role :: string
  msg_Content :: string
  msg_Extra :: "gvalue gomap"

type_synonym msg_ptr = "Message option"

record GraphError =
  ge_Message :: string
  ge_Code :: string

definition GraphError_Error :: "GraphError \<Rightarrow> string" where
  "GraphError_Error e = (if ge_Code e \<noteq> [] then ge_Code e @ '': '' @ ge_Message e else ge_Message e)"

datatype failure = Returned GraphError | NilDereference

text \<open>The values of an \<open>interface{}\<close> in this file: a pointer to a message, slices of them, slices of interfaces, and
  other values.\<close>

datatype ivalue = IValue gvalue | IMessage msg_ptr | IMessages "msg_ptr list" | IList "ivalue list"

definition ivalue_T :: "ivalue \<Rightarrow> string" where
  "ivalue_T v = (case v of IValue g \<Rightarrow> fmt_T g | IMessage p \<Rightarrow> ''*graph.Message''
     | IMessages ps \<Rightarrow> ''[]*graph.Message'' | IList vs \<Rightarrow> ''[]interface {}'')"

definition as_slice :: "ivalue \<Rightarrow> ivalue list option" where
  "as_slice v = (case v of IList vs \<Rightarrow> Some vs | IValue (GSlice gs) \<Rightarrow> Some (map IValue gs) | _ \<Rightarrow> None)"

section \<open>Messages and message states\<close>

definition NewMessage :: "string \<Rightarrow> string \<Rightarrow> Message" where
  "NewMessage role content = \<lparr>msg_ID = [], msg_Role = role, msg_Content = content, msg_Extra = []\<rparr>"

definition NewMessageWithID :: "string \<Rightarrow> string \<Rightarrow> string \<Rightarrow> Message" where
  "NewMessageWithID i role content = \<lparr>msg_ID = i, msg_Role = role, msg_Content = content, msg_Extra = []\<rparr>"

record MessagesState =
  mst_Messages :: "msg_ptr list"
  mst_Extra :: "gvalue gomap"

definition MessagesState_AddMessages :: "MessagesState \<Rightarrow> msg_ptr list \<Rightarrow> MessagesState" where
  "MessagesState_AddMessages s msgs = s\<lparr>mst_Messages := mst_Messages s @ msgs\<rparr>"

definition MessagesState_GetMessages :: "MessagesState \<Rightarrow> msg_ptr list" where
  "MessagesState_GetMessages s = mst_Messages s"

definition MessagesState_GetLastMessage :: "MessagesState \<Rightarrow> msg_ptr" where
  "MessagesState_GetLastMessage s = (if mst_Messages s = [] then None else last (mst_Messages s))"

text \<open>A loop that keeps the messages that satisfy a test on their fields.\<close>

fun keep_messages :: "(Message \<Rightarrow> bool) \<Rightarrow> msg_ptr list \<Rightarrow> failure + msg_ptr list" where
  "keep_messages P [] = Inr []"
| "keep_messages P (None # msgs) = Inl NilDereference"
| "keep_messages P (Some m # msgs) =
     (case keep_messages P msgs of Inl err \<Rightarrow> Inl err | Inr kept \<Rightarrow> Inr (if P m then Some m # kept else kept))"

definition MessagesState_GetMessagesByRole :: "MessagesState \<Rightarrow> string \<Rightarrow> failure + msg_ptr list" where
  "MessagesState_GetMessagesByRole s role = keep_messages (\<lambda>m. msg_Role m = role) (mst_Messages s)"

section \<open>The reducer\<close>

fun existing_loop :: "msg_ptr list \<Rightarrow> Message gomap \<Rightarrow> failure + Message gomap" where
  "existing_loop [] existingMap = Inr existingMap"
| "existing_loop (None # msgs) existingMap = Inl NilDereference"
| "existing_loop (Some m # msgs) existingMap =
     existing_loop msgs (if msg_ID m \<noteq> [] then mput existingMap (msg_ID m) m else existingMap)"

fun find_update :: "msg_ptr list \<Rightarrow> string \<Rightarrow> failure + msg_ptr" where
  "find_update [] i = Inr None"
| "find_update (None # updates) i = Inl NilDereference"
| "find_update (Some u # updates) i = (if msg_ID u = i then Inr (Some u) else find_update updates i)"

fun update_existing ::
    "msg_ptr list \<Rightarrow> msg_ptr list \<Rightarrow> msg_ptr list \<Rightarrow> bool gomap \<Rightarrow> failure + msg_ptr list \<times> bool gomap" where
  "update_existing msgs [] result processedIDs = Inr (result, processedIDs)"
| "update_existing msgs (None # ex) result processedIDs = Inl NilDereference"
| "update_existing msgs (Some m # ex) result processedIDs =
     (if msg_ID m = [] then update_existing msgs ex (result @ [Some m]) processedIDs
      else (case find_update msgs (msg_ID m) of
              Inl err \<Rightarrow> Inl err
            | Inr (Some u) \<Rightarrow> update_existing msgs ex (result @ [Some u]) (mput processedIDs (msg_ID m) True)
            | Inr None \<Rightarrow> update_existing msgs ex (result @ [Some m]) processedIDs))"

fun append_new :: "Message gomap \<Rightarrow> bool gomap \<Rightarrow> msg_ptr list \<Rightarrow> msg_ptr list \<Rightarrow> failure + msg_ptr list" where
  "append_new existingMap processedIDs [] result = Inr result"
| "append_new existingMap processedIDs (None # msgs) result = Inl NilDereference"
| "append_new existingMap processedIDs (Some m # msgs) result =
     (if msg_ID m = [] then append_new existingMap processedIDs msgs (result @ [Some m])
      else if mget processedIDs (msg_ID m) \<noteq> Some True \<and> mget existingMap (msg_ID m) = None
      then append_new existingMap processedIDs msgs (result @ [Some m])
      else append_new existingMap processedIDs msgs result)"

definition AddMessagesReducer :: "ivalue \<Rightarrow> ivalue \<Rightarrow> failure + ivalue" where
  "AddMessagesReducer existing updates =
     (case (case updates of IMessages msgs \<Rightarrow> Some msgs | IMessage m \<Rightarrow> Some [m] | _ \<Rightarrow> None) of
        None \<Rightarrow> Inl (Returned \<lparr>ge_Message = ''cannot add messages of type '' @ ivalue_T updates, ge_Code = []\<rparr>)
      | Some msgs \<Rightarrow>
          if existing = IValue GNil then Inr (IMessages msgs)
          else (case existing of
                  IMessages existingMsgs \<Rightarrow>
                    (case existing_loop existingMsgs [] of
                       Inl err \<Rightarrow> Inl err
                     | Inr existingMap \<Rightarrow>
                         (case update_existing msgs existingMsgs [] [] of
                            Inl err \<Rightarrow> Inl err
                          | Inr (result, processedIDs) \<Rightarrow>
                              (case append_new existingMap processedIDs msgs result of
                                 Inl err \<Rightarrow> Inl err
                               | Inr result' \<Rightarrow> Inr (IMessages result'))))
                | _ \<Rightarrow> Inl (Returned \<lparr>ge_Message = ''existing messages is not []*Message, got '' @ ivalue_T existing, ge_Code = []\<rparr>)))"

section \<open>The message graph\<close>

record MessageGraph =
  mg_graph :: stateGraph
  mg_messagesChannel :: string

definition message_rtype :: rtype where
  "message_rtype = RStruct ''graph.Message''
     [(''ID'', True, RString), (''Role'', True, RString), (''Content'', True, RString), (''Extra'', True, RMap RString RInterface)]"

definition NewMessageGraph :: MessageGraph where
  "NewMessageGraph =
     \<lparr>mg_graph = stateGraph_AddChannel (NewStateGraph (SchemaMap True)) ''messages''
        (Some (CLastValue (NewLastValue (Some (RSlice (RPtr message_rtype)))))),
      mg_messagesChannel = ''messages''\<rparr>"

definition MessageGraph_AddNode :: "MessageGraph \<Rightarrow> string \<Rightarrow> NodeFunc option \<Rightarrow> MessageGraph" where
  "MessageGraph_AddNode g name action = g\<lparr>mg_graph := stateGraph_AddNode (mg_graph g) name action\<rparr>"

definition MessageGraph_AddEdge :: "MessageGraph \<Rightarrow> string \<Rightarrow> string \<Rightarrow> gerror option \<times> MessageGraph" where
  "MessageGraph_AddEdge g startKey endKey =
     (let (err, sg) = stateGraph_AddEdge (mg_graph g) startKey endKey in (err, g\<lparr>mg_graph := sg\<rparr>))"

definition MessageGraph_AddConditionalEdge ::
    "(string list \<Rightarrow> string list) \<Rightarrow> MessageGraph \<Rightarrow> string \<Rightarrow> EdgeFunc \<Rightarrow> string gomap \<Rightarrow> gerror option \<times> MessageGraph" where
  "MessageGraph_AddConditionalEdge ro g source condition edgeMap =
     (let (err, sg) = stateGraph_AddConditionalEdges ro (mg_graph g) source condition edgeMap in (err, g\<lparr>mg_graph := sg\<rparr>))"

definition MessageGraph_SetEntryPoint :: "MessageGraph \<Rightarrow> string \<Rightarrow> gerror option \<times> MessageGraph" where
  "MessageGraph_SetEntryPoint g node =
     (let (err, sg) = stateGraph_SetEntryPoint (mg_graph g) node in (err, g\<lparr>mg_graph := sg\<rparr>))"

definition MessageGraph_Build :: "(string list \<Rightarrow> string list) \<Rightarrow> MessageGraph \<Rightarrow> gerror + compiledGraph \<times> stateGraph" where
  "MessageGraph_Build ro g = stateGraph_Compile ro (mg_graph g) []"

section \<open>Messages in a state\<close>

fun slice_messages :: "nat \<Rightarrow> ivalue list \<Rightarrow> failure + msg_ptr list" where
  "slice_messages i [] = Inr []"
| "slice_messages i (v # vs) =
     (case v of
        IMessage m \<Rightarrow> (case slice_messages (Suc i) vs of Inl err \<Rightarrow> Inl err | Inr ms \<Rightarrow> Inr (m # ms))
      | _ \<Rightarrow> Inl (Returned \<lparr>ge_Message = ''message at index '' @ nat_digits i @ '' is not *Message, got '' @ ivalue_T v, ge_Code = []\<rparr>))"

definition GetMessagesFromState :: "ivalue gomap \<Rightarrow> failure + msg_ptr list" where
  "GetMessagesFromState state =
     (case mget state ''messages'' of
        None \<Rightarrow> Inr []
      | Some messages \<Rightarrow>
          (case messages of
             IMessages msgs \<Rightarrow> Inr msgs
           | _ \<Rightarrow> (case as_slice messages of
                     Some msgs \<Rightarrow> slice_messages 0 msgs
                   | None \<Rightarrow> Inl (Returned \<lparr>ge_Message = ''messages is not []*Message, got '' @ ivalue_T messages, ge_Code = []\<rparr>))))"

definition AddMessagesToState :: "ivalue gomap \<Rightarrow> msg_ptr list \<Rightarrow> failure option \<times> ivalue gomap" where
  "AddMessagesToState state msgs =
     (case GetMessagesFromState state of
        Inl err \<Rightarrow> (Some err, state)
      | Inr existing \<Rightarrow> (None, mput state ''messages'' (IMessages (existing @ msgs))))"

section \<open>Roles and filters\<close>

definition HumanMessage :: "string \<Rightarrow> Message" where
  "HumanMessage content = NewMessage ''user'' content"

definition AIMessage :: "string \<Rightarrow> Message" where
  "AIMessage content = NewMessage ''assistant'' content"

definition SystemMessage :: "string \<Rightarrow> Message" where
  "SystemMessage content = NewMessage ''system'' content"

definition ToolMessage :: "string \<Rightarrow> string \<Rightarrow> Message" where
  "ToolMessage content toolCallID =
     (let msg = NewMessage ''tool'' content in msg\<lparr>msg_Extra := mput (msg_Extra msg) ''tool_call_id'' (GString toolCallID)\<rparr>)"

definition FunctionMessage :: "string \<Rightarrow> string \<Rightarrow> Message" where
  "FunctionMessage content name =
     (let msg = NewMessage ''function'' content in msg\<lparr>msg_Extra := mput (msg_Extra msg) ''name'' (GString name)\<rparr>)"

fun FormatMessages :: "msg_ptr list \<Rightarrow> failure + string list" where
  "FormatMessages [] = Inr []"
| "FormatMessages (None # msgs) = Inl NilDereference"
| "FormatMessages (Some m # msgs) =
     (case FormatMessages msgs of Inl err \<Rightarrow> Inl err | Inr fs \<Rightarrow> Inr ((msg_Role m @ '': '' @ msg_Content m) # fs))"

text \<open>The loop from the last message down to the first.\<close>

fun last_with_role :: "string \<Rightarrow> msg_ptr list \<Rightarrow> failure + msg_ptr" where
  "last_with_role role [] = Inr None"
| "last_with_role role (None # rest) = Inl NilDereference"
| "last_with_role role (Some m # rest) = (if msg_Role m = role then Inr (Some m) else last_with_role role rest)"

definition GetLastUserMessage :: "msg_ptr list \<Rightarrow> failure + msg_ptr" where
  "GetLastUserMessage msgs = last_with_role ''user'' (rev msgs)"

definition GetLastAIMessage :: "msg_ptr list \<Rightarrow> failure + msg_ptr" where
  "GetLastAIMessage msgs = last_with_role ''assistant'' (rev msgs)"

definition FilterMessagesByRole :: "msg_ptr list \<Rightarrow> string list \<Rightarrow> failure + msg_ptr list" where
  "FilterMessagesByRole msgs roles =
     (let roleSet = fold (\<lambda>role m. mput m role True) roles []
      in keep_messages (\<lambda>m. mget roleSet (msg_Role m) = Some True) msgs)"

record MessagesFilter =
  mf_roles :: "string list"
  mf_limit :: goint
  mf_offset :: goint
  mf_reverse :: bool
  mf_predicate :: "(msg_ptr \<Rightarrow> bool) option"

definition NewMessagesFilter :: MessagesFilter where
  "NewMessagesFilter = \<lparr>mf_roles = [], mf_limit = 0, mf_offset = 0, mf_reverse = False, mf_predicate = None\<rparr>"

definition MessagesFilter_WithRole :: "MessagesFilter \<Rightarrow> string list \<Rightarrow> MessagesFilter" where
  "MessagesFilter_WithRole f roles = f\<lparr>mf_roles := roles\<rparr>"

definition MessagesFilter_WithLimit :: "MessagesFilter \<Rightarrow> goint \<Rightarrow> MessagesFilter" where
  "MessagesFilter_WithLimit f limit = f\<lparr>mf_limit := limit\<rparr>"

definition MessagesFilter_WithOffset :: "MessagesFilter \<Rightarrow> goint \<Rightarrow> MessagesFilter" where
  "MessagesFilter_WithOffset f offset = f\<lparr>mf_offset := offset\<rparr>"

definition MessagesFilter_WithReverse :: "MessagesFilter \<Rightarrow> MessagesFilter" where
  "MessagesFilter_WithReverse f = f\<lparr>mf_reverse := True\<rparr>"

definition MessagesFilter_WithPredicate :: "MessagesFilter \<Rightarrow> (msg_ptr \<Rightarrow> bool) option \<Rightarrow> MessagesFilter" where
  "MessagesFilter_WithPredicate f predicate = f\<lparr>mf_predicate := predicate\<rparr>"

fun filter_messages :: "MessagesFilter \<Rightarrow> msg_ptr list \<Rightarrow> failure + msg_ptr list" where
  "filter_messages f [] = Inr []"
| "filter_messages f (p # msgs) =
     (case (if mf_roles f = [] then Inr True
            else case p of None \<Rightarrow> Inl NilDereference | Some m \<Rightarrow> Inr (msg_Role m \<in> set (mf_roles f))) of
        Inl err \<Rightarrow> Inl err
      | Inr ok \<Rightarrow>
          (case filter_messages f msgs of
             Inl err \<Rightarrow> Inl err
           | Inr rest \<Rightarrow> Inr (if ok \<and> (case mf_predicate f of None \<Rightarrow> True | Some q \<Rightarrow> q p) then p # rest else rest)))"

text \<open>The loop that exchanges the elements at \<open>i\<close> and \<open>j\<close> while \<open>i < j\<close>.\<close>

function reverse_loop :: "int \<Rightarrow> int \<Rightarrow> 'a list \<Rightarrow> 'a list" where
  "reverse_loop i j xs =
     (if i < j then reverse_loop (i + 1) (j - 1) (xs[nat i := xs ! nat j, nat j := xs ! nat i]) else xs)"
  by auto

termination by (relation "measure (\<lambda>(i, j, xs). nat (j - i))") auto

declare reverse_loop.simps [simp del]

definition MessagesFilter_Filter :: "MessagesFilter \<Rightarrow> msg_ptr list \<Rightarrow> failure + msg_ptr list" where
  "MessagesFilter_Filter f msgs =
     (case filter_messages f msgs of
        Inl err \<Rightarrow> Inl err
      | Inr result0 \<Rightarrow>
          (let result1 = (if sint (mf_offset f) > 0 \<and> sint (mf_offset f) < int (length result0)
                          then drop (nat (sint (mf_offset f))) result0 else result0);
               result2 = (if sint (mf_limit f) > 0 \<and> sint (mf_limit f) < int (length result1)
                          then take (nat (sint (mf_limit f))) result1 else result1)
           in Inr (if mf_reverse f then reverse_loop 0 (int (length result2) - 1) result2 else result2)))"

section \<open>The format of the chat API\<close>

record OpenAIChatMessage =
  oa_Role :: string
  oa_Content :: string
  oa_Name :: string

definition Message_ToOpenAIChatMessage :: "msg_ptr \<Rightarrow> failure + OpenAIChatMessage" where
  "Message_ToOpenAIChatMessage p =
     (case p of None \<Rightarrow> Inl NilDereference
      | Some m \<Rightarrow> Inr \<lparr>oa_Role = msg_Role m, oa_Content = msg_Content m, oa_Name = []\<rparr>)"

fun MessagesToOpenAIFormat :: "msg_ptr list \<Rightarrow> failure + OpenAIChatMessage list" where
  "MessagesToOpenAIFormat [] = Inr []"
| "MessagesToOpenAIFormat (None # msgs) = Inl NilDereference"
| "MessagesToOpenAIFormat (Some m # msgs) =
     (case MessagesToOpenAIFormat msgs of Inl err \<Rightarrow> Inl err
      | Inr rest \<Rightarrow> Inr (\<lparr>oa_Role = msg_Role m, oa_Content = msg_Content m, oa_Name = []\<rparr> # rest))"

definition OpenAIFormatToMessages :: "OpenAIChatMessage list \<Rightarrow> msg_ptr list" where
  "OpenAIFormatToMessages openaiMessages =
     map (\<lambda>msg. Some \<lparr>msg_ID = [], msg_Role = oa_Role msg, msg_Content = oa_Content msg,
            msg_Extra = (if oa_Name msg \<noteq> [] then [(''name'', GString (oa_Name msg))] else [])\<rparr>) openaiMessages"

section \<open>Merging by identifier\<close>

text \<open>What the reducer computes on messages that are not nil: every message with an identifier is replaced by the first
  update with that identifier, and the updates with no identifier or a new one follow.\<close>

definition updated :: "Message list \<Rightarrow> Message \<Rightarrow> Message" where
  "updated us m = (if msg_ID m = [] then m else case find (\<lambda>u. msg_ID u = msg_ID m) us of Some u \<Rightarrow> u | None \<Rightarrow> m)"

definition is_new :: "Message list \<Rightarrow> Message \<Rightarrow> bool" where
  "is_new ms u \<longleftrightarrow> msg_ID u = [] \<or> msg_ID u \<notin> msg_ID ` set ms"

definition merge_messages :: "Message list \<Rightarrow> Message list \<Rightarrow> Message list" where
  "merge_messages ms us = map (updated us) ms @ filter (is_new ms) us"

lemma ID_updated [simp]: "msg_ID (updated us m) = msg_ID m"
  by (auto simp: updated_def find_Some_iff split: option.split)

lemma updated_no_ID [simp]: "msg_ID m = [] \<Longrightarrow> updated us m = m"
  by (simp add: updated_def)

lemma ID_image_merge: "msg_ID ` set (merge_messages ms us) - {[]} = (msg_ID ` set ms \<union> msg_ID ` set us) - {[]}"
  by (auto simp: merge_messages_def is_new_def image_Un image_image)

lemma find_ID_None: "find (\<lambda>u. msg_ID u = i) us = None \<longleftrightarrow> i \<notin> msg_ID ` set us"
  by (auto simp: find_None_iff)

lemma find_ID_Some: "find (\<lambda>u. msg_ID u = i) us = Some u \<Longrightarrow> msg_ID u = i"
  by (auto simp: find_Some_iff)

lemma is_new_merge: "is_new (merge_messages ms us) v \<longleftrightarrow> is_new ms v \<and> is_new us v"
  using ID_image_merge [of ms us] unfolding is_new_def by blast

lemma is_new_updated [simp]: "is_new ms (updated us m) \<longleftrightarrow> is_new ms m"
  by (simp add: is_new_def)

lemma find_append_case: "find P (xs @ ys) = (case find P xs of Some x \<Rightarrow> Some x | None \<Rightarrow> find P ys)"
  by (induction xs) auto

lemma find_map_updated:
  "find (\<lambda>u. msg_ID u = i) (map (updated vs) us) = map_option (updated vs) (find (\<lambda>u. msg_ID u = i) us)"
  by (induction us) auto

lemma find_filter_new:
  "i \<noteq> [] \<Longrightarrow> find (\<lambda>u. msg_ID u = i) (filter (is_new ms) us) =
     (if i \<in> msg_ID ` set ms then None else find (\<lambda>u. msg_ID u = i) us)"
  by (induction us) (auto simp: is_new_def)

lemma find_merge:
  "i \<noteq> [] \<Longrightarrow> find (\<lambda>u. msg_ID u = i) (merge_messages us vs) =
     (case find (\<lambda>u. msg_ID u = i) us of Some u \<Rightarrow> Some (updated vs u) | None \<Rightarrow> find (\<lambda>u. msg_ID u = i) vs)"
  by (simp add: merge_messages_def find_append_case find_map_updated find_filter_new find_ID_None split: option.split)
     (metis find_ID_None option.distinct(1))

lemma updated_merge: "updated (merge_messages us vs) m = updated vs (updated us m)"
proof (cases "msg_ID m = []")
  case True
  then show ?thesis by (simp add: updated_def)
next
  case False
  then show ?thesis
    using find_merge [OF False, of us vs] ID_updated [of us m]
    by (auto simp: updated_def [of _ m] updated_def [of vs "updated us m"] split: option.splits)
qed

lemma merge_assoc: "merge_messages (merge_messages ms us) vs = merge_messages ms (merge_messages us vs)"
proof -
  have "filter (is_new ms) (map (updated vs) us) = map (updated vs) (filter (is_new ms) us)"
    by (simp add: filter_map o_def)
  moreover have "filter (is_new (merge_messages ms us)) vs = filter (is_new ms) (filter (is_new us) vs)"
    unfolding filter_filter by (rule filter_cong) (auto simp: is_new_merge)
  moreover have "map (updated (merge_messages us vs)) ms = map (updated vs) (map (updated us) ms)"
    by (simp add: updated_merge)
  ultimately show ?thesis
    unfolding merge_messages_def [of "merge_messages ms us"] merge_messages_def [of ms "merge_messages us vs"]
    by (simp add: merge_messages_def [of ms us] merge_messages_def [of us vs])
qed

lemma merge_Nil [simp]: "merge_messages [] us = us" "merge_messages ms [] = ms"
proof -
  show "merge_messages [] us = us" by (simp add: merge_messages_def is_new_def)
  have "updated [] m = m" for m by (simp add: updated_def)
  then show "merge_messages ms [] = ms" by (simp add: merge_messages_def map_idI)
qed

text \<open>What a caller relies on who collects updates before it applies them: a merge that is associative with a neutral
  element.  A sequence of updates can then be applied one by one or merged first.\<close>

locale batched_merge =
  fixes merge :: "'m list \<Rightarrow> 'm list \<Rightarrow> 'm list"
  assumes assoc: "merge (merge ms us) vs = merge ms (merge us vs)"
    and left_neutral: "merge [] us = us"
    and right_neutral: "merge ms [] = ms"
begin

lemma merge_batch: "foldl merge ms us = merge ms (foldl merge [] us)"
proof (induction us rule: rev_induct)
  case Nil
  then show ?case by (simp add: right_neutral)
next
  case (snoc u us)
  then show ?case by (simp add: assoc)
qed

lemma merge_split: "foldl merge ms (us @ vs) = merge (foldl merge ms us) (foldl merge [] vs)"
  by (simp add: merge_batch [of "foldl merge ms us" vs])

end

interpretation by_ID: batched_merge merge_messages
  by unfold_locales (simp_all add: merge_assoc)

section \<open>The reducer merges\<close>

lemma existing_loop_some:
  "\<exists>em. existing_loop (map Some ms) m0 = Inr em \<and>
     (\<forall>i. i \<noteq> [] \<longrightarrow> (mget em i = None \<longleftrightarrow> i \<notin> msg_ID ` set ms \<and> mget m0 i = None))"
proof (induction ms arbitrary: m0)
  case Nil
  then show ?case by simp
next
  case (Cons m ms)
  from Cons.IH [of "if msg_ID m \<noteq> [] then mput m0 (msg_ID m) m else m0"] show ?case by auto
qed

lemma find_update_some: "find_update (map Some us) i = Inr (find (\<lambda>u. msg_ID u = i) us)"
  by (induction us) auto

lemma update_existing_some:
  "\<exists>p. update_existing (map Some us) (map Some ms) res p0 = Inr (res @ map (Some \<circ> updated us) ms, p) \<and>
     (\<forall>i. mget p i = Some True \<longrightarrow> i \<in> msg_ID ` set ms \<or> mget p0 i = Some True)"
proof (induction ms arbitrary: res p0)
  case Nil
  then show ?case by simp
next
  case (Cons m ms)
  show ?case
  proof (cases "msg_ID m \<noteq> [] \<and> find (\<lambda>u. msg_ID u = msg_ID m) us \<noteq> None")
    case True
    then obtain u where u: "find (\<lambda>u. msg_ID u = msg_ID m) us = Some u" by auto
    from Cons.IH [of "res @ [Some u]" "mput p0 (msg_ID m) True"] True show ?thesis
      by (auto simp: find_update_some u updated_def [of us m] split: if_splits)
  next
    case False
    from Cons.IH [of "res @ [Some m]" p0] False show ?thesis
      by (auto simp: find_update_some updated_def [of us m])
  qed
qed

lemma append_new_some:
  assumes "\<And>i. i \<noteq> [] \<Longrightarrow> (mget p i \<noteq> Some True \<and> mget em i = None) = (i \<notin> msg_ID ` set ms)"
  shows "append_new em p (map Some us) res = Inr (res @ map Some (filter (is_new ms) us))"
  using assms by (induction us arbitrary: res) (auto simp: is_new_def)

lemma reducer_merges:
  "AddMessagesReducer (IMessages (map Some ms)) (IMessages (map Some us)) = Inr (IMessages (map Some (merge_messages ms us)))"
proof -
  obtain em where em: "existing_loop (map Some ms) [] = Inr em"
    "\<And>i. i \<noteq> [] \<Longrightarrow> (mget em i = None \<longleftrightarrow> i \<notin> msg_ID ` set ms)"
    using existing_loop_some [of ms "[]"] by auto
  obtain p where p: "update_existing (map Some us) (map Some ms) [] [] = Inr (map (Some \<circ> updated us) ms, p)"
    "\<And>i. mget p i = Some True \<Longrightarrow> i \<in> msg_ID ` set ms"
    using update_existing_some [of us ms "[]" "[]"] by auto
  have "append_new em p (map Some us) (map (Some \<circ> updated us) ms) =
      Inr (map (Some \<circ> updated us) ms @ map Some (filter (is_new ms) us))"
    by (rule append_new_some) (use em(2) p(2) in blast)
  with em(1) p(1) show ?thesis by (simp add: AddMessagesReducer_def merge_messages_def)
qed

lemma reducer_first: "AddMessagesReducer (IValue GNil) (IMessages ps) = Inr (IMessages ps)"
  by (simp add: AddMessagesReducer_def)

section \<open>Properties\<close>

definition by_ID_at :: "Message list \<Rightarrow> string \<Rightarrow> Message option" where
  "by_ID_at ms i = find (\<lambda>m. msg_ID m = i) ms"

definition distinct_IDs :: "Message list \<Rightarrow> bool" where
  "distinct_IDs ms \<longleftrightarrow> distinct (filter (\<lambda>i. i \<noteq> []) (map msg_ID ms))"

lemma distinct_IDs_merge:
  assumes "distinct_IDs ms" and "distinct_IDs us"
  shows "distinct_IDs (merge_messages ms us)"
proof -
  have "map (msg_ID \<circ> updated us) ms = map msg_ID ms" by simp
  then have "filter (\<lambda>i. i \<noteq> []) (map msg_ID (merge_messages ms us)) =
      filter (\<lambda>i. i \<noteq> []) (map msg_ID ms) @ filter (\<lambda>i. i \<notin> msg_ID ` set ms) (filter (\<lambda>i. i \<noteq> []) (map msg_ID us))"
    by (auto simp: merge_messages_def filter_map o_def is_new_def intro!: arg_cong [where f = "map msg_ID"] filter_cong)
  with assms show ?thesis unfolding distinct_IDs_def by (simp only: distinct_append distinct_filter set_filter) auto
qed



text \<open>A sequence of updates can be applied one after the other or collected first: the reducer applied to the merged updates gives the
  same conversation, for all messages and identifiers.\<close>

theorem reducer_batches:
  "\<exists>rs bs. foldl (\<lambda>acc us. Option.bind acc (\<lambda>v. case AddMessagesReducer v (IMessages (map Some us)) of Inr w \<Rightarrow> Some w | Inl e \<Rightarrow> None))
       (Some (IMessages (map Some ms))) updates = Some (IMessages (map Some rs)) \<and>
     foldl (\<lambda>acc us. Option.bind acc (\<lambda>v. case AddMessagesReducer v (IMessages (map Some us)) of Inr w \<Rightarrow> Some w | Inl e \<Rightarrow> None))
       (Some (IMessages [])) updates = Some (IMessages (map Some bs)) \<and>
     AddMessagesReducer (IMessages (map Some ms)) (IMessages (map Some bs)) = Inr (IMessages (map Some rs))"
proof -
  let ?step = "\<lambda>acc us. Option.bind acc (\<lambda>v. case AddMessagesReducer v (IMessages (map Some us)) of Inr w \<Rightarrow> Some w | Inl e \<Rightarrow> None)"
  have steps: "foldl ?step (Some (IMessages (map Some xs))) updates = Some (IMessages (map Some (foldl merge_messages xs updates)))" for xs
    by (induction updates arbitrary: xs) (simp_all add: reducer_merges)
  show ?thesis
    using steps [of ms] steps [of "[]"] reducer_merges [of ms "foldl merge_messages [] updates"]
    by (intro exI conjI) (simp_all add: by_ID.merge_batch [of ms])
qed

text \<open>Two new messages with one identifier in the same update are both appended, although the reducer is documented to
  remove duplicates by identifier.\<close>

theorem duplicates_in_update_kept:
  "AddMessagesReducer (IMessages []) (IMessages [Some (NewMessageWithID ''1'' ''user'' ''a''), Some (NewMessageWithID ''1'' ''user'' ''b'')]) =
     Inr (IMessages [Some (NewMessageWithID ''1'' ''user'' ''a''), Some (NewMessageWithID ''1'' ''user'' ''b'')])"
  using reducer_merges [of "[]" "[NewMessageWithID ''1'' ''user'' ''a'', NewMessageWithID ''1'' ''user'' ''b'']"] by simp

section \<open>Filters\<close>

lemma keep_messages_some: "keep_messages P (map Some ms) = Inr (map Some (filter P ms))"
  by (induction ms) auto

text \<open>The loop that exchanges elements from both ends reverses the segment between its indices.\<close>

lemma reverse_loop_segment:
  "reverse_loop (int (length as)) (int (length as + length xs) - 1) (as @ xs @ bs) = as @ rev xs @ bs"
proof (induction "length xs" arbitrary: as xs bs rule: less_induct)
  case less
  show ?case
  proof (cases "length xs < 2")
    case True
    then have "rev xs = xs" by (cases xs) (auto simp: numeral_2_eq_2)
    with True show ?thesis by (simp add: reverse_loop.simps)
  next
    case False
    then obtain x zs where "xs = x # zs" "zs \<noteq> []" by (cases xs) auto
    then obtain ys y where xs: "xs = x # ys @ [y]" by (cases zs rule: rev_cases) auto
    let ?i = "length as"
    have swap: "(as @ xs @ bs)[?i := y, Suc (?i + length ys) := x] = (as @ [y]) @ ys @ ([x] @ bs)"
      by (simp add: xs list_update_append nth_append)
    have at: "(as @ xs @ bs) ! Suc (?i + length ys) = y" "(as @ xs @ bs) ! ?i = x"
      by (simp_all add: xs nth_append)
    have "reverse_loop (int ?i) (int (?i + length xs) - 1) (as @ xs @ bs) =
        reverse_loop (int ?i + 1) (int ?i + int (length ys)) ((as @ [y]) @ ys @ ([x] @ bs))"
      using swap at by (subst reverse_loop.simps) (simp add: xs nat_add_distrib)
    also have "\<dots> = (as @ [y]) @ rev ys @ ([x] @ bs)"
      using less [of ys "as @ [y]" "[x] @ bs"] by (simp add: xs add.commute)
    finally show ?thesis by (simp add: xs)
  qed
qed

lemma reverse_loop_rev: "reverse_loop 0 (int (length xs) - 1) xs = rev xs"
  using reverse_loop_segment [of "[]" xs "[]"] by simp

lemma filter_messages_some:
  "filter_messages f (map Some ms) =
     Inr (map Some (filter (\<lambda>m. (mf_roles f = [] \<or> msg_Role m \<in> set (mf_roles f)) \<and>
       (case mf_predicate f of None \<Rightarrow> True | Some q \<Rightarrow> q (Some m))) ms))"
  by (induction ms) (auto split: option.split)

text \<open>\<open>MessagesFilter.Filter\<close> returns the messages with one of the roles that satisfy the predicate, without the first \<open>offset\<close>, of
  the rest the first \<open>limit\<close>, in reverse order when asked; no offset or limit when they are not positive.  An
  offset that is not less than the number of messages found is ignored instead of giving no message.\<close>

theorem filter_selects_page:
  fixes f :: MessagesFilter and ms :: "Message list"
  defines "found \<equiv> filter (\<lambda>m. (mf_roles f = [] \<or> msg_Role m \<in> set (mf_roles f)) \<and>
       (case mf_predicate f of None \<Rightarrow> True | Some q \<Rightarrow> q (Some m))) ms"
  defines "rest \<equiv> (if sint (mf_offset f) < int (length found) then drop (nat (sint (mf_offset f))) found else found)"
  defines "page \<equiv> (if 0 < sint (mf_limit f) then take (nat (sint (mf_limit f))) rest else rest)"
  shows "MessagesFilter_Filter f (map Some ms) = Inr (map Some (if mf_reverse f then rev page else page))"
proof -
  let ?r1 = "if sint (mf_offset f) > 0 \<and> sint (mf_offset f) < int (length (map Some found))
    then drop (nat (sint (mf_offset f))) (map Some found) else map Some found"
  let ?r2 = "if sint (mf_limit f) > 0 \<and> sint (mf_limit f) < int (length ?r1) then take (nat (sint (mf_limit f))) ?r1 else ?r1"
  have r1: "?r1 = map Some rest" by (auto simp: rest_def drop_map)
  have r2: "?r2 = map Some page" unfolding r1 by (auto simp: page_def take_map)
  have "MessagesFilter_Filter f (map Some ms) = Inr (if mf_reverse f then reverse_loop 0 (int (length ?r2) - 1) ?r2 else ?r2)"
    unfolding MessagesFilter_Filter_def filter_messages_some found_def [symmetric] Let_def by simp
  then show ?thesis unfolding r2 by (simp add: reverse_loop_rev [of "map Some page", simplified] rev_map)
qed

section \<open>Conversations in a state\<close>

text \<open>What \<open>AddMessagesToState\<close> has added to a state is read back by \<open>GetMessagesFromState\<close> after the messages that were there,
  whether these were a slice of messages or of interfaces, and no other entry changes; on an error the state is
  unchanged.\<close>

theorem state_messages_roundtrip:
  assumes "AddMessagesToState state msgs = (err, state')"
  shows "case GetMessagesFromState state of
      Inr old \<Rightarrow> err = None \<and> GetMessagesFromState state' = Inr (old @ msgs) \<and> (\<forall>k. k \<noteq> ''messages'' \<longrightarrow> mget state' k = mget state k)
    | Inl e \<Rightarrow> err = Some e \<and> state' = state"
proof (cases "GetMessagesFromState state")
  case (Inl e)
  with assms show ?thesis by (simp add: AddMessagesToState_def)
next
  case (Inr old)
  then have "err = None" "state' = mput state ''messages'' (IMessages (old @ msgs))"
    using assms by (simp_all add: AddMessagesToState_def)
  then show ?thesis using Inr by (simp add: GetMessagesFromState_def [of "mput _ _ _"])
qed

theorem state_messages_roundtrip_witness:
  "GetMessagesFromState (snd (AddMessagesToState [(''messages'', IList [IMessage (Some (HumanMessage ''a''))])] [Some (AIMessage ''b'')])) =
     Inr [Some (HumanMessage ''a''), Some (AIMessage ''b'')]"
  using state_messages_roundtrip [of "[(''messages'', IList [IMessage (Some (HumanMessage ''a''))])]" "[Some (AIMessage ''b'')]" _ _, OF prod.collapse [symmetric]]
  by (simp add: GetMessagesFromState_def [of "[_]"] mget_Cons as_slice_def)

text \<open>Through the format of the chat API a message keeps role and content and loses identifier and metadata.\<close>

theorem chat_format_roundtrip:
  "\<exists>os. MessagesToOpenAIFormat (map Some ms) = Inr os \<and>
     OpenAIFormatToMessages os = map (\<lambda>m. Some (NewMessage (msg_Role m) (msg_Content m))) ms"
  by (induction ms) (auto simp: OpenAIFormatToMessages_def NewMessage_def)

text \<open>The graphs built from \<open>NewMessageGraph\<close>.\<close>

inductive message_built :: "MessageGraph \<Rightarrow> bool" where
  new: "message_built NewMessageGraph"
| node: "message_built g \<Longrightarrow> message_built (MessageGraph_AddNode g name action)"
| edge: "message_built g \<Longrightarrow> message_built (snd (MessageGraph_AddEdge g from to))"
| conditional: "message_built g \<Longrightarrow> message_built (snd (MessageGraph_AddConditionalEdge ro g source condition m))"
| entry: "message_built g \<Longrightarrow> message_built (snd (MessageGraph_SetEntryPoint g node))"

lemma message_built_channels: "message_built g \<Longrightarrow> g_channels (mg_graph g) = g_channels (mg_graph NewMessageGraph) \<and>
    stateSchema (mg_graph g) = SchemaMap True"
  by (induction rule: message_built.induct)
     (auto simp: NewMessageGraph_def NewStateGraph_def stateGraph_AddChannel_def MessageGraph_AddNode_def stateGraph_AddNode_def
       MessageGraph_AddEdge_def stateGraph_AddEdge_def MessageGraph_AddConditionalEdge_def stateGraph_AddConditionalEdges_def
       MessageGraph_SetEntryPoint_def stateGraph_SetEntryPoint_def Let_def split: option.split if_split prod.split)

text \<open>A message graph is documented to manage its messages with the reducer above.  Its channel keeps the last value: one
  update replaces the conversation.\<close>

theorem message_graph_replaces:
  assumes "message_built g" and "MessageGraph_Build ro g = Inr (cg, sg)"
  shows "\<exists>ch. mget (g_channels sg) ''messages'' = Some ch \<and>
    (\<forall>old v. fst (Channel_Get (snd (Channel_Update (snd (Channel_Update ch [old])) [v]))) =
       (if IsMissing v then Inl empty_error else Inr v))"
proof -
  have ch: "g_channels (mg_graph g) = [(''messages'', CLastValue ((NewLastValue (Some (RSlice (RPtr message_rtype))))\<lparr>Key := ''messages''\<rparr>))]"
    using message_built_channels [OF assms(1)] by (simp add: NewMessageGraph_def NewStateGraph_def stateGraph_AddChannel_def BaseChannel_SetKey_def)
  have "g_channels sg = g_channels (mg_graph g)"
    using assms(2) message_built_channels [OF assms(1)]
    by (auto simp: MessageGraph_Build_def stateGraph_Compile_def stateGraph_configureChannelsFromSchema_def validateStateSchema_def Let_def split: option.splits sum.splits)
  with ch show ?thesis
    by (simp add: mget_Cons LastValue_Update_def LastValue_Get_def)
qed

end
