(* ===== verification/MessageStream.thy ===== *)
theory MessageStream
  imports Errors
begin

text \<open>
  \<open>pregel/messages.go\<close>: the handler that puts the chunks of streamed messages together and hands complete messages to
  emitters.  An emitter acts on the world of type \<open>'w\<close> and may fail.  Every method holds the lock of the handler
  for its whole body and is one step, except \<open>Close\<close>, which is a sequence of such steps.  Chunks passed to the handler are
  not nil.  A nil map is an empty map: the code only reads its length and entries or replaces it before writing.
\<close>

record ToolCall =
  tc_ID :: string
  tc_Name :: string
  tc_Arguments :: "gvalue gomap"

record MessageChunk =
  mc_Index :: goint
  mc_Content :: string
  mc_Metadata :: "gvalue gomap"
  mc_IsComplete :: bool
  mc_Role :: string
  mc_ToolCalls :: "ToolCall list"

record MessageStream =
  st_node :: string
  st_chunks :: "MessageChunk list"
  st_current :: "MessageChunk option"
  st_closed :: bool

datatype FlushTrigger = FlushOnComplete | FlushImmediate | FlushOnEnd

type_synonym 'w MessageEmitter = "string \<Rightarrow> MessageChunk \<Rightarrow> 'w \<Rightarrow> gerror option \<times> 'w"

record 'w MessageAggregator =
  ag_messages :: "MessageChunk list gomap"
  ag_emitters :: "'w MessageEmitter list"

record 'w StreamMessagesHandler =
  sh_streams :: "MessageStream gomap"
  sh_aggregator :: "'w MessageAggregator"
  sh_flushTrigger :: FlushTrigger

section \<open>The aggregator\<close>

definition NewMessageAggregator :: "'w MessageAggregator" where
  "NewMessageAggregator = \<lparr>ag_messages = [], ag_emitters = []\<rparr>"

definition MessageAggregator_AddMessage :: "'w MessageAggregator \<Rightarrow> string \<Rightarrow> MessageChunk \<Rightarrow> 'w MessageAggregator" where
  "MessageAggregator_AddMessage a node chunk =
     a\<lparr>ag_messages := mput (ag_messages a) node ((case mget (ag_messages a) node of Some cs \<Rightarrow> cs | None \<Rightarrow> []) @ [chunk])\<rparr>"

fun emit_all :: "'w MessageEmitter list \<Rightarrow> string \<Rightarrow> MessageChunk \<Rightarrow> 'w \<Rightarrow> gerror option \<times> 'w" where
  "emit_all [] node chunk w = (None, w)"
| "emit_all (emitter # es) node chunk w =
     (case emitter node chunk w of (Some err, w') \<Rightarrow> (Some err, w') | (None, w') \<Rightarrow> emit_all es node chunk w')"

fun emit_chunks :: "'w MessageEmitter list \<Rightarrow> string \<Rightarrow> MessageChunk list \<Rightarrow> 'w \<Rightarrow> gerror option \<times> 'w" where
  "emit_chunks es node [] w = (None, w)"
| "emit_chunks es node (chunk # chunks) w =
     (case emit_all es node chunk w of (Some err, w') \<Rightarrow> (Some err, w') | (None, w') \<Rightarrow> emit_chunks es node chunks w')"

text \<open>The loop over the nodes; a node is removed after all its messages have been emitted.\<close>

fun flush_loop :: "'w MessageAggregator \<Rightarrow> (string \<times> MessageChunk list) list \<Rightarrow> 'w \<Rightarrow> gerror option \<times> 'w MessageAggregator \<times> 'w" where
  "flush_loop a [] w = (None, a, w)"
| "flush_loop a ((node, chunks) # rest) w =
     (case emit_chunks (ag_emitters a) node chunks w of
        (Some err, w') \<Rightarrow> (Some err, a, w')
      | (None, w') \<Rightarrow> flush_loop (a\<lparr>ag_messages := mdel (ag_messages a) node\<rparr>) rest w')"

definition MessageAggregator_Flush ::
    "(string list \<Rightarrow> string list) \<Rightarrow> 'w MessageAggregator \<Rightarrow> 'w \<Rightarrow> gerror option \<times> 'w MessageAggregator \<times> 'w" where
  "MessageAggregator_Flush ro a w = flush_loop a (range_entries ro (ag_messages a)) w"

definition MessageAggregator_AddEmitter :: "'w MessageAggregator \<Rightarrow> 'w MessageEmitter \<Rightarrow> 'w MessageAggregator" where
  "MessageAggregator_AddEmitter a emitter = a\<lparr>ag_emitters := ag_emitters a @ [emitter]\<rparr>"

section \<open>The handler\<close>

definition WithFlushTrigger :: "FlushTrigger \<Rightarrow> 'w StreamMessagesHandler \<Rightarrow> 'w StreamMessagesHandler" where
  "WithFlushTrigger trigger h = h\<lparr>sh_flushTrigger := trigger\<rparr>"

definition NewStreamMessagesHandler ::
    "('w StreamMessagesHandler \<Rightarrow> 'w StreamMessagesHandler) list \<Rightarrow> 'w StreamMessagesHandler" where
  "NewStreamMessagesHandler opts =
     fold (\<lambda>opt h. opt h) opts \<lparr>sh_streams = [], sh_aggregator = NewMessageAggregator, sh_flushTrigger = FlushOnComplete\<rparr>"

definition merge_chunk :: "MessageChunk \<Rightarrow> MessageChunk \<Rightarrow> MessageChunk" where
  "merge_chunk current chunk =
     current\<lparr>mc_Content := mc_Content current @ mc_Content chunk,
       mc_Metadata := mputs (mc_Metadata current) (mc_Metadata chunk),
       mc_Role := (if mc_Role chunk \<noteq> [] then mc_Role chunk else mc_Role current),
       mc_ToolCalls := mc_ToolCalls current @ mc_ToolCalls chunk\<rparr>"

definition current_message :: "MessageStream \<Rightarrow> MessageChunk" where
  "current_message ms =
     (case st_current ms of
        Some c \<Rightarrow> if mc_IsComplete c
          then \<lparr>mc_Index = of_nat (length (st_chunks ms)), mc_Content = [], mc_Metadata = [], mc_IsComplete = False, mc_Role = [], mc_ToolCalls = []\<rparr>
          else c
      | None \<Rightarrow> \<lparr>mc_Index = of_nat (length (st_chunks ms)), mc_Content = [], mc_Metadata = [], mc_IsComplete = False, mc_Role = [], mc_ToolCalls = []\<rparr>)"

definition handler_flush ::
    "(string list \<Rightarrow> string list) \<Rightarrow> 'w StreamMessagesHandler \<Rightarrow> 'w \<Rightarrow> gerror option \<times> 'w StreamMessagesHandler \<times> 'w" where
  "handler_flush ro h w =
     (let (err, a, w') = MessageAggregator_Flush ro (sh_aggregator h) w in (err, h\<lparr>sh_aggregator := a\<rparr>, w'))"

text \<open>The current message becomes complete and goes to the aggregator.\<close>

definition complete_current :: "'w StreamMessagesHandler \<Rightarrow> string \<Rightarrow> MessageStream \<Rightarrow> MessageChunk \<Rightarrow> 'w StreamMessagesHandler" where
  "complete_current h node ms current =
     (let c = current\<lparr>mc_IsComplete := True\<rparr>
      in h\<lparr>sh_streams := mput (sh_streams h) node (ms\<lparr>st_chunks := st_chunks ms @ [c], st_current := None\<rparr>),
           sh_aggregator := MessageAggregator_AddMessage (sh_aggregator h) node c\<rparr>)"

definition StreamMessagesHandler_OnChunk ::
    "(string list \<Rightarrow> string list) \<Rightarrow> 'w StreamMessagesHandler \<Rightarrow> 'w \<Rightarrow> string \<Rightarrow> MessageChunk \<Rightarrow>
     gerror option \<times> 'w StreamMessagesHandler \<times> 'w" where
  "StreamMessagesHandler_OnChunk ro h w node chunk =
     (let ms = (case mget (sh_streams h) node of Some ms \<Rightarrow> ms
                | None \<Rightarrow> \<lparr>st_node = node, st_chunks = [], st_current = None, st_closed = False\<rparr>);
          h0 = h\<lparr>sh_streams := mput (sh_streams h) node ms\<rparr>
      in if st_closed ms then (Some (ErrorNew (''stream for node '' @ node @ '' is closed'')), h0, w)
         else let current = merge_chunk (current_message ms) chunk
              in if mc_IsComplete chunk
                 then let h1 = complete_current h0 node ms current
                      in if sh_flushTrigger h = FlushOnComplete then handler_flush ro h1 w else (None, h1, w)
                 else let h1 = h0\<lparr>sh_streams := mput (sh_streams h0) node (ms\<lparr>st_current := Some current\<rparr>)\<rparr>
                      in if sh_flushTrigger h = FlushImmediate then handler_flush ro h1 w else (None, h1, w))"

definition StreamMessagesHandler_OnComplete ::
    "(string list \<Rightarrow> string list) \<Rightarrow> 'w StreamMessagesHandler \<Rightarrow> 'w \<Rightarrow> string \<Rightarrow> gerror option \<times> 'w StreamMessagesHandler \<times> 'w" where
  "StreamMessagesHandler_OnComplete ro h w node =
     (case mget (sh_streams h) node of
        None \<Rightarrow> (None, h, w)
      | Some ms \<Rightarrow>
          if st_closed ms then (None, h, w)
          else let ms1 = ms\<lparr>st_closed := True\<rparr>;
                   h1 = (case st_current ms of
                           Some current \<Rightarrow> complete_current h node ms1 current
                         | None \<Rightarrow> h\<lparr>sh_streams := mput (sh_streams h) node ms1\<rparr>)
               in if sh_flushTrigger h = FlushOnEnd then handler_flush ro h1 w else (None, h1, w))"

definition StreamMessagesHandler_Flush ::
    "(string list \<Rightarrow> string list) \<Rightarrow> 'w StreamMessagesHandler \<Rightarrow> 'w \<Rightarrow> gerror option \<times> 'w StreamMessagesHandler \<times> 'w" where
  "StreamMessagesHandler_Flush ro h w = handler_flush ro h w"

definition StreamMessagesHandler_AddEmitter :: "'w StreamMessagesHandler \<Rightarrow> 'w MessageEmitter \<Rightarrow> 'w StreamMessagesHandler" where
  "StreamMessagesHandler_AddEmitter h emitter = h\<lparr>sh_aggregator := MessageAggregator_AddEmitter (sh_aggregator h) emitter\<rparr>"

definition StreamMessagesHandler_GetMessages :: "'w StreamMessagesHandler \<Rightarrow> string \<Rightarrow> MessageChunk list" where
  "StreamMessagesHandler_GetMessages h node = (case mget (sh_streams h) node of Some ms \<Rightarrow> st_chunks ms | None \<Rightarrow> [])"

definition StreamMessagesHandler_GetAllMessages :: "'w StreamMessagesHandler \<Rightarrow> MessageChunk list gomap" where
  "StreamMessagesHandler_GetAllMessages h = mmap st_chunks (sh_streams h)"

fun close_loop ::
    "(string list \<Rightarrow> string list) \<Rightarrow> 'w StreamMessagesHandler \<Rightarrow> 'w \<Rightarrow> string list \<Rightarrow> 'w StreamMessagesHandler \<times> 'w" where
  "close_loop ro h w [] = (h, w)"
| "close_loop ro h w (node # ns) =
     (let (err, h', w') = StreamMessagesHandler_OnComplete ro h w node in close_loop ro h' w' ns)"

definition StreamMessagesHandler_Close ::
    "(string list \<Rightarrow> string list) \<Rightarrow> 'w StreamMessagesHandler \<Rightarrow> 'w \<Rightarrow> gerror option \<times> 'w StreamMessagesHandler \<times> 'w" where
  "StreamMessagesHandler_Close ro h w =
     (let (h', w') = close_loop ro h w (ro (mkeys (sh_streams h))) in handler_flush ro h' w')"

definition StreamModeMessages ::
    "('w StreamMessagesHandler \<Rightarrow> 'w StreamMessagesHandler) list \<Rightarrow> 'w StreamMessagesHandler" where
  "StreamModeMessages opts = NewStreamMessagesHandler opts"

section \<open>Emitters and outputs\<close>

definition CollectToMap :: "(MessageChunk list gomap) MessageEmitter" where
  "CollectToMap node chunk target =
     (None, mput target node ((case mget target node of Some cs \<Rightarrow> cs | None \<Rightarrow> []) @ [chunk]))"

datatype output_value = OValue gvalue | OChunk MessageChunk | OChunks "MessageChunk list" | OToolCalls "ToolCall list"

definition output_T :: "output_value \<Rightarrow> string" where
  "output_T v = (case v of OValue g \<Rightarrow> fmt_T g | OChunk c \<Rightarrow> ''*pregel.MessageChunk'' | OChunks cs \<Rightarrow> ''[]*pregel.MessageChunk''
     | OToolCalls ts \<Rightarrow> ''[]*pregel.ToolCall'')"

definition ExtractMessagesFromOutput :: "output_value \<Rightarrow> gerror + MessageChunk list" where
  "ExtractMessagesFromOutput output =
     (let fail = Inl (ErrorNew (''cannot extract messages from output of type '' @ output_T output))
      in case output of
           OChunk chunk \<Rightarrow> Inr [chunk]
         | OChunks chunks \<Rightarrow> Inr chunks
         | OValue (GMap m) \<Rightarrow>
             (case mget m ''content'' of
                Some (GString content) \<Rightarrow>
                  Inr [\<lparr>mc_Index = 0, mc_Content = content, mc_Metadata = [], mc_IsComplete = False,
                     mc_Role = (case mget m ''role'' of Some (GString r) \<Rightarrow> r | _ \<Rightarrow> ''assistant''), mc_ToolCalls = []\<rparr>]
              | _ \<Rightarrow> fail)
         | _ \<Rightarrow> fail)"

definition ConvertToTaskResult :: "string \<Rightarrow> MessageChunk list \<Rightarrow> string \<times> output_value gomap option" where
  "ConvertToTaskResult node chunks =
     (if chunks = [] then (node, None)
      else let merged = fold (\<lambda>chunk merged. merge_chunk merged chunk) chunks
                 \<lparr>mc_Index = 0, mc_Content = [], mc_Metadata = [], mc_IsComplete = False, mc_Role = [], mc_ToolCalls = []\<rparr>;
               output = mputs [] [(''messages'', OChunks [merged]), (''content'', OValue (GString (mc_Content merged))),
                 (''role'', OValue (GString (mc_Role merged)))]
           in (node, Some (if mc_ToolCalls merged \<noteq> [] then mput output ''tool_calls'' (OToolCalls (mc_ToolCalls merged)) else output)))"

section \<open>Streams\<close>

text \<open>A stream numbers its complete messages and has at most one incomplete message, and none once it is closed.\<close>

definition stream_ok :: "MessageStream \<Rightarrow> bool" where
  "stream_ok ms \<longleftrightarrow>
     (\<forall>i<length (st_chunks ms). mc_IsComplete (st_chunks ms ! i) \<and> mc_Index (st_chunks ms ! i) = of_nat i) \<and>
     (\<forall>c. st_current ms = Some c \<longrightarrow> \<not> mc_IsComplete c \<and> mc_Index c = of_nat (length (st_chunks ms))) \<and>
     (st_closed ms \<longrightarrow> st_current ms = None)"

definition stream_text :: "MessageStream \<Rightarrow> string" where
  "stream_text ms = concat (map mc_Content (st_chunks ms)) @ (case st_current ms of Some c \<Rightarrow> mc_Content c | None \<Rightarrow> [])"

definition stream_at :: "'w StreamMessagesHandler \<Rightarrow> string \<Rightarrow> MessageStream" where
  "stream_at h n = (case mget (sh_streams h) n of Some ms \<Rightarrow> ms
     | None \<Rightarrow> \<lparr>st_node = n, st_chunks = [], st_current = None, st_closed = False\<rparr>)"

definition pending :: "'w MessageAggregator \<Rightarrow> string \<Rightarrow> MessageChunk list" where
  "pending a n = (case mget (ag_messages a) n of Some cs \<Rightarrow> cs | None \<Rightarrow> [])"

text \<open>The texts a node has sent, in order.\<close>

definition sent_text :: "(string \<times> MessageChunk) list \<Rightarrow> string \<Rightarrow> string" where
  "sent_text r n = concat (map (mc_Content \<circ> snd) (filter (\<lambda>e. fst e = n) r))"

lemma sent_text_snoc: "sent_text (r @ [(m, c)]) n = (if m = n then sent_text r n @ mc_Content c else sent_text r n)"
  by (simp add: sent_text_def)

lemma merge_chunk_fields [simp]:
  "mc_Content (merge_chunk d c) = mc_Content d @ mc_Content c" "mc_Index (merge_chunk d c) = mc_Index d"
  "mc_IsComplete (merge_chunk d c) = mc_IsComplete d"
  by (simp_all add: merge_chunk_def)

lemma current_message_ok:
  assumes "stream_ok ms"
  shows "mc_Index (current_message ms) = of_nat (length (st_chunks ms))" "\<not> mc_IsComplete (current_message ms)"
    "concat (map mc_Content (st_chunks ms)) @ mc_Content (current_message ms) = stream_text ms"
  using assms by (auto simp: stream_ok_def current_message_def stream_text_def split: option.splits)

lemma stream_ok_complete:
  assumes "stream_ok ms" and "mc_Index c = of_nat (length (st_chunks ms))"
  shows "stream_ok (ms\<lparr>st_chunks := st_chunks ms @ [c\<lparr>mc_IsComplete := True\<rparr>], st_current := None\<rparr>)"
    and "stream_ok (ms\<lparr>st_chunks := st_chunks ms @ [c\<lparr>mc_IsComplete := True\<rparr>], st_current := None, st_closed := True\<rparr>)"
  using assms by (auto simp: stream_ok_def nth_append less_Suc_eq)

lemma stream_at_put [simp]: "stream_at (h\<lparr>sh_streams := mput (sh_streams h) n ms\<rparr>) k = (if k = n then ms else stream_at h k)"
  by (simp add: stream_at_def)

lemma stream_at_complete [simp]:
  "stream_at (complete_current h n ms c) k =
     (if k = n then ms\<lparr>st_chunks := st_chunks ms @ [c\<lparr>mc_IsComplete := True\<rparr>], st_current := None\<rparr> else stream_at h k)"
  by (simp add: complete_current_def Let_def stream_at_def)

lemma stream_at_flush: "handler_flush ro h w = (err, h', w') \<Longrightarrow> stream_at h' = stream_at h \<and> sh_streams h' = sh_streams h"
  by (auto simp: handler_flush_def stream_at_def fun_eq_iff split: prod.splits)

lemma GetMessages_stream: "StreamMessagesHandler_GetMessages h n = st_chunks (stream_at h n)"
  by (simp add: StreamMessagesHandler_GetMessages_def stream_at_def split: option.split)

text \<open>The invariant of the streams of a handler that has been given the chunks \<open>r\<close>.\<close>

definition streams_inv :: "'w StreamMessagesHandler \<Rightarrow> (string \<times> MessageChunk) list \<Rightarrow> bool" where
  "streams_inv h r \<longleftrightarrow> (\<forall>n. stream_ok (stream_at h n) \<and> stream_text (stream_at h n) = sent_text r n)"

lemma OnChunk_cases:
  assumes "StreamMessagesHandler_OnChunk ro h w n c = (err, h', w')"
  defines "ms \<equiv> stream_at h n" and "h0 \<equiv> h\<lparr>sh_streams := mput (sh_streams h) n (stream_at h n)\<rparr>"
    and "m \<equiv> merge_chunk (current_message (stream_at h n)) c"
  obtains (closed) "st_closed ms" "err \<noteq> None" "h' = h0" "w' = w"
    | (message) h1 where "\<not> st_closed ms"
      "h1 = (if mc_IsComplete c then complete_current h0 n ms m else h0\<lparr>sh_streams := mput (sh_streams h0) n (ms\<lparr>st_current := Some m\<rparr>)\<rparr>)"
      "(err, h', w') = (None, h1, w) \<or> (err, h', w') = handler_flush ro h1 w"
  using assms unfolding StreamMessagesHandler_OnChunk_def stream_at_def [symmetric] Let_def
  by (cases "st_closed ms") (auto split: if_splits)

lemma streams_inv_chunk:
  assumes "streams_inv h r" and "StreamMessagesHandler_OnChunk ro h w n c = (err, h', w')"
  shows "streams_inv h' (if st_closed (stream_at h n) then r else r @ [(n, c)])"
proof -
  let ?ms = "stream_at h n" and ?m = "merge_chunk (current_message (stream_at h n)) c"
  have ok: "stream_ok ?ms" "stream_text ?ms = sent_text r n" using assms(1) by (auto simp: streams_inv_def)
  note cur = current_message_ok [OF ok(1)]
  from assms(2) show ?thesis
  proof (cases rule: OnChunk_cases)
    case closed
    then show ?thesis using assms(1) by (simp add: streams_inv_def)
  next
    case (message h1)
    have "stream_at h' = stream_at h1" using message(3) stream_at_flush [of ro h1 w err h' w'] by auto
    moreover have "stream_ok (stream_at h1 k) \<and> stream_text (stream_at h1 k) = sent_text (r @ [(n, c)]) k" for k
    proof (cases "k = n")
      case True
      have "stream_ok (?ms\<lparr>st_chunks := st_chunks ?ms @ [?m\<lparr>mc_IsComplete := True\<rparr>], st_current := None\<rparr>)"
        using stream_ok_complete(1) [OF ok(1), of ?m] cur(1) by simp
      moreover have "stream_ok (?ms\<lparr>st_current := Some ?m\<rparr>)"
        using ok(1) cur message(1) by (simp add: stream_ok_def)
      ultimately show ?thesis
        using True message(2) cur(3) ok(2) by (auto simp: sent_text_snoc stream_text_def)
    next
      case False
      then show ?thesis using message(2) assms(1) by (auto simp: sent_text_snoc streams_inv_def)
    qed
    ultimately show ?thesis using message(1) by (simp add: streams_inv_def)
  qed
qed

lemma OnComplete_cases:
  assumes "StreamMessagesHandler_OnComplete ro h w n = (err, h', w')"
  defines "ms \<equiv> stream_at h n"
  obtains (nothing) "mget (sh_streams h) n = None \<or> st_closed ms" "h' = h" "w' = w" "err = None"
    | (close) h1 where "\<not> st_closed ms" "mget (sh_streams h) n = Some ms"
      "h1 = (case st_current ms of Some c \<Rightarrow> complete_current h n (ms\<lparr>st_closed := True\<rparr>) c
         | None \<Rightarrow> h\<lparr>sh_streams := mput (sh_streams h) n (ms\<lparr>st_closed := True\<rparr>)\<rparr>)"
      "(err, h', w') = (None, h1, w) \<or> (err, h', w') = handler_flush ro h1 w"
proof (cases "mget (sh_streams h) n = None \<or> st_closed ms")
  case True
  then have "h' = h \<and> w' = w \<and> err = None"
    using assms(1) by (auto simp: StreamMessagesHandler_OnComplete_def ms_def stream_at_def split: option.splits)
  with True that(1) show ?thesis by blast
next
  case False
  then obtain m where m: "mget (sh_streams h) n = Some m" "m = ms" by (auto simp: ms_def stream_at_def)
  let ?h1 = "case st_current ms of Some c \<Rightarrow> complete_current h n (ms\<lparr>st_closed := True\<rparr>) c
    | None \<Rightarrow> h\<lparr>sh_streams := mput (sh_streams h) n (ms\<lparr>st_closed := True\<rparr>)\<rparr>"
  have "(err, h', w') = (None, ?h1, w) \<or> (err, h', w') = handler_flush ro ?h1 w"
    using False m assms(1) by (auto simp: StreamMessagesHandler_OnComplete_def Let_def split: if_splits)
  with that(2) [of ?h1] False m show ?thesis by blast
qed

lemma streams_inv_complete:
  assumes "streams_inv h r" and "StreamMessagesHandler_OnComplete ro h w n = (err, h', w')"
  shows "streams_inv h' r" and "mget (sh_streams h) n \<noteq> None \<Longrightarrow> st_closed (stream_at h' n)"
    and "st_closed (stream_at h k) \<Longrightarrow> st_closed (stream_at h' k)"
    and "mget (sh_streams h') k = None \<longleftrightarrow> mget (sh_streams h) k = None"
proof -
  let ?ms = "stream_at h n"
  have ok: "stream_ok ?ms" "stream_text ?ms = sent_text r n" using assms(1) by (auto simp: streams_inv_def)
  have *: "streams_inv h' r \<and> (mget (sh_streams h) n \<noteq> None \<longrightarrow> st_closed (stream_at h' n)) \<and>
      (st_closed (stream_at h k) \<longrightarrow> st_closed (stream_at h' k)) \<and>
      (mget (sh_streams h') k = None \<longleftrightarrow> mget (sh_streams h) k = None)"
    using assms(2)
  proof (cases rule: OnComplete_cases)
    case nothing
    then show ?thesis using assms(1) by (auto simp: stream_at_def)
  next
    case (close h1)
    have same: "stream_at h' = stream_at h1" "sh_streams h' = sh_streams h1" using close(4) stream_at_flush [of ro h1 w err h' w'] by auto
    have at: "stream_at h1 k = (if k = n then ?ms\<lparr>st_chunks := st_chunks ?ms @ (case st_current ?ms of Some c \<Rightarrow> [c\<lparr>mc_IsComplete := True\<rparr>] | None \<Rightarrow> []),
        st_current := None, st_closed := True\<rparr> else stream_at h k)" for k
      unfolding close(3) by (auto split: option.split)
    have "stream_ok (stream_at h1 n)" "stream_text (stream_at h1 n) = sent_text r n"
    proof -
      show "stream_ok (stream_at h1 n)"
        using ok(1) stream_ok_complete(2) [OF ok(1)] unfolding at
        by (cases "st_current ?ms") (auto simp: stream_ok_def)
      show "stream_text (stream_at h1 n) = sent_text r n"
        using ok(2) unfolding at by (auto simp: stream_text_def split: option.split)
    qed
    moreover have "mget (sh_streams h1) k = None \<longleftrightarrow> mget (sh_streams h) k = None"
      unfolding close(3) using close(2) by (auto simp: complete_current_def Let_def split: option.split)
    ultimately show ?thesis using same assms(1) at by (auto simp: streams_inv_def)
  qed
  then show "streams_inv h' r" and "mget (sh_streams h) n \<noteq> None \<Longrightarrow> st_closed (stream_at h' n)"
    and "st_closed (stream_at h k) \<Longrightarrow> st_closed (stream_at h' k)"
    and "mget (sh_streams h') k = None \<longleftrightarrow> mget (sh_streams h) k = None" by blast+
qed

section \<open>Delivery\<close>

lemma pending_AddMessage [simp]:
  "pending (MessageAggregator_AddMessage a n c) k = (if k = n then pending a n @ [c] else pending a k)"
  by (simp add: pending_def MessageAggregator_AddMessage_def)

lemma AddMessage_fields [simp]:
  "ag_emitters (MessageAggregator_AddMessage a n c) = ag_emitters a"
  "mwf (ag_messages a) \<Longrightarrow> mwf (ag_messages (MessageAggregator_AddMessage a n c))"
  by (auto simp: MessageAggregator_AddMessage_def)

text \<open>What the aggregator relies on for an emitter: it never fails, and \<open>log\<close> is what it has been given for each node.\<close>

locale reliable_emitter =
  fixes emit :: "'w MessageEmitter" and log :: "'w \<Rightarrow> string \<Rightarrow> MessageChunk list"
  assumes succeeds: "fst (emit n c w) = None"
    and logs: "log (snd (emit n c w)) = (log w)(n := log w n @ [c])"
begin

lemma emit_chunks_logs: "\<exists>w'. emit_chunks [emit] n cs w = (None, w') \<and> log w' = (log w)(n := log w n @ cs)"
proof (induction cs arbitrary: w)
  case Nil
  then show ?case by simp
next
  case (Cons c cs)
  obtain w1 where w1: "emit n c w = (None, w1)" "log w1 = (log w)(n := log w n @ [c])"
    using succeeds [of n c w] logs [of n c w] by (metis prod.collapse snd_conv)
  with Cons.IH [of w1] show ?case by (auto simp: fun_eq_iff)
qed

lemma flush_loop_logs:
  "ag_emitters a = [emit] \<Longrightarrow> distinct (map fst es) \<Longrightarrow>
   \<exists>a' w'. flush_loop a es w = (None, a', w') \<and> ag_emitters a' = [emit] \<and> (mwf (ag_messages a) \<longrightarrow> mwf (ag_messages a')) \<and>
     (\<forall>n. mget (ag_messages a') n = (if n \<in> set (map fst es) then None else mget (ag_messages a) n)) \<and>
     (\<forall>n. log w' n = log w n @ (case map_of es n of Some cs \<Rightarrow> cs | None \<Rightarrow> []))"
proof (induction es arbitrary: a w)
  case Nil
  then show ?case by simp
next
  case (Cons e es)
  obtain n cs where e: "e = (n, cs)" by (cases e)
  obtain w1 where w1: "emit_chunks [emit] n cs w = (None, w1)" "log w1 = (log w)(n := log w n @ cs)"
    using emit_chunks_logs by blast
  let ?a = "a\<lparr>ag_messages := mdel (ag_messages a) n\<rparr>"
  have "ag_emitters ?a = [emit]" "distinct (map fst es)" using Cons.prems by auto
  from Cons.IH [OF this, of w1] obtain a' w' where IH: "flush_loop ?a es w1 = (None, a', w')" "ag_emitters a' = [emit]"
    "mwf (ag_messages ?a) \<longrightarrow> mwf (ag_messages a')"
    "\<forall>k. mget (ag_messages a') k = (if k \<in> set (map fst es) then None else mget (ag_messages ?a) k)"
    "\<forall>k. log w' k = log w1 k @ (case map_of es k of Some cs \<Rightarrow> cs | None \<Rightarrow> [])" by blast
  have "map_of es n = None" using Cons.prems(2) e by (simp add: map_of_eq_None_iff)
  then have "log w' k = log w k @ (case map_of (e # es) k of Some cs \<Rightarrow> cs | None \<Rightarrow> [])" for k
    using IH(5) w1(2) by (simp add: e)
  then show ?case using IH(1-4) w1(1) Cons.prems(1) by (auto simp: e)
qed

lemma flush_logs:
  assumes "range_order ro" and "ag_emitters (sh_aggregator h) = [emit]" and "mwf (ag_messages (sh_aggregator h))"
  shows "\<exists>h' w'. handler_flush ro h w = (None, h', w') \<and> ag_emitters (sh_aggregator h') = [emit] \<and> mwf (ag_messages (sh_aggregator h')) \<and>
    (\<forall>n. pending (sh_aggregator h') n = []) \<and> (\<forall>n. log w' n = log w n @ pending (sh_aggregator h) n)"
proof -
  let ?a = "sh_aggregator h"
  let ?es = "range_entries ro (ag_messages ?a)"
  have "distinct (map fst ?es)" by (rule range_entries_distinct [OF assms(1,3)])
  from flush_loop_logs [OF assms(2) this, of w] obtain a' w' where f: "flush_loop ?a ?es w = (None, a', w')"
    "ag_emitters a' = [emit]" "mwf (ag_messages a')"
    "\<And>n. mget (ag_messages a') n = (if n \<in> set (map fst ?es) then None else mget (ag_messages ?a) n)"
    "\<And>n. log w' n = log w n @ (case map_of ?es n of Some cs \<Rightarrow> cs | None \<Rightarrow> [])" using assms(3) by blast
  have m: "map_of ?es = mget (ag_messages ?a)"
    by (rule ext) (rule map_of_range_entries [OF assms(1,3)])
  have "mget (ag_messages a') n = None" for n
    using f(4) [of n] m by (metis map_of_eq_None_iff set_map)
  then have "pending a' n = []" for n by (simp add: pending_def)
  moreover have "log w' n = log w n @ pending ?a n" for n using f(5) by (simp add: m pending_def)
  ultimately show ?thesis using f(1-3) by (simp add: handler_flush_def MessageAggregator_Flush_def)
qed

text \<open>Every complete message has been emitted or is pending, in order, and no other message has been emitted.\<close>

definition delivery_inv :: "'w \<Rightarrow> 'w StreamMessagesHandler \<Rightarrow> 'w \<Rightarrow> bool" where
  "delivery_inv w0 h w \<longleftrightarrow> ag_emitters (sh_aggregator h) = [emit] \<and> mwf (ag_messages (sh_aggregator h)) \<and>
     (\<forall>n. log w n @ pending (sh_aggregator h) n = log w0 n @ st_chunks (stream_at h n))"

lemma delivery_complete:
  assumes "delivery_inv w0 h w" and "st_chunks ms = st_chunks (stream_at h n)"
  shows "delivery_inv w0 (complete_current h n ms c) w"
  using assms unfolding delivery_inv_def by (auto simp: complete_current_def Let_def stream_at_def)

lemma delivery_put:
  assumes "delivery_inv w0 h w" and "st_chunks ms = st_chunks (stream_at h n)"
  shows "delivery_inv w0 (h\<lparr>sh_streams := mput (sh_streams h) n ms\<rparr>) w"
  using assms by (simp add: delivery_inv_def)

lemma delivery_flush:
  assumes "range_order ro" and "delivery_inv w0 h w" and "handler_flush ro h w = (err, h', w')"
  shows "err = None \<and> delivery_inv w0 h' w' \<and> (\<forall>n. log w' n = log w0 n @ st_chunks (stream_at h' n))"
  using flush_logs [of ro h w] assms stream_at_flush [OF assms(3)] unfolding delivery_inv_def by (auto simp: append_assoc [symmetric])

lemma delivery_chunk:
  assumes "range_order ro" and "delivery_inv w0 h w" and "StreamMessagesHandler_OnChunk ro h w n c = (err, h', w')"
  shows "delivery_inv w0 h' w'"
  using assms(3)
proof (cases rule: OnChunk_cases)
  case closed
  then show ?thesis using delivery_put [OF assms(2)] by simp
next
  case (message h1)
  let ?h0 = "h\<lparr>sh_streams := mput (sh_streams h) n (stream_at h n)\<rparr>"
  have "delivery_inv w0 ?h0 w" by (rule delivery_put [OF assms(2)]) simp
  then have "delivery_inv w0 h1 w"
    unfolding message(2) using delivery_complete [of w0 ?h0 w] delivery_put [OF assms(2)] by auto
  then show ?thesis using message(3) delivery_flush [OF assms(1)] by (metis prod.inject)
qed

lemma delivery_OnComplete:
  assumes "range_order ro" and "delivery_inv w0 h w" and "StreamMessagesHandler_OnComplete ro h w n = (err, h', w')"
  shows "delivery_inv w0 h' w'"
  using assms(3)
proof (cases rule: OnComplete_cases)
  case nothing
  then show ?thesis using assms(2) by simp
next
  case (close h1)
  have "delivery_inv w0 h1 w"
    unfolding close(3) using delivery_complete [OF assms(2)] delivery_put [OF assms(2)] by (auto split: option.split)
  then show ?thesis using close(4) delivery_flush [OF assms(1)] by (metis prod.inject)
qed

end

section \<open>Runs of the handler\<close>

text \<open>The states of a handler with one emitter, with the chunks that its open streams were given.  Every call may iterate over maps
  in another order.\<close>

inductive handler_reach ::
    "'w MessageEmitter \<Rightarrow> FlushTrigger \<Rightarrow> 'w \<Rightarrow> 'w StreamMessagesHandler \<Rightarrow> 'w \<Rightarrow> (string \<times> MessageChunk) list \<Rightarrow> bool"
  for emit trigger w0 where
  start: "handler_reach emit trigger w0 (StreamMessagesHandler_AddEmitter (NewStreamMessagesHandler [WithFlushTrigger trigger]) emit) w0 []"
| chunk: "handler_reach emit trigger w0 h w r \<Longrightarrow> range_order ro \<Longrightarrow> StreamMessagesHandler_OnChunk ro h w n c = (err, h', w') \<Longrightarrow>
    handler_reach emit trigger w0 h' w' (if st_closed (stream_at h n) then r else r @ [(n, c)])"
| complete: "handler_reach emit trigger w0 h w r \<Longrightarrow> range_order ro \<Longrightarrow> StreamMessagesHandler_OnComplete ro h w n = (err, h', w') \<Longrightarrow>
    handler_reach emit trigger w0 h' w' r"
| flush: "handler_reach emit trigger w0 h w r \<Longrightarrow> range_order ro \<Longrightarrow> StreamMessagesHandler_Flush ro h w = (err, h', w') \<Longrightarrow>
    handler_reach emit trigger w0 h' w' r"

lemma handler_start:
  "stream_at (StreamMessagesHandler_AddEmitter (NewStreamMessagesHandler [WithFlushTrigger trigger]) emit) n =
     \<lparr>st_node = n, st_chunks = [], st_current = None, st_closed = False\<rparr>"
  by (simp add: StreamMessagesHandler_AddEmitter_def NewStreamMessagesHandler_def WithFlushTrigger_def stream_at_def)

lemma reach_streams: "handler_reach emit trigger w0 h w r \<Longrightarrow> streams_inv h r"
proof (induction rule: handler_reach.induct)
  case start
  then show ?case by (simp add: streams_inv_def handler_start stream_ok_def stream_text_def sent_text_def)
next
  case (chunk h w r ro n c err h' w')
  show ?case by (rule streams_inv_chunk [OF chunk.IH chunk.hyps(3)])
next
  case (complete h w r ro n err h' w')
  show ?case by (rule streams_inv_complete(1) [OF complete.IH complete.hyps(3)])
next
  case (flush h w r ro err h' w')
  then show ?case using stream_at_flush [of ro h w err h' w'] by (simp add: StreamMessagesHandler_Flush_def streams_inv_def)
qed

lemma close_loop_closes:
  assumes "streams_inv h r" and "close_loop ro h w ns = (h', w')"
  shows "streams_inv h' r \<and> (\<forall>n. st_closed (stream_at h n) \<or> n \<in> set ns \<and> mget (sh_streams h) n \<noteq> None \<longrightarrow> st_closed (stream_at h' n)) \<and>
    (\<forall>n. mget (sh_streams h') n = None \<longleftrightarrow> mget (sh_streams h) n = None)"
  using assms
proof (induction ns arbitrary: h w)
  case Nil
  then show ?case by simp
next
  case (Cons m ns)
  obtain err h1 w1 where c: "StreamMessagesHandler_OnComplete ro h w m = (err, h1, w1)" by (cases "StreamMessagesHandler_OnComplete ro h w m")
  note s = streams_inv_complete [OF Cons.prems(1) c]
  from Cons.IH [OF s(1)] Cons.prems(2) c
  have IH: "streams_inv h' r \<and> (\<forall>n. st_closed (stream_at h1 n) \<or> n \<in> set ns \<and> mget (sh_streams h1) n \<noteq> None \<longrightarrow> st_closed (stream_at h' n)) \<and>
    (\<forall>n. mget (sh_streams h') n = None \<longleftrightarrow> mget (sh_streams h1) n = None)" by simp
  show ?case using IH s(2-4) by auto
qed

context reliable_emitter
begin

lemma delivery_reach: "handler_reach emit trigger w0 h w r \<Longrightarrow> delivery_inv w0 h w"
proof (induction rule: handler_reach.induct)
  case start
  then show ?case
    unfolding delivery_inv_def handler_start
    by (simp add: StreamMessagesHandler_AddEmitter_def NewStreamMessagesHandler_def WithFlushTrigger_def MessageAggregator_AddEmitter_def
        NewMessageAggregator_def pending_def)
next
  case (chunk h w r ro n c err h' w')
  then show ?case using delivery_chunk by blast
next
  case (complete h w r ro n err h' w')
  then show ?case using delivery_OnComplete by blast
next
  case (flush h w r ro err h' w')
  then show ?case using delivery_flush unfolding StreamMessagesHandler_Flush_def by blast
qed

lemma delivery_close_loop:
  "range_order ro \<Longrightarrow> delivery_inv w0 h w \<Longrightarrow> close_loop ro h w ns = (h', w') \<Longrightarrow> delivery_inv w0 h' w'"
proof (induction ns arbitrary: h w)
  case Nil
  then show ?case by simp
next
  case (Cons m ns)
  obtain err h1 w1 where c: "StreamMessagesHandler_OnComplete ro h w m = (err, h1, w1)" by (cases "StreamMessagesHandler_OnComplete ro h w m")
  with Cons.IH [OF Cons.prems(1) delivery_OnComplete [OF Cons.prems(1,2) c]] Cons.prems(3) show ?case by simp
qed

lemma close_delivers_log:
  assumes reach: "handler_reach emit trigger w0 h w r" and ro: "range_order ro"
    and close: "StreamMessagesHandler_Close ro h w = (err, h', w')"
  shows "err = None" and "log w' n = log w0 n @ StreamMessagesHandler_GetMessages h' n"
    and "concat (map mc_Content (StreamMessagesHandler_GetMessages h' n)) = sent_text r n"
    and "i < length (StreamMessagesHandler_GetMessages h' n) \<Longrightarrow>
      mc_IsComplete (StreamMessagesHandler_GetMessages h' n ! i) \<and> mc_Index (StreamMessagesHandler_GetMessages h' n ! i) = of_nat i"
proof -
  obtain h1 w1 where loop: "close_loop ro h w (ro (mkeys (sh_streams h))) = (h1, w1)" by fastforce
  then have flush: "handler_flush ro h1 w1 = (err, h', w')" using close by (simp add: StreamMessagesHandler_Close_def)
  note closed = close_loop_closes [OF reach_streams [OF reach] loop]
  have "delivery_inv w0 h1 w1" by (rule delivery_close_loop [OF ro delivery_reach [OF reach] loop])
  from delivery_flush [OF ro this flush] show "err = None" and "log w' n = log w0 n @ StreamMessagesHandler_GetMessages h' n"
    by (simp_all add: GetMessages_stream)
  have at: "stream_at h' n = stream_at h1 n" using stream_at_flush [OF flush] by simp
  have ok: "stream_ok (stream_at h1 n)" "stream_text (stream_at h1 n) = sent_text r n" using closed by (auto simp: streams_inv_def)
  have "st_current (stream_at h1 n) = None"
  proof (cases "mget (sh_streams h) n")
    case None
    then have "mget (sh_streams h1) n = None" using closed by blast
    then show ?thesis by (simp add: stream_at_def)
  next
    case (Some ms)
    then have "n \<in> set (ro (mkeys (sh_streams h)))"
      using range_order_set [OF ro] mget_SomeD [OF Some] by (force simp: mkeys_def)
    then show ?thesis using closed Some ok(1) by (auto simp: stream_ok_def)
  qed
  then show "concat (map mc_Content (StreamMessagesHandler_GetMessages h' n)) = sent_text r n"
    using ok(2) by (simp add: GetMessages_stream at stream_text_def)
  show "mc_IsComplete (StreamMessagesHandler_GetMessages h' n ! i) \<and> mc_Index (StreamMessagesHandler_GetMessages h' n ! i) = of_nat i"
    if "i < length (StreamMessagesHandler_GetMessages h' n)"
    using that ok(1) by (simp add: GetMessages_stream at stream_ok_def)
qed

end

interpretation collecting: reliable_emitter CollectToMap "\<lambda>target n. case mget target n of Some cs \<Rightarrow> cs | None \<Rightarrow> []"
  by unfold_locales (auto simp: CollectToMap_def)

section \<open>Properties\<close>

definition collected :: "MessageChunk list gomap \<Rightarrow> string \<Rightarrow> MessageChunk list" where
  "collected target n = (case mget target n of Some cs \<Rightarrow> cs | None \<Rightarrow> [])"


definition text_chunk :: "string \<Rightarrow> bool \<Rightarrow> MessageChunk" where
  "text_chunk s b = \<lparr>mc_Index = 0, mc_Content = s, mc_Metadata = [], mc_IsComplete = b, mc_Role = [], mc_ToolCalls = []\<rparr>"

definition two_chunks :: "(MessageChunk list gomap) StreamMessagesHandler \<times> MessageChunk list gomap" where
  "two_chunks =
     (let h0 = StreamMessagesHandler_AddEmitter (NewStreamMessagesHandler [WithFlushTrigger FlushOnEnd]) CollectToMap;
          (e1, h1, w1) = StreamMessagesHandler_OnChunk (\<lambda>ks. ks) h0 [] ''n'' (text_chunk ''ab'' False);
          (e2, h2, w2) = StreamMessagesHandler_OnChunk (\<lambda>ks. ks) h1 w1 ''n'' (text_chunk ''c'' False)
      in (h2, w2))"

lemma two_chunks_reach:
  "handler_reach CollectToMap FlushOnEnd [] (fst two_chunks) (snd two_chunks) [(''n'', text_chunk ''ab'' False), (''n'', text_chunk ''c'' False)]"
proof -
  let ?h0 = "StreamMessagesHandler_AddEmitter (NewStreamMessagesHandler [WithFlushTrigger FlushOnEnd]) CollectToMap"
  obtain e1 h1 w1 where 1: "StreamMessagesHandler_OnChunk (\<lambda>ks. ks) ?h0 [] ''n'' (text_chunk ''ab'' False) = (e1, h1, w1)"
    using prod_cases3 by blast
  obtain e2 h2 w2 where 2: "StreamMessagesHandler_OnChunk (\<lambda>ks. ks) h1 w1 ''n'' (text_chunk ''c'' False) = (e2, h2, w2)"
    using prod_cases3 by blast
  have "\<not> st_closed (stream_at h1 ''n'')"
    using 1 by (auto simp: StreamMessagesHandler_OnChunk_def StreamMessagesHandler_AddEmitter_def NewStreamMessagesHandler_def
        WithFlushTrigger_def MessageAggregator_AddEmitter_def NewMessageAggregator_def text_chunk_def stream_at_def mget_Cons)
  moreover have "\<not> st_closed (stream_at ?h0 ''n'')" by (simp add: handler_start)
  ultimately have "handler_reach CollectToMap FlushOnEnd [] h2 w2 [(''n'', text_chunk ''ab'' False), (''n'', text_chunk ''c'' False)]"
    using handler_reach.chunk [OF handler_reach.chunk [OF handler_reach.start range_order_id 1] range_order_id 2] by simp
  moreover have "fst two_chunks = h2" "snd two_chunks = w2" using 1 2 by (simp_all add: two_chunks_def)
  ultimately show ?thesis by (simp only:)
qed


text \<open>With the trigger \<open>FlushImmediate\<close> a chunk that completes a message is not emitted at once: the flush is in the branch of
  incomplete chunks.\<close>

theorem immediate_keeps_complete:
  "let h0 = StreamMessagesHandler_AddEmitter (NewStreamMessagesHandler [WithFlushTrigger FlushImmediate]) CollectToMap;
       (err, h, target) = StreamMessagesHandler_OnChunk (\<lambda>ks. ks) h0 [] ''n'' (text_chunk ''ab'' True)
   in err = None \<and> target = [] \<and> pending (sh_aggregator h) ''n'' = [text_chunk ''ab'' True]"
  by (simp add: StreamMessagesHandler_OnChunk_def StreamMessagesHandler_AddEmitter_def NewStreamMessagesHandler_def WithFlushTrigger_def
      MessageAggregator_AddEmitter_def NewMessageAggregator_def complete_current_def MessageAggregator_AddMessage_def current_message_def
      merge_chunk_def text_chunk_def pending_def mget_Cons Let_def)

text \<open>When an emitter fails inside \<open>Flush\<close>, the messages of the node that were emitted before are emitted again by the
  next one.\<close>

theorem failed_flush_repeats:
  "let fails = (\<lambda>n c w. (if length w = 1 then Some (ErrorNew ''e'') else None, w @ [mc_Content c]));
       a = \<lparr>ag_messages = [(''n'', [text_chunk ''a'' True, text_chunk ''b'' True])], ag_emitters = [fails]\<rparr>;
       (e1, a1, w1) = MessageAggregator_Flush (\<lambda>ks. ks) a [];
       (e2, a2, w2) = MessageAggregator_Flush (\<lambda>ks. ks) a1 w1
   in e1 \<noteq> None \<and> e2 = None \<and> w2 = [''a'', ''b'', ''a'', ''b'']"
  by (simp add: MessageAggregator_Flush_def range_entries_def mkeys_def mget_Cons text_chunk_def)

text \<open>\<open>ConvertToTaskResult\<close> joins the contents of the chunks in order.\<close>

lemma fold_merge_content:
  "mc_Content (fold (\<lambda>chunk merged. merge_chunk merged chunk) cs m) = mc_Content m @ concat (map mc_Content cs)"
  by (induction cs arbitrary: m) simp_all

theorem task_result_content:
  "cs \<noteq> [] \<Longrightarrow> \<exists>out. ConvertToTaskResult node cs = (node, Some out) \<and>
     mget out ''content'' = Some (OValue (GString (concat (map mc_Content cs))))"
  by (auto simp: ConvertToTaskResult_def Let_def fold_merge_content mget_Cons)

end
