(* ===== verification/MultiRetry.thy ===== *)
theory MultiRetry
  imports Retry
begin

text \<open>
  \<open>pregel/retry_multi.go\<close>: retrying under several policies, the first that accepts the error deciding how often.  Calls of the node
  function are numbered from one over the whole execution; the second component of a result is the
  number of calls made.  The executor is the list of its policies.  A panic of the function outside of the inner
  executor leaves \<open>Execute\<close> and is an error here.  The counter \<open>attempt\<close> is an unbounded integer: it stays below the largest
  \<open>MaxAttempts\<close> and one more.
\<close>

definition NewMultiPolicyRetryExecutor :: "RetryPolicy list \<Rightarrow> RetryPolicy list" where
  "NewMultiPolicyRetryExecutor policies = policies"

definition MultiPolicyRetryExecutor_findMatchingPolicy :: "RetryPolicy list \<Rightarrow> gerror \<Rightarrow> RetryPolicy option" where
  "MultiPolicyRetryExecutor_findMatchingPolicy policies err =
     find (\<lambda>policy. case rp_RetryOn policy of None \<Rightarrow> True | Some f \<Rightarrow> f err) policies"

text \<open>The number of calls \<open>RetryExecutor.Execute\<close> makes.\<close>

fun attempts_used :: "RetryPolicy \<Rightarrow> (nat \<Rightarrow> gerror option) \<Rightarrow> (nat \<Rightarrow> outcome) \<Rightarrow> nat \<Rightarrow> nat \<Rightarrow> nat" where
  "attempts_used p cancelled fn 0 attempt = 0"
| "attempts_used p cancelled fn (Suc left) attempt =
     Suc (case fn attempt of
            Failed output err \<Rightarrow>
              if IsGraphInterrupt err \<or> (case rp_RetryOn p of Some f \<Rightarrow> \<not> f err | None \<Rightarrow> False) \<or> left = 0 \<or> cancelled attempt \<noteq> None
              then 0 else attempts_used p cancelled fn left (Suc attempt)
          | _ \<Rightarrow> 0)"

definition limited :: "RetryPolicy \<Rightarrow> int \<Rightarrow> RetryPolicy" where
  "limited policy remaining = policy\<lparr>rp_MaxAttempts := word_of_int (remaining + 1)\<rparr>"

definition most_attempts :: "RetryPolicy list \<Rightarrow> int" where
  "most_attempts policies = fold (\<lambda>p m. max m (sint (rp_MaxAttempts p))) policies 0"

lemma most_attempts_upper: "p \<in> set policies \<Longrightarrow> sint (rp_MaxAttempts p) \<le> most_attempts policies"
proof -
  have mono: "m \<le> fold (\<lambda>p m. max m (sint (rp_MaxAttempts p))) ps m" for ps :: "RetryPolicy list" and m
  proof (induction ps arbitrary: m)
    case Nil
    then show ?case by simp
  next
    case (Cons q ps)
    from Cons.IH [of "max m (sint (rp_MaxAttempts q))"] show ?case by simp
  qed
  have "p \<in> set ps \<Longrightarrow> sint (rp_MaxAttempts p) \<le> fold (\<lambda>p m. max m (sint (rp_MaxAttempts p))) ps m" for ps m
  proof (induction ps arbitrary: m)
    case Nil
    then show ?case by simp
  next
    case (Cons q ps)
    show ?case
    proof (cases "p = q")
      case True
      then show ?thesis using mono [of "max m (sint (rp_MaxAttempts q))" ps] by simp
    next
      case False
      then show ?thesis using Cons by simp
    qed
  qed
  then show "p \<in> set policies \<Longrightarrow> ?thesis" by (simp add: most_attempts_def)
qed

lemma findMatchingPolicy_mem: "MultiPolicyRetryExecutor_findMatchingPolicy policies err = Some p \<Longrightarrow> p \<in> set policies"
  by (auto simp: MultiPolicyRetryExecutor_findMatchingPolicy_def find_Some_iff)

function multi_loop ::
    "RetryPolicy list \<Rightarrow> (nat \<Rightarrow> gerror option) \<Rightarrow> string \<Rightarrow> (nat \<Rightarrow> outcome) \<Rightarrow> nat \<Rightarrow> int \<Rightarrow> (gerror + gvalue) \<times> nat" where
  "multi_loop policies cancelled name fn calls attempt =
     (case fn (Suc calls) of
        Panicked r \<Rightarrow> (Inl (ErrorNew (''panic: '' @ r)), Suc calls)
      | Done output \<Rightarrow> (Inr output, Suc calls)
      | Failed output err \<Rightarrow>
          (case MultiPolicyRetryExecutor_findMatchingPolicy policies err of
             None \<Rightarrow> (Inl (ErrorWrap (''node '' @ name @ '' failed with non-retryable error'') err), Suc calls)
           | Some policy \<Rightarrow>
               if attempt + 1 \<ge> sint (rp_MaxAttempts policy)
               then (Inl (RetryExhaustedError name (attempt + 1) (Some err) output), Suc calls)
               else let remaining = sint (rp_MaxAttempts policy) - (attempt + 1);
                        lp = limited policy remaining;
                        used = attempts_used lp (\<lambda>a. cancelled (Suc calls + a)) (\<lambda>a. fn (Suc calls + a)) (nat (sint (rp_MaxAttempts lp))) 1
                    in case RetryExecutor_Execute (NewRetryExecutor (Some lp)) (\<lambda>a. cancelled (Suc calls + a)) name (\<lambda>a. fn (Suc calls + a)) of
                         Inr result \<Rightarrow> (Inr result, Suc calls + used)
                       | Inl err' \<Rightarrow> multi_loop policies cancelled name fn (Suc calls + used) (attempt + 1 + remaining)))"
  by auto

termination
  by (relation "measure (\<lambda>(policies, cancelled, name, fn, calls, attempt). nat (most_attempts policies - attempt))")
     (auto dest!: findMatchingPolicy_mem most_attempts_upper)

declare multi_loop.simps [simp del]

definition MultiPolicyRetryExecutor_Execute ::
    "RetryPolicy list \<Rightarrow> (nat \<Rightarrow> gerror option) \<Rightarrow> string \<Rightarrow> (nat \<Rightarrow> outcome) \<Rightarrow> (gerror + gvalue) \<times> nat" where
  "MultiPolicyRetryExecutor_Execute policies cancelled name fn =
     (if policies = [] then
        (case fn 1 of Done output \<Rightarrow> (Inr output, 1) | Failed output err \<Rightarrow> (Inl err, 1) | Panicked r \<Rightarrow> (Inl (ErrorNew (''panic: '' @ r)), 1))
      else multi_loop policies cancelled name fn 0 0)"

section \<open>Presets\<close>

definition resourceKeywords :: "string list" where
  "resourceKeywords = [''resource exhausted'', ''too many requests'', ''rate limit'', ''quota exceeded'', ''429'', ''503'']"

definition timeoutKeywords :: "string list" where
  "timeoutKeywords = [''timeout'', ''deadline exceeded'', ''context deadline'', ''408'', ''504'']"

definition preset_NetworkErrors :: RetryPolicy where
  "preset_NetworkErrors = \<lparr>rp_InitialInterval = 100 * 1000000, rp_BackoffFactor = FFin 1 1, rp_MaxInterval = 30 * 1000000000,
     rp_MaxAttempts = 5, rp_Jitter = True, rp_RetryOn = Some (\<lambda>err. NetworkErrors (Some err))\<rparr>"

definition preset_TemporaryErrors :: RetryPolicy where
  "preset_TemporaryErrors = \<lparr>rp_InitialInterval = 500 * 1000000, rp_BackoffFactor = FFin 3 (- 1), rp_MaxInterval = 10 * 1000000000,
     rp_MaxAttempts = 3, rp_Jitter = True, rp_RetryOn = Some (\<lambda>err. TemporaryErrors (Some err))\<rparr>"

definition preset_ResourceErrors :: RetryPolicy where
  "preset_ResourceErrors = \<lparr>rp_InitialInterval = 1000000000, rp_BackoffFactor = FFin 3 (- 1), rp_MaxInterval = 60 * 1000000000,
     rp_MaxAttempts = 10, rp_Jitter = True, rp_RetryOn = Some (\<lambda>err. list_ex (contains_text (Error err)) resourceKeywords)\<rparr>"

definition preset_TimeoutErrors :: RetryPolicy where
  "preset_TimeoutErrors = \<lparr>rp_InitialInterval = 1000000000, rp_BackoffFactor = FFin 1 1, rp_MaxInterval = 30 * 1000000000,
     rp_MaxAttempts = 3, rp_Jitter = False, rp_RetryOn = Some (\<lambda>err. list_ex (contains_text (Error err)) timeoutKeywords)\<rparr>"

definition NewMultiRetryConfig :: "RetryPolicy list \<Rightarrow> RetryPolicy list" where
  "NewMultiRetryConfig policies = (if policies = [] then [DefaultRetryPolicy] else policies)"

definition CreateDefaultMultiPolicy :: "RetryPolicy list" where
  "CreateDefaultMultiPolicy =
     NewMultiRetryConfig [preset_NetworkErrors, preset_TemporaryErrors, preset_TimeoutErrors, preset_ResourceErrors]"

section \<open>Calls\<close>

lemma attempts_used_le: "attempts_used p cancelled fn n a \<le> n"
  by (induction n arbitrary: a) (auto split: outcome.split)

lemma attempts_used_failed:
  "i < attempts_used p cancelled fn n a \<Longrightarrow> Suc i < attempts_used p cancelled fn n a \<or> (\<forall>v. retry_loop p cancelled name fn n a le lo \<noteq> Inr v) \<Longrightarrow>
   \<nexists>v. fn (a + i) = Done v"
proof (induction n arbitrary: a i le lo)
  case 0
  then show ?case by simp
next
  case (Suc n)
  show ?case
  proof (cases "fn a")
    case (Done v)
    then show ?thesis using Suc.prems by simp
  next
    case (Failed out err)
    show ?thesis
    proof (cases i)
      case 0
      then show ?thesis using Failed by simp
    next
      case (Suc j)
      then show ?thesis
        using Failed Suc.prems Suc.IH [of j "Suc a" "Some err" out] by (auto split: if_splits option.splits)
    qed
  next
    case (Panicked r)
    then show ?thesis using Suc.prems by simp
  qed
qed

lemma retry_loop_last_call:
  "retry_loop p cancelled name fn n a le lo = Inr v \<Longrightarrow> 0 < attempts_used p cancelled fn n a \<and> fn (a + (attempts_used p cancelled fn n a - 1)) = Done v"
proof (induction n arbitrary: a le lo)
  case 0
  then show ?case by simp
next
  case (Suc n)
  then show ?case by (cases "fn a") (fastforce split: if_splits option.splits)+
qed

definition succeeds :: "(nat \<Rightarrow> outcome) \<Rightarrow> nat \<Rightarrow> bool" where
  "succeeds fn i \<longleftrightarrow> (\<exists>v. fn i = Done v)"

text \<open>The calls \<open>calls + 1, \<dots>, k\<close> led to the result: none before the last succeeded, and the result is that of the last.\<close>

definition calls_ok :: "(nat \<Rightarrow> outcome) \<Rightarrow> nat \<Rightarrow> (gerror + gvalue) \<times> nat \<Rightarrow> bool" where
  "calls_ok fn calls rk \<longleftrightarrow> calls < snd rk \<and> (\<forall>i. calls < i \<and> i < snd rk \<longrightarrow> \<not> succeeds fn i) \<and>
     (case fst rk of Inr v \<Rightarrow> fn (snd rk) = Done v | Inl e \<Rightarrow> \<not> succeeds fn (snd rk))"

lemma limited_Max: "rp_MaxAttempts (limited p m) = word_of_int (m + 1)"
  by (simp add: limited_def)

lemma calls_ok_one:
  "\<not> succeeds fn (Suc calls) \<Longrightarrow> calls_ok fn calls (Inl e, Suc calls)" "fn (Suc calls) = Done v \<Longrightarrow> calls_ok fn calls (Inr v, Suc calls)"
  by (auto simp: calls_ok_def)

lemma limited_attempts:
  assumes "0 \<le> attempt" and "attempt + 1 < sint (rp_MaxAttempts p)"
  shows "nat (sint (rp_MaxAttempts (limited p (sint (rp_MaxAttempts p) - (attempt + 1))))) = nat (sint (rp_MaxAttempts p) - attempt)"
proof -
  have "sint (rp_MaxAttempts p) < 2 ^ 63" using sint_lt [of "rp_MaxAttempts p"] by simp
  with assms have "sint (word_of_int (sint (rp_MaxAttempts p) - (attempt + 1) + 1) :: goint) = sint (rp_MaxAttempts p) - (attempt + 1) + 1"
    by (intro sint_of_int_range) auto
  then show ?thesis unfolding limited_Max by simp
qed

text \<open>One round of the loop that ends in the inner executor.\<close>

lemma inner_calls:
  fixes p :: RetryPolicy and calls :: nat
  defines "fn' \<equiv> \<lambda>fn :: nat \<Rightarrow> outcome. \<lambda>a. fn (Suc calls + a)"
  defines "used \<equiv> \<lambda>fn cancelled n. attempts_used p cancelled (fn' fn) n 1"
  assumes first: "\<not> succeeds fn (Suc calls)" and n: "n = nat (sint (rp_MaxAttempts p))"
  shows "RetryExecutor_Execute p cancelled name (fn' fn) = Inr v \<Longrightarrow> calls_ok fn calls (Inr v, Suc calls + used fn cancelled n)"
    and "RetryExecutor_Execute p cancelled name (fn' fn) = Inl e \<Longrightarrow> calls < i \<Longrightarrow> i \<le> Suc calls + used fn cancelled n \<Longrightarrow> \<not> succeeds fn i"
proof -
  have unsuccessful: "\<not> succeeds fn i" if "calls < i" "i \<le> Suc calls + used fn cancelled n"
    "i < Suc calls + used fn cancelled n \<or> (\<forall>v. RetryExecutor_Execute p cancelled name (fn' fn) \<noteq> Inr v)" for i
  proof (cases "i = Suc calls")
    case True
    then show ?thesis using first by simp
  next
    case False
    define j where "j = i - Suc (Suc calls)"
    have i: "i = Suc calls + (1 + j)" and j: "j < used fn cancelled n" "Suc j < used fn cancelled n \<or> (\<forall>v. RetryExecutor_Execute p cancelled name (fn' fn) \<noteq> Inr v)"
      using that False by (auto simp: j_def)
    from attempts_used_failed [of j p cancelled "fn' fn" n 1 name None GNil] j show ?thesis
      unfolding used_def RetryExecutor_Execute_def n succeeds_def i fn'_def by blast
  qed
  show "calls_ok fn calls (Inr v, Suc calls + used fn cancelled n)" if v: "RetryExecutor_Execute p cancelled name (fn' fn) = Inr v"
  proof -
    have "0 < used fn cancelled n" "fn' fn (used fn cancelled n) = Done v"
      using retry_loop_last_call [OF v [unfolded RetryExecutor_Execute_def, folded n]] by (auto simp: used_def)
    then show ?thesis using unsuccessful by (simp add: calls_ok_def fn'_def)
  qed
  show "\<not> succeeds fn i" if "RetryExecutor_Execute p cancelled name (fn' fn) = Inl e" "calls < i" "i \<le> Suc calls + used fn cancelled n"
    using unsuccessful that by simp
qed

lemma calls_ok_extend:
  assumes "calls_ok fn k rk" and "calls \<le> k" and "\<And>i. calls < i \<Longrightarrow> i \<le> k \<Longrightarrow> \<not> succeeds fn i"
  shows "calls_ok fn calls rk"
  using assms unfolding calls_ok_def by (metis le_less_trans not_le)

lemma multi_loop_ok: "calls_ok fn calls (multi_loop policies cancelled name fn calls attempt)"
proof (induction policies cancelled name fn calls attempt rule: multi_loop.induct)
  case (1 policies cancelled name fn calls attempt)
  show ?case
  proof (cases "fn (Suc calls)")
    case (Failed out err)
    then have first: "\<not> succeeds fn (Suc calls)" by (simp add: succeeds_def)
    show ?thesis
    proof (cases "MultiPolicyRetryExecutor_findMatchingPolicy policies err")
      case None
      then show ?thesis using Failed first by (simp add: multi_loop.simps calls_ok_one)
    next
      case (Some p)
      show ?thesis
      proof (cases "attempt + 1 \<ge> sint (rp_MaxAttempts p)")
        case True
        then show ?thesis using Failed first Some by (simp add: multi_loop.simps calls_ok_one)
      next
        case False
        let ?lp = "limited p (sint (rp_MaxAttempts p) - (attempt + 1))"
        let ?k = "Suc calls + attempts_used ?lp (\<lambda>a. cancelled (Suc calls + a)) (\<lambda>a. fn (Suc calls + a)) (nat (sint (rp_MaxAttempts ?lp))) 1"
        note inner = inner_calls [OF first refl, of ?lp "\<lambda>a. cancelled (Suc calls + a)" name]
        show ?thesis
        proof (cases "RetryExecutor_Execute ?lp (\<lambda>a. cancelled (Suc calls + a)) name (\<lambda>a. fn (Suc calls + a))")
          case (Inr v)
          then show ?thesis
            using inner(1) [OF Inr] Failed Some False by (subst multi_loop.simps) (simp add: Let_def NewRetryExecutor_def)
        next
          case (Inl e)
          have "calls_ok fn ?k (multi_loop policies cancelled name fn ?k (sint (rp_MaxAttempts p)))"
            using 1 [OF Failed Some False refl refl refl] Inl by (simp add: NewRetryExecutor_def)
          from calls_ok_extend [OF this _ inner(2) [OF Inl]]
          have "calls_ok fn calls (multi_loop policies cancelled name fn ?k (sint (rp_MaxAttempts p)))" by simp
          then show ?thesis using Failed Some False Inl by (subst multi_loop.simps) (simp add: Let_def NewRetryExecutor_def)
        qed
      qed
    qed
  qed (simp_all add: multi_loop.simps calls_ok_one succeeds_def)
qed

lemma multi_loop_bound:
  "0 \<le> attempt \<Longrightarrow> int (snd (multi_loop policies cancelled name fn calls attempt)) \<le> int calls + 1 + 2 * max 0 (most_attempts policies - attempt)"
proof (induction policies cancelled name fn calls attempt rule: multi_loop.induct)
  case (1 policies cancelled name fn calls attempt)
  show ?case
  proof (cases "\<exists>out err p e. fn (Suc calls) = Failed out err \<and> MultiPolicyRetryExecutor_findMatchingPolicy policies err = Some p \<and>
      attempt + 1 < sint (rp_MaxAttempts p)")
    case True
    then obtain out err p where f: "fn (Suc calls) = Failed out err" "MultiPolicyRetryExecutor_findMatchingPolicy policies err = Some p"
      "\<not> attempt + 1 \<ge> sint (rp_MaxAttempts p)" by auto
    let ?lp = "limited p (sint (rp_MaxAttempts p) - (attempt + 1))"
    let ?u = "attempts_used ?lp (\<lambda>a. cancelled (Suc calls + a)) (\<lambda>a. fn (Suc calls + a)) (nat (sint (rp_MaxAttempts ?lp))) 1"
    have u: "int ?u \<le> sint (rp_MaxAttempts p) - attempt"
      using attempts_used_le [of ?lp "\<lambda>a. cancelled (Suc calls + a)" "\<lambda>a. fn (Suc calls + a)" "nat (sint (rp_MaxAttempts ?lp))" 1]
        limited_attempts [OF "1.prems", of p] f(3) by linarith
    have most: "sint (rp_MaxAttempts p) \<le> most_attempts policies"
      using f(2) by (intro most_attempts_upper findMatchingPolicy_mem)
    show ?thesis
    proof (cases "RetryExecutor_Execute ?lp (\<lambda>a. cancelled (Suc calls + a)) name (\<lambda>a. fn (Suc calls + a))")
      case (Inr v)
      then have "multi_loop policies cancelled name fn calls attempt = (Inr v, Suc calls + ?u)"
        using f by (subst multi_loop.simps) (simp add: Let_def NewRetryExecutor_def)
      then show ?thesis using u most f(3) by simp
    next
      case (Inl e)
      have step: "multi_loop policies cancelled name fn calls attempt = multi_loop policies cancelled name fn (Suc calls + ?u) (sint (rp_MaxAttempts p))"
        using f Inl by (subst multi_loop.simps) (simp add: Let_def NewRetryExecutor_def)
      have "int (snd (multi_loop policies cancelled name fn (Suc calls + ?u) (sint (rp_MaxAttempts p)))) \<le>
          int (Suc calls + ?u) + 1 + 2 * max 0 (most_attempts policies - sint (rp_MaxAttempts p))"
        using "1.IH" [OF f refl refl refl] Inl f(3) "1.prems" by (simp add: NewRetryExecutor_def)
      then show ?thesis unfolding step using u most f(3) by simp
    qed
  next
    case False
    then have "snd (multi_loop policies cancelled name fn calls attempt) = Suc calls"
      by (subst multi_loop.simps) (auto simp: not_less split: outcome.split option.split)
    then show ?thesis by simp
  qed
qed

section \<open>Properties\<close>

text \<open>\<open>MultiPolicyRetryExecutor.Execute\<close> always ends, after at most one call more than twice the largest \<open>MaxAttempts\<close>.  It returns a value
  exactly when its last call of the function does, no earlier call does, and no success is lost: when it
  returns an error, none of the calls succeeded.\<close>

theorem multi_execute_sound:
  assumes "MultiPolicyRetryExecutor_Execute policies cancelled name fn = (res, k)"
  shows "1 \<le> k \<and> int k \<le> 1 + 2 * most_attempts policies \<and> (\<forall>i. 1 \<le> i \<and> i < k \<longrightarrow> \<not> succeeds fn i) \<and>
    (case res of Inr v \<Rightarrow> fn k = Done v | Inl e \<Rightarrow> \<not> succeeds fn k)"
proof (cases "policies = []")
  case True
  then show ?thesis
    using assms by (auto simp: MultiPolicyRetryExecutor_Execute_def most_attempts_def succeeds_def split: outcome.splits)
next
  case False
  then have loop: "multi_loop policies cancelled name fn 0 0 = (res, k)" using assms by (simp add: MultiPolicyRetryExecutor_Execute_def)
  have "0 \<le> most_attempts policies"
  proof -
    have "(0 :: int) \<le> m \<Longrightarrow> 0 \<le> fold (\<lambda>p m. max m (sint (rp_MaxAttempts p))) ps m" for ps :: "RetryPolicy list" and m
      by (induction ps arbitrary: m) simp_all
    then show ?thesis by (simp add: most_attempts_def)
  qed
  then show ?thesis
    using multi_loop_ok [of fn 0 policies cancelled name 0] multi_loop_bound [of 0 policies cancelled name fn 0]
    by (cases res) (simp_all add: loop calls_ok_def Suc_le_eq)
qed

theorem multi_execute_sound_witness:
  "\<not> succeeds (\<lambda>a. Failed GNil (ErrorNew ''e''))
     (snd (MultiPolicyRetryExecutor_Execute [DefaultRetryPolicy] (\<lambda>a. None) ''n'' (\<lambda>a. Failed GNil (ErrorNew ''e''))))"
  using multi_execute_sound [of "[DefaultRetryPolicy]" "\<lambda>a. None" "''n''" "\<lambda>a. Failed GNil (ErrorNew ''e'')", OF prod.collapse [symmetric]]
  by (simp add: succeeds_def)

lemma attempts_used_all:
  "(\<And>i. retryable p cancelled fn i) \<Longrightarrow> attempts_used p cancelled fn n a = n"
proof (induction n arbitrary: a)
  case 0
  then show ?case by simp
next
  case (Suc n)
  then obtain out err where "fn a = Failed out err" "\<not> IsGraphInterrupt err" "case rp_RetryOn p of Some f \<Rightarrow> f err | None \<Rightarrow> True" "cancelled a = None"
    unfolding retryable_def by blast
  then show ?case using Suc by (auto split: option.splits)
qed

text \<open>With one policy of \<open>MaxAttempts = N\<close> and \<open>N \<ge> 2\<close> a function that keeps failing is called \<open>N + 2\<close> times, and the error reports \<open>N + 1\<close>
  attempts: the inner executor starts with a fresh count, and after it has given up the loop calls once more.\<close>

theorem one_policy_two_more_calls:
  assumes fails: "\<And>i. retryable p cancelled fn i" and N: "2 \<le> sint (rp_MaxAttempts p)"
  shows "\<exists>err out. MultiPolicyRetryExecutor_Execute [p] cancelled name fn =
    (Inl (RetryExhaustedError name (sint (rp_MaxAttempts p) + 1) (Some err) out), nat (sint (rp_MaxAttempts p)) + 2)"
proof -
  let ?N = "sint (rp_MaxAttempts p)"
  have f: "\<exists>out err. fn i = Failed out err \<and> MultiPolicyRetryExecutor_findMatchingPolicy [p] err = Some p" for i
    using fails [of i] by (auto simp: retryable_def MultiPolicyRetryExecutor_findMatchingPolicy_def split: option.splits)
  let ?lp = "limited p (?N - 1)"
  let ?fn = "\<lambda>a. fn (Suc 0 + a)" and ?c = "\<lambda>a. cancelled (Suc 0 + a)"
  have lf: "retryable ?lp ?c ?fn i" for i
    using fails [of "Suc 0 + i"] by (simp add: retryable_def limited_def)
  have n: "nat (sint (rp_MaxAttempts ?lp)) = nat ?N" using limited_attempts [of 0 p] N by simp
  have used: "attempts_used ?lp ?c ?fn (nat (sint (rp_MaxAttempts ?lp))) 1 = nat ?N"
    using attempts_used_all [of ?lp ?c ?fn, OF lf] n by simp
  have "\<nexists>v. RetryExecutor_Execute ?lp ?c name ?fn = Inr v"
    using f by (auto simp: RetryExecutor_Execute_def dest!: retry_loop_success) (metis outcome.distinct(1))
  then obtain e where inner: "RetryExecutor_Execute ?lp ?c name ?fn = Inl e" by (cases "RetryExecutor_Execute ?lp ?c name ?fn") auto
  obtain out1 err1 where f1: "fn 1 = Failed out1 err1" "MultiPolicyRetryExecutor_findMatchingPolicy [p] err1 = Some p" using f by blast
  obtain out2 err2 where f2: "fn (Suc (Suc (nat ?N))) = Failed out2 err2" "MultiPolicyRetryExecutor_findMatchingPolicy [p] err2 = Some p" using f by blast
  have "multi_loop [p] cancelled name fn 0 0 = multi_loop [p] cancelled name fn (Suc (nat ?N)) ?N"
    using f1 inner used N by (subst multi_loop.simps) (simp add: Let_def NewRetryExecutor_def)
  also have "\<dots> = (Inl (RetryExhaustedError name (?N + 1) (Some err2) out2), nat ?N + 2)"
    using f2 by (subst multi_loop.simps) simp
  finally show ?thesis by (auto simp: MultiPolicyRetryExecutor_Execute_def)
qed

text \<open>An interrupt a node raises is retried like any other error and comes out as \<open>RetryExhaustedError\<close>, so that the engine does not see
  an interrupt; the single-policy executor passes it on.\<close>

theorem interrupt_is_retried:
  "fst (MultiPolicyRetryExecutor_Execute [DefaultRetryPolicy] (\<lambda>a. None) ''n'' (\<lambda>a. Failed GNil (GraphInterrupt []))) =
     Inl (RetryExhaustedError ''n'' 4 (Some (GraphInterrupt [])) GNil) \<and>
   RetryExecutor_Execute DefaultRetryPolicy (\<lambda>a. None) ''n'' (\<lambda>a. Failed GNil (GraphInterrupt [])) = Inl (GraphInterrupt [])"
  by (simp add: MultiPolicyRetryExecutor_Execute_def multi_loop.simps MultiPolicyRetryExecutor_findMatchingPolicy_def DefaultRetryPolicy_def
      DefaultRetryOn_def limited_def NewRetryExecutor_def RetryExecutor_Execute_def numeral_eq_Suc Let_def)

end
