(* ===== verification/Subgraph.thy ===== *)
theory Subgraph
  imports Compiled
begin

text \<open>
  \<open>pregel/subgraph.go\<close>: the manager of subgraphs with its stack of namespaces, checkpoint namespaces per thread, and channel
  registries that see only the channels under a prefix.  Every method of the manager holds its lock and is one step;
  the engine of the parent is not nil.  The checkpointer of an engine is not part of the record \<open>Engine\<close>, so
  the option that hands it to a subgraph does not appear.  A value that is not a graph or not a channel is \<open>None\<close>.
\<close>

definition NSSep :: char where "NSSep = CHR ''|''"
definition NSEnd :: char where "NSEnd = CHR '':''"

record SubgraphManager =
  sm_parentEngine :: Engine
  sm_subgraphs :: "Engine gomap"
  sm_namespaceStack :: "string list"
  sm_checkpointNS :: "string gomap"

definition NewSubgraphManager :: "Engine \<Rightarrow> SubgraphManager" where
  "NewSubgraphManager parentEngine =
     \<lparr>sm_parentEngine = parentEngine, sm_subgraphs = [], sm_namespaceStack = [], sm_checkpointNS = []\<rparr>"

definition SubgraphManager_CreateSubgraph ::
    "SubgraphManager \<Rightarrow> string \<Rightarrow> stateGraph option \<Rightarrow> (gerror + Engine) \<times> SubgraphManager" where
  "SubgraphManager_CreateSubgraph m name g =
     (if mhas (sm_subgraphs m) name then (Inl (ErrorNew (''subgraph '' @ quoted name @ '' already exists'')), m)
      else let parent = sm_parentEngine m;
               subgraphEngine = (case g of
                   Some sg \<Rightarrow> NewEngine sg (case eng_config parent of Some c \<Rightarrow> [Engine_WithConfig (Some c)] | None \<Rightarrow> [])
                 | None \<Rightarrow> parent)
           in (Inr subgraphEngine, m\<lparr>sm_subgraphs := mput (sm_subgraphs m) name subgraphEngine\<rparr>))"

definition SubgraphManager_GetSubgraph :: "SubgraphManager \<Rightarrow> string \<Rightarrow> Engine option" where
  "SubgraphManager_GetSubgraph m name = mget (sm_subgraphs m) name"

definition SubgraphManager_PushNamespace :: "SubgraphManager \<Rightarrow> string \<Rightarrow> SubgraphManager" where
  "SubgraphManager_PushNamespace m ns = m\<lparr>sm_namespaceStack := sm_namespaceStack m @ [ns]\<rparr>"

definition SubgraphManager_PopNamespace :: "SubgraphManager \<Rightarrow> SubgraphManager" where
  "SubgraphManager_PopNamespace m =
     (if sm_namespaceStack m \<noteq> [] then m\<lparr>sm_namespaceStack := butlast (sm_namespaceStack m)\<rparr> else m)"

definition SubgraphManager_CurrentNamespace :: "SubgraphManager \<Rightarrow> string" where
  "SubgraphManager_CurrentNamespace m = (if sm_namespaceStack m \<noteq> [] then last (sm_namespaceStack m) else [])"

definition SubgraphManager_BuildNamespacePath :: "SubgraphManager \<Rightarrow> string" where
  "SubgraphManager_BuildNamespacePath m =
     (if sm_namespaceStack m = [] then [] else strings_Join NSSep (sm_namespaceStack m))"

text \<open>The body between push and the deferred pop, which runs also when the function of the node panics.\<close>

definition execute_node :: "Engine \<Rightarrow> string \<Rightarrow> string \<Rightarrow> nat \<Rightarrow> nat \<Rightarrow> gvalue \<Rightarrow> outcome" where
  "execute_node subgraph subgraphName nodeName step attempt input =
     (case Engine_getNode subgraph nodeName of
        None \<Rightarrow> Failed GNil (ErrorNew (''node '' @ quoted nodeName @ '' not found in subgraph '' @ quoted subgraphName))
      | Some node \<Rightarrow>
          (case n_Function node of
             None \<Rightarrow> Failed GNil (ErrorNew (''node '' @ quoted nodeName @ '' in subgraph '' @ quoted subgraphName @ '' has no executable function''))
           | Some f \<Rightarrow> f step attempt input))"

definition SubgraphManager_ExecuteInSubgraph ::
    "SubgraphManager \<Rightarrow> string \<Rightarrow> string \<Rightarrow> nat \<Rightarrow> nat \<Rightarrow> gvalue \<Rightarrow> outcome \<times> SubgraphManager" where
  "SubgraphManager_ExecuteInSubgraph m subgraphName nodeName step attempt input =
     (case SubgraphManager_GetSubgraph m subgraphName of
        None \<Rightarrow> (Failed GNil (ErrorNew (''subgraph '' @ quoted subgraphName @ '' not found'')), m)
      | Some subgraph \<Rightarrow>
          let m1 = SubgraphManager_PushNamespace m subgraphName;
              result = execute_node subgraph subgraphName nodeName step attempt input
          in (result, SubgraphManager_PopNamespace m1))"

text \<open>\<open>newID\<close> is the fresh identifier.  The configuration the code builds is dropped except for the identifier.\<close>

definition CheckpointMigration_MigrateToSubgraph ::
    "string \<Rightarrow> SubgraphManager \<Rightarrow> string \<Rightarrow> string \<Rightarrow> string \<Rightarrow> string \<times> SubgraphManager" where
  "CheckpointMigration_MigrateToSubgraph newID m threadID parentCheckpointID subgraphName =
     (let subgraphNS = SubgraphManager_BuildNamespacePath m @ [NSSep] @ subgraphName
      in (newID, m\<lparr>sm_checkpointNS := mput (sm_checkpointNS m) threadID subgraphNS\<rparr>))"

definition CheckpointMigration_MigrateFromSubgraph :: "SubgraphManager \<Rightarrow> string \<Rightarrow> string \<Rightarrow> SubgraphManager" where
  "CheckpointMigration_MigrateFromSubgraph m threadID subgraphCheckpointID =
     m\<lparr>sm_checkpointNS := mdel (sm_checkpointNS m) threadID\<rparr>"

record Command =
  cmd_Graph :: string
  cmd_Update :: gvalue
  cmd_Resume :: gvalue
  cmd_Goto :: gvalue

definition SubgraphManager_ResolveParentCommand :: "SubgraphManager \<Rightarrow> Command \<Rightarrow> gerror + Command" where
  "SubgraphManager_ResolveParentCommand m cmd =
     (if sm_namespaceStack m = [] then Inl (ErrorNew ''no parent graph to resolve to'')
      else Inr \<lparr>cmd_Graph = cmd_Graph cmd, cmd_Update = cmd_Update cmd, cmd_Resume = cmd_Resume cmd, cmd_Goto = GString ''__parent__''\<rparr>)"

definition RecursiveSubgraphExecutor_ExecuteRecursive ::
    "SubgraphManager \<Rightarrow> goint \<Rightarrow> string \<Rightarrow> string \<Rightarrow> nat \<Rightarrow> nat \<Rightarrow> gvalue \<Rightarrow> goint \<Rightarrow> outcome \<times> SubgraphManager" where
  "RecursiveSubgraphExecutor_ExecuteRecursive m maxDepth subgraphName nodeName step attempt input depth =
     (if sint depth > sint maxDepth
      then (Failed GNil (ErrorNew (''recursion depth limit exceeded: '' @ int_digits (sint depth) @ '' > '' @ int_digits (sint maxDepth))), m)
      else SubgraphManager_ExecuteInSubgraph m subgraphName nodeName step attempt input)"

section \<open>Registries with a namespace\<close>

text \<open>The registry inside is shared; here it is passed beside the view.\<close>

record NamespaceIsolatedRegistry =
  nr_namespace :: string
  nr_prefix :: string

definition NewNamespaceIsolatedRegistry :: "string \<Rightarrow> NamespaceIsolatedRegistry" where
  "NewNamespaceIsolatedRegistry ns = \<lparr>nr_namespace = ns, nr_prefix = (if ns \<noteq> [] then ns @ [NSSep] else ns)\<rparr>"

definition NamespaceIsolatedRegistry_Get :: "NamespaceIsolatedRegistry \<Rightarrow> Registry \<Rightarrow> string \<Rightarrow> channel option" where
  "NamespaceIsolatedRegistry_Get v r name = Registry_Get r (nr_prefix v @ name)"

definition NamespaceIsolatedRegistry_Register :: "NamespaceIsolatedRegistry \<Rightarrow> Registry \<Rightarrow> string \<Rightarrow> channel option \<Rightarrow> Registry" where
  "NamespaceIsolatedRegistry_Register v r name ch =
     (case ch of Some c \<Rightarrow> Registry_Register r (nr_prefix v @ name) c | None \<Rightarrow> r)"

definition NamespaceIsolatedRegistry_CreateCheckpoint :: "NamespaceIsolatedRegistry \<Rightarrow> Registry \<Rightarrow> gvalue gomap" where
  "NamespaceIsolatedRegistry_CreateCheckpoint v r =
     mput (mput (Registry_CreateCheckpoint r) ''namespace'' (GString (nr_namespace v))) ''prefix'' (GString (nr_prefix v))"

definition HasPrefix :: "string \<Rightarrow> string \<Rightarrow> bool" where
  "HasPrefix s pre \<longleftrightarrow> length pre \<le> length s \<and> take (length pre) s = pre"

text \<open>The loop over all values in the order \<open>ro\<close>.\<close>

definition NamespaceIsolatedRegistry_GetValues ::
    "(string list \<Rightarrow> string list) \<Rightarrow> NamespaceIsolatedRegistry \<Rightarrow> Registry \<Rightarrow> (gerror + gvalue gomap) \<times> Registry" where
  "NamespaceIsolatedRegistry_GetValues ro v r =
     (case Registry_GetValues ro r of
        (Inl err, r') \<Rightarrow> (Inl err, r')
      | (Inr allValues, r') \<Rightarrow>
          (Inr (fold (\<lambda>(key, val) filtered. if HasPrefix key (nr_prefix v) then mput filtered (drop (length (nr_prefix v)) key) val else filtered)
             (range_entries ro allValues) []), r'))"

section \<open>Lemmas\<close>

lemma HasPrefix_iff: "HasPrefix s pre \<longleftrightarrow> (\<exists>k. s = pre @ k)"
  unfolding HasPrefix_def by (metis append_eq_conv_conj append_take_drop_id le_add1 length_append)

text \<open>The filtered map has the value of \<open>k\<close> exactly when there is one under the prefix and \<open>k\<close>.\<close>

lemma fold_prefix:
  "distinct (map fst es) \<Longrightarrow>
   mget (fold (\<lambda>(key, val) filtered. if HasPrefix key pre then mput filtered (drop (length pre) key) val else filtered) es m) k =
     (case map_of es (pre @ k) of Some val \<Rightarrow> Some val | None \<Rightarrow> mget m k)"
proof (induction es arbitrary: m)
  case Nil
  then show ?case by simp
next
  case (Cons e es)
  obtain key val where e: "e = (key, val)" by (cases e)
  have fresh: "key = pre @ k \<Longrightarrow> map_of es (pre @ k) = None" using Cons.prems e by (simp add: map_of_eq_None_iff)
  show ?case
  proof (cases "HasPrefix key pre")
    case True
    then obtain k' where "key = pre @ k'" by (auto simp: HasPrefix_iff)
    then show ?thesis using Cons.IH Cons.prems fresh True by (auto simp: e split: option.split)
  next
    case False
    then have "key \<noteq> pre @ k" by (auto simp: HasPrefix_iff)
    then show ?thesis using Cons.IH Cons.prems False by (auto simp: e split: option.split)
  qed
qed

lemma clean_prefix_eq:
  assumes "NSSep \<notin> set ns" and "NSSep \<notin> set ns'" and "ns @ NSSep # a = ns' @ NSSep # b"
  shows "ns = ns' \<and> a = b"
proof -
  have "takeWhile (\<lambda>c. c \<noteq> NSSep) (ns @ NSSep # a) = ns" "takeWhile (\<lambda>c. c \<noteq> NSSep) (ns' @ NSSep # b) = ns'"
    using assms(1,2) by (auto simp: takeWhile_append)
  with assms(3) show ?thesis by auto
qed

lemma isolated_values:
  assumes "range_order ro" and "mwf (channels r)"
  shows "\<exists>vals r'. NamespaceIsolatedRegistry_GetValues ro v r = (Inr vals, r') \<and>
    (\<forall>k. mget vals k = Option.bind (NamespaceIsolatedRegistry_Get v r k) value_of)"
proof -
  obtain vals r' where g: "Registry_GetValues ro r = (Inr vals, r')" "\<And>k. mget vals k = Option.bind (mget (channels r) k) value_of"
    using GetValues_ok [OF assms] by blast
  have "mwf vals" by (rule GetValues_mwf [OF g(1)])
  then show ?thesis
    by (simp add: NamespaceIsolatedRegistry_GetValues_def g fold_prefix [OF range_entries_distinct [OF assms(1)]]
        map_of_range_entries [OF assms(1)] NamespaceIsolatedRegistry_Get_def Registry_Get_def split: option.split)
qed

section \<open>Properties\<close>

text \<open>The states of the manager while subgraphs are created and nodes executed in them.\<close>

inductive manager_runs :: "SubgraphManager \<Rightarrow> SubgraphManager \<Rightarrow> bool" where
  refl: "manager_runs m m"
| create: "manager_runs m m' \<Longrightarrow> manager_runs m (snd (SubgraphManager_CreateSubgraph m' name g))"
| execute: "manager_runs m m' \<Longrightarrow> manager_runs m (snd (SubgraphManager_ExecuteInSubgraph m' name node step attempt input))"
| recurse: "manager_runs m m' \<Longrightarrow> manager_runs m (snd (RecursiveSubgraphExecutor_ExecuteRecursive m' maxDepth name node step attempt input depth))"

lemma ExecuteInSubgraph_manager [simp]: "snd (SubgraphManager_ExecuteInSubgraph m name node step attempt input) = m"
  by (simp add: SubgraphManager_ExecuteInSubgraph_def SubgraphManager_PushNamespace_def SubgraphManager_PopNamespace_def split: option.split)



text \<open>While subgraphs are created and nodes executed, panics and errors included, the stack of namespaces is as before, and an
  engine once created for a name stays: a second \<open>CreateSubgraph\<close> of the name fails and changes nothing.\<close>

theorem manager_keeps_subgraphs:
  assumes "manager_runs m m'"
  shows "sm_namespaceStack m' = sm_namespaceStack m \<and>
    (\<forall>name e. SubgraphManager_GetSubgraph m name = Some e \<longrightarrow> SubgraphManager_GetSubgraph m' name = Some e)"
  using assms
proof (induction rule: manager_runs.induct)
  case (create m m' name g)
  then show ?case
    by (auto simp: SubgraphManager_CreateSubgraph_def SubgraphManager_GetSubgraph_def mhas_mget Let_def)
next
  case (recurse m m' maxDepth name node step attempt input depth)
  then show ?case by (simp add: RecursiveSubgraphExecutor_ExecuteRecursive_def)
qed simp_all

text \<open>The path of namespaces can be split into them again.\<close>

theorem namespace_path_roundtrip:
  assumes "sm_namespaceStack m \<noteq> []" and "\<forall>ns\<in>set (sm_namespaceStack m). NSSep \<notin> set ns"
  shows "strings_Split NSSep (SubgraphManager_BuildNamespacePath m) = sm_namespaceStack m"
  using assms by (simp add: SubgraphManager_BuildNamespacePath_def strings_Split_Join)

text \<open>A checkpoint made through a view cannot be restored into the registry it was made from, unless this has channels named
  \<open>namespace\<close> and \<open>prefix\<close>: the two entries added to it name no channel.\<close>

theorem isolated_checkpoint_not_restorable:
  assumes "range_order ro" and "\<not> mhas (channels r) ''namespace''"
  shows "fst (Registry_RestoreFromCheckpoint ro r (NamespaceIsolatedRegistry_CreateCheckpoint v r)) \<noteq> None"
proof -
  let ?cp = "NamespaceIsolatedRegistry_CreateCheckpoint v r"
  have fails: "(n, cp) \<in> set es \<Longrightarrow> \<not> mhas m n \<Longrightarrow> fst (restore_loop m es) \<noteq> None" for m es n cp
  proof (induction m es rule: restore_loop.induct)
    case (2 m name c es)
    then show ?case by (cases "n = name") (auto simp: mhas_mget split: option.splits)
  qed simp
  have "mget ?cp ''namespace'' = Some (GString (nr_namespace v))" by (simp add: NamespaceIsolatedRegistry_CreateCheckpoint_def)
  then have "(''namespace'', GString (nr_namespace v)) \<in> set (range_entries ro ?cp)" by (simp only: range_entries_mem [OF assms(1)])
  from fails [OF this assms(2)] show ?thesis by (simp add: Registry_RestoreFromCheckpoint_def case_prod_beta)
qed

text \<open>A command for the parent graph keeps its \<open>Graph\<close>, where the parent is documented to be named, and loses its \<open>Goto\<close>.\<close>

theorem parent_command_loses_goto:
  "SubgraphManager_ResolveParentCommand (SubgraphManager_PushNamespace (NewSubgraphManager e) ''s'')
     \<lparr>cmd_Graph = [], cmd_Update = GNil, cmd_Resume = GNil, cmd_Goto = GString ''n''\<rparr> =
   Inr \<lparr>cmd_Graph = [], cmd_Update = GNil, cmd_Resume = GNil, cmd_Goto = GString ''__parent__''\<rparr>"
  by (simp add: SubgraphManager_ResolveParentCommand_def SubgraphManager_PushNamespace_def)

end
