(* ===== verification/Interrupts.thy ===== *)
theory Interrupts
  imports Errors
begin

text \<open>
  \<open>interrupt/interrupt.go\<close>: the call by which a node asks the user, answered from the resume values of its context.  The state is that
  of the context the node runs in, if it has one, of the global context all others share, and the process-wide counter of
  interrupt identifiers.  \<open>sha8\<close> is the hexadecimal text of the first eight bytes of the SHA-256 hash, \<open>other\<close> the text of
  values whose format depends on the platform.  A call of \<open>Interrupt\<close> is one step: each node has its own context.
\<close>

record interruptContext =
  ic_resumeValues :: "gvalue list"
  ic_index :: nat
  ic_nullResume :: gvalue

record interrupt_state =
  is_context :: "interruptContext option"
  is_global :: interruptContext
  is_counter :: goint

definition new_interruptContext :: interruptContext where
  "new_interruptContext = \<lparr>ic_resumeValues = [], ic_index = 0, ic_nullResume = GNil\<rparr>"

definition WithInterruptContext :: "interrupt_state \<Rightarrow> interrupt_state" where
  "WithInterruptContext s = s\<lparr>is_context := Some new_interruptContext\<rparr>"

definition GetInterruptContext :: "interrupt_state \<Rightarrow> interruptContext option" where
  "GetInterruptContext s = is_context s"

definition IsInterruptContext :: "interrupt_state \<Rightarrow> bool" where
  "IsInterruptContext s = (GetInterruptContext s \<noteq> None)"

text \<open>The context an operation works on, with the global one as fallback.\<close>

definition active :: "interrupt_state \<Rightarrow> interruptContext" where
  "active s = (case GetInterruptContext s of Some ic \<Rightarrow> ic | None \<Rightarrow> is_global s)"

definition put_active :: "interrupt_state \<Rightarrow> interruptContext \<Rightarrow> interrupt_state" where
  "put_active s ic = (case GetInterruptContext s of Some _ \<Rightarrow> s\<lparr>is_context := Some ic\<rparr> | None \<Rightarrow> s\<lparr>is_global := ic\<rparr>)"

section \<open>Methods of the context\<close>

definition interruptContext_consumeNextResumeValue :: "interruptContext \<Rightarrow> gvalue option \<times> interruptContext" where
  "interruptContext_consumeNextResumeValue ic =
     (if ic_index ic < length (ic_resumeValues ic)
      then (Some (ic_resumeValues ic ! ic_index ic), ic\<lparr>ic_index := ic_index ic + 1\<rparr>)
      else (None, ic))"

definition interruptContext_getResumeValues :: "interruptContext \<Rightarrow> gvalue list" where
  "interruptContext_getResumeValues ic = ic_resumeValues ic"

definition interruptContext_getInterruptIndex :: "interruptContext \<Rightarrow> nat" where
  "interruptContext_getInterruptIndex ic = ic_index ic"

definition interruptContext_getNullResume :: "interruptContext \<Rightarrow> gvalue" where
  "interruptContext_getNullResume ic = ic_nullResume ic"

definition interruptContext_appendResumeValue :: "interruptContext \<Rightarrow> gvalue \<Rightarrow> interruptContext" where
  "interruptContext_appendResumeValue ic v = ic\<lparr>ic_resumeValues := ic_resumeValues ic @ [v]\<rparr>"

definition interruptContext_setNullResume :: "interruptContext \<Rightarrow> gvalue \<Rightarrow> interruptContext" where
  "interruptContext_setNullResume ic v = ic\<lparr>ic_nullResume := v\<rparr>"

definition interruptContext_setResumeValues :: "interruptContext \<Rightarrow> gvalue list \<Rightarrow> interruptContext" where
  "interruptContext_setResumeValues ic vs = ic\<lparr>ic_resumeValues := vs\<rparr>"

definition interruptContext_reset :: "interruptContext \<Rightarrow> interruptContext" where
  "interruptContext_reset ic = \<lparr>ic_resumeValues = [], ic_index = 0, ic_nullResume = GNil\<rparr>"

section \<open>Operations\<close>

definition generateInterruptID :: "(string \<Rightarrow> string) \<Rightarrow> (gvalue \<Rightarrow> string) \<Rightarrow> interrupt_state \<Rightarrow> gvalue \<Rightarrow> string \<times> interrupt_state" where
  "generateInterruptID sha8 other s val =
     (let n = is_counter s + 1 in (sha8 (fmt_v other val) @ ''_'' @ goint_digits n, s\<lparr>is_counter := n\<rparr>))"

definition interrupt_Interrupt ::
    "(string \<Rightarrow> string) \<Rightarrow> (gvalue \<Rightarrow> string) \<Rightarrow> interrupt_state \<Rightarrow> gvalue \<Rightarrow> (gerror + gvalue) \<times> interrupt_state" where
  "interrupt_Interrupt sha8 other s val =
     (let ic = active s in
      case interruptContext_consumeNextResumeValue ic of
        (Some v, ic1) \<Rightarrow> (Inr v, put_active s ic1)
      | (None, ic1) \<Rightarrow>
          let v = interruptContext_getNullResume ic1 in
          if v \<noteq> GNil
          then (Inr v, put_active s (interruptContext_appendResumeValue (interruptContext_setNullResume ic1 GNil) v))
          else let (i, s') = generateInterruptID sha8 other s val in (Inl (GraphInterrupt [Interrupt val i]), s'))"

definition GetResumeValues :: "interrupt_state \<Rightarrow> gvalue list" where
  "GetResumeValues s = interruptContext_getResumeValues (active s)"

definition GetInterruptIndex :: "interrupt_state \<Rightarrow> nat" where
  "GetInterruptIndex s = interruptContext_getInterruptIndex (active s)"

definition AppendResumeValue :: "interrupt_state \<Rightarrow> gvalue \<Rightarrow> interrupt_state" where
  "AppendResumeValue s v = put_active s (interruptContext_appendResumeValue (active s) v)"

definition GetNullResume :: "interrupt_state \<Rightarrow> bool \<Rightarrow> gvalue \<times> interrupt_state" where
  "GetNullResume s consume =
     (interruptContext_getNullResume (active s),
      if consume then put_active s (interruptContext_setNullResume (active s) GNil) else s)"

definition interrupt_Reset :: "interrupt_state \<Rightarrow> interrupt_state" where
  "interrupt_Reset s =
     (case GetInterruptContext s of
        Some ic \<Rightarrow> s\<lparr>is_context := Some (interruptContext_reset ic)\<rparr>
      | None \<Rightarrow> s\<lparr>is_global := interruptContext_reset (is_global s)\<rparr>)"

definition SetResumeValues :: "interrupt_state \<Rightarrow> gvalue list \<Rightarrow> interrupt_state" where
  "SetResumeValues s vs = put_active s (interruptContext_setResumeValues (active s) vs)"

definition IsInterrupt :: "gerror \<Rightarrow> bool" where
  "IsInterrupt err = IsGraphInterrupt err"

definition GetInterruptValue :: "gerror \<Rightarrow> gvalue option" where
  "GetInterruptValue err =
     (case err of GraphInterrupt (Interrupt v i # _) \<Rightarrow> Some v | GraphInterrupt (OtherInterrupt v # _) \<Rightarrow> Some v | _ \<Rightarrow> None)"

section \<open>Lemmas\<close>

lemma active_put [simp]: "active (put_active s ic) = ic" "put_active (put_active s ic) ic' = put_active s ic'"
  "is_counter (put_active s ic) = is_counter s"
  by (simp_all add: active_def put_active_def GetInterruptContext_def split: option.split)

lemma put_active_same [simp]: "put_active s (active s) = s"
  by (simp add: active_def put_active_def GetInterruptContext_def split: option.split)

lemma Interrupt_pending:
  "ic_index (active s) < length (ic_resumeValues (active s)) \<Longrightarrow>
   interrupt_Interrupt sha8 other s val =
     (Inr (ic_resumeValues (active s) ! ic_index (active s)), put_active s ((active s)\<lparr>ic_index := ic_index (active s) + 1\<rparr>))"
  by (simp add: interrupt_Interrupt_def interruptContext_consumeNextResumeValue_def Let_def)

lemma Interrupt_raises:
  "length (ic_resumeValues (active s)) \<le> ic_index (active s) \<Longrightarrow> ic_nullResume (active s) = GNil \<Longrightarrow>
   interrupt_Interrupt sha8 other s val =
     (Inl (GraphInterrupt [Interrupt val (sha8 (fmt_v other val) @ ''_'' @ goint_digits (is_counter s + 1))]), s\<lparr>is_counter := is_counter s + 1\<rparr>)"
  by (simp add: interrupt_Interrupt_def interruptContext_consumeNextResumeValue_def interruptContext_getNullResume_def
      generateInterruptID_def Let_def)

lemma append_after_char:
  assumes "xs @ c # us = ys @ c # vs" and "c \<notin> set xs" and "c \<notin> set ys"
  shows "us = vs"
proof -
  have "dropWhile (\<lambda>x. x \<noteq> c) (xs @ c # us) = c # us" "dropWhile (\<lambda>x. x \<noteq> c) (ys @ c # vs) = c # vs"
    using assms(2,3) by (auto simp: dropWhile_append)
  with assms(1) show ?thesis by simp
qed

text \<open>The decimal text of a number determines it.\<close>

lemma nat_digits_length: "n \<ge> 10 \<Longrightarrow> length (nat_digits n) \<ge> 2"
  by (subst nat_digits.simps) (use nat_digits.simps [of "n div 10"] in \<open>auto simp: Suc_le_eq\<close>)

lemma digit_inj:
  assumes "m < 10" and "n < 10" and "char_of (48 + m :: nat) = (char_of (48 + n) :: char)"
  shows "m = n"
proof -
  have "(of_char (char_of (48 + m) :: char) :: nat) = of_char (char_of (48 + n) :: char)" using assms(3) by simp
  then show ?thesis using assms(1,2) by simp
qed

lemma nat_digits_inj: "nat_digits m = nat_digits n \<Longrightarrow> m = n"
proof (induction m arbitrary: n rule: less_induct)
  case (less m)
  show ?case
  proof (cases "m < 10")
    case True
    then have m: "nat_digits m = [char_of (48 + m)]" by (subst nat_digits.simps) simp
    then have "length (nat_digits n) = 1" using less.prems by simp
    then have "n < 10" using nat_digits_length [of n] by linarith
    then have "nat_digits n = [char_of (48 + n)]" by (subst nat_digits.simps) simp
    then show ?thesis using digit_inj True \<open>n < 10\<close> less.prems m by simp
  next
    case False
    have "\<not> n < 10"
    proof
      assume "n < 10"
      then have "length (nat_digits n) = 1" by (subst nat_digits.simps) simp
      then show False using nat_digits_length [of m] False less.prems by simp
    qed
    have "nat_digits m = nat_digits (m div 10) @ [char_of (48 + m mod 10)]" "nat_digits n = nat_digits (n div 10) @ [char_of (48 + n mod 10)]"
      using False \<open>\<not> n < 10\<close> by (subst nat_digits.simps, simp)+
    then have "nat_digits (m div 10) = nat_digits (n div 10)" "m mod 10 = n mod 10"
      using less.prems digit_inj [of "m mod 10" "n mod 10"] by auto
    moreover have "m div 10 < m" using False by simp
    ultimately have "m div 10 = n div 10" using less.IH by blast
    then show ?thesis using \<open>m mod 10 = n mod 10\<close> by (metis div_mult_mod_eq)
  qed
qed

lemma nat_digits_digits: "c \<in> set (nat_digits n) \<Longrightarrow> \<exists>d<10. c = char_of (48 + d :: nat)"
proof (induction n rule: less_induct)
  case (less n)
  show ?case
  proof (cases "n < 10")
    case True
    then show ?thesis using less.prems by (subst (asm) nat_digits.simps) auto
  next
    case False
    then have "nat_digits n = nat_digits (n div 10) @ [char_of (48 + n mod 10)]" by (subst nat_digits.simps) simp
    then consider "c \<in> set (nat_digits (n div 10))" | "c = char_of (48 + n mod 10)" using less.prems by auto
    then show ?thesis
    proof cases
      case 1
      then show ?thesis using less.IH [of "n div 10"] False by simp
    next
      case 2
      then show ?thesis by (intro exI [of _ "n mod 10"]) simp
    qed
  qed
qed

lemma nat_digits_no_minus: "CHR ''-'' \<notin> set (nat_digits n)"
proof
  assume "CHR ''-'' \<in> set (nat_digits n)"
  then obtain d :: nat where d: "d < 10" "CHR ''-'' = char_of (48 + d)" using nat_digits_digits by blast
  then have "(of_char (CHR ''-'') :: nat) = of_char (char_of (48 + d) :: char)" by simp
  then show False using d(1) by simp
qed

lemma goint_digits_inj:
  assumes "goint_digits i = goint_digits j"
  shows "i = j"
proof -
  have "sint i = sint j"
    using assms nat_digits_no_minus [of "nat (sint i)"] nat_digits_no_minus [of "nat (sint j)"]
      nat_digits_inj [of "nat (- sint i)" "nat (- sint j)"] nat_digits_inj [of "nat (sint i)" "nat (sint j)"]
    by (auto simp: goint_digits_def int_digits_def split: if_splits) (metis list.set_intros(1))+
  then show ?thesis by (simp add: signed_word_eqI)
qed

section \<open>Properties\<close>

text \<open>The results of calling \<open>Interrupt\<close> for each value in turn.\<close>

fun ask_all :: "(string \<Rightarrow> string) \<Rightarrow> (gvalue \<Rightarrow> string) \<Rightarrow> interrupt_state \<Rightarrow> gvalue list \<Rightarrow> (gerror + gvalue) list \<times> interrupt_state" where
  "ask_all sha8 other s [] = ([], s)"
| "ask_all sha8 other s (val # vals) =
     (let (res, s1) = interrupt_Interrupt sha8 other s val; (ress, s2) = ask_all sha8 other s1 vals in (res # ress, s2))"

definition interrupt_id :: "(string \<Rightarrow> string) \<Rightarrow> (gvalue \<Rightarrow> string) \<Rightarrow> interrupt_state \<Rightarrow> gvalue \<Rightarrow> nat \<Rightarrow> string" where
  "interrupt_id sha8 other s val k = sha8 (fmt_v other val) @ ''_'' @ goint_digits (is_counter s + 1 + of_nat k)"

text \<open>How many resume values are left.\<close>

definition answers_left :: "interrupt_state \<Rightarrow> nat" where
  "answers_left s = length (ic_resumeValues (active s)) - ic_index (active s)"

lemma active_counter [simp]: "active (s\<lparr>is_counter := n\<rparr>) = active s"
  by (simp add: active_def GetInterruptContext_def split: option.split)

lemma ask_all_nth:
  "ic_nullResume (active s) = GNil \<Longrightarrow> i < length vals \<Longrightarrow>
   fst (ask_all sha8 other s vals) ! i =
     (if i < answers_left s then Inr (ic_resumeValues (active s) ! (ic_index (active s) + i))
      else Inl (GraphInterrupt [Interrupt (vals ! i) (interrupt_id sha8 other s (vals ! i) (i - answers_left s))]))"
proof (induction vals arbitrary: s i)
  case Nil
  then show ?case by simp
next
  case (Cons val vals)
  obtain res s1 where call: "interrupt_Interrupt sha8 other s val = (res, s1)" by fastforce
  have head: "fst (ask_all sha8 other s (val # vals)) = res # fst (ask_all sha8 other s1 vals)"
    by (simp add: call case_prod_beta)
  show ?case
  proof (cases "ic_index (active s) < length (ic_resumeValues (active s))")
    case True
    from call Interrupt_pending [OF True, of sha8 other val]
    have res: "res = Inr (ic_resumeValues (active s) ! ic_index (active s))" and s1: "s1 = put_active s ((active s)\<lparr>ic_index := ic_index (active s) + 1\<rparr>)"
      by simp_all
    have left: "answers_left s = Suc (answers_left s1)" using True by (simp add: answers_left_def s1)
    show ?thesis
    proof (cases i)
      case 0
      then show ?thesis using True unfolding head by (simp add: res answers_left_def)
    next
      case (Suc j)
      then show ?thesis using Cons.IH [of s1 j] Cons.prems left unfolding head by (simp add: s1 interrupt_id_def)
    qed
  next
    case False
    then have none: "answers_left s = 0" by (simp add: answers_left_def)
    from call Interrupt_raises [of s sha8 other val] False Cons.prems(1)
    have res: "res = Inl (GraphInterrupt [Interrupt val (interrupt_id sha8 other s val 0)])" and s1: "s1 = s\<lparr>is_counter := is_counter s + 1\<rparr>"
      by (simp_all add: interrupt_id_def)
    have "answers_left s1 = 0" using none by (simp add: answers_left_def s1)
    then show ?thesis
      using Cons.IH [of s1 "i - 1"] Cons.prems none unfolding head by (cases i) (simp_all add: res s1 interrupt_id_def add.assoc)
  qed
qed

text \<open>The calls of \<open>Interrupt\<close> in a node are answered by the resume values of its context in their order, from the index of the context on; the calls
  after them raise an interrupt with the value they were given, and any two of these interrupts have different identifiers, when the text of the
  hash has no underscore and there are fewer than \<open>2^64\<close> calls.\<close>

theorem interrupts_answered_in_order:
  assumes null: "ic_nullResume (active s) = GNil" and hash: "\<And>t. CHR ''_'' \<notin> set (sha8 t)" and few: "length vals < 2 ^ 64"
  shows "(\<forall>i<length vals. case fst (ask_all sha8 other s vals) ! i of
        Inr v \<Rightarrow> i < answers_left s \<and> v = ic_resumeValues (active s) ! (ic_index (active s) + i)
      | Inl err \<Rightarrow> answers_left s \<le> i \<and> GetInterruptValue err = Some (vals ! i)) \<and>
    (\<forall>i j x y a b. i < j \<and> j < length vals \<and> fst (ask_all sha8 other s vals) ! i = Inl (GraphInterrupt [Interrupt x a]) \<and>
       fst (ask_all sha8 other s vals) ! j = Inl (GraphInterrupt [Interrupt y b]) \<longrightarrow> a \<noteq> b)"
proof (intro conjI allI impI)
  show "case fst (ask_all sha8 other s vals) ! i of
        Inr v \<Rightarrow> i < answers_left s \<and> v = ic_resumeValues (active s) ! (ic_index (active s) + i)
      | Inl err \<Rightarrow> answers_left s \<le> i \<and> GetInterruptValue err = Some (vals ! i)" if "i < length vals" for i
    by (simp add: ask_all_nth [OF null that] GetInterruptValue_def)
  fix i j x y a b
  assume asm: "i < j \<and> j < length vals \<and> fst (ask_all sha8 other s vals) ! i = Inl (GraphInterrupt [Interrupt x a]) \<and>
       fst (ask_all sha8 other s vals) ! j = Inl (GraphInterrupt [Interrupt y b])"
  then have i: "i < length vals" and j: "j < length vals" by auto
  have a: "answers_left s \<le> i" "a = interrupt_id sha8 other s (vals ! i) (i - answers_left s)"
    using asm ask_all_nth [OF null i, of sha8 other] by (auto split: if_splits)
  have b: "b = interrupt_id sha8 other s (vals ! j) (j - answers_left s)"
    using asm ask_all_nth [OF null j, of sha8 other] by (auto split: if_splits)
  show "a \<noteq> b"
  proof
    assume "a = b"
    then have "goint_digits (is_counter s + 1 + of_nat (i - answers_left s)) = goint_digits (is_counter s + 1 + of_nat (j - answers_left s))"
      unfolding a(2) b interrupt_id_def by (simp add: append_after_char [OF _ hash hash])
    then have "(of_nat (i - answers_left s) :: goint) = of_nat (j - answers_left s)" using goint_digits_inj by fastforce
    moreover have "i - answers_left s < 2 ^ 64" "j - answers_left s < 2 ^ 64" using asm few by linarith+
    ultimately have "i - answers_left s = j - answers_left s"
      by (simp add: word_of_nat_eq_iff take_bit_nat_eq_self)
    then show False using asm a(1) by linarith
  qed
qed

definition one_answer :: interrupt_state where
  "one_answer = SetResumeValues (WithInterruptContext \<lparr>is_context = None, is_global = new_interruptContext, is_counter = 0\<rparr>) [GBool True]"

lemma one_answer_active: "active one_answer = \<lparr>ic_resumeValues = [GBool True], ic_index = 0, ic_nullResume = GNil\<rparr>"
  by (simp add: one_answer_def SetResumeValues_def interruptContext_setResumeValues_def)
     (simp add: active_def WithInterruptContext_def new_interruptContext_def GetInterruptContext_def)

theorem interrupts_answered_in_order_witness:
  "case fst (ask_all (\<lambda>t. []) (\<lambda>v. []) one_answer [GNil, GBool False]) ! 1 of
     Inl err \<Rightarrow> GetInterruptValue err = Some (GBool False) | Inr v \<Rightarrow> False"
proof -
  let ?r = "fst (ask_all (\<lambda>t. []) (\<lambda>v. []) one_answer [GNil, GBool False])"
  have "case ?r ! 1 of Inr v \<Rightarrow> 1 < answers_left one_answer \<and> v = ic_resumeValues (active one_answer) ! (ic_index (active one_answer) + 1)
      | Inl err \<Rightarrow> answers_left one_answer \<le> 1 \<and> GetInterruptValue err = Some ([GNil, GBool False] ! 1)"
    using interrupts_answered_in_order [of one_answer "\<lambda>t. []" "[GNil, GBool False]" "\<lambda>v. []", THEN conjunct1, THEN spec, of 1]
      one_answer_active by (simp del: ask_all.simps)
  then show ?thesis by (auto simp: answers_left_def one_answer_active simp del: ask_all.simps split: sum.splits)
qed

text \<open>A value set with \<open>setNullResume\<close> answers two calls: the first consumes it and appends it to the resume values without moving the
  index past it, so that the second call reads it as the next resume value.\<close>

theorem null_resume_answers_twice:
  assumes "answers_left s = 0" and "ic_index (active s) = length (ic_resumeValues (active s))" and "ic_nullResume (active s) = v" and "v \<noteq> GNil"
  shows "fst (ask_all sha8 other s [a, b]) = [Inr v, Inr v]"
  using assms by (simp add: interrupt_Interrupt_def interruptContext_consumeNextResumeValue_def interruptContext_getNullResume_def
      interruptContext_appendResumeValue_def interruptContext_setNullResume_def Let_def)

text \<open>A node with a context of its own leaves the global context alone, and its reset too.\<close>

theorem own_context_isolated:
  assumes "IsInterruptContext s"
  shows "is_global (snd (ask_all sha8 other s vals)) = is_global s \<and> is_global (interrupt_Reset s) = is_global s \<and>
    is_global (AppendResumeValue s v) = is_global s"
proof -
  have put: "is_global (put_active s ic) = is_global s \<and> IsInterruptContext (put_active s ic)" if "IsInterruptContext s" for s ic
    using that by (auto simp: put_active_def IsInterruptContext_def GetInterruptContext_def)
  have call: "is_global (snd (interrupt_Interrupt sha8 other s val)) = is_global s \<and> IsInterruptContext (snd (interrupt_Interrupt sha8 other s val))"
    if "IsInterruptContext s" for s val
    using that put [OF that]
    by (auto simp: interrupt_Interrupt_def generateInterruptID_def Let_def IsInterruptContext_def GetInterruptContext_def split: prod.split option.split)
  have "IsInterruptContext s \<Longrightarrow> is_global (snd (ask_all sha8 other s vals)) = is_global s" for s
    by (induction vals arbitrary: s) (auto simp: case_prod_beta call)
  then show ?thesis
    using assms put [OF assms] by (auto simp: interrupt_Reset_def AppendResumeValue_def IsInterruptContext_def GetInterruptContext_def)
qed

end
