(* ===== verification/Loop.thy ===== *)
theory Loop
  imports Compiled Interrupts
begin

text \<open>
  \<open>graph/loop.go\<close>: a node that runs a compiled sub-graph again and again until a condition holds.  \<open>envs i\<close> is what the surroundings decide in
  iteration \<open>i\<close>, and \<open>during i\<close> what its nodes do to the interrupt context, which they share with the loop; the checkpointer of the
  sub-graph is passed on from one iteration to the next.  The record \<open>json_codec\<close> stands for
  \<open>encoding/json\<close>: marshalling, decoding of a value, decoding of a loop state, and the loop state as an interface value.  A result
  comes with the list of calls of the sub-graph, each with the thread and the input it was given.  What follows the text of a sentinel
  error in its message is left out.
\<close>

record loopInterruptState =
  ls_Iteration :: int
  ls_CurrentInput :: "string option"
  ls_UserFillUpValue :: "string option"

record json_codec =
  js_marshal :: "gvalue \<Rightarrow> string option"
  js_decode :: "string \<Rightarrow> gvalue option"
  js_state :: "string \<Rightarrow> loopInterruptState option"
  js_box :: "loopInterruptState \<Rightarrow> gvalue"

type_synonym LoopCondition = "int \<Rightarrow> gvalue \<Rightarrow> gvalue \<Rightarrow> gerror + bool"

record loopOptions =
  lo_maxIterations :: goint
  lo_checkpointIDPrefix :: string

definition WithLoopMaxIterations :: "goint \<Rightarrow> loopOptions \<Rightarrow> loopOptions" where
  "WithLoopMaxIterations maxIterations o1 = (if sint maxIterations \<ge> 0 then o1\<lparr>lo_maxIterations := maxIterations\<rparr> else o1)"

definition WithLoopCheckpointIDPrefix :: "string \<Rightarrow> loopOptions \<Rightarrow> loopOptions" where
  "WithLoopCheckpointIDPrefix pre o1 = (if pre \<noteq> [] then o1\<lparr>lo_checkpointIDPrefix := pre\<rparr> else o1)"

definition getLoopOptions :: "(loopOptions \<Rightarrow> loopOptions) list \<Rightarrow> loopOptions" where
  "getLoopOptions opts = fold (\<lambda>opt o1. opt o1) opts \<lparr>lo_maxIterations = 1024, lo_checkpointIDPrefix = []\<rparr>"

definition ErrLoopMaxIterationsExceeded :: gerror where
  "ErrLoopMaxIterationsExceeded = ErrorNew ''graph: loop max iterations exceeded''"

definition ErrLoopResumeStateInvalid :: gerror where
  "ErrLoopResumeStateInvalid = ErrorNew ''graph: loop resume state invalid''"

definition subCheckpointID :: "loopOptions \<Rightarrow> string \<Rightarrow> int \<Rightarrow> string" where
  "subCheckpointID options key iteration = lo_checkpointIDPrefix options @ '':loop:'' @ key @ '':iter:'' @ int_digits iteration"

text \<open>The configuration of an iteration, a \<open>RunnableConfig\<close> with the thread and nothing else.\<close>

definition subCfg :: "string \<Rightarrow> RunnableConfig" where
  "subCfg thread = zero_config\<lparr>rc_Configurable := Some [(''thread_id'', GString thread)]\<rparr>"

text \<open>The first of some texts that is a loop state with a positive iteration.\<close>

definition decode_state :: "json_codec \<Rightarrow> string \<Rightarrow> loopInterruptState option" where
  "decode_state js data = (case js_state js data of Some st \<Rightarrow> if ls_Iteration st > 0 then Some st else None | None \<Rightarrow> None)"

fun resume_state :: "json_codec \<Rightarrow> gvalue list \<Rightarrow> loopInterruptState option" where
  "resume_state js [] = None"
| "resume_state js (v # vs) =
     (case (case v of GBytes data \<Rightarrow> decode_state js data | GString data \<Rightarrow> decode_state js data | _ \<Rightarrow> None) of
        Some st \<Rightarrow> Some st | None \<Rightarrow> resume_state js vs)"

definition loadLoopSnapshot :: "json_codec \<Rightarrow> string option \<Rightarrow> interrupt_state \<Rightarrow> loopInterruptState option" where
  "loadLoopSnapshot js subState s =
     (case Option.bind subState (decode_state js) of Some st \<Rightarrow> Some st | None \<Rightarrow> resume_state js (GetResumeValues s))"

text \<open>What the loop does with an interrupt of the sub-graph: it raises one of its own that carries the state of the loop.\<close>

definition rethrow ::
    "json_codec \<Rightarrow> (string \<Rightarrow> string) \<Rightarrow> (gvalue \<Rightarrow> string) \<Rightarrow> interrupt_state \<Rightarrow> int \<Rightarrow> gvalue \<Rightarrow> gerror \<Rightarrow> (gerror + gvalue) \<times> interrupt_state" where
  "rethrow js sha8 other s iteration current invokeErr =
     (case js_marshal js current of
        None \<Rightarrow> (Inl (ErrorNew ''graph: loop marshal state''), s)
      | Some currentJSON \<Rightarrow>
          let fillUpJSON = (case GetInterruptValue invokeErr of Some v \<Rightarrow> if v \<noteq> GNil then js_marshal js v else None | None \<Rightarrow> None);
              loopState = \<lparr>ls_Iteration = iteration, ls_CurrentInput = Some currentJSON, ls_UserFillUpValue = fillUpJSON\<rparr>
          in case interrupt_Interrupt sha8 other s (js_box js loopState) of
               (Inl err, s') \<Rightarrow> (Inl err, s')
             | (Inr v, s') \<Rightarrow> (Inr GNil, s'))"

record 's loop_world =
  lw_saver :: 's
  lw_interrupts :: interrupt_state
  lw_calls :: "(string \<times> gvalue) list"

function loop_from ::
    "json_codec \<Rightarrow> (string \<Rightarrow> string) \<Rightarrow> (gvalue \<Rightarrow> string) \<Rightarrow> (int \<Rightarrow> Env) \<Rightarrow> (int \<Rightarrow> interrupt_state \<Rightarrow> interrupt_state) \<Rightarrow> compiledGraph \<Rightarrow> stateGraph \<Rightarrow> 's Checkpointer option \<Rightarrow>
     string \<Rightarrow> LoopCondition \<Rightarrow> loopOptions \<Rightarrow> int \<Rightarrow> gvalue \<Rightarrow> 's loop_world \<Rightarrow> (gerror + gvalue) \<times> 's loop_world" where
  "loop_from js sha8 other envs during cg g cp key shouldQuit options iteration current w =
     (let thread = subCheckpointID options key iteration;
          (res, rr) = compiledGraph_Invoke (envs iteration) cg g cp (lw_saver w) current [Some (subCfg thread)];
          w1 = w\<lparr>lw_saver := rr_saver rr, lw_interrupts := during iteration (lw_interrupts w), lw_calls := lw_calls w @ [(thread, current)]\<rparr>
      in case res of
           Inl invokeErr \<Rightarrow>
             if IsInterrupt invokeErr
             then (let (out, s') = rethrow js sha8 other (lw_interrupts w1) iteration current invokeErr in (out, w1\<lparr>lw_interrupts := s'\<rparr>))
             else (Inl (ErrorWrap (''graph: loop iteration '' @ int_digits iteration) invokeErr), w1)
         | Inr next \<Rightarrow>
             (case shouldQuit iteration current next of
                Inl qErr \<Rightarrow> (Inl (ErrorWrap (''graph: loop condition iteration '' @ int_digits iteration) qErr), w1)
              | Inr quit \<Rightarrow>
                  if quit then (Inr next, w1)
                  else if iteration \<ge> sint (lo_maxIterations options)
                  then (Inl ErrLoopMaxIterationsExceeded, w1)
                  else loop_from js sha8 other envs during cg g cp key shouldQuit options (iteration + 1) next w1))"
  by auto

termination
  by (relation "measure (\<lambda>(js, sha8, other, envs, during, cg, g, cp, key, shouldQuit, options, iteration, current, w).
        nat (sint (lo_maxIterations options) - iteration))") auto

declare loop_from.simps [simp del]

definition runLoop ::
    "json_codec \<Rightarrow> (string \<Rightarrow> string) \<Rightarrow> (gvalue \<Rightarrow> string) \<Rightarrow> (int \<Rightarrow> Env) \<Rightarrow> (int \<Rightarrow> interrupt_state \<Rightarrow> interrupt_state) \<Rightarrow> string option \<Rightarrow> compiledGraph \<Rightarrow> stateGraph \<Rightarrow> 's Checkpointer option \<Rightarrow>
     string \<Rightarrow> gvalue \<Rightarrow> LoopCondition \<Rightarrow> loopOptions \<Rightarrow> 's loop_world \<Rightarrow> (gerror + gvalue) \<times> 's loop_world" where
  "runLoop js sha8 other envs during subState cg g cp key input shouldQuit options w =
     (let snap = loadLoopSnapshot js subState (lw_interrupts w);
          startIteration = (case snap of Some st \<Rightarrow> ls_Iteration st | None \<Rightarrow> 1);
          current0 = (case Option.bind snap ls_CurrentInput of
                        Some text \<Rightarrow> (case js_decode js text of Some v \<Rightarrow> Inr v | None \<Rightarrow> Inl ErrLoopResumeStateInvalid)
                      | None \<Rightarrow> Inr input)
      in case current0 of
           Inl err \<Rightarrow> (Inl err, w)
         | Inr c \<Rightarrow> loop_from js sha8 other envs during cg g cp key shouldQuit options startIteration (if c = GNil then GMap [] else c) w)"

definition NewLoopNodeFunc ::
    "string \<Rightarrow> (compiledGraph \<times> stateGraph) option \<Rightarrow> LoopCondition option \<Rightarrow> (loopOptions \<Rightarrow> loopOptions) list \<Rightarrow>
     gerror + (string \<times> compiledGraph \<times> stateGraph \<times> LoopCondition \<times> loopOptions)" where
  "NewLoopNodeFunc key sub shouldQuit opts =
     (if key = [] then Inl (ErrorNew ''graph: loop key is empty'')
      else case sub of
             None \<Rightarrow> Inl (ErrorNew ''graph: loop sub-graph is nil'')
           | Some (cg, g) \<Rightarrow>
               (case shouldQuit of
                  None \<Rightarrow> Inl (ErrorNew ''graph: loop shouldQuit is nil'')
                | Some q \<Rightarrow>
                    let options = getLoopOptions opts;
                        options' = (if lo_checkpointIDPrefix options = [] then options\<lparr>lo_checkpointIDPrefix := key\<rparr> else options)
                    in Inr (key, cg, g, q, options')))"

section \<open>Lemmas\<close>

text \<open>One call of the sub-graph, and the state of the surroundings after it.\<close>

abbreviation invoke where
  "invoke envs cg g cp options key iteration saver current \<equiv>
     compiledGraph_Invoke (envs iteration) cg g cp saver current [Some (subCfg (subCheckpointID options key iteration))]"

definition after_call :: "(int \<Rightarrow> interrupt_state \<Rightarrow> interrupt_state) \<Rightarrow> loopOptions \<Rightarrow> string \<Rightarrow> int \<Rightarrow> gvalue \<Rightarrow> 's \<Rightarrow> 's loop_world \<Rightarrow> 's loop_world" where
  "after_call during options key i x saver w =
     w\<lparr>lw_saver := saver, lw_interrupts := during i (lw_interrupts w), lw_calls := lw_calls w @ [(subCheckpointID options key i, x)]\<rparr>"

text \<open>The iterations \<open>i, i + 1, \<dots>\<close> that end without an error and without the condition: from the input and the surroundings of the
  iteration \<open>i\<close> to those of the iteration \<open>k\<close>.\<close>

inductive iterates for envs during cg g cp options key shouldQuit where
  here: "iterates envs during cg g cp options key shouldQuit i x w i x w"
| step: "invoke envs cg g cp options key i (lw_saver w) x = (Inr y, rr) \<Longrightarrow> shouldQuit i x y = Inr False \<Longrightarrow>
    i < sint (lo_maxIterations options) \<Longrightarrow>
    iterates envs during cg g cp options key shouldQuit (i + 1) y (after_call during options key i x (rr_saver rr) w) k z w' \<Longrightarrow>
    iterates envs during cg g cp options key shouldQuit i x w k z w'"

inductive_cases iteratesE: "iterates envs during cg g cp options key shouldQuit i x w k z w'"

lemma iterates_le: "iterates envs during cg g cp options key shouldQuit i x w k z w' \<Longrightarrow> i \<le> k"
  by (induction rule: iterates.induct) auto

lemma iterates_bound: "iterates envs during cg g cp options key shouldQuit i x w k z w' \<Longrightarrow> k = i \<or> k \<le> sint (lo_maxIterations options)"
  by (induction rule: iterates.induct) auto

lemma iterates_calls:
  "iterates envs during cg g cp options key shouldQuit i x w k z w' \<Longrightarrow>
   map fst (lw_calls w') = map fst (lw_calls w) @ map (subCheckpointID options key) [i..k - 1]"
proof (induction rule: iterates.induct)
  case (step i w x y rr k z w')
  then have "i \<le> k - 1" using iterates_le by fastforce
  then have "[i..k - 1] = i # [i + 1..k - 1]" by (rule upto_rec1)
  then show ?case using step.IH by (simp add: after_call_def)
qed simp

text \<open>The last iteration of a loop: what it returns after \<open>k\<close> was run on \<open>z\<close>, \<open>None\<close> when the loop goes on.\<close>

definition last_iteration where
  "last_iteration js sha8 other envs during cg g cp key shouldQuit options k z w =
     (case invoke envs cg g cp options key k (lw_saver w) z of
        (Inl err, rr) \<Rightarrow>
          Some (if IsInterrupt err then fst (rethrow js sha8 other (during k (lw_interrupts w)) k z err)
                else Inl (ErrorWrap (''graph: loop iteration '' @ int_digits k) err))
      | (Inr v, rr) \<Rightarrow>
          (case shouldQuit k z v of
             Inl err \<Rightarrow> Some (Inl (ErrorWrap (''graph: loop condition iteration '' @ int_digits k) err))
           | Inr True \<Rightarrow> Some (Inr v)
           | Inr False \<Rightarrow> if k \<ge> sint (lo_maxIterations options) then Some (Inl ErrLoopMaxIterationsExceeded) else None))"

lemma loop_from_last:
  assumes "last_iteration js sha8 other envs during cg g cp key shouldQuit options k z w = Some out"
  shows "fst (loop_from js sha8 other envs during cg g cp key shouldQuit options k z w) = out"
    and "lw_calls (snd (loop_from js sha8 other envs during cg g cp key shouldQuit options k z w)) = lw_calls w @ [(subCheckpointID options key k, z)]"
  by (subst loop_from.simps, use assms in \<open>force simp: last_iteration_def Let_def split: prod.splits sum.splits bool.splits if_splits\<close>)+

lemma loop_from_step:
  assumes "invoke envs cg g cp options key i (lw_saver w) x = (Inr y, rr)" and "shouldQuit i x y = Inr False" and "i < sint (lo_maxIterations options)"
  shows "loop_from js sha8 other envs during cg g cp key shouldQuit options i x w =
    loop_from js sha8 other envs during cg g cp key shouldQuit options (i + 1) y (after_call during options key i x (rr_saver rr) w)"
  by (subst loop_from.simps) (use assms in \<open>simp add: Let_def after_call_def\<close>)

lemma loop_from_iterates:
  "iterates envs during cg g cp options key shouldQuit i x w k z w' \<Longrightarrow>
   loop_from js sha8 other envs during cg g cp key shouldQuit options i x w = loop_from js sha8 other envs during cg g cp key shouldQuit options k z w'"
  by (induction rule: iterates.induct) (simp_all add: loop_from_step)

text \<open>Every loop comes to a last iteration.\<close>

lemma last_iteration_exists:
  "\<exists>k z w'. iterates envs during cg g cp options key shouldQuit i x w k z w' \<and>
    last_iteration js sha8 other envs during cg g cp key shouldQuit options k z w' \<noteq> None"
proof (induction "nat (sint (lo_maxIterations options) - i)" arbitrary: i x w rule: less_induct)
  case less
  show ?case
  proof (cases "last_iteration js sha8 other envs during cg g cp key shouldQuit options i x w")
    case None
    then obtain y rr where inv: "invoke envs cg g cp options key i (lw_saver w) x = (Inr y, rr)" and go: "shouldQuit i x y = Inr False"
      and lt: "i < sint (lo_maxIterations options)"
      by (auto simp: last_iteration_def split: prod.splits sum.splits bool.splits if_splits)
    then have "nat (sint (lo_maxIterations options) - (i + 1)) < nat (sint (lo_maxIterations options) - i)" by simp
    from less [OF this, of y "after_call during options key i x (rr_saver rr) w"] obtain k z w' where
      "iterates envs during cg g cp options key shouldQuit (i + 1) y (after_call during options key i x (rr_saver rr) w) k z w'"
      "last_iteration js sha8 other envs during cg g cp key shouldQuit options k z w' \<noteq> None" by blast
    moreover from this have "iterates envs during cg g cp options key shouldQuit i x w k z w'" using iterates.step [where envs = envs and i = i and x = x and y = y and w = w and shouldQuit = shouldQuit and during = during, OF inv go lt] by simp
    ultimately show ?thesis by blast
  next
    case (Some out)
    then show ?thesis using iterates.here by fastforce
  qed
qed

section \<open>Properties\<close>

text \<open>C20: The loop ends after finitely many iterations, for every sub-graph and condition: it runs the iterations \<open>i, \<dots>, k\<close>, each on the
  output of the one before and in a thread of its own, where no iteration but the last one fails or meets the condition, and
  returns what the last one decides: its output when the condition holds, the error of the sub-graph or of the condition, or that the limit is
  exceeded.  It never runs an iteration beyond the limit, except the first one.\<close>

theorem loop_runs_to_last_iteration:
  "\<exists>k z w'. iterates envs during cg g cp options key shouldQuit i x w k z w' \<and>
    last_iteration js sha8 other envs during cg g cp key shouldQuit options k z w' =
      Some (fst (loop_from js sha8 other envs during cg g cp key shouldQuit options i x w)) \<and>
    k \<le> max i (sint (lo_maxIterations options)) \<and>
    map fst (lw_calls (snd (loop_from js sha8 other envs during cg g cp key shouldQuit options i x w))) =
      map fst (lw_calls w) @ map (subCheckpointID options key) [i..k]"
proof -
  let ?loop = "loop_from js sha8 other envs during cg g cp key shouldQuit options"
  obtain k z w' out where it: "iterates envs during cg g cp options key shouldQuit i x w k z w'"
    and out: "last_iteration js sha8 other envs during cg g cp key shouldQuit options k z w' = Some out"
    using last_iteration_exists [of envs during cg g cp options key shouldQuit i x w js sha8 other] by auto
  note eq = loop_from_iterates [OF it]
  have "[i..k] = [i..k - 1] @ [k]" using iterates_le [OF it] by (rule upto_rec2)
  then show ?thesis
    using it out loop_from_last [OF out] iterates_calls [OF it] iterates_bound [OF it] by (intro exI [of _ k] exI [of _ z] exI [of _ w']) (auto simp: eq)
qed


definition sample_loop_state :: loopInterruptState where
  "sample_loop_state = \<lparr>ls_Iteration = 3, ls_CurrentInput = Some ''t'', ls_UserFillUpValue = None\<rparr>"

definition sample_codec :: json_codec where
  "sample_codec = \<lparr>js_marshal = (\<lambda>v. if v = GBool True then Some ''t'' else None), js_decode = (\<lambda>t. if t = ''t'' then Some (GBool True) else None),
     js_state = (\<lambda>t. Some sample_loop_state), js_box = (\<lambda>st. if st = sample_loop_state then GBool False else GNil)\<rparr>"


text \<open>When the context of the loop still has a resume value, an interrupt of the sub-graph is lost: the call that should raise it
  takes the value instead, and the node returns nil without an error.\<close>

theorem loop_interrupt_swallowed:
  assumes "answers_left s > 0" and "js_marshal js z = Some t"
  shows "fst (rethrow js sha8 other s k z err) = Inr GNil"
  using assms Interrupt_pending [of s sha8 other] by (simp add: rethrow_def answers_left_def Let_def)

end
