(* ===== verification/Parallel.thy ===== *)
theory Parallel
  imports Loop
begin

text \<open>
  \<open>graph/parallel.go\<close>: a node that runs a compiled sub-graph once for each item of its input, at most \<open>maxConcurrency\<close> at a time, and
  returns the outputs in the order of the items.  Every item has its own thread; \<open>envs i\<close> is what the surroundings decide in
  its run and \<open>savers i\<close> the state of the checkpointer its thread finds.  The order in which the results arrive is an argument,
  \<open>arrival\<close>; \<open>arrives\<close> says which orders the goroutines can produce.  \<open>during\<close> is what the nodes of the sub-graph do to the
  interrupt context they share with the node.  \<open>parallel_codec\<close> stands for \<open>encoding/json\<close>, as in \<open>Loop\<close>.
\<close>

record parallelOptions =
  po_maxConcurrency :: goint

definition WithParallelMaxConcurrency :: "goint \<Rightarrow> parallelOptions \<Rightarrow> parallelOptions" where
  "WithParallelMaxConcurrency maxConcurrency o1 = (if sint maxConcurrency \<ge> 0 then o1\<lparr>po_maxConcurrency := maxConcurrency\<rparr> else o1)"

definition getParallelOptions :: "(parallelOptions \<Rightarrow> parallelOptions) list \<Rightarrow> parallelOptions" where
  "getParallelOptions opts = fold (\<lambda>opt o1. opt o1) opts \<lparr>po_maxConcurrency = 0\<rparr>"

record parallelInterruptState =
  ps_OriginalInputsJSON :: string
  ps_CompletedResults :: "int \<rightharpoonup> gvalue"
  ps_InterruptedIndices :: "int list"
  ps_TotalCount :: int
  ps_ItemCheckpoints :: "string gomap"

record parallelItemResult =
  pr_index :: int
  pr_result :: "gerror + gvalue"

record parallel_codec =
  pj_marshal :: "gvalue list \<Rightarrow> string option"
  pj_state :: "string \<Rightarrow> parallelInterruptState option"
  pj_box :: "parallelInterruptState \<Rightarrow> gvalue"

section \<open>The store of item checkpoints\<close>

record itemCheckpointStore =
  st_data :: "string gomap"

definition newItemCheckpointStore :: "string gomap \<Rightarrow> itemCheckpointStore" where
  "newItemCheckpointStore data = \<lparr>st_data = data\<rparr>"

definition itemCheckpointStore_get :: "itemCheckpointStore \<Rightarrow> string \<Rightarrow> string option" where
  "itemCheckpointStore_get s i = mget (st_data s) i"

definition itemCheckpointStore_set :: "itemCheckpointStore \<Rightarrow> string \<Rightarrow> string \<Rightarrow> itemCheckpointStore" where
  "itemCheckpointStore_set s i payload = s\<lparr>st_data := mput (st_data s) i payload\<rparr>"

definition itemCheckpointStore_snapshot :: "itemCheckpointStore \<Rightarrow> string gomap" where
  "itemCheckpointStore_snapshot s = st_data s"

section \<open>The node\<close>

definition NewParallelNodeFunc ::
    "string \<Rightarrow> (compiledGraph \<times> stateGraph) option \<Rightarrow> (parallelOptions \<Rightarrow> parallelOptions) list \<Rightarrow>
     gerror + (string \<times> compiledGraph \<times> stateGraph \<times> parallelOptions)" where
  "NewParallelNodeFunc key sub opts =
     (if key = [] then Inl (ErrorNew ''graph: parallel key is empty'')
      else case sub of
             None \<Rightarrow> Inl (ErrorNew ''graph: parallel sub-graph is nil'')
           | Some (cg, g) \<Rightarrow> Inr (key, cg, g, getParallelOptions opts))"

text \<open>The items of the input of the node, a slice or a map that has one under \<open>__input__\<close> or \<open>items\<close>.\<close>

definition as_items :: "gvalue option \<Rightarrow> gvalue list option" where
  "as_items raw = (case raw of Some (GSlice xs) \<Rightarrow> Some xs | _ \<Rightarrow> None)"

definition parallel_items :: "gvalue \<Rightarrow> gerror + gvalue list" where
  "parallel_items state =
     (case state of
        GSlice xs \<Rightarrow> Inr xs
      | GMap m \<Rightarrow>
          (case (case as_items (mget m ''__input__'') of Some xs \<Rightarrow> Some xs | None \<Rightarrow> as_items (mget m ''items'')) of
             Some xs \<Rightarrow> Inr xs
           | None \<Rightarrow> Inl (ErrorNew (''graph: parallel node cannot extract []interface{} from '' @ fmt_T state)))
      | _ \<Rightarrow> Inl (ErrorNew (''graph: parallel node expects []interface{} input, got '' @ fmt_T state)))"

fun loadParallelSnapshot_loop :: "parallel_codec \<Rightarrow> gvalue list \<Rightarrow> parallelInterruptState option" where
  "loadParallelSnapshot_loop js [] = None"
| "loadParallelSnapshot_loop js (v # vs) =
     (case (case v of GBytes data \<Rightarrow> pj_state js data | GString data \<Rightarrow> pj_state js data | _ \<Rightarrow> None) of
        Some st \<Rightarrow> if ps_TotalCount st > 0 then Some st else loadParallelSnapshot_loop js vs
      | None \<Rightarrow> loadParallelSnapshot_loop js vs)"

definition loadParallelSnapshot :: "parallel_codec \<Rightarrow> interrupt_state \<Rightarrow> parallelInterruptState option" where
  "loadParallelSnapshot js s = loadParallelSnapshot_loop js (GetResumeValues s)"

definition itemCheckpointID :: "string \<Rightarrow> int \<Rightarrow> string" where
  "itemCheckpointID key idx = ''parallel:'' @ key @ '':item:'' @ int_digits idx"

definition runOne ::
    "(int \<Rightarrow> Env) \<Rightarrow> (int \<Rightarrow> 's) \<Rightarrow> compiledGraph \<Rightarrow> stateGraph \<Rightarrow> 's Checkpointer option \<Rightarrow> string \<Rightarrow> gvalue list \<Rightarrow> int \<Rightarrow> parallelItemResult" where
  "runOne envs savers cg g cp key items idx =
     \<lparr>pr_index = idx,
      pr_result =
        (if idx < 0 \<or> idx \<ge> int (length items)
         then Inl (ErrorNew (''parallel item index '' @ int_digits idx @ '' out of bounds (len(items)='' @ nat_digits (length items) @ '')''))
         else fst (compiledGraph_Invoke (envs idx) cg g cp (savers idx) (items ! nat idx) [Some (subCfg (itemCheckpointID key idx))]))\<rparr>"

text \<open>The goroutines of the concurrent path: items that wait for the semaphore, items that hold it, and items whose results have
  been sent.  The first item runs before the others start.\<close>

record fan =
  fo_waiting :: "int list"
  fo_running :: "int list"
  fo_done :: "int list"

definition fan_init :: "int list \<Rightarrow> fan" where
  "fan_init indices = \<lparr>fo_waiting = tl indices, fo_running = [], fo_done = take 1 indices\<rparr>"

inductive fan_step :: "goint \<Rightarrow> fan \<Rightarrow> fan \<Rightarrow> bool" for sem where
  acquire: "idx \<in> set (fo_waiting f) \<Longrightarrow> int (length (fo_running f)) < sint sem \<Longrightarrow>
    fan_step sem f (f\<lparr>fo_waiting := remove1 idx (fo_waiting f), fo_running := idx # fo_running f\<rparr>)"
| finish: "idx \<in> set (fo_running f) \<Longrightarrow>
    fan_step sem f (f\<lparr>fo_running := remove1 idx (fo_running f), fo_done := fo_done f @ [idx]\<rparr>)"

text \<open>The orders in which the results of some items can arrive: one after the other, or in an order the goroutines produce.\<close>

inductive arrives :: "parallelOptions \<Rightarrow> int list \<Rightarrow> int list \<Rightarrow> bool" for options where
  sequential: "sint (po_maxConcurrency options) \<le> 1 \<Longrightarrow> arrives options indices indices"
| concurrent: "sint (po_maxConcurrency options) > 1 \<Longrightarrow> (fan_step (po_maxConcurrency options))\<^sup>*\<^sup>* (fan_init indices) f \<Longrightarrow>
    fo_waiting f = [] \<Longrightarrow> fo_running f = [] \<Longrightarrow> arrives options indices (fo_done f)"

definition fanOutItems ::
    "(int \<Rightarrow> Env) \<Rightarrow> (int \<Rightarrow> 's) \<Rightarrow> compiledGraph \<Rightarrow> stateGraph \<Rightarrow> 's Checkpointer option \<Rightarrow> string \<Rightarrow> gvalue list \<Rightarrow> int list \<Rightarrow> parallelItemResult list" where
  "fanOutItems envs savers cg g cp key items arrival = map (runOne envs savers cg g cp key items) arrival"

text \<open>The loop that collects the results: the outputs, the first error, whether an item was interrupted, the completed results.\<close>

record collected_results =
  cr_outputs :: "gvalue list"
  cr_normalErr :: "gerror option"
  cr_hasInterrupt :: bool
  cr_completedResults :: "int \<rightharpoonup> gvalue"

definition set_output :: "gvalue list \<Rightarrow> int \<Rightarrow> gvalue \<Rightarrow> gvalue list" where
  "set_output outputs idx v = (if 0 \<le> idx \<and> idx < int (length outputs) then outputs[nat idx := v] else outputs)"

definition collect_result :: "parallelItemResult \<Rightarrow> collected_results \<Rightarrow> collected_results" where
  "collect_result r c =
     (case pr_result r of
        Inr v \<Rightarrow> c\<lparr>cr_outputs := set_output (cr_outputs c) (pr_index r) v, cr_completedResults := (cr_completedResults c)(pr_index r \<mapsto> v)\<rparr>
      | Inl err \<Rightarrow>
          if IsInterrupt err then c\<lparr>cr_hasInterrupt := True\<rparr>
          else if cr_normalErr c = None
          then c\<lparr>cr_normalErr := Some (ErrorWrap (''graph: parallel item failed: item '' @ int_digits (pr_index r)) err)\<rparr>
          else c)"

definition pending_indices :: "int \<Rightarrow> (int \<rightharpoonup> gvalue) \<Rightarrow> int list" where
  "pending_indices totalCount results = filter (\<lambda>idx. results idx = None) [0..totalCount - 1]"

text \<open>Replaying the completed results of an earlier run.\<close>

definition replay :: "int \<Rightarrow> (int \<rightharpoonup> gvalue) \<Rightarrow> gvalue list" where
  "replay totalCount results = map (\<lambda>i. case results i of Some v \<Rightarrow> v | None \<Rightarrow> GNil) [0..totalCount - 1]"

text \<open>The end of a run: the first error, an interrupt with the state of the run, or the outputs.\<close>

definition finish_parallel ::
    "parallel_codec \<Rightarrow> (string \<Rightarrow> string) \<Rightarrow> (gvalue \<Rightarrow> string) \<Rightarrow> gvalue list \<Rightarrow> int \<Rightarrow> itemCheckpointStore \<Rightarrow> interrupt_state \<Rightarrow> collected_results \<Rightarrow>
     (gerror + gvalue) \<times> interrupt_state" where
  "finish_parallel js sha8 other items totalCount bridgeState s c =
     (case cr_normalErr c of
        Some err \<Rightarrow> (Inl err, s)
      | None \<Rightarrow>
          if cr_hasInterrupt c
          then (case pj_marshal js items of
                  None \<Rightarrow> (Inl (ErrorNew ''graph: parallel marshal inputs''), s)
                | Some inputsJSON \<Rightarrow>
                    let state = \<lparr>ps_OriginalInputsJSON = inputsJSON, ps_CompletedResults = cr_completedResults c,
                          ps_InterruptedIndices = pending_indices totalCount (cr_completedResults c), ps_TotalCount = totalCount,
                          ps_ItemCheckpoints = itemCheckpointStore_snapshot bridgeState\<rparr>
                    in case interrupt_Interrupt sha8 other s (pj_box js state) of
                         (Inl err, s') \<Rightarrow> (Inl err, s')
                       | (Inr v, s') \<Rightarrow> (Inr GNil, s'))
          else (Inr (GSlice (cr_outputs c)), s))"

definition runParallel ::
    "parallel_codec \<Rightarrow> (string \<Rightarrow> string) \<Rightarrow> (gvalue \<Rightarrow> string) \<Rightarrow> (int \<Rightarrow> Env) \<Rightarrow> (int \<Rightarrow> 's) \<Rightarrow> (interrupt_state \<Rightarrow> interrupt_state) \<Rightarrow>
     (int list \<Rightarrow> int list) \<Rightarrow> interrupt_state \<Rightarrow> compiledGraph \<Rightarrow> stateGraph \<Rightarrow> 's Checkpointer option \<Rightarrow> string \<Rightarrow> gvalue list \<Rightarrow>
     (gerror + gvalue) \<times> interrupt_state" where
  "runParallel js sha8 other envs savers during arrival s cg g cp key items =
     (let prev = loadParallelSnapshot js s;
          totalCount = (case prev of Some st \<Rightarrow> ps_TotalCount st | None \<Rightarrow> int (length items));
          outputs = (case prev of Some st \<Rightarrow> replay totalCount (ps_CompletedResults st) | None \<Rightarrow> replicate (length items) GNil);
          indicesToProcess = (case prev of Some st \<Rightarrow> ps_InterruptedIndices st | None \<Rightarrow> [0..totalCount - 1]);
          bridgeState = newItemCheckpointStore (case prev of Some st \<Rightarrow> ps_ItemCheckpoints st | None \<Rightarrow> [])
      in if indicesToProcess = [] then (Inr (GSlice outputs), s)
         else finish_parallel js sha8 other items totalCount bridgeState (during s)
                (fold collect_result (fanOutItems envs savers cg g cp key items (arrival indicesToProcess))
                   \<lparr>cr_outputs = outputs, cr_normalErr = None, cr_hasInterrupt = False, cr_completedResults = Map.empty\<rparr>))"

section \<open>Lemmas\<close>

text \<open>How an item ends: with a value, with an interrupt, or with an error of its own.\<close>

definition output_of :: "(int \<Rightarrow> gerror + gvalue) \<Rightarrow> int \<Rightarrow> gvalue option" where
  "output_of f i = (case f i of Inr v \<Rightarrow> Some v | Inl err \<Rightarrow> None)"

definition item_error :: "(int \<Rightarrow> gerror + gvalue) \<Rightarrow> int \<Rightarrow> gerror option" where
  "item_error f i = (case f i of Inr v \<Rightarrow> None | Inl err \<Rightarrow>
     if IsInterrupt err then None else Some (ErrorWrap (''graph: parallel item failed: item '' @ int_digits i) err))"

definition item_interrupted :: "(int \<Rightarrow> gerror + gvalue) \<Rightarrow> int \<Rightarrow> bool" where
  "item_interrupted f i = (case f i of Inr v \<Rightarrow> False | Inl err \<Rightarrow> IsInterrupt err)"

lemmas item_ends = output_of_def item_error_def item_interrupted_def

definition collect_from :: "(int \<Rightarrow> gerror + gvalue) \<Rightarrow> collected_results \<Rightarrow> int list \<Rightarrow> collected_results" where
  "collect_from f c xs = fold (\<lambda>i. collect_result \<lparr>pr_index = i, pr_result = f i\<rparr>) xs c"

lemma collect_from_simps [simp]:
  "collect_from f c [] = c" "collect_from f c (i # xs) = collect_from f (collect_result \<lparr>pr_index = i, pr_result = f i\<rparr> c) xs"
  by (simp_all add: collect_from_def)

lemma length_set_output [simp]: "length (set_output outputs i v) = length outputs"
  by (simp add: set_output_def)

lemma set_output_nth: "n < length outputs \<Longrightarrow> set_output outputs i v ! n = (if int n = i then v else outputs ! n)"
  by (auto simp: set_output_def nth_list_update)

lemma collect_outputs_length [simp]: "length (cr_outputs (collect_from f c xs)) = length (cr_outputs c)"
  by (induction xs arbitrary: c) (auto simp: collect_result_def split: sum.split)

lemma collect_outputs_nth:
  "n < length (cr_outputs c) \<Longrightarrow> cr_outputs (collect_from f c xs) ! n =
    (case if int n \<in> set xs then output_of f (int n) else None of Some v \<Rightarrow> v | None \<Rightarrow> cr_outputs c ! n)"
  by (induction xs arbitrary: c) (auto simp: collect_result_def output_of_def set_output_nth split: sum.splits option.splits if_splits)

lemma collect_completed:
  "cr_completedResults (collect_from f c xs) =
    (\<lambda>i. case if i \<in> set xs then output_of f i else None of Some v \<Rightarrow> Some v | None \<Rightarrow> cr_completedResults c i)"
  by (induction xs arbitrary: c) (auto simp: collect_result_def output_of_def fun_eq_iff split: sum.splits option.splits if_splits)

lemma collect_interrupt: "cr_hasInterrupt (collect_from f c xs) \<longleftrightarrow> cr_hasInterrupt c \<or> (\<exists>i\<in>set xs. item_interrupted f i)"
  by (induction xs arbitrary: c) (auto simp: collect_result_def item_interrupted_def split: sum.splits if_splits)

lemma collect_result_error:
  "cr_normalErr (collect_result \<lparr>pr_index = i, pr_result = f i\<rparr> c) = (if cr_normalErr c = None then item_error f i else cr_normalErr c)"
  by (auto simp: collect_result_def item_error_def split: sum.split)

lemma collect_error_from: "cr_normalErr (collect_from f c xs) = Some err \<Longrightarrow> cr_normalErr c = Some err \<or> (\<exists>i\<in>set xs. item_error f i = Some err)"
  by (induction xs arbitrary: c) (fastforce simp: collect_result_error split: if_splits)+

lemma collect_error_some: "cr_normalErr (collect_from f c xs) = None \<Longrightarrow> cr_normalErr c = None \<and> (\<forall>i\<in>set xs. item_error f i = None)"
proof (induction xs arbitrary: c)
  case (Cons i xs)
  then have "cr_normalErr (collect_result \<lparr>pr_index = i, pr_result = f i\<rparr> c) = None" "\<forall>i\<in>set xs. item_error f i = None" by auto
  then show ?case by (auto simp: collect_result_error split: if_splits)
qed simp

lemma collect_no_error:
  assumes "\<And>i. i \<in> set xs \<Longrightarrow> item_error f i = None"
  shows "cr_normalErr (collect_from f c xs) = cr_normalErr c"
  using assms by (induction xs arbitrary: c) (simp_all add: collect_result_error)

text \<open>When all items end with a value the run returns the outputs.\<close>

lemma finish_outputs:
  assumes "\<And>i. i \<in> set xs \<Longrightarrow> output_of f i \<noteq> None" and "cr_normalErr c = None" and "\<not> cr_hasInterrupt c"
  shows "finish_parallel js sha8 other items n b s (collect_from f c xs) = (Inr (GSlice (cr_outputs (collect_from f c xs))), s)"
proof -
  have "item_error f i = None \<and> \<not> item_interrupted f i" if "i \<in> set xs" for i
    using assms(1) [OF that] by (auto simp: item_ends split: sum.splits)
  then show ?thesis using assms(2,3) by (auto simp: finish_parallel_def collect_no_error collect_interrupt)
qed

text \<open>Two orders with the same items collect the same results, unless an item fails.\<close>

lemma collect_same:
  assumes "set xs = set ys" and "\<And>i. i \<in> set xs \<Longrightarrow> item_error f i = None"
  shows "collect_from f c xs = collect_from f c ys"
proof -
  have "cr_outputs (collect_from f c xs) = cr_outputs (collect_from f c ys)"
    using assms(1) by (intro nth_equalityI) (simp_all add: collect_outputs_nth)
  moreover have "cr_normalErr (collect_from f c zs) = cr_normalErr c" if "set zs = set xs" for zs
    using assms(2) that by (auto intro: collect_no_error)
  ultimately show ?thesis
    using assms(1) by (intro collected_results.equality) (simp_all add: collect_completed collect_interrupt)
qed

section \<open>The fan-out\<close>

definition fan_inv :: "goint \<Rightarrow> int list \<Rightarrow> fan \<Rightarrow> bool" where
  "fan_inv sem indices f \<longleftrightarrow>
     mset (fo_waiting f) + mset (fo_running f) + mset (fo_done f) = mset indices \<and>
     int (length (fo_running f)) \<le> max 0 (sint sem) \<and> take 1 (fo_done f) = take 1 indices"

definition fan_work :: "fan \<Rightarrow> nat" where
  "fan_work f = 2 * length (fo_waiting f) + length (fo_running f)"

lemma fan_inv_init: "fan_inv sem indices (fan_init indices)"
  by (cases indices) (auto simp: fan_inv_def fan_init_def)

lemma mset_remove1_obtain:
  assumes "x \<in> set xs"
  obtains m where "mset xs = add_mset x m" "mset (remove1 x xs) = m" "length xs = Suc (length (remove1 x xs))"
  using that [of "mset (remove1 x xs)"] assms by (auto simp: length_remove1 dest: length_pos_if_in_set)

lemma fan_inv_step:
  assumes "fan_step sem f f'" and inv: "fan_inv sem indices f"
  shows "fan_inv sem indices f'"
  using assms(1)
proof cases
  case (acquire idx)
  obtain m where "mset (fo_waiting f) = add_mset idx m" "mset (remove1 idx (fo_waiting f)) = m"
    using mset_remove1_obtain [OF acquire(2)] by blast
  then show ?thesis using inv acquire(3) unfolding fan_inv_def acquire(1) by (simp del: mset_remove1)
next
  case (finish idx)
  have "fo_done f \<noteq> []"
  proof
    assume none: "fo_done f = []"
    then have "indices = []" using inv by (auto simp: fan_inv_def)
    then show False using finish(2) inv by (auto simp: fan_inv_def)
  qed
  moreover obtain m where "mset (fo_running f) = add_mset idx m" "mset (remove1 idx (fo_running f)) = m"
      "length (fo_running f) = Suc (length (remove1 idx (fo_running f)))"
    using mset_remove1_obtain [OF finish(2)] by blast
  ultimately show ?thesis
    using inv unfolding fan_inv_def finish(1) by (simp add: Suc_le_eq del: mset_remove1)
qed

lemma fan_inv_reach: "(fan_step sem)\<^sup>*\<^sup>* f f' \<Longrightarrow> fan_inv sem indices f \<Longrightarrow> fan_inv sem indices f'"
  by (induction rule: rtranclp_induct) (auto intro: fan_inv_step)

lemma fan_step_work: "fan_step sem f f' \<Longrightarrow> Suc (fan_work f') = fan_work f"
  by (induction rule: fan_step.induct) (auto simp: fan_work_def elim!: mset_remove1_obtain)

lemma fan_reach_work: "(fan_step sem ^^ n) f f' \<Longrightarrow> fan_work f' + n = fan_work f"
  by (induction n arbitrary: f') (fastforce dest: fan_step_work)+

lemma fan_progress:
  assumes "sint sem > 0" and "fan_work f > 0"
  shows "\<exists>f'. fan_step sem f f'"
proof (cases "fo_running f")
  case Nil
  then obtain idx where "idx \<in> set (fo_waiting f)" using assms(2) by (auto simp: fan_work_def intro: list.set_sel)
  then show ?thesis using fan_step.acquire [of idx f sem] assms(1) Nil by auto
next
  case (Cons idx xs)
  then show ?thesis using fan_step.finish [of idx f sem] by auto
qed

lemma arrives_mset: "arrives options indices arrival \<Longrightarrow> mset arrival = mset indices"
  by (induction rule: arrives.induct) (auto dest!: fan_inv_reach [OF _ fan_inv_init] simp: fan_inv_def)

lemma arrives_set: "arrives options indices arrival \<Longrightarrow> set arrival = set indices"
  using arrives_mset mset_eq_setD by blast

section \<open>Properties\<close>

text \<open>The result of the item \<open>i\<close>.\<close>

abbreviation item_result where
  "item_result envs savers cg g cp key items \<equiv> (\<lambda>i. pr_result (runOne envs savers cg g cp key items i))"

lemma fan_collect: "fold collect_result (fanOutItems envs savers cg g cp key items xs) c = collect_from (item_result envs savers cg g cp key items) c xs"
proof -
  have "runOne envs savers cg g cp key items i = \<lparr>pr_index = i, pr_result = pr_result (runOne envs savers cg g cp key items i)\<rparr>" for i
    by (simp add: runOne_def)
  then show ?thesis by (simp add: fanOutItems_def collect_from_def fold_map comp_def)
qed

text \<open>The goroutines of the fan-out never run more than \<open>maxConcurrency\<close> items at a time, each item runs exactly once, the
  first one before all others, and the fan-out cannot get stuck: after twice as many steps as there are items left all results have been
  sent.\<close>

theorem fan_out_runs_each_once:
  assumes "sint sem > 1" and "(fan_step sem ^^ n) (fan_init indices) f"
  shows "int (length (fo_running f)) \<le> sint sem \<and>
    mset (fo_waiting f) + mset (fo_running f) + mset (fo_done f) = mset indices \<and>
    take 1 (fo_done f) = take 1 indices \<and> n \<le> 2 * (length indices - 1) \<and>
    ((\<nexists>f'. fan_step sem f f') \<longleftrightarrow> mset (fo_done f) = mset indices)"
proof -
  have reach: "(fan_step sem)\<^sup>*\<^sup>* (fan_init indices) f" using assms(2) by (rule relpowp_imp_rtranclp)
  note inv = fan_inv_reach [OF reach fan_inv_init]
  have work: "fan_work f + n = 2 * (length indices - 1)"
    using fan_reach_work [OF assms(2)] by (simp add: fan_work_def fan_init_def)
  have "(\<nexists>f'. fan_step sem f f') \<longleftrightarrow> fan_work f = 0"
    using fan_progress [of sem f] assms(1) fan_step_work [of sem f] by fastforce
  also have "\<dots> \<longleftrightarrow> fo_waiting f = [] \<and> fo_running f = []" by (simp add: fan_work_def)
  also have "\<dots> \<longleftrightarrow> mset (fo_done f) = mset indices"
    using inv by (auto simp: fan_inv_def)
  finally show ?thesis using inv work assms(1) by (auto simp: fan_inv_def)
qed

theorem fan_out_runs_each_once_witness:
  "int (length (fo_running (fan_init [0, 1, 2]))) \<le> sint (2 :: goint)"
  using fan_out_runs_each_once [of 2 0 "[0, 1, 2]" "fan_init [0, 1, 2]"] by simp

text \<open>C33: The concurrent node does what the sequential one does: in every order in which the results can arrive, and for every limit of
  concurrency, it returns the same value or raises the same interrupt with the same state, unless an item fails; and when every
  item ends with a value these are the outputs, in the order of the items.\<close>

theorem parallel_matches_sequential:
  assumes order: "arrives options [0..int (length items) - 1] (arrival [0..int (length items) - 1])"
    and fresh: "loadParallelSnapshot js s = None"
    and ok: "\<forall>i\<in>{0..<int (length items)}. item_error (item_result envs savers cg g cp key items) i = None"
  shows "runParallel js sha8 other envs savers during arrival s cg g cp key items =
      runParallel js sha8 other envs savers during (\<lambda>xs. xs) s cg g cp key items \<and>
    ((\<forall>i\<in>{0..<int (length items)}. output_of (item_result envs savers cg g cp key items) i = Some (out i)) \<longrightarrow>
      fst (runParallel js sha8 other envs savers during arrival s cg g cp key items) = Inr (GSlice (map out [0..int (length items) - 1])))"
proof -
  let ?f = "item_result envs savers cg g cp key items" and ?xs = "[0..int (length items) - 1]"
  let ?c = "\<lparr>cr_outputs = replicate (length items) GNil, cr_normalErr = None, cr_hasInterrupt = False, cr_completedResults = Map.empty\<rparr>"
  have "set (arrival ?xs) = set ?xs" using order by (rule arrives_set)
  then have same: "collect_from ?f ?c (arrival ?xs) = collect_from ?f ?c ?xs" using ok by (intro collect_same) auto
  then have eq: "runParallel js sha8 other envs savers during arrival s cg g cp key items =
      runParallel js sha8 other envs savers during (\<lambda>xs. xs) s cg g cp key items"
    by (simp add: runParallel_def fresh fan_collect Let_def)
  have "fst (runParallel js sha8 other envs savers during (\<lambda>xs. xs) s cg g cp key items) = Inr (GSlice (map out ?xs))"
    if all: "\<forall>i\<in>{0..<int (length items)}. output_of ?f i = Some (out i)"
  proof -
    have "cr_outputs (collect_from ?f ?c ?xs) = map out ?xs"
      using all by (intro nth_equalityI) (auto simp: collect_outputs_nth nth_upto)
    moreover have "finish_parallel js sha8 other items n b u (collect_from ?f ?c ?xs) = (Inr (GSlice (cr_outputs (collect_from ?f ?c ?xs))), u)" for n b u
      using all by (intro finish_outputs) auto
    ultimately show ?thesis by (auto simp: runParallel_def fresh fan_collect Let_def)
  qed
  then show ?thesis unfolding eq by blast
qed

text \<open>A sub-graph that interrupts unless its thread has a checkpoint with an answer, and the threads of items that have one.\<close>

definition ask_x :: NodeFunc where
  "ask_x step attempt state = (if state = GMap [(''x'', GBool True)] then Done state else Failed GNil (GraphInterrupt [Interrupt (GString ''q'') ''i'']))"

definition ask_graph :: "compiledGraph \<times> stateGraph" where
  "ask_graph = projr (stateGraph_Compile (\<lambda>ks. ks)
     (stateGraph_AddChannel (graph_of [(''a'', ask_x)] [(Start, ''a''), (''a'', End)]) ''x'' (Some (CLastValue (NewLastValue None)))) [])"

definition answered :: "int list \<Rightarrow> int \<Rightarrow> nat \<times> MemorySaver" where
  "answered is i = (if i \<in> set is
     then snd (ck_Put memory_ck (0, NewMemorySaver) [(''thread_id'', GString (itemCheckpointID ''n'' i))] [(''x'', GBool True)])
     else (0, NewMemorySaver))"

definition ask_items :: "int list \<Rightarrow> int \<Rightarrow> gerror + gvalue" where
  "ask_items is = item_result (\<lambda>i. sample_env) (answered is) (fst ask_graph) (snd ask_graph) (Some memory_ck) ''n'' [GMap [], GMap []]"

lemma ask_items_run:
  "ask_items [0] 0 = Inr (GMap [(''x'', GBool True)])" "ask_items [0] 1 = Inl (GraphInterrupt [Interrupt (GString ''q'') ''i''])"
  "ask_items [0, 1] 0 = Inr (GMap [(''x'', GBool True)])" "ask_items [0, 1] 1 = Inr (GMap [(''x'', GBool True)])"
  by code_simp+

lemma two_items: "{0..<int (length [a, b])} = {0, 1}" "[0..int (length [a, b]) - 1] = [0, 1]"
  by (auto simp: upto_rec1)

lemma arrives_two: "arrives \<lparr>po_maxConcurrency = 2\<rparr> [0, 1] [0, 1]"
proof -
  let ?f = "\<lparr>fo_waiting = [], fo_running = [], fo_done = [0, 1]\<rparr>"
  have "fan_step 2 (fan_init [0, 1]) \<lparr>fo_waiting = [], fo_running = [1], fo_done = [0]\<rparr>"
    using fan_step.acquire [of 1 "fan_init [0, 1]" 2] by (simp add: fan_init_def)
  moreover have "fan_step 2 \<lparr>fo_waiting = [], fo_running = [1], fo_done = [0]\<rparr> ?f"
    using fan_step.finish [of 1 "\<lparr>fo_waiting = [], fo_running = [1], fo_done = [0]\<rparr>" 2] by simp
  ultimately have "(fan_step 2)\<^sup>*\<^sup>* (fan_init [0, 1]) ?f" by (metis rtranclp.simps)
  then show ?thesis using arrives.concurrent [of "\<lparr>po_maxConcurrency = 2\<rparr>" "[0, 1]" ?f] by simp
qed

definition no_answers :: interrupt_state where
  "no_answers = \<lparr>is_context = None, is_global = new_interruptContext, is_counter = 0\<rparr>"

lemma no_answers_active: "active no_answers = new_interruptContext"
  by (simp add: no_answers_def active_def GetInterruptContext_def)

definition half_state :: parallelInterruptState where
  "half_state = \<lparr>ps_OriginalInputsJSON = ''j'', ps_CompletedResults = [0 \<mapsto> GMap [(''x'', GBool True)]], ps_InterruptedIndices = [1], ps_TotalCount = 2,
     ps_ItemCheckpoints = []\<rparr>"

definition half_codec :: parallel_codec where
  "half_codec = \<lparr>pj_marshal = (\<lambda>xs. Some ''j''), pj_state = (\<lambda>t. Some half_state), pj_box = (\<lambda>st. if st = half_state then GBool True else GNil)\<rparr>"

lemma no_answers_fresh: "loadParallelSnapshot js no_answers = None"
  by (simp add: loadParallelSnapshot_def GetResumeValues_def no_answers_active new_interruptContext_def interruptContext_getResumeValues_def)

theorem parallel_matches_sequential_witness:
  "fst (runParallel half_codec (\<lambda>t. []) (\<lambda>v. []) (\<lambda>i. sample_env) (answered [0, 1]) (\<lambda>s. s) (\<lambda>xs. xs) no_answers (fst ask_graph) (snd ask_graph)
     (Some memory_ck) ''n'' [GMap [], GMap []]) = Inr (GSlice [GMap [(''x'', GBool True)], GMap [(''x'', GBool True)]])"
proof -
  have "\<forall>i\<in>{0..<int (length [GMap [], GMap []])}. item_error (ask_items [0, 1]) i = None \<and> output_of (ask_items [0, 1]) i = Some (GMap [(''x'', GBool True)])"
    unfolding two_items by (auto simp: item_ends ask_items_run)
  then show ?thesis
    using parallel_matches_sequential [of "\<lparr>po_maxConcurrency = 2\<rparr>" "[GMap [], GMap []]" "\<lambda>xs. xs" half_codec no_answers "\<lambda>i. sample_env" "answered [0, 1]"
        "fst ask_graph" "snd ask_graph" "Some memory_ck" "''n''" "\<lambda>t. []" "\<lambda>v. []" "\<lambda>s. s" "\<lambda>i. GMap [(''x'', GBool True)]"]
      arrives_two no_answers_fresh unfolding two_items ask_items_def by simp
qed

text \<open>A run in which an item fails returns the error of one of the failing items and no outputs, whatever the others did.\<close>

theorem parallel_error_of_item:
  assumes order: "arrives options [0..int (length items) - 1] (arrival [0..int (length items) - 1])"
    and fresh: "loadParallelSnapshot js s = None"
    and fails: "i < length items" "item_error (item_result envs savers cg g cp key items) (int i) \<noteq> None"
  shows "\<exists>j<length items. \<exists>err. item_error (item_result envs savers cg g cp key items) (int j) = Some err \<and>
    fst (runParallel js sha8 other envs savers during arrival s cg g cp key items) = Inl err"
proof -
  let ?f = "item_result envs savers cg g cp key items" and ?xs = "[0..int (length items) - 1]"
  let ?c = "\<lparr>cr_outputs = replicate (length items) GNil, cr_normalErr = None, cr_hasInterrupt = False, cr_completedResults = Map.empty\<rparr>"
  have set: "set (arrival ?xs) = set ?xs" using order by (rule arrives_set)
  have "int i \<in> set ?xs" using fails(1) by simp
  then have "cr_normalErr (collect_from ?f ?c (arrival ?xs)) \<noteq> None"
    using fails(2) set collect_error_some [of ?f ?c "arrival ?xs"] by metis
  then obtain err where err: "cr_normalErr (collect_from ?f ?c (arrival ?xs)) = Some err" by blast
  then obtain k where k: "0 \<le> k" "k < int (length items)" "item_error ?f k = Some err"
    using collect_error_from [OF err] set by auto
  then have "nat k < length items" "item_error ?f (int (nat k)) = Some err" by auto
  moreover have "fst (runParallel js sha8 other envs savers during arrival s cg g cp key items) = Inl err"
    using err fails(1) by (auto simp: runParallel_def finish_parallel_def fresh fan_collect Let_def)
  ultimately show ?thesis by blast
qed

text \<open>The state a run raises.\<close>

lemma finish_raises:
  assumes "finish_parallel js sha8 other items n b s c = (Inl raised, s')" and "GetInterruptValue raised = Some val"
    and "cr_normalErr c = None"
  obtains inputs where "val = pj_box js \<lparr>ps_OriginalInputsJSON = inputs, ps_CompletedResults = cr_completedResults c,
    ps_InterruptedIndices = pending_indices n (cr_completedResults c), ps_TotalCount = n, ps_ItemCheckpoints = itemCheckpointStore_snapshot b\<rparr>"
  using assms
  by (auto simp: finish_parallel_def interrupt_Interrupt_def generateInterruptID_def Let_def GetInterruptValue_def
      split: option.splits prod.splits if_splits)


lemma half_raised:
  "runParallel half_codec (\<lambda>t. []) (\<lambda>v. []) (\<lambda>i. sample_env) (answered [0]) (\<lambda>s. s) (\<lambda>xs. xs) no_answers (fst ask_graph) (snd ask_graph)
     (Some memory_ck) ''n'' [GMap [], GMap []] = (Inl (GraphInterrupt [Interrupt (GBool True) ''_1'']), no_answers\<lparr>is_counter := 1\<rparr>)"
proof -
  let ?c = "\<lparr>cr_outputs = [GNil, GNil], cr_normalErr = None, cr_hasInterrupt = False, cr_completedResults = Map.empty\<rparr>"
  have collected: "collect_from (ask_items [0]) ?c [0, 1] =
      \<lparr>cr_outputs = [GMap [(''x'', GBool True)], GNil], cr_normalErr = None, cr_hasInterrupt = True, cr_completedResults = [0 \<mapsto> GMap [(''x'', GBool True)]]\<rparr>"
    by (simp add: collect_result_def ask_items_run set_output_def IsInterrupt_def)
  have pending: "pending_indices 2 [0 \<mapsto> GMap [(''x'', GBool True)]] = [1]" by (simp add: pending_indices_def upto_rec1)
  have raised: "interrupt_Interrupt (\<lambda>t. []) (\<lambda>v. []) no_answers (GBool True) = (Inl (GraphInterrupt [Interrupt (GBool True) ''_1'']), no_answers\<lparr>is_counter := 1\<rparr>)"
    by code_simp
  have "finish_parallel half_codec (\<lambda>t. []) (\<lambda>v. []) [GMap [], GMap []] 2 (newItemCheckpointStore []) no_answers (collect_from (ask_items [0]) ?c [0, 1]) =
      (Inl (GraphInterrupt [Interrupt (GBool True) ''_1'']), no_answers\<lparr>is_counter := 1\<rparr>)"
    unfolding collected
    by (simp add: finish_parallel_def half_codec_def half_state_def pending raised itemCheckpointStore_snapshot_def newItemCheckpointStore_def Let_def)
  then show ?thesis
    using two_items(2) [of "GMap []" "GMap []"] by (simp add: runParallel_def no_answers_fresh fan_collect ask_items_def numeral_2_eq_2 Let_def)
qed


text \<open>An interrupt of a resumed run is lost while the resume values have not been consumed: the call that should raise it takes the stored
  state as its answer, and the node returns nil without an error.\<close>

theorem parallel_interrupt_swallowed:
  assumes "answers_left s > 0" and "cr_normalErr c = None" and "cr_hasInterrupt c" and "pj_marshal js items = Some t"
  shows "fst (finish_parallel js sha8 other items n b s c) = Inr GNil"
  using assms Interrupt_pending [of s sha8 other] by (simp add: finish_parallel_def answers_left_def Let_def)

text \<open>A second interrupt forgets the results of the first run: the state it raises has only the results of its own run, and lists the
  items completed before among those to process again.\<close>

theorem second_interrupt_forgets:
  assumes load: "loadParallelSnapshot js s = Some st" and old: "ps_CompletedResults st i = Some v" "i \<notin> set (ps_InterruptedIndices st)" "0 \<le> i" "i < ps_TotalCount st"
    and order: "\<And>xs. arrives options xs (arrival xs)"
    and run: "runParallel js sha8 other envs savers during arrival s cg g cp key items = (Inl raised, s')"
    and val: "GetInterruptValue raised = Some val"
    and ok: "\<forall>i\<in>set (ps_InterruptedIndices st). item_error (item_result envs savers cg g cp key items) i = None"
  shows "\<exists>st'. val = pj_box js st' \<and> ps_CompletedResults st' i = None \<and> i \<in> set (ps_InterruptedIndices st')"
proof -
  let ?f = "item_result envs savers cg g cp key items" and ?xs = "ps_InterruptedIndices st" and ?n = "ps_TotalCount st"
  let ?c = "\<lparr>cr_outputs = replay ?n (ps_CompletedResults st), cr_normalErr = None, cr_hasInterrupt = False, cr_completedResults = Map.empty\<rparr>"
  let ?r = "collect_from ?f ?c (arrival ?xs)"
  have set: "set (arrival ?xs) = set ?xs" using order by (rule arrives_set)
  have err: "cr_normalErr ?r = None" using ok set by (subst collect_no_error) auto
  have "?xs \<noteq> []" using run by (auto simp: runParallel_def load Let_def)
  then have fin: "finish_parallel js sha8 other items ?n (newItemCheckpointStore (ps_ItemCheckpoints st)) (during s) ?r = (Inl raised, s')"
    using run by (simp add: runParallel_def load fan_collect Let_def)
  have none: "cr_completedResults ?r i = None" using old(2) by (simp add: collect_completed set)
  then have "i \<in> set (pending_indices ?n (cr_completedResults ?r))" using old(3,4) by (simp add: pending_indices_def)
  with finish_raises [OF fin val err] none show ?thesis by (metis parallelInterruptState.select_convs(2,3))
qed

end
