(* ===== verification/TaskQueues.thy ===== *)
theory TaskQueues
  imports Scheduling
begin

text \<open>
  The priority queues of \<open>pregel/background.go\<close> and \<open>pregel/optimized.go\<close>: a binary heap in a slice, ordered by descending priority, and a
  slice kept in order by insertion, ordered by the length of the path of a task.  The locale \<open>priority_queue\<close> is the contract of both;
  the index arithmetic of the heap stays within the length of the slice, so that indices are natural numbers.
\<close>

section \<open>The contract of a priority queue\<close>

text \<open>Popping a number of times.\<close>

fun drain :: "('q \<Rightarrow> ('a \<times> 'q) option) \<Rightarrow> nat \<Rightarrow> 'q \<Rightarrow> 'a list" where
  "drain pop 0 q = []"
| "drain pop (Suc n) q = (case pop q of None \<Rightarrow> [] | Some (x, q') \<Rightarrow> x # drain pop n q')"

locale priority_queue =
  fixes empty :: "'q" and push :: "'q \<Rightarrow> 'a \<Rightarrow> 'q" and pop :: "'q \<Rightarrow> ('a \<times> 'q) option"
    and invar :: "'q \<Rightarrow> bool" and elems :: "'q \<Rightarrow> 'a multiset" and key :: "'a \<Rightarrow> 'k::linorder"
  assumes empty_invar: "invar empty" and empty_elems: "elems empty = {#}"
    and push_invar: "invar q \<Longrightarrow> invar (push q x)" and push_elems: "invar q \<Longrightarrow> elems (push q x) = add_mset x (elems q)"
    and pop_None: "invar q \<Longrightarrow> pop q = None \<longleftrightarrow> elems q = {#}"
    and pop_invar: "invar q \<Longrightarrow> pop q = Some (x, q') \<Longrightarrow> invar q'"
    and pop_elems: "invar q \<Longrightarrow> pop q = Some (x, q') \<Longrightarrow> elems q = add_mset x (elems q')"
    and pop_first: "invar q \<Longrightarrow> pop q = Some (x, q') \<Longrightarrow> y \<in># elems q' \<Longrightarrow> key x \<le> key y"
begin

lemma pushes: "invar q \<Longrightarrow> invar (foldl push q xs) \<and> elems (foldl push q xs) = elems q + mset xs"
  by (induction xs arbitrary: q) (auto simp: push_invar push_elems)

lemma drain_elems: "invar q \<Longrightarrow> size (elems q) \<le> n \<Longrightarrow> mset (drain pop n q) = elems q"
proof (induction n arbitrary: q)
  case (Suc n)
  show ?case
  proof (cases "pop q")
    case None
    then show ?thesis using pop_None [OF Suc.prems(1)] by simp
  next
    case (Some r)
    obtain x q' where r: "r = (x, q')" by force
    then have "pop q = Some (x, q')" using Some by simp
    note step = this pop_invar [OF Suc.prems(1) this] pop_elems [OF Suc.prems(1) this]
    then have "size (elems q') \<le> n" using Suc.prems(2) by simp
    then show ?thesis using Suc.IH step by simp
  qed
qed simp

lemma drain_subset: "invar q \<Longrightarrow> mset (drain pop n q) \<subseteq># elems q"
proof (induction n arbitrary: q)
  case (Suc n)
  show ?case
  proof (cases "pop q")
    case (Some r)
    obtain x q' where "pop q = Some (x, q')" using Some by (cases r) auto
    then show ?thesis using Suc.IH pop_invar [OF Suc.prems] pop_elems [OF Suc.prems] by simp
  qed simp
qed simp

lemma drain_sorted: "invar q \<Longrightarrow> sorted (map key (drain pop n q))"
proof (induction n arbitrary: q)
  case (Suc n)
  show ?case
  proof (cases "pop q")
    case (Some r)
    obtain x q' where pop: "pop q = Some (x, q')" using Some by (cases r) auto
    have inv: "invar q'" using pop_invar [OF Suc.prems pop] .
    have "key x \<le> key y" if "y \<in> set (drain pop n q')" for y
      using that pop_first [OF Suc.prems pop] mset_subset_eqD [OF drain_subset [OF inv]] by simp
    then show ?thesis using Suc.IH [OF inv] pop by simp
  qed simp
qed simp

lemma pushed_drained:
  "mset (drain pop (length xs) (foldl push empty xs)) = mset xs \<and> sorted (map key (drain pop (length xs) (foldl push empty xs)))"
  using pushes [OF empty_invar, of xs] drain_elems [of "foldl push empty xs" "length xs"] drain_sorted empty_elems by simp

end

section \<open>The heap of the background executor\<close>

record BackgroundTask =
  bt_ID :: string
  bt_Name :: string
  bt_Func :: "bool \<Rightarrow> gvalue \<times> gerror option"
  bt_Priority :: goint
  bt_Created :: int

record PriorityQueue =
  pq_tasks :: "BackgroundTask list"

definition NewPriorityQueue :: PriorityQueue where
  "NewPriorityQueue = \<lparr>pq_tasks = []\<rparr>"

definition swap :: "'a list \<Rightarrow> nat \<Rightarrow> nat \<Rightarrow> 'a list" where
  "swap xs i j = xs[i := xs ! j, j := xs ! i]"

abbreviation prio :: "BackgroundTask list \<Rightarrow> nat \<Rightarrow> int" where
  "prio ts i \<equiv> sint (bt_Priority (ts ! i))"

definition parent :: "nat \<Rightarrow> nat" where
  "parent i = (i - 1) div 2"

lemma parent_less [simp]: "0 < i \<Longrightarrow> parent i < i" and parent_bound [simp]: "i < n \<Longrightarrow> parent i < n"
  by (auto simp: parent_def)

fun heapifyUp :: "BackgroundTask list \<Rightarrow> nat \<Rightarrow> BackgroundTask list" where
  "heapifyUp ts index =
     (if index > 0
      then if prio ts (parent index) \<ge> prio ts index then ts else heapifyUp (swap ts (parent index) index) (parent index)
      else ts)"

declare heapifyUp.simps [simp del]

definition larger_child :: "BackgroundTask list \<Rightarrow> nat \<Rightarrow> nat" where
  "larger_child ts index =
     (let left = 2 * index + 1; right = 2 * index + 2;
          largest = (if left < length ts \<and> prio ts left > prio ts index then left else index)
      in if right < length ts \<and> prio ts right > prio ts largest then right else largest)"

lemma length_swap [simp]: "length (swap xs i j) = length xs"
  by (simp add: swap_def)

lemma larger_child_le: "index \<le> larger_child ts index"
  by (simp add: larger_child_def Let_def)

lemma larger_child_bound: "larger_child ts index \<noteq> index \<Longrightarrow> larger_child ts index < length ts \<and> index < larger_child ts index"
  by (simp add: larger_child_def Let_def split: if_splits)

function heapifyDown :: "BackgroundTask list \<Rightarrow> nat \<Rightarrow> BackgroundTask list" where
  "heapifyDown ts index =
     (let largest = larger_child ts index in
      if largest = index then ts else heapifyDown (swap ts index largest) largest)"
  by auto

termination
proof (relation "measure (\<lambda>(ts, index). length ts - index)")
  fix ts index x
  assume "x = larger_child ts index" "x \<noteq> index"
  then show "((swap ts index x, x), (ts, index)) \<in> measure (\<lambda>(ts, index). length ts - index)"
    using larger_child_bound [of ts index] by auto
qed simp

declare heapifyDown.simps [simp del]

definition PriorityQueue_Push :: "PriorityQueue \<Rightarrow> BackgroundTask \<Rightarrow> PriorityQueue" where
  "PriorityQueue_Push pq task = (let ts = pq_tasks pq @ [task] in pq\<lparr>pq_tasks := heapifyUp ts (length ts - 1)\<rparr>)"

definition PriorityQueue_Pop :: "PriorityQueue \<Rightarrow> (BackgroundTask \<times> PriorityQueue) option" where
  "PriorityQueue_Pop pq =
     (let ts = pq_tasks pq in
      if ts = [] then None
      else let task = ts ! 0; ts1 = butlast (ts[0 := ts ! (length ts - 1)]) in
           Some (task, pq\<lparr>pq_tasks := (if ts1 \<noteq> [] then heapifyDown ts1 0 else ts1)\<rparr>))"

definition PriorityQueue_Len :: "PriorityQueue \<Rightarrow> nat" where
  "PriorityQueue_Len pq = length (pq_tasks pq)"

section \<open>The queue ordered by insertion\<close>

record PriorityTaskQueue =
  ptq_tasks :: "Task list"

definition NewPriorityTaskQueue :: PriorityTaskQueue where
  "NewPriorityTaskQueue = \<lparr>ptq_tasks = []\<rparr>"

fun sift_left :: "Task list \<Rightarrow> nat \<Rightarrow> Task list" where
  "sift_left ts 0 = ts"
| "sift_left ts (Suc i) =
     (if length (tk_Path (ts ! Suc i)) < length (tk_Path (ts ! i)) then sift_left (swap ts (Suc i) i) i else ts)"

definition PriorityTaskQueue_Push :: "PriorityTaskQueue \<Rightarrow> Task \<Rightarrow> PriorityTaskQueue" where
  "PriorityTaskQueue_Push pq task = (let ts = ptq_tasks pq @ [task] in pq\<lparr>ptq_tasks := sift_left ts (length ts - 1)\<rparr>)"

definition PriorityTaskQueue_Pop :: "PriorityTaskQueue \<Rightarrow> (Task \<times> PriorityTaskQueue) option" where
  "PriorityTaskQueue_Pop pq = (case ptq_tasks pq of [] \<Rightarrow> None | t # ts \<Rightarrow> Some (t, pq\<lparr>ptq_tasks := ts\<rparr>))"

definition PriorityTaskQueue_Len :: "PriorityTaskQueue \<Rightarrow> nat" where
  "PriorityTaskQueue_Len pq = length (ptq_tasks pq)"

section \<open>The heap\<close>

lemma swap_nth: "i < length xs \<Longrightarrow> j < length xs \<Longrightarrow> k < length xs \<Longrightarrow> swap xs i j ! k = (if k = i then xs ! j else if k = j then xs ! i else xs ! k)"
  by (auto simp: swap_def nth_list_update)

lemma mset_swap_list [simp]: "i < length xs \<Longrightarrow> j < length xs \<Longrightarrow> mset (swap xs i j) = mset xs"
  by (simp add: swap_def mset_swap)

definition heap :: "BackgroundTask list \<Rightarrow> bool" where
  "heap ts \<longleftrightarrow> (\<forall>i<length ts. 0 < i \<longrightarrow> prio ts (parent i) \<ge> prio ts i)"

text \<open>The heap condition except between an index and its parent, or its children; the parent of the index is above its children.\<close>

definition heap_but_up :: "BackgroundTask list \<Rightarrow> nat \<Rightarrow> bool" where
  "heap_but_up ts k \<longleftrightarrow>
     (\<forall>i<length ts. 0 < i \<longrightarrow> (i \<noteq> k \<longrightarrow> prio ts (parent i) \<ge> prio ts i) \<and> (parent i = k \<longrightarrow> 0 < k \<longrightarrow> prio ts (parent k) \<ge> prio ts i))"

definition heap_but_down :: "BackgroundTask list \<Rightarrow> nat \<Rightarrow> bool" where
  "heap_but_down ts k \<longleftrightarrow>
     (\<forall>i<length ts. 0 < i \<longrightarrow> (parent i \<noteq> k \<longrightarrow> prio ts (parent i) \<ge> prio ts i) \<and> (parent i = k \<longrightarrow> 0 < k \<longrightarrow> prio ts (parent k) \<ge> prio ts i))"

lemma heapifyUp_mset: "k < length ts \<Longrightarrow> mset (heapifyUp ts k) = mset ts"
  by (induction ts k rule: heapifyUp.induct) (subst heapifyUp.simps, auto)

lemma heap_up_swap:
  assumes inv: "heap_but_up ts k" and k: "0 < k" "k < length ts" and lt: "prio ts (parent k) < prio ts k"
  shows "heap_but_up (swap ts (parent k) k) (parent k)"
  unfolding heap_but_up_def
proof (intro allI impI)
  fix i
  assume i: "i < length (swap ts (parent k) k)" "0 < i"
  have p: "parent k < length ts" "parent i < length ts" "parent (parent k) < length ts" "parent k < k" "parent i < i" using i k by auto
  have ok: "prio ts (parent i) \<ge> prio ts i" if "i \<noteq> k" and "i < length ts" and "0 < i" for i
    using inv that by (simp add: heap_but_up_def)
  have gp: "prio ts (parent k) \<ge> prio ts i" if "parent i = k" using inv i k that by (simp add: heap_but_up_def)
  note nth = swap_nth [OF p(1) k(2)]
  show "(i \<noteq> parent k \<longrightarrow> prio (swap ts (parent k) k) (parent i) \<ge> prio (swap ts (parent k) k) i) \<and>
    (parent i = parent k \<longrightarrow> 0 < parent k \<longrightarrow> prio (swap ts (parent k) k) (parent (parent k)) \<ge> prio (swap ts (parent k) k) i)"
  proof (intro conjI impI)
    assume "i \<noteq> parent k"
    then show "prio (swap ts (parent k) k) (parent i) \<ge> prio (swap ts (parent k) k) i"
      using ok [of i] gp lt i p by (auto simp: nth)
  next
    assume "parent i = parent k" "0 < parent k"
    moreover have "prio ts (parent (parent k)) \<ge> prio ts (parent k)" using ok [of "parent k"] p \<open>0 < parent k\<close> by auto
    moreover have "parent (parent k) \<noteq> k" "parent (parent k) \<noteq> parent k" "i \<noteq> parent k"
      using parent_less [OF \<open>0 < parent k\<close>] p(4,5) \<open>parent i = parent k\<close> by linarith+
    ultimately show "prio (swap ts (parent k) k) (parent (parent k)) \<ge> prio (swap ts (parent k) k) i"
      using ok [of i] i p by (auto simp: nth)
  qed
qed

lemma heapifyUp_heap: "k < length ts \<Longrightarrow> heap_but_up ts k \<Longrightarrow> heap (heapifyUp ts k)"
proof (induction ts k rule: heapifyUp.induct)
  case (1 ts k)
  show ?case
  proof (cases "0 < k \<and> prio ts (parent k) < prio ts k")
    case True
    then have "heap (heapifyUp (swap ts (parent k) k) (parent k))"
      using 1 heap_up_swap [of ts k] by (intro "1.IH") (auto simp: not_le)
    then show ?thesis using True by (subst heapifyUp.simps) (simp add: not_le)
  next
    case False
    then have "heapifyUp ts k = ts" by (subst heapifyUp.simps) (auto simp: not_less)
    moreover have "heap ts" unfolding heap_def
    proof (intro allI impI)
      fix i
      assume "i < length ts" "0 < i"
      then show "prio ts (parent i) \<ge> prio ts i" using 1(3) False by (cases "i = k") (auto simp: heap_but_up_def)
    qed
    ultimately show ?thesis by simp
  qed
qed

lemma heap_append:
  assumes "heap ts"
  shows "heap_but_up (ts @ [t]) (length ts)"
  unfolding heap_but_up_def
proof (intro allI impI conjI)
  fix i
  assume "i < length (ts @ [t])" "0 < i"
  then show "prio (ts @ [t]) (parent i) \<ge> prio (ts @ [t]) i" if "i \<noteq> length ts" using assms that by (auto simp: heap_def nth_append)
  show "prio (ts @ [t]) (parent (length ts)) \<ge> prio (ts @ [t]) i" if "parent i = length ts"
    using parent_less [OF \<open>0 < i\<close>] \<open>i < length (ts @ [t])\<close> that by simp
qed

lemma children: "parent i = k \<Longrightarrow> 0 < i \<Longrightarrow> i = 2 * k + 1 \<or> i = 2 * k + 2"
  by (auto simp: parent_def)

lemma parent_larger: "larger_child ts k \<noteq> k \<Longrightarrow> parent (larger_child ts k) = k"
  by (auto simp: larger_child_def Let_def parent_def split: if_splits)

text \<open>The larger child is at least as high as the index and its children, and really higher unless it is the index itself.\<close>

lemma larger_child_max:
  assumes "i < length ts" and "parent i = k" and "0 < i"
  shows "prio ts i \<le> prio ts (larger_child ts k)"
  using children [OF assms(2,3)] assms(1) by (auto simp: larger_child_def Let_def)

lemma larger_child_higher: "larger_child ts k \<noteq> k \<Longrightarrow> prio ts k < prio ts (larger_child ts k)"
  by (auto simp: larger_child_def Let_def split: if_splits)

lemma heap_down_swap:
  assumes inv: "heap_but_down ts k" and k: "k < length ts" and m: "m = larger_child ts k" "m \<noteq> k"
  shows "heap_but_down (swap ts k m) m"
  unfolding heap_but_down_def
proof (intro allI impI)
  fix i
  assume i: "i < length (swap ts k m)" "0 < i"
  have b: "m < length ts" "k < m" "parent m = k" using larger_child_bound [of ts k] parent_larger [of ts k] m by auto
  have ok: "prio ts (parent i) \<ge> prio ts i" if "parent i \<noteq> k" and "i < length ts" and "0 < i" for i
    using inv that by (simp add: heap_but_down_def)
  have up: "prio ts (parent k) \<ge> prio ts i" if "parent i = k" and "0 < k" using inv i that by (simp add: heap_but_down_def)
  have top: "prio ts i \<le> prio ts m" if "parent i = k" using larger_child_max [of i ts k] i m that by simp
  have high: "prio ts k < prio ts m" using larger_child_higher m by blast
  note nth = swap_nth [OF k b(1)]
  show "(parent i \<noteq> m \<longrightarrow> prio (swap ts k m) (parent i) \<ge> prio (swap ts k m) i) \<and>
    (parent i = m \<longrightarrow> 0 < m \<longrightarrow> prio (swap ts k m) (parent m) \<ge> prio (swap ts k m) i)"
  proof (intro conjI impI)
    assume pm: "parent i \<noteq> m"
    consider "i = m" | "i = k" | "i \<noteq> m" "i \<noteq> k" "parent i = k" | "i \<noteq> m" "i \<noteq> k" "parent i \<noteq> k" by blast
    then show "prio (swap ts k m) (parent i) \<ge> prio (swap ts k m) i"
    proof cases
      case 1
      then show ?thesis using b k high by (simp add: nth)
    next
      case 2
      then have "0 < k" "parent k < k" using i(2) by auto
      moreover have "prio ts (parent k) \<ge> prio ts m" using inv b \<open>0 < k\<close> by (simp add: heap_but_down_def)
      ultimately show ?thesis using 2 b k by (simp add: nth)
    next
      case 3
      then show ?thesis using top i k by (simp add: nth)
    next
      case 4
      then show ?thesis using ok [of i] pm i by (simp add: nth)
    qed
  next
    assume "parent i = m"
    then have "i \<noteq> m" "i \<noteq> k" "parent i \<noteq> k" using b parent_less [OF i(2)] by auto
    then show "prio (swap ts k m) (parent m) \<ge> prio (swap ts k m) i" using ok [of i] i b k \<open>parent i = m\<close> by (simp add: nth)
  qed
qed

lemma heapifyDown_spec: "k < length ts \<Longrightarrow> heap_but_down ts k \<Longrightarrow> heap (heapifyDown ts k) \<and> mset (heapifyDown ts k) = mset ts"
proof (induction ts k rule: heapifyDown.induct)
  case (1 ts k)
  define m where "m = larger_child ts k"
  show ?case
  proof (cases "m = k")
    case True
    then have "heapifyDown ts k = ts" by (subst heapifyDown.simps) (simp add: m_def)
    moreover have "prio ts i \<le> prio ts (parent i)" if "i < length ts" "0 < i" for i
      using "1.prems"(2) larger_child_max [of i ts k] True that by (cases "parent i = k") (auto simp: heap_but_down_def m_def)
    ultimately show ?thesis by (simp add: heap_def)
  next
    case False
    then have "heapifyDown ts k = heapifyDown (swap ts k m) m" by (subst heapifyDown.simps) (simp add: m_def Let_def)
    moreover have "m < length ts" using False larger_child_bound [of ts k] by (simp add: m_def)
    ultimately show ?thesis
      using "1.IH" [OF m_def] False "1.prems" heap_down_swap [OF "1.prems"(2,1) m_def False] by simp
  qed
qed

lemma heap_top:
  assumes "heap ts" and "i < length ts"
  shows "prio ts i \<le> prio ts 0"
  using assms(2)
proof (induction i rule: less_induct)
  case (less i)
  show ?case
  proof (cases "i = 0")
    case False
    then have "prio ts i \<le> prio ts (parent i)" using assms(1) less.prems by (simp add: heap_def)
    also have "\<dots> \<le> prio ts 0" using False less by (intro less.IH) auto
    finally show ?thesis .
  qed simp
qed

lemma heap_replace_root:
  assumes "heap ts" and "ts \<noteq> []"
  shows "heap_but_down (butlast (ts[0 := t])) 0"
  unfolding heap_but_down_def
proof (intro allI impI conjI)
  fix i
  assume "i < length (butlast (ts[0 := t]))" "0 < i"
  then show "prio (butlast (ts[0 := t])) (parent i) \<ge> prio (butlast (ts[0 := t])) i" if "parent i \<noteq> 0"
    using assms(1) that by (simp add: heap_def nth_butlast)
qed simp

lemma pop_root_mset: "ts \<noteq> [] \<Longrightarrow> mset ts = add_mset (ts ! 0) (mset (butlast (ts[0 := ts ! (length ts - 1)])))"
  by (cases ts rule: rev_cases) (auto simp: nth_append list_update_append butlast_append mset_update neq_Nil_conv split: list.split)

interpretation heap_queue: priority_queue NewPriorityQueue PriorityQueue_Push PriorityQueue_Pop
  "\<lambda>pq. heap (pq_tasks pq)" "\<lambda>pq. mset (pq_tasks pq)" "\<lambda>t. - sint (bt_Priority t)"
proof
  fix q :: PriorityQueue and x
  assume heap: "heap (pq_tasks q)"
  show "heap (pq_tasks (PriorityQueue_Push q x))"
    using heapifyUp_heap [OF _ heap_append [OF heap, of x]] by (simp add: PriorityQueue_Push_def)
  show "mset (pq_tasks (PriorityQueue_Push q x)) = add_mset x (mset (pq_tasks q))"
    using heapifyUp_mset [of "length (pq_tasks q)" "pq_tasks q @ [x]"] by (simp add: PriorityQueue_Push_def)
  show "PriorityQueue_Pop q = None \<longleftrightarrow> mset (pq_tasks q) = {#}" by (simp add: PriorityQueue_Pop_def Let_def)
  fix q' :: PriorityQueue
  assume pop: "PriorityQueue_Pop q = Some (x, q')"
  define ts where "ts = butlast ((pq_tasks q)[0 := pq_tasks q ! (length (pq_tasks q) - 1)])"
  from pop have ne: "pq_tasks q \<noteq> []" and x: "x = pq_tasks q ! 0" and q': "pq_tasks q' = (if ts \<noteq> [] then heapifyDown ts 0 else ts)"
    by (auto simp: PriorityQueue_Pop_def Let_def ts_def split: if_splits)
  have "heap_but_down ts 0" unfolding ts_def by (rule heap_replace_root [OF heap ne])
  then have down: "heap (pq_tasks q')" "mset (pq_tasks q') = mset ts"
    using heapifyDown_spec [of 0 ts] by (auto simp: q' heap_def)
  show "heap (pq_tasks q')" by (rule down)
  show elems: "mset (pq_tasks q) = add_mset x (mset (pq_tasks q'))"
    using pop_root_mset [OF ne] by (simp only: down x ts_def)
  fix y
  assume "y \<in># mset (pq_tasks q')"
  then have "y \<in> set (pq_tasks q)" using elems by (metis insert_iff set_mset_add_mset_insert set_mset_mset)
  then show "- sint (bt_Priority x) \<le> - sint (bt_Priority y)"
    using heap_top [OF heap] x by (auto simp: in_set_conv_nth)
qed (simp_all add: NewPriorityQueue_def heap_def)

section \<open>The queue ordered by insertion, verified\<close>

abbreviation path_length :: "Task \<Rightarrow> nat" where
  "path_length t \<equiv> length (tk_Path t)"

lemma swap_append: "swap (xs @ a # b # ys) (Suc (length xs)) (length xs) = xs @ b # a # ys"
  by (simp add: swap_def nth_append list_update_append)

text \<open>Sifting moves a task to the left past the longer paths: it is insertion after all tasks whose paths are not longer.\<close>

lemma sift_left_insert:
  assumes "sorted (map path_length xs)" and "\<forall>y\<in>set ys. path_length t < path_length y"
  shows "sift_left (xs @ t # ys) (length xs) = takeWhile (\<lambda>y. path_length y \<le> path_length t) xs @ t # dropWhile (\<lambda>y. path_length y \<le> path_length t) xs @ ys"
  using assms
proof (induction xs arbitrary: ys rule: rev_induct)
  case (snoc x xs)
  show ?case
  proof (cases "path_length t < path_length x")
    case True
    have "sift_left ((xs @ [x]) @ t # ys) (length (xs @ [x])) = sift_left (xs @ t # (x # ys)) (length xs)"
      using True swap_append [of xs x t ys] by (simp add: nth_append)
    also have "\<dots> = takeWhile (\<lambda>y. path_length y \<le> path_length t) xs @ t # dropWhile (\<lambda>y. path_length y \<le> path_length t) xs @ x # ys"
      using snoc True by (simp add: sorted_append)
    finally show ?thesis using True by (simp add: takeWhile_tail dropWhile_append3)
  next
    case False
    then have all: "\<forall>y\<in>set (xs @ [x]). path_length y \<le> path_length t" using snoc.prems(1) by (auto simp: sorted_append)
    then show ?thesis using False by (simp add: nth_append takeWhile_append2 dropWhile_append2)
  qed
qed simp

lemma insert_sorted:
  assumes "sorted (map path_length xs)"
  shows "sorted (map path_length (takeWhile (\<lambda>y. path_length y \<le> path_length t) xs @ t # dropWhile (\<lambda>y. path_length y \<le> path_length t) xs))"
  using assms by (induction xs) (auto dest: set_takeWhileD set_dropWhileD)

lemma dropWhile_longer:
  assumes "sorted (map path_length xs)" and "y \<in> set (dropWhile (\<lambda>y. path_length y \<le> path_length t) xs)"
  shows "path_length t < path_length y"
  using assms by (induction xs) (auto split: if_splits)

interpretation path_queue: priority_queue NewPriorityTaskQueue PriorityTaskQueue_Push PriorityTaskQueue_Pop
  "\<lambda>pq. sorted (map path_length (ptq_tasks pq))" "\<lambda>pq. mset (ptq_tasks pq)" path_length
proof
  fix q :: PriorityTaskQueue and x
  assume sorted: "sorted (map path_length (ptq_tasks q))"
  have push: "ptq_tasks (PriorityTaskQueue_Push q x) =
      takeWhile (\<lambda>y. path_length y \<le> path_length x) (ptq_tasks q) @ x # dropWhile (\<lambda>y. path_length y \<le> path_length x) (ptq_tasks q)"
    using sift_left_insert [OF sorted, of "[]" x] by (simp add: PriorityTaskQueue_Push_def)
  show "sorted (map path_length (ptq_tasks (PriorityTaskQueue_Push q x)))" unfolding push by (rule insert_sorted [OF sorted])
  show "mset (ptq_tasks (PriorityTaskQueue_Push q x)) = add_mset x (mset (ptq_tasks q))"
    unfolding push by simp (metis mset_append takeWhile_dropWhile_id)
qed (auto simp: NewPriorityTaskQueue_def PriorityTaskQueue_Pop_def split: list.splits)

section \<open>Properties\<close>


text \<open>The queues a mixture of pushes and pops can produce.\<close>

inductive pq_reach :: "PriorityQueue \<Rightarrow> bool" where
  new: "pq_reach NewPriorityQueue"
| push: "pq_reach q \<Longrightarrow> pq_reach (PriorityQueue_Push q t)"
| pop: "pq_reach q \<Longrightarrow> PriorityQueue_Pop q = Some (t, q') \<Longrightarrow> pq_reach q'"

lemma pq_reach_heap: "pq_reach q \<Longrightarrow> heap (pq_tasks q)"
  by (induction rule: pq_reach.induct) (auto intro: heap_queue.empty_invar heap_queue.push_invar heap_queue.pop_invar)

text \<open>In every state of a queue \<open>Pop\<close> returns a task exactly when there is one, it takes out one task and leaves the others, and no
  task that stays has a higher priority.\<close>

theorem pop_returns_highest:
  assumes "pq_reach q"
  shows "(PriorityQueue_Pop q = None \<longleftrightarrow> PriorityQueue_Len q = 0) \<and>
    (\<forall>t q'. PriorityQueue_Pop q = Some (t, q') \<longrightarrow>
      mset (pq_tasks q) = add_mset t (mset (pq_tasks q')) \<and> (\<forall>u\<in>set (pq_tasks q'). sint (bt_Priority u) \<le> sint (bt_Priority t)))"
  using heap_queue.pop_None [OF pq_reach_heap [OF assms]] heap_queue.pop_elems [OF pq_reach_heap [OF assms]]
    heap_queue.pop_first [OF pq_reach_heap [OF assms]]
  by (auto simp: PriorityQueue_Len_def)

text \<open>The queue ordered by paths is stable: tasks with paths of equal length leave it in the order in which they came.\<close>

theorem path_queue_stable:
  "ptq_tasks (foldl PriorityTaskQueue_Push NewPriorityTaskQueue tasks) = sort_key path_length tasks"
proof (induction tasks rule: rev_induct)
  case (snoc t ts)
  let ?q = "foldl PriorityTaskQueue_Push NewPriorityTaskQueue ts"
  have "sorted (map path_length (ptq_tasks ?q))" using snoc by simp
  then have "ptq_tasks (PriorityTaskQueue_Push ?q t) =
      takeWhile (\<lambda>y. path_length y \<le> path_length t) (ptq_tasks ?q) @ t # dropWhile (\<lambda>y. path_length y \<le> path_length t) (ptq_tasks ?q)"
    using sift_left_insert [of "ptq_tasks ?q" "[]" t] by (simp add: PriorityTaskQueue_Push_def)
  moreover have "sort_key path_length (ts @ [t]) =
      takeWhile (\<lambda>y. path_length y \<le> path_length t) (sort_key path_length ts) @ t # dropWhile (\<lambda>y. path_length y \<le> path_length t) (sort_key path_length ts)"
    (is "_ = ?tw @ t # ?dw")
  proof (rule properties_for_sort_key)
    have split: "?tw @ ?dw = sort_key path_length ts" by (rule takeWhile_dropWhile_id)
    then have "mset ?tw + mset ?dw = mset ts" by (metis mset_append mset_sort)
    then show "mset (?tw @ t # ?dw) = mset (ts @ [t])" by simp
    show "sorted (map path_length (?tw @ t # ?dw))" by (rule insert_sorted) simp
    fix k
    have "filter (\<lambda>x. path_length k = path_length x) ?tw @ filter (\<lambda>x. path_length k = path_length x) ?dw =
        filter (\<lambda>x. path_length k = path_length x) ts"
      unfolding filter_append [symmetric] split using sort_key_stable [of path_length "path_length k" ts] by (simp add: eq_commute)
    moreover have "filter (\<lambda>x. path_length k = path_length x) ?dw = []" if "path_length k = path_length t"
      using dropWhile_longer [of "sort_key path_length ts" _ t] that by (force simp: filter_empty_conv)
    ultimately show "filter (\<lambda>x. path_length k = path_length x) (?tw @ t # ?dw) = filter (\<lambda>x. path_length k = path_length x) (ts @ [t])"
      by auto
  qed
  ultimately show ?case using snoc by simp
qed (simp add: NewPriorityTaskQueue_def)

end
