(* ===== verification/Optimized.thy ===== *)
theory Optimized
  imports TaskQueues Writes "HOL-Library.Product_Lexorder"
begin

text \<open>
  \<open>pregel/optimized.go\<close>: the engine with step bumping, finish notifications and task priorities.  Its state is a record beside the one
  of the engine it wraps, of which it uses the current checkpoint.  \<open>sort_slice\<close> is \<open>sort.Slice\<close> with a comparison; what the sort of the
  library does with elements that compare equal is left open there, and the properties do not depend on it.
\<close>

record OptimizedEngineConfig =
  oc_BumpStep :: bool
  oc_FinishNotification :: bool
  oc_TaskPriority :: bool

record TaskWithPriority =
  twp_Task :: Task
  twp_Priority :: goint
  twp_Namespace :: string
  twp_Path :: "string list"

record PregelOptimizedEngine =
  oe_config :: OptimizedEngineConfig
  oe_taskPriorityQueue :: "TaskWithPriority list"
  oe_stepQueue :: "goint \<rightharpoonup> string list"
  oe_seenChannels :: "bool gomap gomap"
  oe_readyChannels :: "bool gomap"
  oe_finishedTasks :: "bool gomap"
  oe_taskDependencies :: "string list gomap"
  oe_channelVersions :: "goint gomap"
  oe_currentCheckpoint :: "Checkpoint option"

definition NewPregelOptimizedEngine :: "Checkpoint option \<Rightarrow> OptimizedEngineConfig option \<Rightarrow> PregelOptimizedEngine" where
  "NewPregelOptimizedEngine current config =
     \<lparr>oe_config = (case config of Some c \<Rightarrow> c | None \<Rightarrow> \<lparr>oc_BumpStep = True, oc_FinishNotification = True, oc_TaskPriority = True\<rparr>),
      oe_taskPriorityQueue = [], oe_stepQueue = Map.empty, oe_seenChannels = [], oe_readyChannels = [], oe_finishedTasks = [],
      oe_taskDependencies = [], oe_channelVersions = [], oe_currentCheckpoint = current\<rparr>"

section \<open>Dependencies and steps\<close>

definition flag :: "bool gomap \<Rightarrow> string \<Rightarrow> bool" where
  "flag m k = (case mget m k of Some b \<Rightarrow> b | None \<Rightarrow> False)"

definition entry :: "'v list gomap \<Rightarrow> string \<Rightarrow> 'v list" where
  "entry m k = (case mget m k of Some vs \<Rightarrow> vs | None \<Rightarrow> [])"

definition bump_ready :: "bool gomap option \<Rightarrow> string list \<Rightarrow> bool" where
  "bump_ready seen updated = (case seen of None \<Rightarrow> True | Some m \<Rightarrow> list_all (flag m) updated)"

definition bump_task :: "goint \<Rightarrow> string list \<Rightarrow> string \<Rightarrow> PregelOptimizedEngine \<Rightarrow> PregelOptimizedEngine" where
  "bump_task completedStep updated depTask e =
     (let seen = mget (oe_seenChannels e) depTask in
      if bump_ready seen updated
      then e\<lparr>oe_stepQueue := (oe_stepQueue e)(completedStep + 1 \<mapsto>
               (case oe_stepQueue e (completedStep + 1) of Some ts \<Rightarrow> ts | None \<Rightarrow> []) @ [depTask]),
             oe_seenChannels := mput (oe_seenChannels e) depTask
               (fold (\<lambda>ch m. mput m ch True) updated (case seen of Some m \<Rightarrow> m | None \<Rightarrow> []))\<rparr>
      else e)"

definition PregelOptimizedEngine_BumpStep :: "PregelOptimizedEngine \<Rightarrow> string \<Rightarrow> goint \<Rightarrow> string list \<Rightarrow> PregelOptimizedEngine" where
  "PregelOptimizedEngine_BumpStep e taskName completedStep updatedChannels =
     (let e1 = e\<lparr>oe_finishedTasks := mput (oe_finishedTasks e) taskName True\<rparr>
      in fold (bump_task completedStep updatedChannels) (entry (oe_taskDependencies e1) taskName) e1)"

definition PregelOptimizedEngine_AddTaskDependency :: "PregelOptimizedEngine \<Rightarrow> string \<Rightarrow> string \<Rightarrow> PregelOptimizedEngine" where
  "PregelOptimizedEngine_AddTaskDependency e fromTask toTask =
     e\<lparr>oe_taskDependencies := mput (oe_taskDependencies e) toTask (entry (oe_taskDependencies e) toTask @ [fromTask])\<rparr>"

definition PregelOptimizedEngine_GetTaskDependencies :: "PregelOptimizedEngine \<Rightarrow> string \<Rightarrow> string list" where
  "PregelOptimizedEngine_GetTaskDependencies e taskName = entry (oe_taskDependencies e) taskName"

definition PregelOptimizedEngine_IsTaskReady :: "PregelOptimizedEngine \<Rightarrow> string \<Rightarrow> bool" where
  "PregelOptimizedEngine_IsTaskReady e taskName = list_all (flag (oe_finishedTasks e)) (entry (oe_taskDependencies e) taskName)"

definition PregelOptimizedEngine_hasSeenChannel :: "PregelOptimizedEngine \<Rightarrow> string \<Rightarrow> string \<Rightarrow> bool" where
  "PregelOptimizedEngine_hasSeenChannel e taskName channel = (case mget (oe_seenChannels e) taskName of Some m \<Rightarrow> flag m channel | None \<Rightarrow> False)"

definition PregelOptimizedEngine_ClearFinishedTasks :: "PregelOptimizedEngine \<Rightarrow> PregelOptimizedEngine" where
  "PregelOptimizedEngine_ClearFinishedTasks e = e\<lparr>oe_finishedTasks := []\<rparr>"

definition PregelOptimizedEngine_GetFinishedTasks :: "(string list \<Rightarrow> string list) \<Rightarrow> PregelOptimizedEngine \<Rightarrow> string list" where
  "PregelOptimizedEngine_GetFinishedTasks ro e = ro (mkeys (oe_finishedTasks e))"

definition PregelOptimizedEngine_Reset :: "PregelOptimizedEngine \<Rightarrow> PregelOptimizedEngine" where
  "PregelOptimizedEngine_Reset e = e\<lparr>oe_taskPriorityQueue := [], oe_stepQueue := Map.empty, oe_seenChannels := [], oe_readyChannels := [], oe_finishedTasks := []\<rparr>"

section \<open>Priorities\<close>

fun path_compare :: "string list \<Rightarrow> string list \<Rightarrow> int" where
  "path_compare (p # ps) (q # qs) = (if p \<noteq> q then (if p < q then -1 else 1) else path_compare ps qs)"
| "path_compare _ _ = 0"

definition compareTaskPriority :: "Task \<Rightarrow> Task \<Rightarrow> int" where
  "compareTaskPriority t1 t2 =
     (if length (tk_Path t1) \<noteq> length (tk_Path t2) then int (length (tk_Path t1)) - int (length (tk_Path t2))
      else if path_compare (tk_Path t1) (tk_Path t2) \<noteq> 0 then path_compare (tk_Path t1) (tk_Path t2)
      else if tk_Name t1 \<noteq> tk_Name t2 then (if tk_Name t1 < tk_Name t2 then -1 else 1)
      else 0)"

record TaskPriority =
  tp_Name :: string
  tp_Path :: "string list"
  tp_Priority :: goint

definition NewTaskPriority :: "string \<Rightarrow> string list \<Rightarrow> goint \<Rightarrow> TaskPriority" where
  "NewTaskPriority name path priority = \<lparr>tp_Name = name, tp_Path = path, tp_Priority = priority\<rparr>"

definition TaskPriority_Compare :: "TaskPriority \<Rightarrow> TaskPriority \<Rightarrow> goint" where
  "TaskPriority_Compare tp other =
     (if tp_Priority tp \<noteq> tp_Priority other then tp_Priority tp - tp_Priority other
      else if length (tp_Path tp) \<noteq> length (tp_Path other) then of_nat (length (tp_Path tp)) - of_nat (length (tp_Path other))
      else of_int (path_compare (tp_Path tp) (tp_Path other)))"

fun insert_by :: "('a \<Rightarrow> 'a \<Rightarrow> bool) \<Rightarrow> 'a \<Rightarrow> 'a list \<Rightarrow> 'a list" where
  "insert_by lt x [] = [x]"
| "insert_by lt x (y # ys) = (if lt y x then y # insert_by lt x ys else x # y # ys)"

definition sort_slice :: "('a \<Rightarrow> 'a \<Rightarrow> bool) \<Rightarrow> 'a list \<Rightarrow> 'a list" where
  "sort_slice lt xs = foldr (insert_by lt) xs []"

definition task_priority :: "TaskWithPriority \<Rightarrow> TaskPriority" where
  "task_priority t = \<lparr>tp_Name = tk_Name (twp_Task t), tp_Path = twp_Path t, tp_Priority = twp_Priority t\<rparr>"

definition PregelOptimizedEngine_GetNextPriorityTask :: "PregelOptimizedEngine \<Rightarrow> (TaskWithPriority \<times> PregelOptimizedEngine) option" where
  "PregelOptimizedEngine_GetNextPriorityTask e =
     (case sort_slice (\<lambda>t u. sint (TaskPriority_Compare (task_priority t) (task_priority u)) < 0) (oe_taskPriorityQueue e) of
        [] \<Rightarrow> None
      | t # ts \<Rightarrow> Some (t, e\<lparr>oe_taskPriorityQueue := ts\<rparr>))"

text \<open>The function of the task is called with no state; \<open>result\<close> is what it returns.\<close>

definition queue_task :: "PregelOptimizedEngine \<Rightarrow> Task \<Rightarrow> goint \<Rightarrow> string \<Rightarrow> PregelOptimizedEngine" where
  "queue_task e task priority namespace =
     e\<lparr>oe_taskPriorityQueue := oe_taskPriorityQueue e @
        [\<lparr>twp_Task = task, twp_Priority = priority, twp_Namespace = namespace, twp_Path = [namespace, tk_Name task]\<rparr>]\<rparr>"

definition PregelOptimizedEngine_ExecuteTaskWithPriority ::
    "PregelOptimizedEngine \<Rightarrow> Task \<Rightarrow> goint \<Rightarrow> string \<Rightarrow> gvalue \<times> gerror option \<Rightarrow> TaskResult \<times> PregelOptimizedEngine" where
  "PregelOptimizedEngine_ExecuteTaskWithPriority e task priority namespace result =
     (\<lparr>tr_Name = tk_Name task, tr_Output = fst result, tr_Err = snd result, tr_Path = []\<rparr>, queue_task e task priority namespace)"

section \<open>Applying writes\<close>

definition result_less :: "TaskResult \<Rightarrow> TaskResult \<Rightarrow> bool" where
  "result_less r1 r2 =
     (if length (tr_Path r1) \<noteq> length (tr_Path r2) then length (tr_Path r1) < length (tr_Path r2)
      else if path_compare (tr_Path r1) (tr_Path r2) \<noteq> 0 then path_compare (tr_Path r1) (tr_Path r2) < 0
      else tr_Name r1 < tr_Name r2)"

definition add_writes :: "gvalue list gomap \<Rightarrow> (string \<times> gvalue) list \<Rightarrow> gvalue list gomap" where
  "add_writes writes es = fold (\<lambda>(key, value) w. if value = GNil then w else mput w key (entry w key @ [value])) es writes"

fun optimized_collect :: "gvalue list gomap \<Rightarrow> TaskResult list \<Rightarrow> gerror + gvalue list gomap" where
  "optimized_collect writes [] = Inr writes"
| "optimized_collect writes (result # rs) =
     (if tr_Err result \<noteq> None then optimized_collect writes rs
      else case toMap (tr_Output result) of
             Inl err \<Rightarrow> Inl (ErrorWrap ''failed to convert output to map'' err)
           | Inr outputMap \<Rightarrow> optimized_collect (add_writes writes outputMap) rs)"

definition note_updated :: "string \<Rightarrow> PregelOptimizedEngine \<Rightarrow> PregelOptimizedEngine" where
  "note_updated name e =
     (let e1 = e\<lparr>oe_readyChannels := mput (oe_readyChannels e) name True\<rparr> in
      if oc_BumpStep (oe_config e)
      then e1\<lparr>oe_channelVersions := mput (oe_channelVersions e) name (version_at (oe_channelVersions e) name + 1),
              oe_currentCheckpoint := map_option (\<lambda>c. Checkpoint_IncrementChannel c name) (oe_currentCheckpoint e)\<rparr>
      else e1)"

fun optimized_loop ::
    "PregelOptimizedEngine \<Rightarrow> Registry \<Rightarrow> string list \<Rightarrow> (string \<times> gvalue list) list \<Rightarrow>
     gerror option \<times> PregelOptimizedEngine \<times> Registry \<times> string list" where
  "optimized_loop e registry updated [] = (None, e, registry, updated)"
| "optimized_loop e registry updated ((name, values) # ws) =
     (case Registry_Get registry name of
        None \<Rightarrow> optimized_loop e registry updated ws
      | Some ch \<Rightarrow>
          (case Channel_Update ch (filter (\<lambda>v. v \<noteq> GNil) values) of
             (Inl err, ch') \<Rightarrow> (Some (ErrorWrap (''failed to update channel '' @ name) err), e, Registry_Register registry name ch', updated)
           | (Inr changed, ch') \<Rightarrow>
               if changed then optimized_loop (note_updated name e) (Registry_Register registry name ch') (updated @ [name]) ws
               else optimized_loop e (Registry_Register registry name ch') updated ws))"

definition finish_channels :: "OptimizedEngineConfig \<Rightarrow> string list \<Rightarrow> string list \<Rightarrow> Registry \<Rightarrow> Registry" where
  "finish_channels config updated triggerToNodes registry =
     (if oc_FinishNotification config \<and> updated \<noteq> [] \<and> list_all (\<lambda>t. t \<in> set updated) triggerToNodes
      then registry\<lparr>channels := mmap (\<lambda>ch. snd (Channel_Finish ch)) (channels registry)\<rparr>
      else registry)"

definition PregelOptimizedEngine_OptimizedApplyWrites ::
    "(string list \<Rightarrow> string list) \<Rightarrow> PregelOptimizedEngine \<Rightarrow> Registry \<Rightarrow> TaskResult list \<Rightarrow> string list \<Rightarrow>
     (gerror + string list) \<times> PregelOptimizedEngine \<times> Registry" where
  "PregelOptimizedEngine_OptimizedApplyWrites ro e registry results triggerToNodes =
     (case optimized_collect [] (sort_slice result_less results) of
        Inl err \<Rightarrow> (Inl err, e, registry)
      | Inr writesByChannel \<Rightarrow>
          (case optimized_loop e registry [] (range_entries ro writesByChannel) of
             (Some err, e1, registry1, updated) \<Rightarrow> (Inl err, e1, registry1)
           | (None, e1, registry1, updated) \<Rightarrow> (Inr updated, e1, finish_channels (oe_config e) updated triggerToNodes registry1)))"

section \<open>The order of tasks\<close>

lemma path_compare_less:
  "length ps = length qs \<Longrightarrow> path_compare ps qs < 0 \<longleftrightarrow> ps < qs"
  by (induction ps qs rule: path_compare.induct) auto

lemma path_compare_zero: "length ps = length qs \<Longrightarrow> path_compare ps qs = 0 \<longleftrightarrow> ps = qs"
  by (induction ps qs rule: path_compare.induct) auto

lemma path_compare_range: "path_compare ps qs \<in> {-1, 0, 1}"
  by (induction ps qs rule: path_compare.induct) auto

definition task_rank :: "Task \<Rightarrow> nat \<times> string list \<times> string" where
  "task_rank t = (length (tk_Path t), tk_Path t, tk_Name t)"

definition result_rank :: "TaskResult \<Rightarrow> nat \<times> string list \<times> string" where
  "result_rank r = (length (tr_Path r), tr_Path r, tr_Name r)"

lemma result_less_rank: "result_less r1 r2 \<longleftrightarrow> result_rank r1 < result_rank r2"
  by (auto simp: result_less_def result_rank_def less_prod_def path_compare_less path_compare_zero)

lemma sort_slice_key:
  assumes "\<And>x y. x \<in> set xs \<Longrightarrow> y \<in> set xs \<Longrightarrow> lt x y \<longleftrightarrow> f x < f y"
  shows "sort_slice lt xs = sort_key f xs"
  using assms
proof (induction xs)
  case (Cons x xs)
  have insert: "insert_by lt x ys = insort_key f x ys" if "set ys \<subseteq> set xs" for ys
    using that Cons.prems by (induction ys) auto
  have "sort_slice lt xs = sort_key f xs" using Cons by simp
  then show ?case using insert [of "sort_key f xs"] by (simp add: sort_slice_def)
qed (simp add: sort_slice_def)

text \<open>\<open>compareTaskPriority\<close> orders tasks like the lexicographic order of the length of the path, the path and the name: its result is
  negative, zero or positive exactly when the first task comes before, with or after the second.\<close>

theorem compare_is_lexicographic:
  "(compareTaskPriority t u < 0 \<longleftrightarrow> task_rank t < task_rank u) \<and>
   (compareTaskPriority t u = 0 \<longleftrightarrow> task_rank t = task_rank u) \<and>
   (compareTaskPriority t u > 0 \<longleftrightarrow> task_rank t > task_rank u)"
proof -
  have less: "compareTaskPriority t u < 0 \<longleftrightarrow> task_rank t < task_rank u"
    by (auto simp: compareTaskPriority_def task_rank_def less_prod_def path_compare_less path_compare_zero)
  moreover have zero: "compareTaskPriority t u = 0 \<longleftrightarrow> task_rank t = task_rank u"
    by (auto simp: compareTaskPriority_def task_rank_def path_compare_zero split: if_splits)
  ultimately show ?thesis by (metis linorder_less_linear order_less_asym)
qed

section \<open>Lemmas on writes\<close>

definition optimized_accepts :: "Registry \<Rightarrow> string \<times> gvalue list \<Rightarrow> bool" where
  "optimized_accepts registry w \<longleftrightarrow> (\<forall>ch. Registry_Get registry (fst w) = Some ch \<longrightarrow>
     (\<exists>b. fst (Channel_Update ch (filter (\<lambda>v. v \<noteq> GNil) (snd w))) = Inr b))"

definition optimized_written :: "Registry \<Rightarrow> string \<Rightarrow> gvalue list \<Rightarrow> channel option \<times> bool" where
  "optimized_written registry name values =
     (case Registry_Get registry name of
        None \<Rightarrow> (None, False)
      | Some ch \<Rightarrow> (let (r, ch') = Channel_Update ch (filter (\<lambda>v. v \<noteq> GNil) values) in (Some ch', r = Inr True)))"

lemma note_updated_versions:
  "version_at (oe_channelVersions (note_updated n e)) k =
     version_at (oe_channelVersions e) k + (if k = n \<and> oc_BumpStep (oe_config e) then 1 else 0)"
  "oe_config (note_updated n e) = oe_config e"
  by (simp_all add: note_updated_def Let_def version_at_def)

lemma optimized_loop_ok:
  "distinct (map fst ws) \<Longrightarrow> \<forall>w\<in>set ws. optimized_accepts registry w \<Longrightarrow>
   \<exists>e' registry'. optimized_loop e registry updated ws =
       (None, e', registry', updated @ map fst (filter (\<lambda>w. snd (optimized_written registry (fst w) (snd w))) ws)) \<and>
     (\<forall>k. mget (channels registry') k =
        (case map_of ws k of Some vs \<Rightarrow> fst (optimized_written registry k vs) | None \<Rightarrow> mget (channels registry) k)) \<and>
     (\<forall>k. version_at (oe_channelVersions e') k = version_at (oe_channelVersions e) k +
        (case map_of ws k of Some vs \<Rightarrow> if snd (optimized_written registry k vs) \<and> oc_BumpStep (oe_config e) then 1 else 0 | None \<Rightarrow> 0))"
proof (induction ws arbitrary: e registry updated)
  case Nil
  then show ?case by simp
next
  case (Cons w ws)
  obtain n vs where w: "w = (n, vs)" by (cases w)
  obtain ch' up where wr: "optimized_written registry n vs = (ch', up)" by (metis surj_pair)
  define r1 where "r1 = (case ch' of Some ch \<Rightarrow> Registry_Register registry n ch | None \<Rightarrow> registry)"
  define e1 where "e1 = (if up then note_updated n e else e)"
  define u1 where "u1 = (if up then updated @ [n] else updated)"
  have step: "optimized_loop e registry updated (w # ws) = optimized_loop e1 r1 u1 ws"
    using Cons.prems(2) wr w
    by (auto simp: optimized_accepts_def optimized_written_def r1_def e1_def u1_def Let_def split: prod.splits sum.splits option.splits if_splits)
  have other: "mget (channels r1) k = mget (channels registry) k" if "k \<noteq> n" for k
    using that by (simp add: r1_def Registry_Register_def split: option.split)
  have at: "mget (channels r1) n = ch'"
    using wr by (auto simp: r1_def Registry_Register_def optimized_written_def Registry_Get_def split: option.splits prod.splits)
  have n: "n \<notin> fst ` set ws" using Cons.prems(1) w by auto
  have same: "optimized_written r1 k us = optimized_written registry k us" if "k \<noteq> n" for k us
    using other [OF that] by (simp add: optimized_written_def Registry_Get_def)
  have "optimized_accepts r1 x" if "x \<in> set ws" for x
  proof -
    have "fst x \<noteq> n" using n that by auto
    then show ?thesis using Cons.prems(2) that other by (simp add: optimized_accepts_def Registry_Get_def)
  qed
  then obtain e' registry' where
    run: "optimized_loop e1 r1 u1 ws = (None, e', registry', u1 @ map fst (filter (\<lambda>w. snd (optimized_written r1 (fst w) (snd w))) ws))"
    and chans: "\<And>k. mget (channels registry') k =
        (case map_of ws k of Some vs \<Rightarrow> fst (optimized_written r1 k vs) | None \<Rightarrow> mget (channels r1) k)"
    and vers: "\<And>k. version_at (oe_channelVersions e') k = version_at (oe_channelVersions e1) k +
        (case map_of ws k of Some vs \<Rightarrow> if snd (optimized_written r1 k vs) \<and> oc_BumpStep (oe_config e1) then 1 else 0 | None \<Rightarrow> 0)"
    using Cons.IH [of r1 e1 u1] Cons.prems(1) by auto
  have none: "map_of ws n = None" using n by (simp add: map_of_eq_None_iff)
  have "mget (channels registry') k =
      (case map_of (w # ws) k of Some vs \<Rightarrow> fst (optimized_written registry k vs) | None \<Rightarrow> mget (channels registry) k)" for k
    using chans [of k] none w wr same other at by (cases "k = n") (auto split: option.splits)
  moreover have "version_at (oe_channelVersions e') k = version_at (oe_channelVersions e) k +
      (case map_of (w # ws) k of Some vs \<Rightarrow> if snd (optimized_written registry k vs) \<and> oc_BumpStep (oe_config e) then 1 else 0 | None \<Rightarrow> 0)" for k
    using vers [of k] none w wr same by (cases "k = n") (auto simp: e1_def note_updated_versions split: option.splits)
  moreover have "filter (\<lambda>w. snd (optimized_written r1 (fst w) (snd w))) ws = filter (\<lambda>w. snd (optimized_written registry (fst w) (snd w))) ws"
    using n same by (intro filter_cong refl) (metis image_eqI)
  ultimately show ?case using run step w wr by (auto simp: u1_def)
qed

lemma mwf_add_writes: "mwf w \<Longrightarrow> mwf (add_writes w es)"
  by (induction es arbitrary: w) (simp_all add: add_writes_def mwf_mput case_prod_beta)

lemma mwf_optimized_collect: "optimized_collect w rs = Inr w' \<Longrightarrow> mwf w \<Longrightarrow> mwf w'"
  by (induction rs arbitrary: w) (auto simp: mwf_add_writes split: if_splits sum.splits)

text \<open>Applying writes that every registered channel accepts, as lookups.\<close>

lemma optimized_apply_ok:
  assumes ro: "range_order ro" and col: "optimized_collect [] (sort_key result_rank results) = Inr w"
    and acc: "\<And>n vs. mget w n = Some vs \<Longrightarrow> optimized_accepts registry (n, vs)"
  shows "\<exists>updated e' registry'.
    PregelOptimizedEngine_OptimizedApplyWrites ro e registry results trig = (Inr updated, e', finish_channels (oe_config e) updated trig registry') \<and>
    set updated = {n. \<exists>vs. mget w n = Some vs \<and> snd (optimized_written registry n vs)} \<and>
    (\<forall>k. mget (channels registry') k = (case mget w k of Some vs \<Rightarrow> fst (optimized_written registry k vs) | None \<Rightarrow> mget (channels registry) k)) \<and>
    (\<forall>k. version_at (oe_channelVersions e') k = version_at (oe_channelVersions e) k +
       (case mget w k of Some vs \<Rightarrow> if snd (optimized_written registry k vs) \<and> oc_BumpStep (oe_config e) then 1 else 0 | None \<Rightarrow> 0))"
proof -
  have wf: "mwf w" using mwf_optimized_collect [OF col] by simp
  have "\<forall>x\<in>set (range_entries ro w). optimized_accepts registry x" using acc by (auto simp: range_entries_mem [OF ro])
  from optimized_loop_ok [OF range_entries_distinct [OF ro wf] this, of e "[]", unfolded map_of_range_entries [OF ro wf] append_Nil]
  obtain e' registry' where
    run: "optimized_loop e registry [] (range_entries ro w) =
      (None, e', registry', map fst (filter (\<lambda>w. snd (optimized_written registry (fst w) (snd w))) (range_entries ro w)))"
    and look: "\<forall>k. mget (channels registry') k = (case mget w k of Some vs \<Rightarrow> fst (optimized_written registry k vs) | None \<Rightarrow> mget (channels registry) k)"
    and vers: "\<forall>k. version_at (oe_channelVersions e') k = version_at (oe_channelVersions e) k +
       (case mget w k of Some vs \<Rightarrow> if snd (optimized_written registry k vs) \<and> oc_BumpStep (oe_config e) then 1 else 0 | None \<Rightarrow> 0)"
    by blast
  let ?u = "map fst (filter (\<lambda>w. snd (optimized_written registry (fst w) (snd w))) (range_entries ro w))"
  have "PregelOptimizedEngine_OptimizedApplyWrites ro e registry results trig = (Inr ?u, e', finish_channels (oe_config e) ?u trig registry')"
    using run by (simp add: PregelOptimizedEngine_OptimizedApplyWrites_def sort_slice_key [of _ result_less result_rank, OF result_less_rank] col)
  moreover have "set ?u = {n. \<exists>vs. mget w n = Some vs \<and> snd (optimized_written registry n vs)}"
    by (auto simp: image_iff range_entries_mem [OF ro])
  ultimately show ?thesis using look vers by (intro exI conjI)
qed

lemma finish_channels_cong:
  assumes "set updated = set updated'" and "\<And>k. mget (channels r) k = mget (channels r') k"
  shows "mget (channels (finish_channels c updated trig r)) k = mget (channels (finish_channels c updated' trig r')) k"
proof -
  have "updated = [] \<longleftrightarrow> updated' = []" using assms(1) by auto
  then show ?thesis using assms by (simp add: finish_channels_def)
qed

text \<open>The loop stops at a channel that does not accept its values.\<close>

lemma optimized_loop_accepts:
  "optimized_loop e registry updated ws = (None, e', registry', updated') \<Longrightarrow> distinct (map fst ws) \<Longrightarrow> w \<in> set ws \<Longrightarrow> optimized_accepts registry w"
proof (induction ws arbitrary: e registry updated)
  case (Cons x ws)
  obtain n vs where x: "x = (n, vs)" by (cases x)
  have acc: "optimized_accepts registry x"
    using Cons.prems(1) x by (auto simp: optimized_accepts_def split: prod.splits sum.splits option.splits)
  then obtain e1 r1 u1 where step: "optimized_loop e1 r1 u1 ws = (None, e', registry', updated')" and
    other: "\<And>k. k \<noteq> n \<Longrightarrow> mget (channels r1) k = mget (channels registry) k"
  proof (cases "Registry_Get registry n")
    case None
    then show ?thesis using Cons.prems(1) x that [of e registry updated] by simp
  next
    case (Some ch)
    then obtain b where "fst (Channel_Update ch (filter (\<lambda>v. v \<noteq> GNil) vs)) = Inr b" using acc x by (auto simp: optimized_accepts_def)
    then obtain ch' where up: "Channel_Update ch (filter (\<lambda>v. v \<noteq> GNil) vs) = (Inr b, ch')" by (cases "Channel_Update ch (filter (\<lambda>v. v \<noteq> GNil) vs)") simp
    have "optimized_loop (if b then note_updated n e else e) (Registry_Register registry n ch') (if b then updated @ [n] else updated) ws =
        (None, e', registry', updated')"
      using Cons.prems(1) x Some up by (simp split: if_splits)
    then show ?thesis using that by (simp add: Registry_Register_def)
  qed
  show ?case
  proof (cases "w = x")
    case False
    then have "w \<in> set ws" "fst w \<noteq> n" using Cons.prems(2,3) x by auto
    then show ?thesis using Cons.IH [OF step] Cons.prems(2) other by (simp add: optimized_accepts_def Registry_Get_def)
  qed (use acc in simp)
qed simp

section \<open>Properties\<close>

text \<open>The optimised application of writes is deterministic: when it succeeds, it succeeds for every order in which the tasks
  finished and every order in which maps are iterated, with the same channels, the same channel versions and the same set of updated
  channels.\<close>

theorem optimized_writes_deterministic:
  assumes "range_order ro" and "range_order ro'" and "mset results = mset results'" and "distinct (map result_rank results)"
    and run: "PregelOptimizedEngine_OptimizedApplyWrites ro e registry results trig = (Inr updated, e1, registry1)"
  shows "\<exists>updated' e2 registry2. PregelOptimizedEngine_OptimizedApplyWrites ro' e registry results' trig = (Inr updated', e2, registry2) \<and>
    set updated' = set updated \<and> (\<forall>k. mget (channels registry2) k = mget (channels registry1) k) \<and>
    (\<forall>k. version_at (oe_channelVersions e2) k = version_at (oe_channelVersions e1) k)"
proof -
  note key = sort_slice_key [of _ result_less result_rank, OF result_less_rank]
  obtain w where col: "optimized_collect [] (sort_key result_rank results) = Inr w"
    using run by (auto simp: PregelOptimizedEngine_OptimizedApplyWrites_def key split: sum.splits)
  have wf: "mwf w" using mwf_optimized_collect [OF col] by simp
  obtain e' r' u where loop: "optimized_loop e registry [] (range_entries ro w) = (None, e', r', u)"
    using run col by (auto simp: PregelOptimizedEngine_OptimizedApplyWrites_def key split: prod.splits option.splits)
  have acc: "optimized_accepts registry (n, vs)" if "mget w n = Some vs" for n vs
    using optimized_loop_accepts [OF loop range_entries_distinct [OF assms(1) wf]] that by (auto simp: range_entries_mem [OF assms(1)])
  have "sort_key result_rank results = sort_key result_rank results'"
    by (rule sort_key_unique [OF assms(3,4)])
  then have col': "optimized_collect [] (sort_key result_rank results') = Inr w" using col by simp
  obtain u1 f1 s1 where one: "PregelOptimizedEngine_OptimizedApplyWrites ro e registry results trig = (Inr u1, f1, finish_channels (oe_config e) u1 trig s1)"
    "set u1 = {n. \<exists>vs. mget w n = Some vs \<and> snd (optimized_written registry n vs)}"
    "\<And>k. mget (channels s1) k = (case mget w k of Some vs \<Rightarrow> fst (optimized_written registry k vs) | None \<Rightarrow> mget (channels registry) k)"
    "\<And>k. version_at (oe_channelVersions f1) k = version_at (oe_channelVersions e) k +
       (case mget w k of Some vs \<Rightarrow> if snd (optimized_written registry k vs) \<and> oc_BumpStep (oe_config e) then 1 else 0 | None \<Rightarrow> 0)"
    using optimized_apply_ok [OF assms(1) col acc, of e trig] by blast
  obtain u2 f2 s2 where two: "PregelOptimizedEngine_OptimizedApplyWrites ro' e registry results' trig = (Inr u2, f2, finish_channels (oe_config e) u2 trig s2)"
    "set u2 = {n. \<exists>vs. mget w n = Some vs \<and> snd (optimized_written registry n vs)}"
    "\<And>k. mget (channels s2) k = (case mget w k of Some vs \<Rightarrow> fst (optimized_written registry k vs) | None \<Rightarrow> mget (channels registry) k)"
    "\<And>k. version_at (oe_channelVersions f2) k = version_at (oe_channelVersions e) k +
       (case mget w k of Some vs \<Rightarrow> if snd (optimized_written registry k vs) \<and> oc_BumpStep (oe_config e) then 1 else 0 | None \<Rightarrow> 0)"
    using optimized_apply_ok [OF assms(2) col' acc, of e trig] by blast
  have "mget (channels (finish_channels (oe_config e) u2 trig s2)) k = mget (channels (finish_channels (oe_config e) u1 trig s1)) k" for k
    by (rule finish_channels_cong) (simp_all add: one two)
  then show ?thesis using run one two by auto
qed

text \<open>What a result must not do for the two engines to agree: return nil, or a value that is an overwrite.\<close>

definition plain_result :: "TaskResult \<Rightarrow> bool" where
  "plain_result r \<longleftrightarrow> tr_Path r = [] \<and>
     (tr_Err r = None \<longrightarrow> (\<exists>m. toMap (tr_Output r) = Inr m \<and> tr_Output r \<noteq> GNil \<and> list_all (\<lambda>(k, v). \<not> snd (unwrap v)) m))"

lemma add_writes_agree:
  "list_all (\<lambda>(k, v). \<not> snd (unwrap v)) es \<Longrightarrow> fst (collect_output name (w, p) es) = add_writes w es"
proof (induction es arbitrary: w p)
  case (Cons x es)
  obtain k v where x: "x = (k, v)" by (cases x)
  then have "unwrap v = (v, False)" using Cons.prems by (auto simp: unwrap_def split: gvalue.splits)
  then show ?case using Cons x by (cases "mget w k") (simp_all add: add_writes_def entry_def)
qed (simp add: add_writes_def)

lemma collect_agree:
  assumes maps: "\<And>n node. Engine_getNode e n = Some node \<Longrightarrow> n_FieldMapping node = []"
  shows "list_all plain_result rs \<Longrightarrow> collect_writes e (w, p) rs = Inr (w', p') \<Longrightarrow> optimized_collect w rs = Inr w'"
proof (induction rs arbitrary: w p)
  case (Cons r rs)
  have node: "(case Engine_getNode e n of Some node \<Rightarrow> applyFieldMapping m (n_FieldMapping node) | None \<Rightarrow> Inr m) = Inr m" for n m
    using maps by (auto simp: applyFieldMapping_def split: option.splits)
  show ?case
  proof (cases "tr_Err r = None")
    case True
    then obtain m where m: "toMap (tr_Output r) = Inr m" "tr_Output r \<noteq> GNil" "list_all (\<lambda>(k, v). \<not> snd (unwrap v)) m"
      using Cons.prems(1) by (auto simp: plain_result_def)
    obtain w1 p1 where c: "collect_output (tr_Name r) (w, p) m = (w1, p1)" by fastforce
    then have "w1 = add_writes w m" using add_writes_agree [OF m(3), of "tr_Name r" w p] by simp
    then show ?thesis using Cons True m c by (simp add: node)
  qed (use Cons in auto)
qed simp

lemma sort_rank_name: "list_all plain_result rs \<Longrightarrow> sort_key result_rank rs = sort_key tr_Name rs"
proof (induction rs)
  case (Cons r rs)
  have "insort_key result_rank r ys = insort_key tr_Name r ys" if "list_all plain_result ys" for ys
    using that Cons.prems by (induction ys) (auto simp: result_rank_def plain_result_def less_eq_prod_def)
  moreover have "list_all plain_result (sort_key tr_Name rs)" using Cons.prems by (simp add: list_all_iff)
  ultimately show ?case using Cons by (simp add: sort_key_def)
qed simp

lemma SetVersion_twice [simp]: "Channel_SetVersion (Channel_SetVersion ch v) v' = Channel_SetVersion ch v'"
  by (cases ch) (simp_all add: BaseChannel_SetVersion_def)


text \<open>The rank of a queued task, and queues whose numbers are small enough for the differences in \<open>Compare\<close> not to wrap around.\<close>

definition queue_rank :: "TaskWithPriority \<Rightarrow> int \<times> nat \<times> string list" where
  "queue_rank t = (sint (twp_Priority t), length (twp_Path t), twp_Path t)"

definition moderate :: "TaskWithPriority \<Rightarrow> bool" where
  "moderate t \<longleftrightarrow> sint (twp_Priority t) \<in> {- (2 ^ 62) ..< 2 ^ 62} \<and> length (twp_Path t) < 2 ^ 62"

lemma sint_diff_moderate:
  assumes "sint (a :: goint) \<in> {- (2 ^ 62) ..< 2 ^ 62}" and "sint b \<in> {- (2 ^ 62) ..< 2 ^ 62}"
  shows "sint (a - b) = sint a - sint b"
  using assms by (auto simp: sint_word_ariths intro!: signed_take_bit_int_eq_self)

lemma Compare_moderate:
  assumes "moderate t" and "moderate u"
  shows "sint (TaskPriority_Compare (task_priority t) (task_priority u)) < 0 \<longleftrightarrow> queue_rank t < queue_rank u"
proof -
  have len: "sint (of_nat (length (twp_Path v)) :: goint) = int (length (twp_Path v))" if "moderate v" for v
    using that by (simp add: moderate_def signed_of_nat signed_take_bit_int_eq_self)
  have prio: "sint (twp_Priority t - twp_Priority u) = sint (twp_Priority t) - sint (twp_Priority u)"
    using assms by (intro sint_diff_moderate) (auto simp: moderate_def)
  have diff: "sint (of_nat (length (twp_Path t)) - of_nat (length (twp_Path u)) :: goint) = int (length (twp_Path t)) - int (length (twp_Path u))"
    using sint_diff_moderate [of "of_nat (length (twp_Path t))" "of_nat (length (twp_Path u))"] assms by (simp add: len) (simp add: moderate_def)
  have pc: "sint (of_int (path_compare (twp_Path t) (twp_Path u)) :: goint) = path_compare (twp_Path t) (twp_Path u)"
    using path_compare_range [of "twp_Path t" "twp_Path u"] by auto
  have eq: "twp_Priority t = twp_Priority u \<longleftrightarrow> sint (twp_Priority t) = sint (twp_Priority u)" by (auto intro: signed_word_eqI)
  show ?thesis
    by (auto simp: TaskPriority_Compare_def task_priority_def queue_rank_def less_prod_def prio diff pc eq path_compare_less)
qed

text \<open>\<open>GetNextPriorityTask\<close> takes out the first task in the lexicographic order of priority, length of the path and path, and keeps the
  others, as long as the numbers are small enough for their differences not to overflow.\<close>

theorem next_task_is_first:
  assumes "list_all moderate (oe_taskPriorityQueue e)" and "PregelOptimizedEngine_GetNextPriorityTask e = Some (t, e')"
  shows "mset (oe_taskPriorityQueue e) = add_mset t (mset (oe_taskPriorityQueue e')) \<and>
    list_all (\<lambda>u. queue_rank t \<le> queue_rank u) (oe_taskPriorityQueue e')"
proof -
  have "sort_slice (\<lambda>t u. sint (TaskPriority_Compare (task_priority t) (task_priority u)) < 0) (oe_taskPriorityQueue e) =
      sort_key queue_rank (oe_taskPriorityQueue e)"
    using assms(1) by (intro sort_slice_key Compare_moderate) (auto simp: list_all_iff)
  then have queue: "sort_key queue_rank (oe_taskPriorityQueue e) = t # oe_taskPriorityQueue e'"
    using assms(2) by (auto simp: PregelOptimizedEngine_GetNextPriorityTask_def split: list.splits)
  then have "sorted (map queue_rank (t # oe_taskPriorityQueue e'))" by (metis sorted_sort_key)
  moreover have "mset (oe_taskPriorityQueue e) = mset (t # oe_taskPriorityQueue e')" by (metis queue mset_sort)
  ultimately show ?thesis by (simp add: list_all_iff)
qed

definition named_task :: "string \<Rightarrow> Task" where
  "named_task n = \<lparr>tk_ID = [], tk_Name = n, tk_Func = None, tk_Channels = [], tk_Path = [], tk_Triggers = [], tk_RetryPolicy = None\<rparr>"

definition three_queued :: PregelOptimizedEngine where
  "three_queued = fold (\<lambda>(n, p) e. queue_task e (named_task n) p []) [(''b'', 5), (''a'', 2), (''c'', 7)] (NewPregelOptimizedEngine None None)"

theorem next_task_is_first_witness:
  "case PregelOptimizedEngine_GetNextPriorityTask three_queued of
     None \<Rightarrow> False
   | Some (t, e') \<Rightarrow> tk_Name (twp_Task t) = ''a'' \<and> list_all (\<lambda>u. queue_rank t \<le> queue_rank u) (oe_taskPriorityQueue e')"
proof -
  have mod: "list_all moderate (oe_taskPriorityQueue three_queued)"
    by (simp add: three_queued_def queue_task_def NewPregelOptimizedEngine_def moderate_def)
  have name: "map_option (\<lambda>(t, e'). tk_Name (twp_Task t)) (PregelOptimizedEngine_GetNextPriorityTask three_queued) = Some ''a''" by code_simp
  then obtain t e' where pop: "PregelOptimizedEngine_GetNextPriorityTask three_queued = Some (t, e')" by auto
  then show ?thesis using pop next_task_is_first [OF mod pop] name by simp
qed

definition x_registry :: Registry where
  "x_registry = Registry_Register NewRegistry ''x'' (CLastValue (NewLastValue None))"

definition quiet_engine :: PregelOptimizedEngine where
  "quiet_engine = NewPregelOptimizedEngine None (Some \<lparr>oc_BumpStep = True, oc_FinishNotification = False, oc_TaskPriority = True\<rparr>)"

lemma one_write_runs:
  "fst (PregelOptimizedEngine_OptimizedApplyWrites (\<lambda>ks. ks) quiet_engine x_registry [sample_result ''a'' (GBool True)] []) = Inr [''x'']"
  by code_simp

theorem optimized_writes_deterministic_witness:
  "\<exists>updated' e2 registry2. PregelOptimizedEngine_OptimizedApplyWrites rev quiet_engine x_registry [sample_result ''a'' (GBool True)] [] =
     (Inr updated', e2, registry2) \<and> set updated' = {''x''}"
proof -
  let ?run = "PregelOptimizedEngine_OptimizedApplyWrites (\<lambda>ks. ks) quiet_engine x_registry [sample_result ''a'' (GBool True)] []"
  have run: "?run = (Inr [''x''], fst (snd ?run), snd (snd ?run))" using one_write_runs by (metis prod.collapse)
  show ?thesis
    using optimized_writes_deterministic [OF range_order_id range_order_rev _ _ run, of "[sample_result ''a'' (GBool True)]"] by auto
qed


section \<open>Deviations\<close>

text \<open>Readiness is reversed: after \<open>AddTaskDependency(from, to)\<close>, documented as \<open>from\<close> depends on \<open>to\<close>, the dependent task is ready at once and
  the task it depends on waits for it.\<close>

theorem readiness_reversed:
  assumes "from \<noteq> to"
  shows "PregelOptimizedEngine_IsTaskReady (PregelOptimizedEngine_AddTaskDependency (NewPregelOptimizedEngine c conf) from to) from \<and>
    \<not> PregelOptimizedEngine_IsTaskReady (PregelOptimizedEngine_AddTaskDependency (NewPregelOptimizedEngine c conf) from to) to"
  using assms
  by (simp add: PregelOptimizedEngine_IsTaskReady_def PregelOptimizedEngine_AddTaskDependency_def NewPregelOptimizedEngine_def entry_def flag_def mget_Cons)

text \<open>\<open>BumpStep\<close> is documented to bump the dependent tasks that have not seen the latest values; a task that has seen other channels
  but not an updated one is not bumped, and one that has seen them all is.\<close>

theorem bump_skips_unseen:
  assumes "oe_taskDependencies e = [(t, [d])]" and "mget (oe_seenChannels e) d = Some seen"
  shows "oe_stepQueue (PregelOptimizedEngine_BumpStep e t step [ch]) (step + 1) =
    (if flag seen ch then Some ((case oe_stepQueue e (step + 1) of Some ts \<Rightarrow> ts | None \<Rightarrow> []) @ [d]) else oe_stepQueue e (step + 1))"
  using assms by (simp add: PregelOptimizedEngine_BumpStep_def bump_task_def bump_ready_def entry_def mget_Cons Let_def)

text \<open>Where the engine accepts, the optimised version fails or loses a write: two values for one channel, a task that returns nil, a
  channel that is not registered.\<close>

theorem optimized_differs:
  "isl (fst (PregelOptimizedEngine_OptimizedApplyWrites (\<lambda>ks. ks) quiet_engine x_registry [sample_result ''a'' (GBool True), sample_result ''b'' (GBool False)] [])) \<and>
   \<not> isl (fst (Engine_applyWrites (\<lambda>ks. ks) (NewEngine sample_graph []) sample_state x_registry [sample_result ''a'' (GBool True), sample_result ''b'' (GBool False)] [])) \<and>
   isl (fst (PregelOptimizedEngine_OptimizedApplyWrites (\<lambda>ks. ks) quiet_engine x_registry [(sample_result ''a'' GNil)\<lparr>tr_Output := GNil\<rparr>] [])) \<and>
   fst (PregelOptimizedEngine_OptimizedApplyWrites (\<lambda>ks. ks) quiet_engine NewRegistry [sample_result ''a'' (GBool True)] []) = Inr [] \<and>
   fst (Engine_applyWrites (\<lambda>ks. ks) (NewEngine sample_graph []) sample_state NewRegistry [sample_result ''a'' (GBool True)] []) = Inr [''x'']"
  by code_simp

text \<open>The difference of two priorities can overflow: the least priority compares greater than 1.\<close>

theorem compare_overflows:
  "sint (TaskPriority_Compare (NewTaskPriority [] [] (- (2 ^ 63))) (NewTaskPriority [] [] 1)) > 0"
  by code_simp

end
