(* ===== verification/Background.thy ===== *)
theory Background
  imports TaskQueues
begin

text \<open>
  The worker pool of \<open>pregel/background.go\<close> as a step relation.  A step is what one goroutine does between two points where another can
  interfere: a critical section, a send, a receive, the closing of a channel.  \<open>be_pending\<close> are the tasks whose \<open>Submit\<close> waits to send,
  \<open>be_busy\<close> those a worker executes, \<open>be_idle\<close> counts the workers that wait.  \<open>be_delivered\<close> are the results sent to the channels of the
  tasks, each of which has room for the one result sent to it.  \<open>be_dropped\<close> are the tasks whose \<open>Submit\<close> gave up,
  \<open>be_submitted\<close> all tasks that were registered.  A panic stops the process.
\<close>

record BackgroundTaskResult =
  br_TaskID :: string
  br_Name :: string
  br_Output :: gvalue
  br_Err :: "gerror option"

record BackgroundExecutor =
  be_maxWorkers :: goint
  be_queueSize :: goint
  be_taskQueue :: "BackgroundTask list"
  be_queueClosed :: bool
  be_results :: "BackgroundTaskResult list"
  be_running :: bool
  be_stopClosed :: bool
  be_stopping :: nat
  be_activeTasks :: "BackgroundTask gomap"
  be_cancelled :: "bool gomap"
  be_idle :: nat
  be_busy :: "BackgroundTask list"
  be_pending :: "BackgroundTask list"
  be_delivered :: "BackgroundTaskResult list"
  be_dropped :: "BackgroundTask list"
  be_submitted :: "BackgroundTask list"
  be_panicked :: bool

definition NewBackgroundExecutor :: "goint \<Rightarrow> goint \<Rightarrow> BackgroundExecutor" where
  "NewBackgroundExecutor maxWorkers queueSize =
     \<lparr>be_maxWorkers = (if sint maxWorkers \<le> 0 then 10 else maxWorkers), be_queueSize = (if sint queueSize \<le> 0 then 100 else queueSize),
      be_taskQueue = [], be_queueClosed = False, be_results = [], be_running = False, be_stopClosed = False, be_stopping = 0,
      be_activeTasks = [], be_cancelled = [], be_idle = 0, be_busy = [], be_pending = [], be_delivered = [], be_dropped = [], be_submitted = [], be_panicked = False\<rparr>"

definition BackgroundExecutor_Start :: "BackgroundExecutor \<Rightarrow> BackgroundExecutor" where
  "BackgroundExecutor_Start e =
     (if be_running e then e
      else e\<lparr>be_running := True, be_stopClosed := False, be_idle := be_idle e + nat (sint (be_maxWorkers e))\<rparr>)"

text \<open>The first half of \<open>Stop\<close>, which closes the stop channel, and the second, after the workers have ended or the timeout has passed.\<close>

definition stop_signal :: "BackgroundExecutor \<Rightarrow> BackgroundExecutor" where
  "stop_signal e = (if be_running e then e\<lparr>be_running := False, be_stopClosed := True, be_stopping := be_stopping e + 1\<rparr> else e)"

definition stop_close :: "BackgroundExecutor \<Rightarrow> BackgroundExecutor" where
  "stop_close e =
     (if be_queueClosed e then e\<lparr>be_stopping := be_stopping e - 1, be_panicked := True\<rparr>
      else e\<lparr>be_stopping := be_stopping e - 1, be_queueClosed := True\<rparr>)"

text \<open>\<open>Submit\<close>: the registration of the task, and the attempt to send it.\<close>

definition submit_register :: "BackgroundExecutor \<Rightarrow> BackgroundTask \<Rightarrow> gerror + BackgroundExecutor" where
  "submit_register e task =
     (if be_running e
      then Inr (e\<lparr>be_activeTasks := mput (be_activeTasks e) (bt_ID task) task, be_pending := be_pending e @ [task],
              be_submitted := be_submitted e @ [task]\<rparr>)
      else Inl (ErrorNew ''executor not running''))"

definition submit_send :: "BackgroundExecutor \<Rightarrow> BackgroundTask \<Rightarrow> BackgroundExecutor" where
  "submit_send e task =
     (if be_queueClosed e then e\<lparr>be_panicked := True\<rparr>
      else e\<lparr>be_pending := remove1 task (be_pending e), be_taskQueue := be_taskQueue e @ [task]\<rparr>)"

definition submit_give_up :: "BackgroundExecutor \<Rightarrow> BackgroundTask \<Rightarrow> BackgroundExecutor" where
  "submit_give_up e task =
     e\<lparr>be_pending := remove1 task (be_pending e), be_cancelled := mput (be_cancelled e) (bt_ID task) True, be_dropped := be_dropped e @ [task]\<rparr>"

definition BackgroundExecutor_GetResult :: "BackgroundExecutor \<Rightarrow> (BackgroundTaskResult \<times> BackgroundExecutor) option" where
  "BackgroundExecutor_GetResult e = (case be_results e of [] \<Rightarrow> None | r # rs \<Rightarrow> Some (r, e\<lparr>be_results := rs\<rparr>))"

definition BackgroundExecutor_CancelTask :: "BackgroundExecutor \<Rightarrow> string \<Rightarrow> bool \<times> BackgroundExecutor" where
  "BackgroundExecutor_CancelTask e taskID =
     (if mhas (be_activeTasks e) taskID then (True, e\<lparr>be_cancelled := mput (be_cancelled e) taskID True\<rparr>) else (False, e))"

definition BackgroundExecutor_GetActiveTasks :: "(string list \<Rightarrow> string list) \<Rightarrow> BackgroundExecutor \<Rightarrow> string list" where
  "BackgroundExecutor_GetActiveTasks ro e = ro (mkeys (be_activeTasks e))"

text \<open>A worker takes the next task, executes it, reports the result.  \<open>sent\<close> says whether the channel of all results takes it before the
  timeout; a send to a closed channel panics.\<close>

definition worker_take :: "BackgroundExecutor \<Rightarrow> BackgroundExecutor" where
  "worker_take e =
     (case be_taskQueue e of [] \<Rightarrow> e | t # ts \<Rightarrow> e\<lparr>be_taskQueue := ts, be_idle := be_idle e - 1, be_busy := be_busy e @ [t]\<rparr>)"

definition task_result :: "BackgroundExecutor \<Rightarrow> BackgroundTask \<Rightarrow> BackgroundTaskResult" where
  "task_result e t =
     (let (output, err) = bt_Func t (mhas (be_cancelled e) (bt_ID t))
      in \<lparr>br_TaskID = bt_ID t, br_Name = bt_Name t, br_Output = output, br_Err = err\<rparr>)"

definition executeTask :: "bool \<Rightarrow> BackgroundExecutor \<Rightarrow> BackgroundTask \<Rightarrow> BackgroundExecutor" where
  "executeTask sent e t =
     (let result = task_result e t;
          e1 = e\<lparr>be_busy := remove1 t (be_busy e), be_activeTasks := mdel (be_activeTasks e) (bt_ID t), be_delivered := be_delivered e @ [result]\<rparr>
      in if be_queueClosed e then e1\<lparr>be_panicked := True\<rparr>
         else if sent then e1\<lparr>be_idle := be_idle e + 1, be_results := be_results e @ [result]\<rparr>
         else e1\<lparr>be_idle := be_idle e + 1\<rparr>)"

inductive bg_step :: "BackgroundExecutor \<Rightarrow> BackgroundExecutor \<Rightarrow> bool" where
  start: "\<not> be_panicked e \<Longrightarrow> bg_step e (BackgroundExecutor_Start e)"
| signal: "\<not> be_panicked e \<Longrightarrow> bg_step e (stop_signal e)"
| close: "\<not> be_panicked e \<Longrightarrow> 0 < be_stopping e \<Longrightarrow> bg_step e (stop_close e)"
| register: "\<not> be_panicked e \<Longrightarrow> submit_register e task = Inr e' \<Longrightarrow> bg_step e e'"
| send: "\<not> be_panicked e \<Longrightarrow> task \<in> set (be_pending e) \<Longrightarrow> int (length (be_taskQueue e)) < sint (be_queueSize e) \<or> be_queueClosed e \<Longrightarrow>
    bg_step e (submit_send e task)"
| give_up: "\<not> be_panicked e \<Longrightarrow> task \<in> set (be_pending e) \<Longrightarrow> bg_step e (submit_give_up e task)"
| receive: "\<not> be_panicked e \<Longrightarrow> BackgroundExecutor_GetResult e = Some (r, e') \<Longrightarrow> bg_step e e'"
| cancel: "\<not> be_panicked e \<Longrightarrow> bg_step e (snd (BackgroundExecutor_CancelTask e taskID))"
| take: "\<not> be_panicked e \<Longrightarrow> 0 < be_idle e \<Longrightarrow> be_taskQueue e \<noteq> [] \<Longrightarrow> bg_step e (worker_take e)"
| exit: "\<not> be_panicked e \<Longrightarrow> 0 < be_idle e \<Longrightarrow> be_stopClosed e \<or> (be_queueClosed e \<and> be_taskQueue e = []) \<Longrightarrow> bg_step e (e\<lparr>be_idle := be_idle e - 1\<rparr>)"
| finish: "\<not> be_panicked e \<Longrightarrow> t \<in> set (be_busy e) \<Longrightarrow> sent \<longrightarrow> int (length (be_results e)) < sint (be_queueSize e) \<Longrightarrow> bg_step e (executeTask sent e t)"

inductive bg_reach :: "goint \<Rightarrow> goint \<Rightarrow> BackgroundExecutor \<Rightarrow> bool" for maxWorkers queueSize where
  new: "bg_reach maxWorkers queueSize (NewBackgroundExecutor maxWorkers queueSize)"
| step: "bg_reach maxWorkers queueSize e \<Longrightarrow> bg_step e e' \<Longrightarrow> bg_reach maxWorkers queueSize e'"

section \<open>Lemmas\<close>

lemmas bg_defs = BackgroundExecutor_Start_def stop_signal_def stop_close_def submit_register_def submit_send_def submit_give_up_def
  BackgroundExecutor_GetResult_def BackgroundExecutor_CancelTask_def worker_take_def executeTask_def

text \<open>The executor has never been stopped.\<close>

definition unstopped :: "BackgroundExecutor \<Rightarrow> bool" where
  "unstopped e \<longleftrightarrow> be_stopping e = 0 \<and> \<not> be_queueClosed e"

definition pool_inv :: "BackgroundExecutor \<Rightarrow> bool" where
  "pool_inv e \<longleftrightarrow> 0 < sint (be_maxWorkers e) \<and> 0 < sint (be_queueSize e) \<and>
     int (length (be_taskQueue e)) \<le> sint (be_queueSize e) \<and> int (length (be_results e)) \<le> sint (be_queueSize e) \<and>
     (unstopped e \<longrightarrow> \<not> be_panicked e \<and> \<not> be_stopClosed e \<and> be_idle e + length (be_busy e) = (if be_running e then nat (sint (be_maxWorkers e)) else 0))"

lemma remove1_length: "x \<in> set xs \<Longrightarrow> Suc (length (remove1 x xs)) = length xs"
  by (auto simp: length_remove1 dest: length_pos_if_in_set)

lemma pool_inv_step: "bg_step e e' \<Longrightarrow> pool_inv e \<Longrightarrow> pool_inv e'"
proof (induction rule: bg_step.induct)
  case (finish e t sent)
  then show ?case using remove1_length [of t "be_busy e"] by (auto simp: pool_inv_def unstopped_def executeTask_def Let_def)
qed (auto simp: pool_inv_def unstopped_def bg_defs Let_def split: if_splits list.splits)

lemma pool_inv_reach: "bg_reach maxWorkers queueSize e \<Longrightarrow> pool_inv e"
proof (induction rule: bg_reach.induct)
  case new
  then show ?case by (auto simp: pool_inv_def unstopped_def NewBackgroundExecutor_def)
qed (rule pool_inv_step)

definition ids :: "BackgroundTask list \<Rightarrow> string multiset" where
  "ids ts = image_mset bt_ID (mset ts)"

lemma ids_simps [simp]: "ids [] = {#}" "ids (t # ts) = add_mset (bt_ID t) (ids ts)" "ids (ts @ us) = ids ts + ids us"
  by (simp_all add: ids_def)

lemma ids_remove1: "t \<in> set ts \<Longrightarrow> ids ts = add_mset (bt_ID t) (ids (remove1 t ts))"
  by (simp add: ids_def) (metis image_mset_add_mset insert_DiffM set_mset_mset)

definition task_inv :: "BackgroundExecutor \<Rightarrow> bool" where
  "task_inv e \<longleftrightarrow>
     ids (be_submitted e) = ids (be_pending e) + ids (be_taskQueue e) + ids (be_busy e) + ids (be_dropped e) + image_mset br_TaskID (mset (be_delivered e))"

lemma task_result_ID [simp]: "br_TaskID (task_result e t) = bt_ID t"
  by (simp add: task_result_def case_prod_beta)

lemma task_inv_step: "bg_step e e' \<Longrightarrow> task_inv e \<Longrightarrow> task_inv e'"
proof (induction rule: bg_step.induct)
  case (finish e t sent)
  then show ?case using ids_remove1 [of t "be_busy e"] by (auto simp: task_inv_def executeTask_def Let_def)
next
  case (send e t)
  then show ?case using ids_remove1 [of t "be_pending e"] by (auto simp: task_inv_def submit_send_def)
next
  case (give_up e t)
  then show ?case using ids_remove1 [of t "be_pending e"] by (auto simp: task_inv_def submit_give_up_def)
qed (auto simp: task_inv_def bg_defs Let_def split: if_splits list.splits)

lemma task_inv_reach: "bg_reach maxWorkers queueSize e \<Longrightarrow> task_inv e"
proof (induction rule: bg_reach.induct)
  case new
  then show ?case by (simp add: task_inv_def NewBackgroundExecutor_def)
qed (rule task_inv_step)

section \<open>Properties\<close>

text \<open>A pool of two workers with one task in its queue.\<close>

definition sample_task :: BackgroundTask where
  "sample_task = \<lparr>bt_ID = ''t'', bt_Name = ''n'', bt_Func = (\<lambda>c. (GBool c, None)), bt_Priority = 0, bt_Created = 0\<rparr>"

definition sample_pool :: BackgroundExecutor where
  "sample_pool = submit_send (projr (submit_register (BackgroundExecutor_Start (NewBackgroundExecutor 2 2)) sample_task)) sample_task"

lemma sample_pool_reach: "bg_reach 2 2 sample_pool"
proof -
  let ?e = "BackgroundExecutor_Start (NewBackgroundExecutor 2 2)"
  have start: "bg_reach 2 2 ?e" by (intro bg_reach.step [OF bg_reach.new] bg_step.start) (simp add: NewBackgroundExecutor_def)
  have reg: "submit_register ?e sample_task = Inr (projr (submit_register ?e sample_task))" (is "_ = Inr ?r")
    by (simp add: bg_defs NewBackgroundExecutor_def)
  have reach: "bg_reach 2 2 ?r" by (intro bg_reach.step [OF start] bg_step.register [OF _ reg]) (simp add: bg_defs NewBackgroundExecutor_def)
  have "bg_step ?r (submit_send ?r sample_task)" by (intro bg_step.send) (simp_all add: bg_defs NewBackgroundExecutor_def)
  then show ?thesis unfolding sample_pool_def by (rule bg_reach.step [OF reach])
qed

lemma sample_pool_fields: "unstopped sample_pool" "be_running sample_pool" "be_taskQueue sample_pool = [sample_task]" "be_busy sample_pool = []"
    "be_delivered sample_pool = []" "be_submitted sample_pool = [sample_task]"
  by (simp_all add: sample_pool_def unstopped_def bg_defs NewBackgroundExecutor_def)

text \<open>Until the executor is stopped it is safe: it never panics, exactly \<open>maxWorkers\<close> workers exist while it runs, so that never more tasks
  execute at a time, and its queues stay within their sizes.\<close>

theorem pool_bounded:
  assumes "bg_reach maxWorkers queueSize e" and "unstopped e"
  shows "\<not> be_panicked e \<and> int (length (be_busy e)) \<le> sint (be_maxWorkers e) \<and>
    (be_running e \<longrightarrow> be_idle e + length (be_busy e) = nat (sint (be_maxWorkers e))) \<and>
    int (length (be_taskQueue e)) \<le> sint (be_queueSize e) \<and> int (length (be_results e)) \<le> sint (be_queueSize e)"
  using pool_inv_reach [OF assms(1)] assms(2) by (auto simp: pool_inv_def split: if_splits)

theorem pool_bounded_witness: "\<not> be_panicked sample_pool \<and> be_idle sample_pool + length (be_busy sample_pool) = 2"
  using pool_bounded [OF sample_pool_reach sample_pool_fields(1)] sample_pool_fields(2) by (simp add: sample_pool_def bg_defs NewBackgroundExecutor_def)

text \<open>No task is lost and none runs twice: in every state, stopped or not, every task that was submitted is at exactly one place, waiting
  to be sent, in the queue, executing, given up, or delivered.\<close>

theorem tasks_conserved:
  assumes "bg_reach maxWorkers queueSize e"
  shows "ids (be_submitted e) =
    ids (be_pending e) + ids (be_taskQueue e) + ids (be_busy e) + ids (be_dropped e) + image_mset br_TaskID (mset (be_delivered e))"
  using task_inv_reach [OF assms] by (simp add: task_inv_def)

theorem tasks_conserved_witness: "ids [sample_task] = ids (be_pending sample_pool) + {#''t''#} + ids (be_dropped sample_pool)"
  using tasks_conserved [OF sample_pool_reach] by (simp add: sample_pool_fields sample_task_def)

text \<open>What the workers do: they take tasks and finish them.\<close>

inductive worker_step :: "BackgroundExecutor \<Rightarrow> BackgroundExecutor \<Rightarrow> bool" where
  take: "0 < be_idle e \<Longrightarrow> be_taskQueue e \<noteq> [] \<Longrightarrow> worker_step e (worker_take e)"
| finish: "t \<in> set (be_busy e) \<Longrightarrow> sent \<longrightarrow> int (length (be_results e)) < sint (be_queueSize e) \<Longrightarrow> worker_step e (executeTask sent e t)"

definition worker_load :: "BackgroundExecutor \<Rightarrow> nat" where
  "worker_load e = 2 * length (be_taskQueue e) + length (be_busy e)"

lemma worker_step_bg: "worker_step e e' \<Longrightarrow> \<not> be_panicked e \<Longrightarrow> bg_step e e'"
  by (induction rule: worker_step.induct) (auto intro: bg_step.intros)

lemma worker_step_load: "worker_step e e' \<Longrightarrow> Suc (worker_load e') = worker_load e"
proof (induction rule: worker_step.induct)
  case (take e)
  then show ?case by (cases "be_taskQueue e") (simp_all add: worker_load_def worker_take_def)
next
  case (finish t e sent)
  then show ?case using remove1_length [of t "be_busy e"] by (simp add: worker_load_def executeTask_def Let_def)
qed

lemma worker_step_unstopped: "worker_step e e' \<Longrightarrow> unstopped e' = unstopped e \<and> be_running e' = be_running e \<and> be_pending e' = be_pending e \<and>
    be_dropped e' = be_dropped e \<and> be_submitted e' = be_submitted e"
  by (induction rule: worker_step.induct) (auto simp: unstopped_def worker_take_def executeTask_def Let_def split: list.split)

lemma worker_progress:
  assumes "pool_inv e" and "unstopped e" and "be_running e" and "worker_load e > 0"
  shows "\<exists>e'. worker_step e e'"
proof (cases "be_busy e")
  case Nil
  then have "be_taskQueue e \<noteq> []" using assms(4) by (auto simp: worker_load_def)
  moreover have "0 < be_idle e" using assms(1-3) Nil by (simp add: pool_inv_def)
  ultimately show ?thesis using worker_step.take by blast
next
  case (Cons t ts)
  then show ?thesis using worker_step.finish [of t e False] by auto
qed

text \<open>C37: A running executor finishes what it has accepted: the workers alone, without further calls, come to a state with no task in
  the queue and none executing, in which the result of every such task has been delivered, and every run of worker steps
  is at most twice as long as there are tasks in the queue plus the number executing.\<close>

theorem accepted_tasks_finish:
  assumes "bg_reach maxWorkers queueSize e" and "unstopped e" and "be_running e"
  shows "(\<exists>e'. worker_step\<^sup>*\<^sup>* e e' \<and> be_taskQueue e' = [] \<and> be_busy e' = [] \<and>
      image_mset br_TaskID (mset (be_delivered e')) = image_mset br_TaskID (mset (be_delivered e)) + ids (be_taskQueue e) + ids (be_busy e)) \<and>
    (\<forall>n e'. (worker_step ^^ n) e e' \<longrightarrow> n \<le> 2 * length (be_taskQueue e) + length (be_busy e))"
proof
  have "\<exists>e'. worker_step\<^sup>*\<^sup>* e e' \<and> worker_load e' = 0 \<and> bg_reach maxWorkers queueSize e' \<and>
      be_pending e' = be_pending e \<and> be_dropped e' = be_dropped e \<and> be_submitted e' = be_submitted e"
    using assms
  proof (induction "worker_load e" arbitrary: e rule: less_induct)
    case less
    show ?case
    proof (cases "worker_load e = 0")
      case False
      note inv = pool_inv_reach [OF less.prems(1)]
      obtain e1 where step: "worker_step e e1" using worker_progress [OF inv less.prems(2,3)] False by blast
      have "\<not> be_panicked e" using inv less.prems(2) by (simp add: pool_inv_def)
      then have reach: "bg_reach maxWorkers queueSize e1" using bg_reach.step [OF less.prems(1)] worker_step_bg [OF step] by blast
      have "worker_load e1 < worker_load e" using worker_step_load [OF step] by simp
      with less.hyps [of e1] reach worker_step_unstopped [OF step] less.prems(2,3) show ?thesis
        using converse_rtranclp_into_rtranclp [of worker_step, OF step] by metis
    qed (use less.prems in auto)
  qed
  then obtain e' where e': "worker_step\<^sup>*\<^sup>* e e'" "worker_load e' = 0" "bg_reach maxWorkers queueSize e'"
    "be_pending e' = be_pending e" "be_dropped e' = be_dropped e" "be_submitted e' = be_submitted e" by blast
  have empty: "be_taskQueue e' = []" "be_busy e' = []" using e'(2) by (simp_all add: worker_load_def)
  have "image_mset br_TaskID (mset (be_delivered e')) = image_mset br_TaskID (mset (be_delivered e)) + ids (be_taskQueue e) + ids (be_busy e)"
    using task_inv_reach [OF assms(1)] task_inv_reach [OF e'(3)] e'(4-6) empty by (simp add: task_inv_def ac_simps)
  then show "\<exists>e'. worker_step\<^sup>*\<^sup>* e e' \<and> be_taskQueue e' = [] \<and> be_busy e' = [] \<and>
      image_mset br_TaskID (mset (be_delivered e')) = image_mset br_TaskID (mset (be_delivered e)) + ids (be_taskQueue e) + ids (be_busy e)"
    using e'(1) empty by blast
  have "worker_load e' + n = worker_load e" if "(worker_step ^^ n) e e'" for n e'
    using that by (induction n arbitrary: e') (fastforce dest: worker_step_load)+
  then show "\<forall>n e'. (worker_step ^^ n) e e' \<longrightarrow> n \<le> 2 * length (be_taskQueue e) + length (be_busy e)"
    by (metis le_add2 worker_load_def)
qed

theorem accepted_tasks_finish_witness:
  "\<exists>e'. worker_step\<^sup>*\<^sup>* sample_pool e' \<and> be_taskQueue e' = [] \<and> be_busy e' = [] \<and> image_mset br_TaskID (mset (be_delivered e')) = {#''t''#}"
  using accepted_tasks_finish [OF sample_pool_reach sample_pool_fields(1,2), THEN conjunct1] by (simp add: sample_pool_fields sample_task_def)

section \<open>Deviations\<close>

text \<open>A task whose \<open>Submit\<close> gives up stays among the active tasks: nothing removes it.\<close>

theorem given_up_stays_active:
  assumes "be_running e" and "submit_register e task = Inr e1"
  shows "mhas (be_activeTasks (submit_give_up e1 task)) (bt_ID task)"
  using assms by (auto simp: submit_register_def submit_give_up_def mhas_mget)

text \<open>An executor that was stopped and started again panics in the next \<open>Stop\<close>, which closes the task queue a second time, and in the first
  \<open>Submit\<close> that gets to send.\<close>

theorem restart_panics:
  "be_panicked (stop_close (stop_signal (BackgroundExecutor_Start (stop_close (stop_signal (BackgroundExecutor_Start (NewBackgroundExecutor n m))))))) \<and>
   (\<forall>e. submit_register (BackgroundExecutor_Start (stop_close (stop_signal (BackgroundExecutor_Start (NewBackgroundExecutor n m))))) task = Inr e \<longrightarrow>
     be_panicked (submit_send e task))"
  by (simp add: bg_defs NewBackgroundExecutor_def)

end
