(* ===== verification/Async.thy ===== *)
theory Async
  imports Retry
begin

text \<open>
  \<open>pregel/async.go\<close>: the executor that runs tasks in goroutines with a pool of slots, the pipeline around it, the limiter of single nodes and
  the priority executor.  The executor is a step relation: each task is a goroutine that waits for a slot, checks, under the lock of the
  executor, whether it was cancelled, runs, and sends its one result to a channel with room for it.  The tasks of \<open>ExecuteBatch\<close> do not
  check, and while they wait they watch the context of the batch (\<open>at_batchDone\<close>) and not their own (\<open>at_cancelled\<close>).  A task function is given
  whether the context of its task was cancelled.
\<close>

record asyncTaskResult =
  ar_TaskID :: string
  ar_Name :: string
  ar_Output :: gvalue
  ar_Err :: "gerror option"

datatype phase = Waiting | Acquired | Running | Finished asyncTaskResult

record asyncTask =
  at_Name :: string
  at_Func :: "bool \<Rightarrow> gvalue \<times> gerror option"
  at_batch :: bool
  at_hasCancel :: bool
  at_cancelled :: bool
  at_batchDone :: bool
  at_phase :: phase

record AsyncExecutor =
  ae_maxConcurrency :: goint
  ae_workerPool :: nat
  ae_activeTasks :: "string list"
  ae_tasks :: "asyncTask gomap"

definition NewAsyncExecutor :: "goint \<Rightarrow> AsyncExecutor" where
  "NewAsyncExecutor maxConcurrency =
     (let m = (if sint maxConcurrency \<le> 0 then 10 else maxConcurrency)
      in \<lparr>ae_maxConcurrency = m, ae_workerPool = nat (sint m), ae_activeTasks = [], ae_tasks = []\<rparr>)"

text \<open>The part of \<open>Execute\<close> and \<open>ExecuteBatch\<close> that runs in the caller.\<close>

definition AsyncExecutor_Execute :: "AsyncExecutor \<Rightarrow> string \<Rightarrow> string \<Rightarrow> (bool \<Rightarrow> gvalue \<times> gerror option) \<Rightarrow> AsyncExecutor" where
  "AsyncExecutor_Execute e newID name fn =
     e\<lparr>ae_activeTasks := ae_activeTasks e @ [newID],
       ae_tasks := mput (ae_tasks e) newID \<lparr>at_Name = name, at_Func = fn, at_batch = False, at_hasCancel = True, at_cancelled = False, at_batchDone = False, at_phase = Waiting\<rparr>\<rparr>"

definition register_batch :: "AsyncExecutor \<Rightarrow> string \<times> asyncTask \<Rightarrow> AsyncExecutor" where
  "register_batch e t =
     e\<lparr>ae_activeTasks := ae_activeTasks e @ [fst t], ae_tasks := mput (ae_tasks e) (fst t) ((snd t)\<lparr>at_batch := True, at_phase := Waiting\<rparr>)\<rparr>"

definition AsyncExecutor_ExecuteBatch :: "AsyncExecutor \<Rightarrow> (string \<times> asyncTask) list \<Rightarrow> AsyncExecutor" where
  "AsyncExecutor_ExecuteBatch e tasks = foldl register_batch e tasks"

definition AsyncExecutor_Cancel :: "AsyncExecutor \<Rightarrow> AsyncExecutor" where
  "AsyncExecutor_Cancel e =
     e\<lparr>ae_tasks := map (\<lambda>(i, t). (i, if i \<in> set (ae_activeTasks e) \<and> at_hasCancel t then t\<lparr>at_cancelled := True\<rparr> else t)) (ae_tasks e),
       ae_activeTasks := []\<rparr>"

definition AsyncExecutor_GetActiveTaskCount :: "AsyncExecutor \<Rightarrow> nat" where
  "AsyncExecutor_GetActiveTaskCount e = length (ae_activeTasks e)"

text \<open>One round of \<open>Wait\<close>: the error of the context, nil when no task is active, nothing when it goes on.\<close>

definition AsyncExecutor_Wait :: "AsyncExecutor \<Rightarrow> gerror option \<Rightarrow> gerror option option" where
  "AsyncExecutor_Wait e ctxDone =
     (case ctxDone of Some err \<Rightarrow> Some (Some err) | None \<Rightarrow> if AsyncExecutor_GetActiveTaskCount e = 0 then Some None else None)"

definition ctx_err :: gerror where
  "ctx_err = ErrorNew ''context canceled''"

definition set_task :: "AsyncExecutor \<Rightarrow> string \<Rightarrow> asyncTask \<Rightarrow> AsyncExecutor" where
  "set_task e i t = e\<lparr>ae_tasks := mput (ae_tasks e) i t\<rparr>"

definition end_task :: "AsyncExecutor \<Rightarrow> string \<Rightarrow> asyncTask \<Rightarrow> gvalue \<times> gerror option \<Rightarrow> AsyncExecutor" where
  "end_task e i t out =
     (set_task e i (t\<lparr>at_phase := Finished \<lparr>ar_TaskID = i, ar_Name = at_Name t, ar_Output = fst out, ar_Err = snd out\<rparr>\<rparr>))
       \<lparr>ae_activeTasks := filter (\<lambda>j. j \<noteq> i) (ae_activeTasks e)\<rparr>"

definition check_task :: "AsyncExecutor \<Rightarrow> string \<Rightarrow> asyncTask \<Rightarrow> AsyncExecutor" where
  "check_task e i t =
     (if at_cancelled t then (end_task e i t (GNil, Some ctx_err))\<lparr>ae_workerPool := ae_workerPool e + 1\<rparr>
      else set_task e i (t\<lparr>at_phase := Running\<rparr>))"

text \<open>The steps of the goroutines of the tasks, and those of the callers and contexts.\<close>

inductive task_step :: "AsyncExecutor \<Rightarrow> AsyncExecutor \<Rightarrow> bool" where
  acquire: "mget (ae_tasks e) i = Some t \<Longrightarrow> at_phase t = Waiting \<Longrightarrow> 0 < ae_workerPool e \<Longrightarrow>
    task_step e ((set_task e i (t\<lparr>at_phase := (if at_batch t then Running else Acquired)\<rparr>))\<lparr>ae_workerPool := ae_workerPool e - 1\<rparr>)"
| give_up: "mget (ae_tasks e) i = Some t \<Longrightarrow> at_phase t = Waiting \<Longrightarrow> (if at_batch t then at_batchDone t else at_cancelled t) \<Longrightarrow>
    task_step e (end_task e i t (GNil, Some ctx_err))"
| check: "mget (ae_tasks e) i = Some t \<Longrightarrow> at_phase t = Acquired \<Longrightarrow> task_step e (check_task e i t)"
| finish: "mget (ae_tasks e) i = Some t \<Longrightarrow> at_phase t = Running \<Longrightarrow>
    task_step e ((end_task e i t (at_Func t (at_cancelled t)))\<lparr>ae_workerPool := ae_workerPool e + 1\<rparr>)"

inductive async_step :: "AsyncExecutor \<Rightarrow> AsyncExecutor \<Rightarrow> bool" where
  execute: "mget (ae_tasks e) i = None \<Longrightarrow> async_step e (AsyncExecutor_Execute e i name fn)"
| batch: "distinct (map fst ts) \<Longrightarrow> \<forall>t\<in>set ts. mget (ae_tasks e) (fst t) = None \<Longrightarrow> async_step e (AsyncExecutor_ExecuteBatch e ts)"
| cancel: "async_step e (AsyncExecutor_Cancel e)"
| parent_done: "mget (ae_tasks e) i = Some t \<Longrightarrow> async_step e (set_task e i (t\<lparr>at_cancelled := True\<rparr>))"
| batch_done: "mget (ae_tasks e) i = Some t \<Longrightarrow> async_step e (set_task e i (t\<lparr>at_batchDone := True\<rparr>))"
| task: "task_step e e' \<Longrightarrow> async_step e e'"

inductive async_reach :: "goint \<Rightarrow> AsyncExecutor \<Rightarrow> bool" for m where
  new: "async_reach m (NewAsyncExecutor m)"
| step: "async_reach m e \<Longrightarrow> async_step e e' \<Longrightarrow> async_reach m e'"

section \<open>The pipeline\<close>

record AsyncPipeline =
  ap_executor :: AsyncExecutor
  ap_events :: "gvalue list"
  ap_errors :: "gerror list"
  ap_running :: bool

definition NewAsyncPipeline :: "goint \<Rightarrow> AsyncPipeline" where
  "NewAsyncPipeline maxConcurrency = \<lparr>ap_executor = NewAsyncExecutor maxConcurrency, ap_events = [], ap_errors = [], ap_running = False\<rparr>"

definition AsyncPipeline_Start :: "AsyncPipeline \<Rightarrow> AsyncPipeline" where
  "AsyncPipeline_Start p = (if ap_running p then p else p\<lparr>ap_events := [], ap_errors := [], ap_running := True\<rparr>)"

definition AsyncPipeline_Stop :: "AsyncPipeline \<Rightarrow> AsyncPipeline" where
  "AsyncPipeline_Stop p = (if ap_running p then p\<lparr>ap_executor := AsyncExecutor_Cancel (ap_executor p), ap_running := False\<rparr> else p)"

definition AsyncPipeline_EmitEvent :: "AsyncPipeline \<Rightarrow> gvalue \<Rightarrow> AsyncPipeline" where
  "AsyncPipeline_EmitEvent p event = (if ap_running p \<and> length (ap_events p) < 100 then p\<lparr>ap_events := ap_events p @ [event]\<rparr> else p)"

definition AsyncPipeline_EmitError :: "AsyncPipeline \<Rightarrow> gerror \<Rightarrow> AsyncPipeline" where
  "AsyncPipeline_EmitError p err = (if ap_running p \<and> length (ap_errors p) < 10 then p\<lparr>ap_errors := ap_errors p @ [err]\<rparr> else p)"

definition AsyncPipeline_IsRunning :: "AsyncPipeline \<Rightarrow> bool" where
  "AsyncPipeline_IsRunning p = ap_running p"

text \<open>With a retry configuration \<open>fn\<close> is the given function under the retry executor.\<close>

definition AsyncPipeline_ExecuteNode :: "AsyncPipeline \<Rightarrow> string \<Rightarrow> string \<Rightarrow> (bool \<Rightarrow> gvalue \<times> gerror option) \<Rightarrow> AsyncPipeline" where
  "AsyncPipeline_ExecuteNode p newID name fn = p\<lparr>ap_executor := AsyncExecutor_Execute (ap_executor p) newID name fn\<rparr>"

section \<open>Limits of single nodes\<close>

text \<open>A limit is a channel with a capacity and the tokens in it.\<close>

record ConcurrencyLimiter =
  cl_limits :: "(nat \<times> nat) gomap"

definition NewConcurrencyLimiter :: ConcurrencyLimiter where
  "NewConcurrencyLimiter = \<lparr>cl_limits = []\<rparr>"

definition ConcurrencyLimiter_SetLimit :: "ConcurrencyLimiter \<Rightarrow> string \<Rightarrow> goint \<Rightarrow> gerror + ConcurrencyLimiter" where
  "ConcurrencyLimiter_SetLimit l node limit =
     (if sint limit < 0 then Inl (ErrorNew ''makechan: size out of range'')
      else Inr (l\<lparr>cl_limits := mput (cl_limits l) node (nat (sint limit), nat (sint limit))\<rparr>))"

text \<open>The result of \<open>Acquire\<close>: nothing while it waits, otherwise the error of the context or success.  \<open>slot\<close> is the choice of the
  \<open>select\<close> when the context has ended and a token is there.\<close>

definition ConcurrencyLimiter_Acquire :: "ConcurrencyLimiter \<Rightarrow> string \<Rightarrow> gerror option \<Rightarrow> bool \<Rightarrow> (gerror + ConcurrencyLimiter) option" where
  "ConcurrencyLimiter_Acquire l node ctxDone slot =
     (case mget (cl_limits l) node of
        None \<Rightarrow> Some (Inr l)
      | Some (cap, tokens) \<Rightarrow>
          if tokens > 0 \<and> (slot \<or> ctxDone = None) then Some (Inr (l\<lparr>cl_limits := mput (cl_limits l) node (cap, tokens - 1)\<rparr>))
          else map_option Inl ctxDone)"

definition ConcurrencyLimiter_Release :: "ConcurrencyLimiter \<Rightarrow> string \<Rightarrow> ConcurrencyLimiter" where
  "ConcurrencyLimiter_Release l node =
     (case mget (cl_limits l) node of
        None \<Rightarrow> l
      | Some (cap, tokens) \<Rightarrow> if tokens < cap then l\<lparr>cl_limits := mput (cl_limits l) node (cap, tokens + 1)\<rparr> else l)"

section \<open>The priority executor\<close>

record PriorityTask =
  pt_Func :: "gvalue \<times> gerror option"
  pt_Priority :: goint

record PriorityExecutor =
  pe_capacity :: nat
  pe_tasks :: "PriorityTask list"

definition NewPriorityExecutor :: "nat \<Rightarrow> PriorityExecutor" where
  "NewPriorityExecutor bufferSize = \<lparr>pe_capacity = bufferSize, pe_tasks = []\<rparr>"

definition PriorityExecutor_Submit :: "PriorityExecutor \<Rightarrow> PriorityTask \<Rightarrow> gerror option \<times> PriorityExecutor" where
  "PriorityExecutor_Submit e task =
     (if length (pe_tasks e) < pe_capacity e then (None, e\<lparr>pe_tasks := pe_tasks e @ [task]\<rparr>) else (Some (ErrorNew ''task queue full''), e))"

text \<open>One round of the loop of \<open>Execute\<close>: the result of the task received.\<close>

definition PriorityExecutor_round :: "PriorityExecutor \<Rightarrow> (gvalue \<times> gerror option \<times> goint) option \<times> PriorityExecutor" where
  "PriorityExecutor_round e =
     (case pe_tasks e of
        [] \<Rightarrow> (None, e)
      | t # ts \<Rightarrow> (Some (fst (pt_Func t), snd (pt_Func t), pt_Priority t), e\<lparr>pe_tasks := ts\<rparr>))"

section \<open>Lemmas\<close>

definition holds_slot :: "asyncTask \<Rightarrow> bool" where
  "holds_slot t \<longleftrightarrow> at_phase t = Acquired \<or> at_phase t = Running"

definition tally :: "('v \<Rightarrow> nat) \<Rightarrow> 'v gomap \<Rightarrow> nat" where
  "tally f m = sum_list (map (\<lambda>e. f (snd e)) m)"

lemma tally_mput: "mwf m \<Longrightarrow> tally f (mput m k v) + (case mget m k of Some t \<Rightarrow> f t | None \<Rightarrow> 0) = tally f m + f v"
proof (induction m)
  case (Cons e m)
  have "mget m k = None" if "k < fst e"
    using Cons.prems that by (auto simp: mwf_Cons mget_def map_of_eq_None_iff dest: order.strict_trans)
  then show ?case using Cons by (auto simp: tally_def mwf_Cons mget_Cons)
qed (simp add: tally_def)

definition holding :: "AsyncExecutor \<Rightarrow> nat" where
  "holding e = tally (\<lambda>t. if holds_slot t then 1 else 0) (ae_tasks e)"

definition async_inv :: "AsyncExecutor \<Rightarrow> bool" where
  "async_inv e \<longleftrightarrow> mwf (ae_tasks e) \<and> ae_workerPool e + holding e = nat (sint (ae_maxConcurrency e)) \<and> 0 < sint (ae_maxConcurrency e)"

lemma holding_set:
  assumes "mwf (ae_tasks e)" and "mget (ae_tasks e) i = Some t"
  shows "holding (set_task e i t') + (if holds_slot t then 1 else 0) = holding e + (if holds_slot t' then 1 else 0)"
  using tally_mput [OF assms(1), of "\<lambda>t. if holds_slot t then 1 else 0" i t'] assms(2) by (simp add: holding_def set_task_def)

lemma holding_new:
  assumes "mwf (ae_tasks e)" and "mget (ae_tasks e) i = None" and "\<not> holds_slot t"
  shows "tally (\<lambda>t. if holds_slot t then 1 else 0) (mput (ae_tasks e) i t) = holding e"
  using tally_mput [OF assms(1), of "\<lambda>t. if holds_slot t then 1 else 0" i t] assms(2,3) by (simp add: holding_def)

lemma holding_fields [simp]: "holding (e\<lparr>ae_workerPool := n\<rparr>) = holding e" "holding (e\<lparr>ae_activeTasks := as\<rparr>) = holding e"
  by (simp_all add: holding_def)

lemma mget_map_entries: "mget (map (\<lambda>(i, t). (i, f i t)) m) k = map_option (f k) (mget m k)"
  by (induction m) (auto simp: mget_Cons)

lemma mwf_map_entries: "mwf (map (\<lambda>(i, t). (i, f i t)) m) = mwf m"
  by (simp add: mwf_def comp_def case_prod_beta)

lemma set_task_fields [simp]: "ae_workerPool (set_task e i t) = ae_workerPool e" "ae_maxConcurrency (set_task e i t) = ae_maxConcurrency e"
    "ae_tasks (set_task e i t) = mput (ae_tasks e) i t"
  by (simp_all add: set_task_def)

lemma register_batch_inv:
  assumes "async_inv e" and "mget (ae_tasks e) (fst t) = None"
  shows "async_inv (register_batch e t)"
  using assms holding_new [of e "fst t" "(snd t)\<lparr>at_batch := True, at_phase := Waiting\<rparr>"]
  by (auto simp: async_inv_def register_batch_def holds_slot_def holding_def mwf_mput)

lemma batch_inv:
  "async_inv e \<Longrightarrow> distinct (map fst ts) \<Longrightarrow> \<forall>t\<in>set ts. mget (ae_tasks e) (fst t) = None \<Longrightarrow> async_inv (foldl register_batch e ts)"
proof (induction ts arbitrary: e)
  case (Cons t ts)
  have "mget (ae_tasks (register_batch e t)) (fst u) = None" if "u \<in> set ts" for u
    using Cons.prems that by (auto simp: register_batch_def image_iff)
  then show ?case using Cons register_batch_inv by auto
qed simp

lemma task_step_inv: "task_step e e' \<Longrightarrow> async_inv e \<Longrightarrow> async_inv e'"
proof (induction rule: task_step.induct)
  case (acquire e i t)
  then show ?case
    using holding_set [of e i t "t\<lparr>at_phase := (if at_batch t then Running else Acquired)\<rparr>"] by (auto simp: async_inv_def holds_slot_def mwf_mput)
next
  case (give_up e i t)
  then show ?case
    using holding_set [of e i t "t\<lparr>at_phase := Finished \<lparr>ar_TaskID = i, ar_Name = at_Name t, ar_Output = GNil, ar_Err = Some ctx_err\<rparr>\<rparr>"]
    by (auto simp: async_inv_def holds_slot_def end_task_def mwf_mput)
next
  case (check e i t)
  then show ?case
    using holding_set [of e i t "t\<lparr>at_phase := Finished \<lparr>ar_TaskID = i, ar_Name = at_Name t, ar_Output = GNil, ar_Err = Some ctx_err\<rparr>\<rparr>"]
      holding_set [of e i t "t\<lparr>at_phase := Running\<rparr>"]
    by (auto simp: async_inv_def holds_slot_def check_task_def end_task_def mwf_mput)
next
  case (finish e i t)
  then show ?case
    using holding_set [of e i t "t\<lparr>at_phase := Finished \<lparr>ar_TaskID = i, ar_Name = at_Name t, ar_Output = fst (at_Func t (at_cancelled t)), ar_Err = snd (at_Func t (at_cancelled t))\<rparr>\<rparr>"]
    by (auto simp: async_inv_def holds_slot_def end_task_def mwf_mput)
qed

lemma async_inv_step: "async_step e e' \<Longrightarrow> async_inv e \<Longrightarrow> async_inv e'"
proof (induction rule: async_step.induct)
  case (execute e i name fn)
  then show ?case
    using holding_new [of e i "\<lparr>at_Name = name, at_Func = fn, at_batch = False, at_hasCancel = True, at_cancelled = False, at_batchDone = False, at_phase = Waiting\<rparr>"]
    by (auto simp: async_inv_def AsyncExecutor_Execute_def holds_slot_def holding_def mwf_mput)
next
  case (batch ts e)
  then show ?case by (simp add: AsyncExecutor_ExecuteBatch_def batch_inv)
next
  case (cancel e)
  have "holding (AsyncExecutor_Cancel e) = holding e"
    by (auto simp: holding_def tally_def AsyncExecutor_Cancel_def holds_slot_def comp_def case_prod_beta intro!: arg_cong [where f = sum_list])
  then show ?case using cancel by (simp add: async_inv_def AsyncExecutor_Cancel_def mwf_map_entries)
next
  case (parent_done e i t)
  then show ?case using holding_set [of e i t "t\<lparr>at_cancelled := True\<rparr>"] by (auto simp: async_inv_def holds_slot_def mwf_mput)
next
  case (batch_done e i t)
  then show ?case using holding_set [of e i t "t\<lparr>at_batchDone := True\<rparr>"] by (auto simp: async_inv_def holds_slot_def mwf_mput)
qed (rule task_step_inv)

lemma async_inv_reach: "async_reach m e \<Longrightarrow> async_inv e"
proof (induction rule: async_reach.induct)
  case new
  then show ?case by (simp add: async_inv_def NewAsyncExecutor_def holding_def tally_def Let_def)
qed (rule async_inv_step)

text \<open>The phases a cancelled task of \<open>Execute\<close> can still reach.\<close>

definition doomed :: "asyncTask \<Rightarrow> bool" where
  "doomed t \<longleftrightarrow> \<not> at_batch t \<and> at_cancelled t \<and>
     (case at_phase t of Finished r \<Rightarrow> ar_Err r = Some ctx_err | Running \<Rightarrow> False | _ \<Rightarrow> True)"

lemma mget_foldl_batch: "mget (ae_tasks e) i = Some t \<Longrightarrow> i \<notin> fst ` set ts \<Longrightarrow> mget (ae_tasks (foldl register_batch e ts)) i = Some t"
  by (induction ts arbitrary: e) (auto simp: register_batch_def)

lemma doomed_task_step:
  assumes "task_step e e'" and "mget (ae_tasks e) i = Some t" and "doomed t"
  shows "\<exists>t'. mget (ae_tasks e') i = Some t' \<and> doomed t'"
  using assms
proof (induction rule: task_step.induct)
  case (check e j u)
  then show ?case by (cases "i = j") (auto simp: check_task_def end_task_def doomed_def)
qed (auto simp: end_task_def doomed_def split: if_splits phase.splits)

lemma doomed_step:
  assumes "async_step e e'" and "mget (ae_tasks e) i = Some t" and "doomed t"
  shows "\<exists>t'. mget (ae_tasks e') i = Some t' \<and> doomed t'"
  using assms
proof (induction rule: async_step.induct)
  case (batch ts e)
  then have "i \<notin> fst ` set ts" by force
  then show ?case using batch.prems mget_foldl_batch by (force simp: AsyncExecutor_ExecuteBatch_def)
next
  case (cancel e)
  then show ?case by (auto simp: AsyncExecutor_Cancel_def mget_map_entries doomed_def split: phase.splits)
next
  case (task e e')
  then show ?case using doomed_task_step by blast
qed (auto simp: AsyncExecutor_Execute_def doomed_def split: if_splits phase.splits)

section \<open>Properties\<close>

text \<open>An executor with one slot and one task that waits.\<close>

definition one_task :: AsyncExecutor where
  "one_task = AsyncExecutor_Execute (NewAsyncExecutor 1) ''a'' ''n'' (\<lambda>c. (GBool c, None))"

lemma one_task_reach: "async_reach 1 one_task"
  unfolding one_task_def by (intro async_reach.step [OF async_reach.new] async_step.execute) (simp add: NewAsyncExecutor_def Let_def)

lemma one_task_get: "mget (ae_tasks one_task) ''a'' =
    Some \<lparr>at_Name = ''n'', at_Func = (\<lambda>c. (GBool c, None)), at_batch = False, at_hasCancel = True, at_cancelled = False, at_batchDone = False, at_phase = Waiting\<rparr>"
    "''a'' \<in> set (ae_activeTasks one_task)"
  by (simp_all add: one_task_def AsyncExecutor_Execute_def)

text \<open>C39: At most \<open>maxConcurrency\<close> tasks of the executor run at the same time, and no slot is ever lost: the free slots and the tasks that hold
  one always add up to \<open>maxConcurrency\<close>, however tasks are started, cancelled and finished.\<close>

theorem slots_conserved:
  assumes "async_reach m e"
  shows "ae_workerPool e + holding e = nat (sint (ae_maxConcurrency e)) \<and>
    tally (\<lambda>t. if at_phase t = Running then 1 else 0) (ae_tasks e) \<le> nat (sint (ae_maxConcurrency e))"
proof -
  have "tally (\<lambda>t. if at_phase t = Running then 1 else 0) m \<le> tally (\<lambda>t. if holds_slot t then 1 else 0) m" for m
    by (induction m) (auto simp: tally_def holds_slot_def)
  from this [of "ae_tasks e"] show ?thesis using async_inv_reach [OF assms] by (auto simp: async_inv_def holding_def)
qed

theorem slots_conserved_witness: "ae_workerPool one_task + holding one_task = 1"
  using slots_conserved [OF one_task_reach] by (simp add: one_task_def AsyncExecutor_Execute_def NewAsyncExecutor_def Let_def)

text \<open>C38: A task that is cancelled before it runs is never run: whatever happens afterwards, it waits, holds a slot it will give back, or has
  ended with the error of the context.\<close>

theorem cancelled_never_runs:
  assumes "mget (ae_tasks e) i = Some t" and "i \<in> set (ae_activeTasks e)" and "at_hasCancel t" and "\<not> at_batch t"
    and "at_phase t = Waiting \<or> at_phase t = Acquired" and "async_step\<^sup>*\<^sup>* (AsyncExecutor_Cancel e) e'"
  shows "\<exists>t'. mget (ae_tasks e') i = Some t' \<and>
    (case at_phase t' of Finished r \<Rightarrow> ar_Err r = Some ctx_err | Running \<Rightarrow> False | _ \<Rightarrow> True)"
proof -
  have "\<exists>t'. mget (ae_tasks e') i = Some t' \<and> doomed t'"
    using assms(6)
  proof (induction rule: rtranclp_induct)
    case base
    show ?case using assms(1-5) by (auto simp: AsyncExecutor_Cancel_def mget_map_entries doomed_def)
  next
    case (step y z)
    then show ?case using doomed_step by blast
  qed
  then show ?thesis by (auto simp: doomed_def)
qed

theorem cancelled_never_runs_witness:
  "\<exists>t'. mget (ae_tasks (AsyncExecutor_Cancel one_task)) ''a'' = Some t' \<and>
    (case at_phase t' of Finished r \<Rightarrow> ar_Err r = Some ctx_err | Running \<Rightarrow> False | _ \<Rightarrow> True)"
  using cancelled_never_runs [OF one_task_get, of "AsyncExecutor_Cancel one_task"] by simp

fun phase_work :: "phase \<Rightarrow> nat" where
  "phase_work Waiting = 3"
| "phase_work Acquired = 2"
| "phase_work Running = 1"
| "phase_work (Finished r) = 0"

definition async_work :: "AsyncExecutor \<Rightarrow> nat" where
  "async_work e = tally (\<lambda>t. phase_work (at_phase t)) (ae_tasks e)"

lemma async_work_fields [simp]: "async_work (e\<lparr>ae_workerPool := n\<rparr>) = async_work e" "async_work (e\<lparr>ae_activeTasks := as\<rparr>) = async_work e"
  by (simp_all add: async_work_def)

lemma async_work_set:
  assumes "mwf (ae_tasks e)" and "mget (ae_tasks e) i = Some t" and "phase_work (at_phase t') < phase_work (at_phase t)"
  shows "async_work (set_task e i t') < async_work e"
  using tally_mput [OF assms(1), of "\<lambda>t. phase_work (at_phase t)" i t'] assms(2,3) by (simp add: async_work_def)

lemma task_step_work: "task_step e e' \<Longrightarrow> mwf (ae_tasks e) \<Longrightarrow> async_work e' < async_work e"
  by (induction rule: task_step.induct) (auto simp: check_task_def end_task_def intro!: async_work_set)

lemma tally_zeroD: "tally f m = 0 \<Longrightarrow> (i, t) \<in> set m \<Longrightarrow> f t = 0"
  by (auto simp: tally_def)

lemma tally_posD: "tally f m \<noteq> 0 \<Longrightarrow> \<exists>i t. (i, t) \<in> set m \<and> f t \<noteq> 0"
  by (auto simp: tally_def) blast

lemma task_progress:
  assumes "async_inv e" and "async_work e > 0"
  shows "\<exists>e'. task_step e e'"
proof (cases "holding e = 0")
  case True
  then have pool: "0 < ae_workerPool e" using assms(1) by (simp add: async_inv_def)
  obtain i t where t: "(i, t) \<in> set (ae_tasks e)" "phase_work (at_phase t) \<noteq> 0"
    using assms(2) tally_posD [of "\<lambda>t. phase_work (at_phase t)" "ae_tasks e"] by (auto simp: async_work_def)
  moreover have "\<not> holds_slot t" using tally_zeroD [OF True [unfolded holding_def] t(1)] by (simp split: if_splits)
  ultimately have "at_phase t = Waiting" by (cases "at_phase t") (auto simp: holds_slot_def)
  moreover have "mget (ae_tasks e) i = Some t" using assms(1) t(1) by (simp add: async_inv_def mget_mem)
  ultimately show ?thesis using task_step.acquire pool by blast
next
  case False
  then obtain i t where t: "(i, t) \<in> set (ae_tasks e)" "holds_slot t"
    using tally_posD [OF False [unfolded holding_def]] by (auto split: if_splits)
  then have "mget (ae_tasks e) i = Some t" using assms(1) by (simp add: async_inv_def mget_mem)
  then show ?thesis using t(2) task_step.check task_step.finish unfolding holds_slot_def by blast
qed

lemma task_steps_inv: "task_step\<^sup>*\<^sup>* e e' \<Longrightarrow> async_inv e \<Longrightarrow> async_inv e'"
  by (induction rule: rtranclp_induct) (auto intro: task_step_inv)

text \<open>Every task comes to an end: from every state the goroutines of the tasks can only make finitely many steps, at most three for each
  unfinished task, and when they can make no more every task has sent its result.\<close>

theorem async_tasks_complete:
  assumes "async_reach m e"
  shows "(\<forall>n e'. (task_step ^^ n) e e' \<longrightarrow> n \<le> async_work e) \<and>
    (\<forall>e'. task_step\<^sup>*\<^sup>* e e' \<and> (\<nexists>e''. task_step e' e'') \<longrightarrow> (\<forall>(i, t)\<in>set (ae_tasks e'). \<exists>r. at_phase t = Finished r))"
proof (intro conjI allI impI)
  fix n e'
  assume "(task_step ^^ n) e e'"
  then have "async_work e' + n \<le> async_work e \<and> async_inv e'"
  proof (induction n arbitrary: e')
    case (Suc n)
    then obtain y where "(task_step ^^ n) e y" "task_step y e'" by auto
    then show ?case using Suc.IH [of y] task_step_work [of y e'] task_step_inv [of y e'] by (fastforce simp: async_inv_def)
  qed (use async_inv_reach [OF assms] in simp)
  then show "n \<le> async_work e" by simp
next
  fix e'
  assume stuck: "task_step\<^sup>*\<^sup>* e e' \<and> (\<nexists>e''. task_step e' e'')"
  then have "async_inv e'" using task_steps_inv async_inv_reach [OF assms] by blast
  then have "async_work e' = 0" using task_progress stuck by blast
  have zero: "phase_work (at_phase t) = 0" if "(i, t) \<in> set (ae_tasks e')" for i t
    using tally_zeroD [OF _ that, of "\<lambda>t. phase_work (at_phase t)"] \<open>async_work e' = 0\<close> by (simp add: async_work_def)
  have "\<exists>r. at_phase t = Finished r" if "(i, t) \<in> set (ae_tasks e')" for i t
    using zero [OF that] by (cases "at_phase t") auto
  then show "\<forall>(i, t)\<in>set (ae_tasks e'). \<exists>r. at_phase t = Finished r" by auto
qed

theorem async_tasks_complete_witness: "\<forall>n e'. (task_step ^^ n) one_task e' \<longrightarrow> n \<le> 3"
  using async_tasks_complete [OF one_task_reach, THEN conjunct1]
  by (simp add: async_work_def tally_def one_task_def AsyncExecutor_Execute_def NewAsyncExecutor_def Let_def)

section \<open>Deviations\<close>

text \<open>\<open>Wait\<close> is documented to wait for all active tasks; after \<open>Cancel\<close> it returns at once, although tasks that were running still run.\<close>

theorem wait_returns_early:
  assumes "mget (ae_tasks e) i = Some t" and "at_phase t = Running"
  shows "AsyncExecutor_Wait (AsyncExecutor_Cancel e) None = Some None \<and>
    (\<exists>t'. mget (ae_tasks (AsyncExecutor_Cancel e)) i = Some t' \<and> at_phase t' = Running)"
  using assms by (auto simp: AsyncExecutor_Wait_def AsyncExecutor_GetActiveTaskCount_def AsyncExecutor_Cancel_def mget_map_entries)

text \<open>The priority executor runs tasks in the order in which they were submitted; their priorities have no influence.\<close>

fun rounds :: "nat \<Rightarrow> PriorityExecutor \<Rightarrow> (gvalue \<times> gerror option \<times> goint) list" where
  "rounds 0 e = []"
| "rounds (Suc n) e = (case PriorityExecutor_round e of (None, e') \<Rightarrow> [] | (Some r, e') \<Rightarrow> r # rounds n e')"

theorem priority_is_ignored:
  assumes "length ts \<le> capacity"
  shows "rounds (length ts) (foldl (\<lambda>e t. snd (PriorityExecutor_Submit e t)) (NewPriorityExecutor capacity) ts) =
    map (\<lambda>t. (fst (pt_Func t), snd (pt_Func t), pt_Priority t)) ts"
proof -
  have submit: "length (pe_tasks e) + length ts \<le> pe_capacity e \<Longrightarrow>
      foldl (\<lambda>e t. snd (PriorityExecutor_Submit e t)) e ts = e\<lparr>pe_tasks := pe_tasks e @ ts\<rparr>" for e ts
    by (induction ts arbitrary: e) (auto simp: PriorityExecutor_Submit_def)
  have run: "pe_tasks e = ts \<Longrightarrow> rounds (length ts) e = map (\<lambda>t. (fst (pt_Func t), snd (pt_Func t), pt_Priority t)) ts" for e ts
    by (induction ts arbitrary: e) (auto simp: PriorityExecutor_round_def)
  show ?thesis
    using submit [of "NewPriorityExecutor capacity" ts] run [of "\<lparr>pe_capacity = capacity, pe_tasks = ts\<rparr>" ts] assms by (simp add: NewPriorityExecutor_def)
qed

text \<open>Setting a limit anew while slots are taken gives out more slots than the limit: the holders of the old slots are not counted.\<close>

theorem limit_reset_forgets_holders:
  assumes "ConcurrencyLimiter_Acquire l node None slot = Some (Inr l1)" and "0 < sint limit"
  shows "\<exists>l2. ConcurrencyLimiter_SetLimit l1 node limit = Inr l2 \<and> mget (cl_limits l2) node = Some (nat (sint limit), nat (sint limit))"
  using assms by (simp add: ConcurrencyLimiter_SetLimit_def)

end
