(* ===== verification/Scratchpad.thy ===== *)
theory Scratchpad
  imports GoValue
begin

text \<open>
  \<open>types/scratchpad.go\<close>: the temporary store of a run.  A value is a scalar, a map, a slice, a time, or a pointer to a \<open>Stack\<close> or a
  \<open>NodeContext\<close>; pointers lead into the record \<open>objects\<close>, which is passed along, so that two holders of a pointer see the same object.
  Maps and slices are values: nobody but their holder changes them.  Times are nanoseconds, \<open>now\<close> is the clock.
\<close>

datatype sval =
    SVal gvalue
  | SMap "(string \<times> sval) list"
  | SSlice "sval list"
  | SStack nat
  | SNode nat
  | SDuration int
  | STime int

record Stack =
  st_items :: "sval list"

record NodeContext =
  nc_data :: "sval gomap"

record objects =
  ob_stacks :: "Stack list"
  ob_nodes :: "NodeContext list"

record PregelScratchpad =
  sp_data :: "sval gomap"
  sp_counters :: "goint gomap"
  sp_metadata :: "sval gomap"
  sp_createdAt :: int
  sp_lastAccess :: int
  sp_step :: goint
  sp_stop :: bool
  sp_callCounter :: goint
  sp_interruptCounter :: goint
  sp_resume :: bool
  sp_subgraphCounter :: goint

definition NewPregelScratchpad :: "int \<Rightarrow> PregelScratchpad" where
  "NewPregelScratchpad now = \<lparr>sp_data = [], sp_counters = [], sp_metadata = [], sp_createdAt = now, sp_lastAccess = now, sp_step = 0, sp_stop = False,
     sp_callCounter = 0, sp_interruptCounter = 0, sp_resume = False, sp_subgraphCounter = 0\<rparr>"

section \<open>Data, counters, metadata\<close>

definition PregelScratchpad_Get :: "int \<Rightarrow> PregelScratchpad \<Rightarrow> string \<Rightarrow> sval option \<times> PregelScratchpad" where
  "PregelScratchpad_Get now p key = (mget (sp_data p) key, p\<lparr>sp_lastAccess := now\<rparr>)"

definition PregelScratchpad_Set :: "int \<Rightarrow> PregelScratchpad \<Rightarrow> string \<Rightarrow> sval \<Rightarrow> PregelScratchpad" where
  "PregelScratchpad_Set now p key value = p\<lparr>sp_data := mput (sp_data p) key value, sp_lastAccess := now\<rparr>"

definition PregelScratchpad_Delete :: "int \<Rightarrow> PregelScratchpad \<Rightarrow> string \<Rightarrow> PregelScratchpad" where
  "PregelScratchpad_Delete now p key = p\<lparr>sp_data := mdel (sp_data p) key, sp_lastAccess := now\<rparr>"

definition PregelScratchpad_Has :: "PregelScratchpad \<Rightarrow> string \<Rightarrow> bool" where
  "PregelScratchpad_Has p key = mhas (sp_data p) key"

definition PregelScratchpad_GetAll :: "PregelScratchpad \<Rightarrow> sval gomap" where
  "PregelScratchpad_GetAll p = sp_data p"

definition PregelScratchpad_Clear :: "int \<Rightarrow> PregelScratchpad \<Rightarrow> PregelScratchpad" where
  "PregelScratchpad_Clear now p = p\<lparr>sp_data := [], sp_counters := [], sp_lastAccess := now\<rparr>"

definition PregelScratchpad_GetCounter :: "PregelScratchpad \<Rightarrow> string \<Rightarrow> goint" where
  "PregelScratchpad_GetCounter p key = (case mget (sp_counters p) key of Some n \<Rightarrow> n | None \<Rightarrow> 0)"

definition PregelScratchpad_SetCounter :: "int \<Rightarrow> PregelScratchpad \<Rightarrow> string \<Rightarrow> goint \<Rightarrow> PregelScratchpad" where
  "PregelScratchpad_SetCounter now p key value = p\<lparr>sp_counters := mput (sp_counters p) key value, sp_lastAccess := now\<rparr>"

definition PregelScratchpad_IncrementCounter :: "int \<Rightarrow> PregelScratchpad \<Rightarrow> string \<Rightarrow> goint \<times> PregelScratchpad" where
  "PregelScratchpad_IncrementCounter now p key =
     (let n = PregelScratchpad_GetCounter p key + 1 in (n, p\<lparr>sp_counters := mput (sp_counters p) key n, sp_lastAccess := now\<rparr>))"

definition PregelScratchpad_DecrementCounter :: "int \<Rightarrow> PregelScratchpad \<Rightarrow> string \<Rightarrow> goint \<times> PregelScratchpad" where
  "PregelScratchpad_DecrementCounter now p key =
     (let n = PregelScratchpad_GetCounter p key - 1 in (n, p\<lparr>sp_counters := mput (sp_counters p) key n, sp_lastAccess := now\<rparr>))"

definition PregelScratchpad_ResetCounter :: "int \<Rightarrow> PregelScratchpad \<Rightarrow> string \<Rightarrow> PregelScratchpad" where
  "PregelScratchpad_ResetCounter now p key = p\<lparr>sp_counters := mdel (sp_counters p) key, sp_lastAccess := now\<rparr>"

definition PregelScratchpad_ListCounters :: "PregelScratchpad \<Rightarrow> goint gomap" where
  "PregelScratchpad_ListCounters p = sp_counters p"

definition PregelScratchpad_SetMetadata :: "int \<Rightarrow> PregelScratchpad \<Rightarrow> string \<Rightarrow> sval \<Rightarrow> PregelScratchpad" where
  "PregelScratchpad_SetMetadata now p key value = p\<lparr>sp_metadata := mput (sp_metadata p) key value, sp_lastAccess := now\<rparr>"

definition PregelScratchpad_GetMetadata :: "PregelScratchpad \<Rightarrow> string \<Rightarrow> sval option" where
  "PregelScratchpad_GetMetadata p key = mget (sp_metadata p) key"

definition PregelScratchpad_GetAllMetadata :: "PregelScratchpad \<Rightarrow> sval gomap" where
  "PregelScratchpad_GetAllMetadata p = sp_metadata p"

definition PregelScratchpad_SetStep :: "int \<Rightarrow> PregelScratchpad \<Rightarrow> goint \<Rightarrow> PregelScratchpad" where
  "PregelScratchpad_SetStep now p step = p\<lparr>sp_step := step, sp_lastAccess := now\<rparr>"

definition PregelScratchpad_SetStop :: "int \<Rightarrow> PregelScratchpad \<Rightarrow> bool \<Rightarrow> PregelScratchpad" where
  "PregelScratchpad_SetStop now p stop = p\<lparr>sp_stop := stop, sp_lastAccess := now\<rparr>"

definition PregelScratchpad_SetResume :: "int \<Rightarrow> PregelScratchpad \<Rightarrow> bool \<Rightarrow> PregelScratchpad" where
  "PregelScratchpad_SetResume now p resume = p\<lparr>sp_resume := resume, sp_lastAccess := now\<rparr>"

definition PregelScratchpad_IncrementCallCounter :: "int \<Rightarrow> PregelScratchpad \<Rightarrow> goint \<times> PregelScratchpad" where
  "PregelScratchpad_IncrementCallCounter now p = (sp_callCounter p + 1, p\<lparr>sp_callCounter := sp_callCounter p + 1, sp_lastAccess := now\<rparr>)"

definition PregelScratchpad_IncrementInterruptCounter :: "int \<Rightarrow> PregelScratchpad \<Rightarrow> goint \<times> PregelScratchpad" where
  "PregelScratchpad_IncrementInterruptCounter now p = (sp_interruptCounter p + 1, p\<lparr>sp_interruptCounter := sp_interruptCounter p + 1, sp_lastAccess := now\<rparr>)"

definition PregelScratchpad_IncrementSubgraphCounter :: "int \<Rightarrow> PregelScratchpad \<Rightarrow> goint \<times> PregelScratchpad" where
  "PregelScratchpad_IncrementSubgraphCounter now p = (sp_subgraphCounter p + 1, p\<lparr>sp_subgraphCounter := sp_subgraphCounter p + 1, sp_lastAccess := now\<rparr>)"

record ScratchpadStats =
  ss_DataSize :: nat
  ss_CountersCount :: nat
  ss_MetadataSize :: nat
  ss_NodeContexts :: nat
  ss_CreatedAt :: int
  ss_LastAccess :: int

definition PregelScratchpad_Stats :: "PregelScratchpad \<Rightarrow> ScratchpadStats" where
  "PregelScratchpad_Stats p = \<lparr>ss_DataSize = length (sp_data p), ss_CountersCount = length (sp_counters p), ss_MetadataSize = length (sp_metadata p),
     ss_NodeContexts = 0, ss_CreatedAt = sp_createdAt p, ss_LastAccess = sp_lastAccess p\<rparr>"

section \<open>Stacks\<close>

definition NewStack :: Stack where
  "NewStack = \<lparr>st_items = []\<rparr>"

definition Stack_Push :: "Stack \<Rightarrow> sval \<Rightarrow> Stack" where
  "Stack_Push s value = s\<lparr>st_items := st_items s @ [value]\<rparr>"

definition Stack_Pop :: "Stack \<Rightarrow> sval option \<times> Stack" where
  "Stack_Pop s = (if st_items s = [] then (None, s) else (Some (last (st_items s)), s\<lparr>st_items := butlast (st_items s)\<rparr>))"

definition Stack_Peek :: "Stack \<Rightarrow> sval option" where
  "Stack_Peek s = (if st_items s = [] then None else Some (last (st_items s)))"

definition Stack_Size :: "Stack \<Rightarrow> nat" where
  "Stack_Size s = length (st_items s)"

definition Stack_IsEmpty :: "Stack \<Rightarrow> bool" where
  "Stack_IsEmpty s \<longleftrightarrow> length (st_items s) = 0"

definition Stack_Clear :: "Stack \<Rightarrow> Stack" where
  "Stack_Clear s = s\<lparr>st_items := []\<rparr>"

definition Stack_ToSlice :: "Stack \<Rightarrow> sval list" where
  "Stack_ToSlice s = st_items s"

text \<open>A stack stored in the scratchpad under a key: the state is the objects and the scratchpad.\<close>

type_synonym pad = "objects \<times> PregelScratchpad"

definition stack_at :: "pad \<Rightarrow> string \<Rightarrow> nat option" where
  "stack_at op key = (case mget (sp_data (snd op)) key of Some (SStack r) \<Rightarrow> Some r | _ \<Rightarrow> None)"

definition ScratchpadStack_Push :: "int \<Rightarrow> string \<Rightarrow> pad \<Rightarrow> sval \<Rightarrow> pad" where
  "ScratchpadStack_Push now key op value =
     (let obs = fst op; p = snd (PregelScratchpad_Get now (snd op) key) in
      case stack_at op key of
        Some r \<Rightarrow> (obs\<lparr>ob_stacks := (ob_stacks obs)[r := Stack_Push (ob_stacks obs ! r) value]\<rparr>, PregelScratchpad_Set now p key (SStack r))
      | None \<Rightarrow> (obs\<lparr>ob_stacks := ob_stacks obs @ [Stack_Push NewStack value]\<rparr>, PregelScratchpad_Set now p key (SStack (length (ob_stacks obs)))))"

definition ScratchpadStack_Pop :: "int \<Rightarrow> string \<Rightarrow> pad \<Rightarrow> sval option \<times> pad" where
  "ScratchpadStack_Pop now key op =
     (let obs = fst op; p = snd (PregelScratchpad_Get now (snd op) key) in
      case stack_at op key of
        None \<Rightarrow> (None, (obs, p))
      | Some r \<Rightarrow>
          let (value, stack) = Stack_Pop (ob_stacks obs ! r);
              obs' = obs\<lparr>ob_stacks := (ob_stacks obs)[r := stack]\<rparr>
          in (value, (obs', if Stack_IsEmpty stack then PregelScratchpad_Delete now p key else PregelScratchpad_Set now p key (SStack r))))"

definition ScratchpadStack_Peek :: "int \<Rightarrow> string \<Rightarrow> pad \<Rightarrow> sval option \<times> pad" where
  "ScratchpadStack_Peek now key op =
     (let op' = (fst op, snd (PregelScratchpad_Get now (snd op) key)) in
      case stack_at op key of None \<Rightarrow> (None, op') | Some r \<Rightarrow> (Stack_Peek (ob_stacks (fst op) ! r), op'))"

definition ScratchpadStack_Size :: "int \<Rightarrow> string \<Rightarrow> pad \<Rightarrow> nat \<times> pad" where
  "ScratchpadStack_Size now key op =
     (let op' = (fst op, snd (PregelScratchpad_Get now (snd op) key)) in
      case stack_at op key of None \<Rightarrow> (0, op') | Some r \<Rightarrow> (Stack_Size (ob_stacks (fst op) ! r), op'))"

definition ScratchpadStack_IsEmpty :: "int \<Rightarrow> string \<Rightarrow> pad \<Rightarrow> bool \<times> pad" where
  "ScratchpadStack_IsEmpty now key op = (case ScratchpadStack_Size now key op of (n, op') \<Rightarrow> (n = 0, op'))"

definition ScratchpadStack_Clear :: "int \<Rightarrow> string \<Rightarrow> pad \<Rightarrow> pad" where
  "ScratchpadStack_Clear now key op = (fst op, PregelScratchpad_Delete now (snd op) key)"

section \<open>Node contexts\<close>

definition NewNodeContext :: NodeContext where
  "NewNodeContext = \<lparr>nc_data = []\<rparr>"

definition NodeContext_Get :: "NodeContext \<Rightarrow> string \<Rightarrow> sval option" where
  "NodeContext_Get nc key = mget (nc_data nc) key"

definition NodeContext_Set :: "NodeContext \<Rightarrow> string \<Rightarrow> sval \<Rightarrow> NodeContext" where
  "NodeContext_Set nc key value = nc\<lparr>nc_data := mput (nc_data nc) key value\<rparr>"

definition NodeContext_Delete :: "NodeContext \<Rightarrow> string \<Rightarrow> NodeContext" where
  "NodeContext_Delete nc key = nc\<lparr>nc_data := mdel (nc_data nc) key\<rparr>"

definition NodeContext_Clear :: "NodeContext \<Rightarrow> NodeContext" where
  "NodeContext_Clear nc = nc\<lparr>nc_data := []\<rparr>"

definition NodeContext_GetAll :: "NodeContext \<Rightarrow> sval gomap" where
  "NodeContext_GetAll nc = nc_data nc"

definition node_prefix :: string where
  "node_prefix = ''_node_ctx:''"

definition PregelScratchpad_NodeContext :: "string \<Rightarrow> pad \<Rightarrow> nat \<times> pad" where
  "PregelScratchpad_NodeContext nodeName op =
     (let key = node_prefix @ nodeName; obs = fst op; p = snd op; new = length (ob_nodes obs) in
      case mget (sp_data p) key of
        Some (SNode r) \<Rightarrow> (r, op)
      | _ \<Rightarrow> (new, (obs\<lparr>ob_nodes := ob_nodes obs @ [NewNodeContext]\<rparr>, p\<lparr>sp_data := mput (sp_data p) key (SNode new)\<rparr>)))"

definition PregelScratchpad_ClearNodeContext :: "PregelScratchpad \<Rightarrow> string \<Rightarrow> PregelScratchpad" where
  "PregelScratchpad_ClearNodeContext p nodeName = p\<lparr>sp_data := mdel (sp_data p) (node_prefix @ nodeName)\<rparr>"

definition node_key :: "string \<Rightarrow> bool" where
  "node_key k \<longleftrightarrow> length k > 10 \<and> take 10 k = node_prefix"

definition PregelScratchpad_ClearAllNodeContexts :: "PregelScratchpad \<Rightarrow> PregelScratchpad" where
  "PregelScratchpad_ClearAllNodeContexts p = p\<lparr>sp_data := filter (\<lambda>e. \<not> node_key (fst e)) (sp_data p)\<rparr>"

section \<open>Snapshots, merging, expiry\<close>

primrec deepCopyValue :: "sval \<Rightarrow> sval" where
  "deepCopyValue (SVal v) = SVal v"
| "deepCopyValue (SMap m) = SMap (map (map_prod id deepCopyValue) m)"
| "deepCopyValue (SSlice vs) = SSlice (map deepCopyValue vs)"
| "deepCopyValue (SStack r) = SStack r"
| "deepCopyValue (SNode r) = SNode r"
| "deepCopyValue (SDuration d) = SDuration d"
| "deepCopyValue (STime t) = STime t"

definition scratchpad_deepCopyMap :: "sval gomap option \<Rightarrow> sval gomap option" where
  "scratchpad_deepCopyMap src = (case src of None \<Rightarrow> None | Some m \<Rightarrow> Some (mmap deepCopyValue m))"

record ScratchpadSnapshot =
  sn_Data :: "sval gomap"
  sn_Counters :: "goint gomap"
  sn_Metadata :: "sval gomap"
  sn_Step :: goint
  sn_CallCount :: goint
  sn_Interrupts :: goint
  sn_SubGraphs :: goint

definition data_copy :: "sval gomap \<Rightarrow> sval gomap" where
  "data_copy m = mmap deepCopyValue (filter (\<lambda>e. \<not> node_key (fst e)) m)"

definition PregelScratchpad_Snapshot :: "PregelScratchpad \<Rightarrow> ScratchpadSnapshot" where
  "PregelScratchpad_Snapshot p = \<lparr>sn_Data = data_copy (sp_data p), sn_Counters = sp_counters p, sn_Metadata = mmap deepCopyValue (sp_metadata p),
     sn_Step = sp_step p, sn_CallCount = sp_callCounter p, sn_Interrupts = sp_interruptCounter p, sn_SubGraphs = sp_subgraphCounter p\<rparr>"

definition PregelScratchpad_Restore :: "PregelScratchpad \<Rightarrow> ScratchpadSnapshot option \<Rightarrow> PregelScratchpad" where
  "PregelScratchpad_Restore p snap = (case snap of
       None \<Rightarrow> p
     | Some s \<Rightarrow>
         let nodeCtxs = filter (\<lambda>e. node_key (fst e)) (sp_data p)
         in p\<lparr>sp_data := mputs (mmap deepCopyValue (sn_Data s)) nodeCtxs, sp_counters := sn_Counters s, sp_metadata := sn_Metadata s,
              sp_step := sn_Step s, sp_callCounter := sn_CallCount s, sp_interruptCounter := sn_Interrupts s, sp_subgraphCounter := sn_SubGraphs s\<rparr>)"

fun add_counters :: "goint gomap \<Rightarrow> (string \<times> goint) list \<Rightarrow> goint gomap" where
  "add_counters m [] = m"
| "add_counters m ((k, v) # es) = add_counters (mput m k ((case mget m k of Some n \<Rightarrow> n | None \<Rightarrow> 0) + v)) es"

definition PregelScratchpad_MergeFrom :: "int \<Rightarrow> PregelScratchpad \<Rightarrow> PregelScratchpad option \<Rightarrow> PregelScratchpad" where
  "PregelScratchpad_MergeFrom now p other = (case other of
       None \<Rightarrow> p
     | Some q \<Rightarrow>
         p\<lparr>sp_data := mputs (sp_data p) (data_copy (sp_data q)),
           sp_counters := add_counters (sp_counters p) (sp_counters q),
           sp_metadata := mputs (sp_metadata p) (mmap deepCopyValue (sp_metadata q)),
           sp_step := (if sp_step p <s sp_step q then sp_step q else sp_step p),
           sp_callCounter := sp_callCounter p + sp_callCounter q,
           sp_interruptCounter := sp_interruptCounter p + sp_interruptCounter q,
           sp_subgraphCounter := sp_subgraphCounter p + sp_subgraphCounter q,
           sp_lastAccess := now\<rparr>)"

record TimeoutConfig =
  tc_TTL :: int
  tc_ResetOnAccess :: bool
  tc_AutoClearData :: bool

definition defaultTimeoutConfig :: TimeoutConfig where
  "defaultTimeoutConfig = \<lparr>tc_TTL = 5 * 60 * 1000000000, tc_ResetOnAccess = True, tc_AutoClearData = True\<rparr>"

definition PregelScratchpad_SetTimeout :: "int \<Rightarrow> PregelScratchpad \<Rightarrow> int \<Rightarrow> PregelScratchpad" where
  "PregelScratchpad_SetTimeout now p d =
     p\<lparr>sp_metadata := mput (mput (sp_metadata p) ''_timeout_ttl'' (SDuration d)) ''_timeout_start'' (STime now)\<rparr>"

definition PregelScratchpad_IsExpired :: "int \<Rightarrow> PregelScratchpad \<Rightarrow> bool" where
  "PregelScratchpad_IsExpired now p = (case mget (sp_metadata p) ''_timeout_ttl'' of
       Some (SDuration ttl) \<Rightarrow>
         if ttl \<le> 0 then False
         else (case mget (sp_metadata p) ''_timeout_start'' of Some (STime start) \<Rightarrow> now - start > ttl | _ \<Rightarrow> False)
     | _ \<Rightarrow> False)"

text \<open>The check and the second check under the write lock see the state at two moments \<open>p\<close> and \<open>p'\<close>, at the times \<open>now\<close> and \<open>now'\<close>.\<close>

definition clear_locked :: "int \<Rightarrow> PregelScratchpad \<Rightarrow> bool \<times> PregelScratchpad" where
  "clear_locked now p =
     (if \<not> PregelScratchpad_IsExpired now p then (False, p)
      else (True, p\<lparr>sp_data := [], sp_counters := [], sp_metadata := mdel (mdel (sp_metadata p) ''_timeout_ttl'') ''_timeout_start'', sp_lastAccess := now\<rparr>))"

definition PregelScratchpad_ClearExpired :: "int \<Rightarrow> PregelScratchpad \<Rightarrow> int \<Rightarrow> PregelScratchpad \<Rightarrow> bool \<times> PregelScratchpad" where
  "PregelScratchpad_ClearExpired now p now' p' = (if \<not> PregelScratchpad_IsExpired now p then (False, p') else clear_locked now' p')"

section \<open>Stacks are last-in first-out\<close>

text \<open>
  The contract of a stack: \<open>contents\<close> is what it holds, the last pushed value last, \<open>good\<close> the states the laws speak of.  Both the
  \<open>Stack\<close> and the stack stored in a scratchpad keep it.
\<close>

fun pop_times :: "('s \<Rightarrow> 'v option \<times> 's) \<Rightarrow> nat \<Rightarrow> 's \<Rightarrow> 'v option list \<times> 's" where
  "pop_times pop 0 s = ([], s)"
| "pop_times pop (Suc n) s = (case pop s of (v, s') \<Rightarrow> case pop_times pop n s' of (vs, s'') \<Rightarrow> (v # vs, s''))"

locale lifo =
  fixes contents :: "'s \<Rightarrow> 'v list" and good :: "'s \<Rightarrow> bool" and push :: "'s \<Rightarrow> 'v \<Rightarrow> 's" and pop :: "'s \<Rightarrow> 'v option \<times> 's"
  assumes good_push: "good s \<Longrightarrow> good (push s v)"
    and contents_push: "good s \<Longrightarrow> contents (push s v) = contents s @ [v]"
    and pop_empty: "good s \<Longrightarrow> contents s = [] \<Longrightarrow> fst (pop s) = None \<and> contents (snd (pop s)) = [] \<and> good (snd (pop s))"
    and pop_last: "good s \<Longrightarrow> contents s = vs @ [v] \<Longrightarrow> fst (pop s) = Some v \<and> contents (snd (pop s)) = vs \<and> good (snd (pop s))"
begin

lemma pushes: "good s \<Longrightarrow> good (foldl push s vs) \<and> contents (foldl push s vs) = contents s @ vs"
  by (induction vs arbitrary: s) (auto simp: good_push contents_push)

lemma pops: "good s \<Longrightarrow> contents s = us @ vs \<Longrightarrow>
    fst (pop_times pop (length vs) s) = map Some (rev vs) \<and> contents (snd (pop_times pop (length vs) s)) = us \<and> good (snd (pop_times pop (length vs) s))"
proof (induction vs arbitrary: s rule: rev_induct)
  case (snoc v vs)
  then have top: "fst (pop s) = Some v" "contents (snd (pop s)) = us @ vs" "good (snd (pop s))"
    using pop_last [of s "us @ vs" v] by auto
  show ?case using snoc.IH [OF top(3,2)] top(1) by (simp add: case_prod_beta)
qed simp

lemma lifo: "good s \<Longrightarrow> fst (pop_times pop (length vs) (foldl push s vs)) = map Some (rev vs) \<and>
    contents (snd (pop_times pop (length vs) (foldl push s vs))) = contents s"
  using pushes [of s vs] pops [of "foldl push s vs" "contents s" vs] by auto

lemma pops_exhausted: "good s \<Longrightarrow> fst (pop_times pop (length (contents s) + n) s) = map Some (rev (contents s)) @ replicate n None"
proof -
  have none: "good t \<Longrightarrow> contents t = [] \<Longrightarrow> fst (pop_times pop n t) = replicate n None" for t
    by (induction n arbitrary: t) (use pop_empty in \<open>auto simp: case_prod_beta\<close>)
  have split: "fst (pop_times pop (m + n) t) = fst (pop_times pop m t) @ fst (pop_times pop n (snd (pop_times pop m t)))" for m t
    by (induction m arbitrary: t) (auto simp: case_prod_beta)
  assume "good s"
  with pops [of s "[]" "contents s"] have "fst (pop_times pop (length (contents s)) s) = map Some (rev (contents s))"
    and "contents (snd (pop_times pop (length (contents s)) s)) = []" and "good (snd (pop_times pop (length (contents s)) s))"
    by auto
  then show ?thesis using none by (simp add: split)
qed

end

interpretation plain_stack: lifo st_items "\<lambda>_. True" Stack_Push Stack_Pop
  by unfold_locales (auto simp: Stack_Push_def Stack_Pop_def)

definition pad_contents :: "string \<Rightarrow> pad \<Rightarrow> sval list" where
  "pad_contents key op = (case stack_at op key of None \<Rightarrow> [] | Some r \<Rightarrow> st_items (ob_stacks (fst op) ! r))"

definition pad_good :: "string \<Rightarrow> pad \<Rightarrow> bool" where
  "pad_good key op \<longleftrightarrow> (case stack_at op key of None \<Rightarrow> True | Some r \<Rightarrow> r < length (ob_stacks (fst op)))"

lemmas stack_ops = ScratchpadStack_Push_def ScratchpadStack_Pop_def Stack_Push_def Stack_Pop_def NewStack_def Stack_IsEmpty_def
  PregelScratchpad_Get_def PregelScratchpad_Set_def PregelScratchpad_Delete_def stack_at_def pad_contents_def pad_good_def Let_def

interpretation pad_stack: lifo "pad_contents key" "pad_good key" "ScratchpadStack_Push now key" "ScratchpadStack_Pop now key" for now key
proof unfold_locales
  fix s v
  assume good: "pad_good key s"
  show "pad_good key (ScratchpadStack_Push now key s v)" and "pad_contents key (ScratchpadStack_Push now key s v) = pad_contents key s @ [v]"
    using good by (auto simp: stack_ops split: option.splits sval.splits)
next
  fix s
  assume "pad_good key s" and "pad_contents key s = []"
  then show "fst (ScratchpadStack_Pop now key s) = None \<and> pad_contents key (snd (ScratchpadStack_Pop now key s)) = [] \<and>
      pad_good key (snd (ScratchpadStack_Pop now key s))"
    by (auto simp: stack_ops split: option.splits sval.splits)
next
  fix s vs v
  assume "pad_good key s" and "pad_contents key s = vs @ [v]"
  then show "fst (ScratchpadStack_Pop now key s) = Some v \<and> pad_contents key (snd (ScratchpadStack_Pop now key s)) = vs \<and>
      pad_good key (snd (ScratchpadStack_Pop now key s))"
    by (auto simp: stack_ops split: option.splits sval.splits)
qed

text \<open>values pushed on a stack of the scratchpad come back in the reverse order, the stack then holds what it held before, and once all of it is
  popped every further pop reports that nothing is left.\<close>

theorem scratchpad_stack_lifo:
  assumes "pad_good key op"
  shows "fst (pop_times (ScratchpadStack_Pop now key) (length vs) (foldl (ScratchpadStack_Push now key) op vs)) = map Some (rev vs)"
    and "pad_contents key (snd (pop_times (ScratchpadStack_Pop now key) (length vs) (foldl (ScratchpadStack_Push now key) op vs))) = pad_contents key op"
    and "fst (pop_times (ScratchpadStack_Pop now key) (length (pad_contents key op) + n) op) = map Some (rev (pad_contents key op)) @ replicate n None"
  using pad_stack.lifo [OF assms] pad_stack.pops_exhausted [OF assms] by auto

section \<open>Snapshots\<close>

lemma deepCopyValue_id [simp]: "deepCopyValue v = v"
  by (induction v) (auto simp: map_prod_def fsts.simps snds.simps split: prod.splits intro!: map_idI)

lemma mmap_deepCopyValue [simp]: "mmap deepCopyValue m = m"
  by (simp add: mmap_def)

lemma mget_data_copy [simp]: "mget (data_copy m) k = (if node_key k then None else mget m k)"
  using mget_filter_key [of "\<lambda>k. \<not> node_key k" m k] by (simp add: data_copy_def)

lemma mwf_data_copy: "mwf m \<Longrightarrow> mwf (data_copy m)"
  by (simp add: data_copy_def mwf_filter)

lemma mget_mputs_mwf: "mwf es \<Longrightarrow> mget (mputs m es) k = (case mget es k of None \<Rightarrow> mget m k | Some v \<Rightarrow> Some v)"
  by (simp add: mget_mputs map_of_rev_distinct)

definition pad_wf :: "PregelScratchpad \<Rightarrow> bool" where
  "pad_wf p \<longleftrightarrow> mwf (sp_data p) \<and> mwf (sp_counters p) \<and> mwf (sp_metadata p)"

lemma restored_data:
  assumes "pad_wf q"
  shows "mget (sp_data (PregelScratchpad_Restore q (Some (PregelScratchpad_Snapshot p)))) k =
    (if node_key k then mget (sp_data q) k else mget (sp_data p) k)"
  using assms
  by (simp add: PregelScratchpad_Restore_def PregelScratchpad_Snapshot_def pad_wf_def mget_mputs_mwf mwf_filter mget_filter_key split: option.splits)

lemma pad_wf_restore: "pad_wf q \<Longrightarrow> pad_wf p \<Longrightarrow> pad_wf (PregelScratchpad_Restore q (Some (PregelScratchpad_Snapshot p)))"
  by (simp add: PregelScratchpad_Restore_def PregelScratchpad_Snapshot_def pad_wf_def mwf_mputs mwf_data_copy)


section \<open>Merging\<close>

abbreviation counter_in :: "goint gomap \<Rightarrow> string \<Rightarrow> goint" where
  "counter_in m k \<equiv> (case mget m k of Some n \<Rightarrow> n | None \<Rightarrow> 0)"

lemma mwf_add_counters: "mwf m \<Longrightarrow> mwf (add_counters m es)"
  by (induction m es rule: add_counters.induct) auto

lemma mget_add_counters:
  "mwf es \<Longrightarrow> mget (add_counters m es) k = (case mget es k of None \<Rightarrow> mget m k | Some v \<Rightarrow> Some (counter_in m k + v))"
proof (induction m es rule: add_counters.induct)
  case (2 m j v es)
  then have "mget es j = None" using set_keys_mget [of es] by (fastforce simp: mwf_Cons)
  with 2 show ?case by (auto simp: mwf_Cons mget_Cons split: option.splits)
qed simp

lemmas merged_pad = PregelScratchpad_MergeFrom_def

lemma pad_wf_merge: "pad_wf p \<Longrightarrow> pad_wf (PregelScratchpad_MergeFrom now p (Some q))"
  by (simp add: pad_wf_def merged_pad mwf_mputs mwf_add_counters)

lemma merged_data: "pad_wf q \<Longrightarrow> mget (sp_data (PregelScratchpad_MergeFrom now p (Some q))) k =
    (if node_key k \<or> mget (sp_data q) k = None then mget (sp_data p) k else mget (sp_data q) k)"
  by (auto simp: pad_wf_def merged_pad mget_mputs_mwf mwf_data_copy split: option.splits)

lemma merged_metadata: "pad_wf q \<Longrightarrow> mget (sp_metadata (PregelScratchpad_MergeFrom now p (Some q))) k =
    (if mget (sp_metadata q) k = None then mget (sp_metadata p) k else mget (sp_metadata q) k)"
  by (auto simp: pad_wf_def merged_pad mget_mputs_mwf split: option.splits)

lemma merged_counter: "pad_wf q \<Longrightarrow> PregelScratchpad_GetCounter (PregelScratchpad_MergeFrom now p (Some q)) k =
    PregelScratchpad_GetCounter p k + PregelScratchpad_GetCounter q k"
  by (auto simp: pad_wf_def merged_pad PregelScratchpad_GetCounter_def mget_add_counters split: option.splits)

text \<open>The fields other than the maps: counters add, the step is the larger one.\<close>

lemma merged_fields:
  "sp_callCounter (PregelScratchpad_MergeFrom now p (Some q)) = sp_callCounter p + sp_callCounter q"
  "sp_interruptCounter (PregelScratchpad_MergeFrom now p (Some q)) = sp_interruptCounter p + sp_interruptCounter q"
  "sp_subgraphCounter (PregelScratchpad_MergeFrom now p (Some q)) = sp_subgraphCounter p + sp_subgraphCounter q"
  "sint (sp_step (PregelScratchpad_MergeFrom now p (Some q))) = max (sint (sp_step p)) (sint (sp_step q))"
  by (auto simp: merged_pad word_sless_alt)

text \<open>What two branches may not both write for their merge to be independent of the order.\<close>

definition apart :: "PregelScratchpad \<Rightarrow> PregelScratchpad \<Rightarrow> bool" where
  "apart q r \<longleftrightarrow> (\<forall>k. node_key k \<or> mget (sp_data q) k = None \<or> mget (sp_data r) k = None) \<and>
      (\<forall>k. mget (sp_metadata q) k = None \<or> mget (sp_metadata r) k = None)"

lemma apartD:
  "apart q r \<Longrightarrow> \<not> node_key k \<Longrightarrow> mget (sp_data q) k = Some y \<Longrightarrow> mget (sp_data r) k = None"
  "apart q r \<Longrightarrow> mget (sp_metadata q) k = Some y \<Longrightarrow> mget (sp_metadata r) k = None"
  unfolding apart_def by (metis option.distinct(1))+

lemma mwf_merged:
  assumes "pad_wf p"
  shows "mwf (sp_data (PregelScratchpad_MergeFrom now p (Some q)))" and "mwf (sp_metadata (PregelScratchpad_MergeFrom now p (Some q)))"
  using pad_wf_merge [OF assms, of now q] by (simp_all add: pad_wf_def)

lemma merged_counters_commute:
  assumes "pad_wf p" and "pad_wf q" and "pad_wf r"
  shows "add_counters (add_counters (sp_counters p) (sp_counters q)) (sp_counters r) =
    add_counters (add_counters (sp_counters p) (sp_counters r)) (sp_counters q)"
  using assms by (intro mwf_ext) (auto simp: pad_wf_def mwf_add_counters mget_add_counters split: option.splits)

lemma merge_commutes:
  fixes now :: int
  assumes wf: "pad_wf p" "pad_wf q" "pad_wf r" and "apart q r"
  defines "m \<equiv> \<lambda>p q. PregelScratchpad_MergeFrom now p (Some q)"
  shows "m (m p q) r = m (m p r) q"
proof -
  have "sp_data (m (m p q) r) = sp_data (m (m p r) q)"
    using wf by (intro mwf_ext) (auto simp: m_def merged_data mwf_merged pad_wf_merge dest: apartD [OF assms(4)])
  moreover have "sp_metadata (m (m p q) r) = sp_metadata (m (m p r) q)"
    using wf by (intro mwf_ext) (auto simp: m_def merged_metadata mwf_merged pad_wf_merge dest: apartD [OF assms(4)])
  moreover have "sint (sp_step (m (m p q) r)) = sint (sp_step (m (m p r) q))"
    by (simp add: m_def merged_fields max.left_commute max.commute)
  then have "sp_step (m (m p q) r) = sp_step (m (m p r) q)" by (rule signed_word_eqI)
  ultimately show ?thesis using merged_counters_commute [OF wf] by (simp add: m_def merged_pad)
qed

text \<open>merging the scratchpads of parallel branches: counters add up, the step is the largest, data and metadata of the branch win, node contexts of the
  branch stay out; and branches that write different keys can be merged in either order.\<close>

theorem merge_branches:
  assumes "pad_wf p" and "pad_wf q" and "pad_wf r" and "apart q r"
    and one: "one = PregelScratchpad_MergeFrom now p (Some q)" and both: "both = PregelScratchpad_MergeFrom now one (Some r)"
  shows "both = PregelScratchpad_MergeFrom now (PregelScratchpad_MergeFrom now p (Some r)) (Some q) \<and>
    (\<forall>k. PregelScratchpad_GetCounter both k = PregelScratchpad_GetCounter p k + PregelScratchpad_GetCounter q k + PregelScratchpad_GetCounter r k) \<and>
    sint (sp_step both) = Max {sint (sp_step p), sint (sp_step q), sint (sp_step r)} \<and>
    (\<forall>k. mget (sp_data one) k = (if node_key k \<or> mget (sp_data q) k = None then mget (sp_data p) k else mget (sp_data q) k)) \<and>
    (\<forall>k. mget (sp_metadata one) k = (if mget (sp_metadata q) k = None then mget (sp_metadata p) k else mget (sp_metadata q) k))"
  using assms(1-3) merge_commutes [OF assms(1-4), of now]
  by (simp add: one both merged_counter merged_fields merged_data merged_metadata max.assoc)

section \<open>Expiry and node contexts\<close>

lemma not_expired_cleared: "mget (sp_metadata p) ''_timeout_ttl'' = None \<Longrightarrow> \<not> PregelScratchpad_IsExpired now p"
  by (simp add: PregelScratchpad_IsExpired_def)

lemma expired_set_timeout: "PregelScratchpad_IsExpired later (PregelScratchpad_SetTimeout start p ttl) \<longleftrightarrow> ttl > 0 \<and> later - start > ttl"
  by (auto simp: PregelScratchpad_SetTimeout_def PregelScratchpad_IsExpired_def)

text \<open>a scratchpad with a timeout is expired exactly when more than a positive timeout has passed; clearing an expired scratchpad reports it, empties data
  and counters, leaves the other metadata, and afterwards nothing expires until a new timeout is set.  Where the scratchpad was changed between the check
  and the lock the second check decides.\<close>

theorem expiry_clears:
  assumes "PregelScratchpad_ClearExpired now p now' p' = (cleared, r)"
  shows "cleared \<longleftrightarrow> PregelScratchpad_IsExpired now p \<and> PregelScratchpad_IsExpired now' p'"
    and "\<not> cleared \<Longrightarrow> r = p'"
    and "cleared \<Longrightarrow> sp_data r = [] \<and> sp_counters r = [] \<and> \<not> PregelScratchpad_IsExpired later r \<and>
      (k \<noteq> ''_timeout_ttl'' \<and> k \<noteq> ''_timeout_start'' \<longrightarrow> PregelScratchpad_GetMetadata r k = PregelScratchpad_GetMetadata p' k)"
    and "PregelScratchpad_IsExpired later (PregelScratchpad_SetTimeout start p' ttl) \<longleftrightarrow> ttl > 0 \<and> later - start > ttl"
  using assms
  by (auto simp: PregelScratchpad_ClearExpired_def clear_locked_def not_expired_cleared PregelScratchpad_GetMetadata_def
      expired_set_timeout split: if_splits)

lemma node_key_iff: "node_key (node_prefix @ name) \<longleftrightarrow> name \<noteq> []"
  by (simp add: node_key_def node_prefix_def)

text \<open>the context of a node is created once: asking for it again gives the same object, contexts of different nodes are different objects,
  and a value set in one is seen through the object of that node only.\<close>

theorem node_contexts_isolated:
  assumes "PregelScratchpad_NodeContext a op = (ra, op1)" and "PregelScratchpad_NodeContext b op1 = (rb, op2)" and "a \<noteq> b"
    and fresh: "mget (sp_data (snd op)) (node_prefix @ a) = None" "mget (sp_data (snd op)) (node_prefix @ b) = None"
  shows "PregelScratchpad_NodeContext a op2 = (ra, op2)" and "PregelScratchpad_NodeContext b op2 = (rb, op2)" and "ra \<noteq> rb"
    and "ob_nodes (fst op2) ! ra = NewNodeContext" and "ob_nodes (fst op2) ! rb = NewNodeContext"
proof -
  let ?n = "length (ob_nodes (fst op))"
  have one: "ra = ?n" "op1 = ((fst op)\<lparr>ob_nodes := ob_nodes (fst op) @ [NewNodeContext]\<rparr>,
      (snd op)\<lparr>sp_data := mput (sp_data (snd op)) (node_prefix @ a) (SNode ?n)\<rparr>)"
    using assms(1) fresh(1) by (auto simp: PregelScratchpad_NodeContext_def Let_def)
  have two: "rb = Suc ?n" "op2 = ((fst op1)\<lparr>ob_nodes := ob_nodes (fst op1) @ [NewNodeContext]\<rparr>,
      (snd op1)\<lparr>sp_data := mput (sp_data (snd op1)) (node_prefix @ b) (SNode (Suc ?n))\<rparr>)"
    using assms(2,3) fresh(2) by (auto simp: PregelScratchpad_NodeContext_def Let_def one)
  show "PregelScratchpad_NodeContext a op2 = (ra, op2)" and "PregelScratchpad_NodeContext b op2 = (rb, op2)" and "ra \<noteq> rb"
    and "ob_nodes (fst op2) ! ra = NewNodeContext" and "ob_nodes (fst op2) ! rb = NewNodeContext"
    using assms(3) by (auto simp: one two PregelScratchpad_NodeContext_def Let_def nth_append)
qed

text \<open>Clearing all node contexts removes those of named nodes and nothing else.\<close>

lemma clear_all_contexts:
  "mget (sp_data (PregelScratchpad_ClearAllNodeContexts p)) k = (if node_key k then None else mget (sp_data p) k)"
  using mget_filter_key [of "\<lambda>k. \<not> node_key k" "sp_data p" k] by (simp add: PregelScratchpad_ClearAllNodeContexts_def)

section \<open>Concrete scratchpads\<close>

definition sample_pad :: PregelScratchpad where
  "sample_pad = PregelScratchpad_SetTimeout 10 (PregelScratchpad_SetCounter 5 (PregelScratchpad_Set 5 (NewPregelScratchpad 0) ''a'' (SVal (GInt 1))) ''n'' 2) 30"

definition other_pad :: PregelScratchpad where
  "other_pad = PregelScratchpad_SetStep 6 (PregelScratchpad_SetCounter 6 (PregelScratchpad_Set 6 (NewPregelScratchpad 1) ''b'' (SSlice [])) ''n'' 3) 4"

definition no_objects :: objects where
  "no_objects = \<lparr>ob_stacks = [], ob_nodes = []\<rparr>"

lemmas sample_pads = sample_pad_def other_pad_def NewPregelScratchpad_def PregelScratchpad_SetTimeout_def PregelScratchpad_SetCounter_def
  PregelScratchpad_Set_def PregelScratchpad_SetStep_def no_objects_def

lemma sample_pads_wf: "pad_wf sample_pad" "pad_wf other_pad" "pad_wf (NewPregelScratchpad t)" "apart sample_pad other_pad"
  by (auto simp: sample_pads pad_wf_def mwf_def apart_def mget_Cons)

theorem scratchpad_stack_lifo_witness:
  "fst (pop_times (ScratchpadStack_Pop 9 ''s'') 2 (foldl (ScratchpadStack_Push 9 ''s'') (no_objects, sample_pad) [SVal (GInt 1), SVal (GInt 2)])) =
     [Some (SVal (GInt 2)), Some (SVal (GInt 1))]"
  using scratchpad_stack_lifo(1) [of "''s''" "(no_objects, sample_pad)" 9 "[SVal (GInt 1), SVal (GInt 2)]"]
  by (simp add: pad_good_def stack_at_def sample_pads mget_Cons numeral_2_eq_2)


theorem merge_branches_witness:
  "PregelScratchpad_GetCounter (PregelScratchpad_MergeFrom 8 (PregelScratchpad_MergeFrom 8 (NewPregelScratchpad 0) (Some sample_pad)) (Some other_pad)) ''n'' = 5"
  using merge_branches [OF sample_pads_wf(3,1,2,4) refl refl, of 8 0, THEN conjunct2, THEN conjunct1, THEN spec, of "''n''"]
  by (simp add: PregelScratchpad_GetCounter_def sample_pads mget_Cons)

theorem expiry_clears_witness:
  "fst (PregelScratchpad_ClearExpired 41 sample_pad 42 sample_pad) \<and> sp_data (snd (PregelScratchpad_ClearExpired 41 sample_pad 42 sample_pad)) = []"
proof -
  have old: "PregelScratchpad_IsExpired t sample_pad \<longleftrightarrow> t > 40" for t
    by (auto simp: sample_pad_def expired_set_timeout)
  note e = expiry_clears [where now = 41 and p = sample_pad and now' = 42 and p' = sample_pad, OF prod.collapse [symmetric]]
  have "fst (PregelScratchpad_ClearExpired 41 sample_pad 42 sample_pad)" using e(1) by (simp add: old)
  with e(3) show ?thesis by blast
qed

theorem node_contexts_isolated_witness:
  "fst (PregelScratchpad_NodeContext ''x'' (no_objects, sample_pad)) \<noteq>
   fst (PregelScratchpad_NodeContext ''y'' (snd (PregelScratchpad_NodeContext ''x'' (no_objects, sample_pad))))"
  by (rule node_contexts_isolated(3) [OF prod.collapse [symmetric] prod.collapse [symmetric]])
    (simp_all add: sample_pads mget_Cons node_prefix_def)

section \<open>Where the code does less than it says\<close>

text \<open>A snapshot copies maps and slices but keeps the pointer to a stack: what is pushed after the snapshot is there after the restore.\<close>

theorem snapshot_shares_stacks:
  "let op = ScratchpadStack_Push 1 ''s'' (no_objects, NewPregelScratchpad 0) (SVal (GInt 1));
       later = ScratchpadStack_Push 2 ''s'' op (SVal (GInt 2));
       restored = (fst later, PregelScratchpad_Restore (snd later) (Some (PregelScratchpad_Snapshot (snd op))))
   in pad_contents ''s'' op = [SVal (GInt 1)] \<and> pad_contents ''s'' restored = [SVal (GInt 1), SVal (GInt 2)]"
  by (simp add: stack_ops PregelScratchpad_Restore_def PregelScratchpad_Snapshot_def sample_pads mget_Cons data_copy_def node_key_def)

text \<open>Reading and writing do not move the expiry, although \<open>ResetOnAccess\<close> of the default configuration says so.\<close>

theorem access_keeps_expiry:
  "PregelScratchpad_IsExpired later (snd (PregelScratchpad_Get now p key)) = PregelScratchpad_IsExpired later p"
  "PregelScratchpad_IsExpired later (PregelScratchpad_Set now p key v) = PregelScratchpad_IsExpired later p"
  by (simp_all add: PregelScratchpad_IsExpired_def PregelScratchpad_Get_def PregelScratchpad_Set_def cong: option.case_cong sval.case_cong)

text \<open>The context of the node with the empty name is not taken for a node context: clearing all contexts leaves it and a snapshot holds it.\<close>

theorem empty_name_context_is_data:
  "let op = snd (PregelScratchpad_NodeContext [] (no_objects, NewPregelScratchpad 0))
   in mget (sp_data (PregelScratchpad_ClearAllNodeContexts (snd op))) node_prefix = Some (SNode 0) \<and>
      mget (sn_Data (PregelScratchpad_Snapshot (snd op))) node_prefix = Some (SNode 0)"
  by (simp add: PregelScratchpad_NodeContext_def NewPregelScratchpad_def no_objects_def clear_all_contexts PregelScratchpad_Snapshot_def
      node_key_def node_prefix_def mget_Cons)

text \<open>Stop and resume flags are not part of a snapshot.\<close>

theorem snapshot_forgets_flags:
  "PregelScratchpad_Snapshot (p\<lparr>sp_stop := b, sp_resume := c\<rparr>) = PregelScratchpad_Snapshot p"
  by (simp add: PregelScratchpad_Snapshot_def)

end
