(* ===== verification/AsyncCache.thy ===== *)
theory AsyncCache
  imports Cache
begin

text \<open>
  \<open>pregel/cache_async.go\<close>: the in-memory cache behind a queue of operations that workers take, and the executor that looks up and stores results
  through it.  Workers and calls of the executor are interleaved by a step relation; a step is a send, a receive, or a method of the
  cache, which runs under its lock.  The reply channel of an operation, which has room for one reply, is named by a number, and \<open>am_replies\<close>,
  \<open>am_dones\<close> are what was sent on them.  \<open>am_idle\<close> counts the workers that wait, \<open>am_busy\<close> are the operations taken and not yet processed.
\<close>

record CacheResult =
  cr_Value :: gvalue
  cr_Found :: bool
  cr_Error :: "gerror option"

record asyncCacheOp =
  ao_opType :: string
  ao_key :: string
  ao_value :: gvalue
  ao_ttl :: goint
  ao_result :: "nat option"
  ao_done :: "nat option"

record AsyncMemoryCache =
  am_cache :: MemoryCache
  am_workerCh :: "asyncCacheOp list"
  am_stopped :: bool
  am_idle :: nat
  am_busy :: "asyncCacheOp list"
  am_next :: nat
  am_replies :: "(nat \<times> CacheResult) list"
  am_dones :: "(nat \<times> gerror option) list"

definition NewAsyncMemoryCache :: "goint \<Rightarrow> EvictionPolicy \<Rightarrow> goint \<Rightarrow> AsyncMemoryCache" where
  "NewAsyncMemoryCache maxSize eviction numWorkers =
     \<lparr>am_cache = NewMemoryCache maxSize eviction, am_workerCh = [], am_stopped = False,
      am_idle = (if sint numWorkers \<le> 0 then 4 else nat (sint numWorkers)), am_busy = [], am_next = 0, am_replies = [], am_dones = []\<rparr>"

definition send_result :: "nat option \<Rightarrow> CacheResult \<Rightarrow> AsyncMemoryCache \<Rightarrow> AsyncMemoryCache" where
  "send_result ch r c = (case ch of None \<Rightarrow> c | Some i \<Rightarrow> c\<lparr>am_replies := am_replies c @ [(i, r)]\<rparr>)"

definition send_done :: "nat option \<Rightarrow> gerror option \<Rightarrow> AsyncMemoryCache \<Rightarrow> AsyncMemoryCache" where
  "send_done ch err c = (case ch of None \<Rightarrow> c | Some i \<Rightarrow> c\<lparr>am_dones := am_dones c @ [(i, err)]\<rparr>)"

definition AsyncMemoryCache_processOp :: "(string list \<Rightarrow> string list) \<Rightarrow> int \<Rightarrow> AsyncMemoryCache \<Rightarrow> asyncCacheOp \<Rightarrow> AsyncMemoryCache" where
  "AsyncMemoryCache_processOp ro now c op =
     (if ao_opType op = ''get'' then
        (case MemoryCache_Get now (am_cache c) (ao_key op) of (found, m) \<Rightarrow>
           send_result (ao_result op) \<lparr>cr_Value = case_option GNil id found, cr_Found = (found \<noteq> None), cr_Error = None\<rparr> (c\<lparr>am_cache := m\<rparr>))
      else if ao_opType op = ''set'' then
        send_done (ao_done op) None (c\<lparr>am_cache := MemoryCache_Set ro now (am_cache c) (ao_key op) (ao_value op) (ao_ttl op)\<rparr>)
      else if ao_opType op = ''delete'' then
        send_done (ao_done op) None (c\<lparr>am_cache := MemoryCache_Delete (am_cache c) (ao_key op)\<rparr>)
      else c)"

text \<open>The three asynchronous methods.  Their \<open>select\<close> either sends the operation, \<open>sent\<close>, or sees the end \<open>err\<close> of the context; they return
  the reply channel.\<close>

definition AsyncMemoryCache_AGet :: "bool \<Rightarrow> gerror \<Rightarrow> AsyncMemoryCache \<Rightarrow> string \<Rightarrow> nat \<times> AsyncMemoryCache" where
  "AsyncMemoryCache_AGet sent err c key =
     (let r = am_next c; c1 = c\<lparr>am_next := r + 1\<rparr> in
      (r, if sent
          then c1\<lparr>am_workerCh := am_workerCh c @
                 [\<lparr>ao_opType = ''get'', ao_key = key, ao_value = GNil, ao_ttl = 0, ao_result = Some r, ao_done = None\<rparr>]\<rparr>
          else send_result (Some r) \<lparr>cr_Value = GNil, cr_Found = False, cr_Error = Some err\<rparr> c1))"

definition AsyncMemoryCache_ASet :: "bool \<Rightarrow> gerror \<Rightarrow> AsyncMemoryCache \<Rightarrow> string \<Rightarrow> gvalue \<Rightarrow> goint \<Rightarrow> nat \<times> AsyncMemoryCache" where
  "AsyncMemoryCache_ASet sent err c key value ttl =
     (let r = am_next c; c1 = c\<lparr>am_next := r + 1\<rparr> in
      (r, if sent
          then c1\<lparr>am_workerCh := am_workerCh c @
                 [\<lparr>ao_opType = ''set'', ao_key = key, ao_value = value, ao_ttl = ttl, ao_result = None, ao_done = Some r\<rparr>]\<rparr>
          else send_done (Some r) (Some err) c1))"

definition AsyncMemoryCache_ADelete :: "bool \<Rightarrow> gerror \<Rightarrow> AsyncMemoryCache \<Rightarrow> string \<Rightarrow> nat \<times> AsyncMemoryCache" where
  "AsyncMemoryCache_ADelete sent err c key =
     (let r = am_next c; c1 = c\<lparr>am_next := r + 1\<rparr> in
      (r, if sent
          then c1\<lparr>am_workerCh := am_workerCh c @
                 [\<lparr>ao_opType = ''delete'', ao_key = key, ao_value = GNil, ao_ttl = 0, ao_result = None, ao_done = Some r\<rparr>]\<rparr>
          else send_done (Some r) (Some err) c1))"

text \<open>Closing the stop channel a second time panics.\<close>

definition AsyncMemoryCache_Stop :: "AsyncMemoryCache \<Rightarrow> gerror + AsyncMemoryCache" where
  "AsyncMemoryCache_Stop c = (if am_stopped c then Inl (ErrorNew ''close of closed channel'') else Inr (c\<lparr>am_stopped := True\<rparr>))"

definition queue_capacity :: nat where
  "queue_capacity = 1000"

text \<open>The steps of the workers.\<close>

inductive worker :: "AsyncMemoryCache \<Rightarrow> AsyncMemoryCache \<Rightarrow> bool" where
  take: "am_workerCh c = op # ops \<Longrightarrow> 0 < am_idle c \<Longrightarrow> worker c (c\<lparr>am_workerCh := ops, am_idle := am_idle c - 1, am_busy := am_busy c @ [op]\<rparr>)"
| process: "op \<in> set (am_busy c) \<Longrightarrow> range_order ro \<Longrightarrow>
    worker c ((AsyncMemoryCache_processOp ro now c op)\<lparr>am_busy := remove1 op (am_busy c), am_idle := am_idle c + 1\<rparr>)"
| exit: "am_stopped c \<Longrightarrow> 0 < am_idle c \<Longrightarrow> worker c (c\<lparr>am_idle := am_idle c - 1\<rparr>)"

section \<open>The executor\<close>

record AsyncCachePolicy =
  ap_KeyFunc :: "(gvalue \<Rightarrow> string) option"
  ap_TTL :: "goint option"
  ap_Async :: bool

definition async_key ::
    "(gvalue \<Rightarrow> string option) \<Rightarrow> (string \<Rightarrow> string) \<Rightarrow> AsyncCachePolicy option \<Rightarrow> string \<Rightarrow> gvalue \<Rightarrow> string" where
  "async_key marshal sha cachePolicy nodeName input =
     (case cachePolicy of
        Some p \<Rightarrow> (case ap_KeyFunc p of Some f \<Rightarrow> f input | None \<Rightarrow> GenerateCacheKey marshal sha nodeName input)
      | None \<Rightarrow> GenerateCacheKey marshal sha nodeName input)"

definition async_ttl :: "AsyncCachePolicy option \<Rightarrow> goint" where
  "async_ttl cachePolicy = (case cachePolicy of Some p \<Rightarrow> case_option 0 id (ap_TTL p) | None \<Rightarrow> 0)"

definition is_async :: "AsyncCachePolicy option \<Rightarrow> bool" where
  "is_async cachePolicy = (case cachePolicy of Some p \<Rightarrow> ap_Async p | None \<Rightarrow> False)"

text \<open>Where a call of \<open>Execute\<close> stands: before the lookup, waiting for the reply, before the call of the function, with its result before the store,
  or at its end.\<close>

datatype exec_phase = Looking | Awaiting nat | Calling | Storing gvalue | Returned "gerror + gvalue"

record exec_call =
  ec_input :: gvalue
  ec_ctxDone :: bool
  ec_phase :: exec_phase

record cache_system =
  cs_cache :: AsyncMemoryCache
  cs_calls :: "exec_call list"

definition ctx_ended :: gerror where
  "ctx_ended = ErrorNew ''context canceled''"

definition after_reply :: "CacheResult \<Rightarrow> exec_phase" where
  "after_reply result =
     (case cr_Error result of
        Some err \<Rightarrow> Returned (Inl err)
      | None \<Rightarrow> if cr_Found result then Returned (Inr (cr_Value result)) else Calling)"

definition after_lookup :: "gvalue option \<Rightarrow> exec_phase" where
  "after_lookup cached = (case cached of Some v \<Rightarrow> Returned (Inr v) | None \<Rightarrow> Calling)"

definition after_function :: "gerror + gvalue \<Rightarrow> exec_phase" where
  "after_function r = (case r of Inl err \<Rightarrow> Returned (Inl err) | Inr v \<Rightarrow> Storing v)"

definition set_phase :: "cache_system \<Rightarrow> nat \<Rightarrow> exec_phase \<Rightarrow> cache_system" where
  "set_phase s i ph = s\<lparr>cs_calls := (cs_calls s)[i := (cs_calls s ! i)\<lparr>ec_phase := ph\<rparr>]\<rparr>"

abbreviation call_at :: "cache_system \<Rightarrow> nat \<Rightarrow> exec_phase \<Rightarrow> bool" where
  "call_at s i ph \<equiv> i < length (cs_calls s) \<and> ec_phase (cs_calls s ! i) = ph"

inductive exec_step ::
    "AsyncCachePolicy option \<Rightarrow> (gvalue \<Rightarrow> string) \<Rightarrow> (gvalue \<Rightarrow> gerror + gvalue) \<Rightarrow> gvalue set \<Rightarrow> cache_system \<Rightarrow> cache_system \<Rightarrow> bool"
  for policy key fn inputs where
  begin_call: "input \<in> inputs \<Longrightarrow> exec_step policy key fn inputs s (s\<lparr>cs_calls := cs_calls s @ [\<lparr>ec_input = input, ec_ctxDone = False, ec_phase = Looking\<rparr>]\<rparr>)"
| end_context: "i < length (cs_calls s) \<Longrightarrow> exec_step policy key fn inputs s (s\<lparr>cs_calls := (cs_calls s)[i := (cs_calls s ! i)\<lparr>ec_ctxDone := True\<rparr>]\<rparr>)"
| look_async: "call_at s i Looking \<Longrightarrow> is_async policy \<Longrightarrow>
    if sent then length (am_workerCh (cs_cache s)) < queue_capacity else ec_ctxDone (cs_calls s ! i) \<Longrightarrow>
    AsyncMemoryCache_AGet sent ctx_ended (cs_cache s) (key (ec_input (cs_calls s ! i))) = (r, c) \<Longrightarrow>
    exec_step policy key fn inputs s (set_phase (s\<lparr>cs_cache := c\<rparr>) i (Awaiting r))"
| reply: "call_at s i (Awaiting r) \<Longrightarrow> (r, result) \<in> set (am_replies (cs_cache s)) \<Longrightarrow> exec_step policy key fn inputs s (set_phase s i (after_reply result))"
| cancelled: "call_at s i (Awaiting r) \<Longrightarrow> ec_ctxDone (cs_calls s ! i) \<Longrightarrow> exec_step policy key fn inputs s (set_phase s i (Returned (Inl ctx_ended)))"
| look_sync: "call_at s i Looking \<Longrightarrow> \<not> is_async policy \<Longrightarrow>
    MemoryCache_Get now (am_cache (cs_cache s)) (key (ec_input (cs_calls s ! i))) = (cached, m) \<Longrightarrow>
    exec_step policy key fn inputs s (set_phase (s\<lparr>cs_cache := (cs_cache s)\<lparr>am_cache := m\<rparr>\<rparr>) i (after_lookup cached))"
| call: "call_at s i Calling \<Longrightarrow> exec_step policy key fn inputs s (set_phase s i (after_function (fn (ec_input (cs_calls s ! i)))))"
| store_async: "call_at s i (Storing v) \<Longrightarrow> is_async policy \<Longrightarrow> length (am_workerCh (cs_cache s)) < queue_capacity \<Longrightarrow>
    exec_step policy key fn inputs s
      (set_phase (s\<lparr>cs_cache := snd (AsyncMemoryCache_ASet True ctx_ended (cs_cache s) (key (ec_input (cs_calls s ! i))) v (async_ttl policy))\<rparr>) i (Returned (Inr v)))"
| store_sync: "call_at s i (Storing v) \<Longrightarrow> \<not> is_async policy \<Longrightarrow> range_order ro \<Longrightarrow>
    exec_step policy key fn inputs s
      (set_phase (s\<lparr>cs_cache := (cs_cache s)\<lparr>am_cache := MemoryCache_Set ro now (am_cache (cs_cache s)) (key (ec_input (cs_calls s ! i))) v (async_ttl policy)\<rparr>\<rparr>)
         i (Returned (Inr v)))"
| drop: "length (am_workerCh (cs_cache s)) < queue_capacity \<Longrightarrow>
    exec_step policy key fn inputs s (s\<lparr>cs_cache := snd (AsyncMemoryCache_ADelete True ctx_ended (cs_cache s) k)\<rparr>)"
| stop: "AsyncMemoryCache_Stop (cs_cache s) = Inr c \<Longrightarrow> exec_step policy key fn inputs s (s\<lparr>cs_cache := c\<rparr>)"
| work: "worker (cs_cache s) c \<Longrightarrow> exec_step policy key fn inputs s (s\<lparr>cs_cache := c\<rparr>)"

inductive exec_reach ::
    "AsyncCachePolicy option \<Rightarrow> (gvalue \<Rightarrow> string) \<Rightarrow> (gvalue \<Rightarrow> gerror + gvalue) \<Rightarrow> gvalue set \<Rightarrow> AsyncMemoryCache \<Rightarrow> cache_system \<Rightarrow> bool"
  for policy key fn inputs c0 where
  new: "exec_reach policy key fn inputs c0 \<lparr>cs_cache = c0, cs_calls = []\<rparr>"
| step: "exec_reach policy key fn inputs c0 s \<Longrightarrow> exec_step policy key fn inputs s s' \<Longrightarrow> exec_reach policy key fn inputs c0 s'"

section \<open>What the cache and the operations hold\<close>

text \<open>\<open>result_of\<close>: the value is the result of an input of the key.  The cache, the stores under way and the replies hold nothing else.\<close>

definition result_of :: "(gvalue \<Rightarrow> string) \<Rightarrow> (gvalue \<Rightarrow> gerror + gvalue) \<Rightarrow> gvalue set \<Rightarrow> string \<Rightarrow> gvalue \<Rightarrow> bool" where
  "result_of key fn I k v \<longleftrightarrow> (\<exists>i\<in>I. key i = k \<and> fn i = Inr v)"

definition under_way :: "AsyncMemoryCache \<Rightarrow> asyncCacheOp set" where
  "under_way c = set (am_workerCh c) \<union> set (am_busy c)"

definition cache_ok :: "(gvalue \<Rightarrow> string) \<Rightarrow> (gvalue \<Rightarrow> gerror + gvalue) \<Rightarrow> gvalue set \<Rightarrow> AsyncMemoryCache \<Rightarrow> bool" where
  "cache_ok key fn I c \<longleftrightarrow> memory_cache.memo key fn I (am_cache c) \<and>
     (\<forall>op\<in>under_way c. (ao_opType op = ''set'' \<longrightarrow> result_of key fn I (ao_key op) (ao_value op)) \<and> (\<forall>r. ao_result op = Some r \<longrightarrow> r < am_next c)) \<and>
     (\<forall>(r, res)\<in>set (am_replies c). r < am_next c)"

text \<open>How a step changes the operations and replies other calls wait for: it answers an operation under way, or uses a new channel.\<close>

definition extends :: "(gvalue \<Rightarrow> string) \<Rightarrow> (gvalue \<Rightarrow> gerror + gvalue) \<Rightarrow> gvalue set \<Rightarrow> AsyncMemoryCache \<Rightarrow> AsyncMemoryCache \<Rightarrow> bool" where
  "extends key fn I c c' \<longleftrightarrow> am_next c \<le> am_next c' \<and>
     (\<forall>op\<in>under_way c'. op \<in> under_way c \<or> (\<forall>r. ao_result op = Some r \<longrightarrow> am_next c \<le> r)) \<and>
     (\<forall>(r, res)\<in>set (am_replies c'). (r, res) \<in> set (am_replies c) \<or> am_next c \<le> r \<or>
        (\<exists>op\<in>under_way c. ao_result op = Some r \<and> cr_Error res = None \<and> (cr_Found res \<longrightarrow> result_of key fn I (ao_key op) (cr_Value res))))"

definition call_ok :: "(gvalue \<Rightarrow> string) \<Rightarrow> (gvalue \<Rightarrow> gerror + gvalue) \<Rightarrow> gvalue set \<Rightarrow> AsyncMemoryCache \<Rightarrow> exec_call \<Rightarrow> bool" where
  "call_ok key fn I c x \<longleftrightarrow> ec_input x \<in> I \<and>
     (case ec_phase x of
        Awaiting r \<Rightarrow> r < am_next c \<and> (\<forall>op\<in>under_way c. ao_result op = Some r \<longrightarrow> ao_key op = key (ec_input x)) \<and>
          (\<forall>(r', res)\<in>set (am_replies c). r' = r \<longrightarrow> (cr_Error res = None \<or> (cr_Error res = Some ctx_ended \<and> ec_ctxDone x)) \<and>
             (cr_Found res \<longrightarrow> result_of key fn I (key (ec_input x)) (cr_Value res)))
      | Storing v \<Rightarrow> fn (ec_input x) = Inr v
      | Returned res \<Rightarrow> res = fn (ec_input x) \<or> (res = Inl ctx_ended \<and> ec_ctxDone x)
      | _ \<Rightarrow> True)"

lemma call_ok_extends: "extends key fn I c c' \<Longrightarrow> call_ok key fn I c x \<Longrightarrow> call_ok key fn I c' x"
  unfolding extends_def call_ok_def by (cases "ec_phase x") (simp_all, fastforce)

lemma memo_iff: "memory_cache.memo key fn I m \<longleftrightarrow> (\<forall>k v. memory_held m k = Some v \<longrightarrow> result_of key fn I k v)"
  by (simp add: memory_cache.memo_def result_of_def)

lemma memo_get:
  assumes "memory_cache.memo key fn I m" and "MemoryCache_Get now m k = (found, m')"
  shows "memory_cache.memo key fn I m'" and "found = Some v \<Longrightarrow> result_of key fn I k v"
proof -
  let ?e = "(id, now, now) :: cache_env"
  have g: "memory_get ?e m k = (found, m')" using assms(2) by (simp add: memory_get_def)
  show "memory_cache.memo key fn I m'"
    using assms(1) memory_cache.get_keeps [of ?e m k] g by (auto simp: memo_iff)
  show "found = Some v \<Longrightarrow> result_of key fn I k v"
    using assms(1) memory_cache.get_held [of ?e m k v m'] g by (auto simp: memo_iff)
qed

lemma memo_set: "memory_cache.memo key fn I m \<Longrightarrow> result_of key fn I k v \<Longrightarrow> memory_cache.memo key fn I (MemoryCache_Set ro now m k v ttl)"
  using memory_cache.put_held [of "(ro, now, now)" m k v ttl] by (auto simp: memo_iff memory_put_def)

lemma memo_delete: "memory_cache.memo key fn I m \<Longrightarrow> memory_cache.memo key fn I (MemoryCache_Delete m k)"
  by (auto simp: memo_iff memory_held_def MemoryCache_Delete_def)

lemmas cache_state = cache_ok_def extends_def under_way_def

lemma process_ok:
  fixes now :: int and ro :: "string list \<Rightarrow> string list"
  assumes "cache_ok key fn I c" and "op \<in> set (am_busy c)"
  defines "c' \<equiv> (AsyncMemoryCache_processOp ro now c op)\<lparr>am_busy := remove1 op (am_busy c), am_idle := am_idle c + 1\<rparr>"
  shows "cache_ok key fn I c' \<and> extends key fn I c c'"
proof -
  have op: "op \<in> under_way c" "\<forall>r. ao_result op = Some r \<longrightarrow> r < am_next c" "ao_opType op = ''set'' \<longrightarrow> result_of key fn I (ao_key op) (ao_value op)"
    using assms(1,2) by (auto simp: cache_state)
  have memo: "memory_cache.memo key fn I (am_cache c)" using assms(1) by (simp add: cache_ok_def)
  have sub: "under_way c' \<subseteq> under_way c"
    by (auto simp: c'_def under_way_def AsyncMemoryCache_processOp_def send_result_def send_done_def dest: notin_set_remove1
        split: prod.splits option.splits if_splits)
  have memo': "memory_cache.memo key fn I (am_cache c')"
    using memo op(3) memo_get(1) [OF memo] memo_set [OF memo] memo_delete [OF memo]
    by (auto simp: c'_def AsyncMemoryCache_processOp_def send_result_def send_done_def split: prod.splits option.splits)
  have next': "am_next c' = am_next c"
    by (auto simp: c'_def AsyncMemoryCache_processOp_def send_result_def send_done_def split: prod.splits option.splits)
  have replies: "(r, res) \<in> set (am_replies c') \<Longrightarrow> (r, res) \<in> set (am_replies c) \<or>
      (ao_result op = Some r \<and> cr_Error res = None \<and> (cr_Found res \<longrightarrow> result_of key fn I (ao_key op) (cr_Value res)))" for r res
    using memo_get(2) [OF memo]
    by (auto simp: c'_def AsyncMemoryCache_processOp_def send_result_def send_done_def split: prod.splits option.splits if_splits)
  have "\<forall>(r, res)\<in>set (am_replies c'). r < am_next c'"
    using assms(1) op(2) replies by (fastforce simp: cache_ok_def next')
  moreover have "\<forall>op\<in>under_way c'. (ao_opType op = ''set'' \<longrightarrow> result_of key fn I (ao_key op) (ao_value op)) \<and> (\<forall>r. ao_result op = Some r \<longrightarrow> r < am_next c')"
    using assms(1) sub by (auto simp: cache_ok_def next')
  moreover have "extends key fn I c c'"
    using sub replies op(1) by (fastforce simp: extends_def next')
  ultimately show ?thesis using memo' by (simp add: cache_ok_def)
qed

lemma worker_ok: "worker c c' \<Longrightarrow> cache_ok key fn I c \<Longrightarrow> cache_ok key fn I c' \<and> extends key fn I c c'"
proof (induction rule: worker.induct)
  case (process op c ro now)
  then show ?case using process_ok by blast
qed (auto simp: cache_state)

lemma enqueue_ok:
  assumes "cache_ok key fn I c" and "ao_opType op = ''set'' \<longrightarrow> result_of key fn I (ao_key op) (ao_value op)"
    and "\<forall>r. ao_result op = Some r \<longrightarrow> r = am_next c" and c': "c' = c\<lparr>am_next := Suc (am_next c), am_workerCh := am_workerCh c @ [op]\<rparr>"
  shows "cache_ok key fn I c' \<and> extends key fn I c c'"
proof -
  have uw: "under_way c' = insert op (under_way c)" and n: "am_next c' = Suc (am_next c)" by (auto simp: under_way_def c')
  have old: "x \<in> under_way c \<Longrightarrow> ao_result x = Some r \<Longrightarrow> r < Suc (am_next c)" for x r
    using assms(1) less_SucI unfolding cache_ok_def by blast
  have "\<forall>(r, res)\<in>set (am_replies c'). r < am_next c'"
    using assms(1) by (auto simp: cache_ok_def c' less_SucI)
  then have "cache_ok key fn I c'"
    using assms(1-3) old unfolding cache_ok_def uw n by (simp add: c')
  moreover have "extends key fn I c c'"
    using assms(3) unfolding extends_def uw n by (auto simp: c')
  ultimately show ?thesis by simp
qed

lemma AGet_ok:
  assumes "cache_ok key fn I c" and "AsyncMemoryCache_AGet sent err c k = (r, c')"
  shows "cache_ok key fn I c' \<and> extends key fn I c c'"
proof (cases sent)
  case True
  then show ?thesis
    using assms(2)
    by (intro enqueue_ok [OF assms(1), of "\<lparr>ao_opType = ''get'', ao_key = k, ao_value = GNil, ao_ttl = 0, ao_result = Some r, ao_done = None\<rparr>"])
      (auto simp: AsyncMemoryCache_AGet_def Let_def)
next
  case False
  then have c': "c' = c\<lparr>am_next := Suc (am_next c), am_replies := am_replies c @ [(am_next c, \<lparr>cr_Value = GNil, cr_Found = False, cr_Error = Some err\<rparr>)]\<rparr>"
    using assms(2) by (auto simp: AsyncMemoryCache_AGet_def Let_def send_result_def)
  have "x \<in> under_way c \<Longrightarrow> ao_result x = Some r \<Longrightarrow> r < Suc (am_next c)" for x r
    using assms(1) less_SucI unfolding cache_ok_def by blast
  moreover have "under_way c' = under_way c" by (simp add: c' under_way_def)
  ultimately show ?thesis
    using assms(1) unfolding cache_ok_def extends_def by (auto simp: c' less_SucI)
qed

lemma ASet_ok:
  assumes "cache_ok key fn I c" and "result_of key fn I k v"
  shows "cache_ok key fn I (snd (AsyncMemoryCache_ASet True err c k v ttl)) \<and> extends key fn I c (snd (AsyncMemoryCache_ASet True err c k v ttl))"
  by (rule enqueue_ok [OF assms(1), of "\<lparr>ao_opType = ''set'', ao_key = k, ao_value = v, ao_ttl = ttl, ao_result = None, ao_done = Some (am_next c)\<rparr>"])
    (use assms(2) in \<open>auto simp: AsyncMemoryCache_ASet_def Let_def\<close>)

lemma ADelete_ok:
  assumes "cache_ok key fn I c"
  shows "cache_ok key fn I (snd (AsyncMemoryCache_ADelete True err c k)) \<and> extends key fn I c (snd (AsyncMemoryCache_ADelete True err c k))"
  by (rule enqueue_ok [OF assms, of "\<lparr>ao_opType = ''delete'', ao_key = k, ao_value = GNil, ao_ttl = 0, ao_result = None, ao_done = Some (am_next c)\<rparr>"])
    (auto simp: AsyncMemoryCache_ADelete_def Let_def)

lemma memory_ok:
  assumes "cache_ok key fn I c" and "memory_cache.memo key fn I m"
  shows "cache_ok key fn I (c\<lparr>am_cache := m\<rparr>) \<and> extends key fn I c (c\<lparr>am_cache := m\<rparr>)"
  using assms by (auto simp: cache_state)

definition system_ok :: "(gvalue \<Rightarrow> string) \<Rightarrow> (gvalue \<Rightarrow> gerror + gvalue) \<Rightarrow> gvalue set \<Rightarrow> cache_system \<Rightarrow> bool" where
  "system_ok key fn I s \<longleftrightarrow> cache_ok key fn I (cs_cache s) \<and> (\<forall>x\<in>set (cs_calls s). call_ok key fn I (cs_cache s) x)"

lemma system_ok_cache:
  "system_ok key fn I s \<Longrightarrow> cache_ok key fn I c \<and> extends key fn I (cs_cache s) c \<Longrightarrow> system_ok key fn I (s\<lparr>cs_cache := c\<rparr>)"
  using call_ok_extends by (auto simp: system_ok_def)

lemma system_ok_call:
  assumes "system_ok key fn I s" and "i < length (cs_calls s)" and "call_ok key fn I (cs_cache s) ((cs_calls s ! i)\<lparr>ec_phase := ph\<rparr>)"
  shows "system_ok key fn I (set_phase s i ph)"
  using assms by (auto simp: system_ok_def set_phase_def dest!: set_update_subset_insert [THEN subsetD])

lemma system_ok_nth: "system_ok key fn I s \<Longrightarrow> i < length (cs_calls s) \<Longrightarrow> call_ok key fn I (cs_cache s) (cs_calls s ! i)"
  by (simp add: system_ok_def)

lemma call_ok_done:
  assumes "call_ok key fn I c x"
  shows "call_ok key fn I c (x\<lparr>ec_ctxDone := True\<rparr>)"
proof (cases "ec_phase x")
  case (Awaiting r)
  then show ?thesis using assms unfolding call_ok_def by simp blast
qed (use assms in \<open>auto simp: call_ok_def\<close>)

lemma call_ok_awaiting:
  assumes "cache_ok key fn I c" and "AsyncMemoryCache_AGet sent ctx_ended c (key (ec_input x)) = (r, c')" and "ec_input x \<in> I"
    and "sent \<or> ec_ctxDone x"
  shows "call_ok key fn I c' (x\<lparr>ec_phase := Awaiting r\<rparr>)"
proof -
  have r: "r = am_next c" using assms(2) by (simp add: AsyncMemoryCache_AGet_def Let_def)
  have new: "\<forall>op\<in>under_way c. ao_result op \<noteq> Some r" "\<forall>(r', res)\<in>set (am_replies c). r' \<noteq> r"
    using assms(1) by (auto simp: cache_ok_def r)
  show ?thesis
    using assms(2-4) new by (cases sent) (auto simp: call_ok_def AsyncMemoryCache_AGet_def Let_def send_result_def under_way_def)
qed

lemma consistent_result: "\<forall>i\<in>I. \<forall>j\<in>I. key i = key j \<longrightarrow> fn i = fn j \<Longrightarrow> result_of key fn I (key x) v \<Longrightarrow> x \<in> I \<Longrightarrow> fn x = Inr v"
  by (metis result_of_def)

lemma call_ok_reply:
  assumes "call_ok key fn I c x" and "ec_phase x = Awaiting r" and "(r, result) \<in> set (am_replies c)"
    and same: "\<forall>i\<in>I. \<forall>j\<in>I. key i = key j \<longrightarrow> fn i = fn j"
  shows "call_ok key fn I c (x\<lparr>ec_phase := after_reply result\<rparr>)"
proof -
  have x: "ec_input x \<in> I" using assms(1) by (simp add: call_ok_def)
  have "(cr_Error result = None \<or> (cr_Error result = Some ctx_ended \<and> ec_ctxDone x)) \<and>
      (cr_Found result \<longrightarrow> result_of key fn I (key (ec_input x)) (cr_Value result))"
    using assms(1-3) unfolding call_ok_def by simp blast
  then show ?thesis
    using x consistent_result [OF same] by (auto simp: call_ok_def after_reply_def split: option.splits)
qed

lemma exec_step_ok:
  assumes "exec_step policy key fn I s s'" and "system_ok key fn I s" and same: "\<forall>i\<in>I. \<forall>j\<in>I. key i = key j \<longrightarrow> fn i = fn j"
  shows "system_ok key fn I s'"
  using assms(1,2)
proof (induction rule: exec_step.induct)
  case (begin_call input s)
  then show ?case by (auto simp: system_ok_def call_ok_def)
next
  case (end_context i s)
  then have "call_ok key fn I (cs_cache s) ((cs_calls s ! i)\<lparr>ec_ctxDone := True\<rparr>)"
    using call_ok_done system_ok_nth by blast
  with end_context show ?case by (auto simp: system_ok_def dest!: set_update_subset_insert [THEN subsetD])
next
  case (look_async s i sent r c)
  have sys: "system_ok key fn I (s\<lparr>cs_cache := c\<rparr>)"
    using system_ok_cache [OF look_async.prems AGet_ok [OF _ look_async(4)]] look_async.prems by (simp add: system_ok_def)
  have "ec_input (cs_calls s ! i) \<in> I" using system_ok_nth [OF look_async.prems] look_async(1) by (simp add: call_ok_def)
  then have "call_ok key fn I c ((cs_calls s ! i)\<lparr>ec_phase := Awaiting r\<rparr>)"
    using look_async.prems look_async(3) by (intro call_ok_awaiting [where key = key and x = "cs_calls s ! i", OF _ look_async(4)]) (auto simp: system_ok_def split: if_splits)
  with system_ok_call [OF sys, of i] look_async(1) show ?case by simp
next
  case (reply s i r result)
  then have "call_ok key fn I (cs_cache s) ((cs_calls s ! i)\<lparr>ec_phase := after_reply result\<rparr>)"
    using call_ok_reply system_ok_nth same by blast
  with system_ok_call reply show ?case by blast
next
  case (cancelled s i r)
  then have "call_ok key fn I (cs_cache s) ((cs_calls s ! i)\<lparr>ec_phase := Returned (Inl ctx_ended)\<rparr>)"
    by (auto simp: system_ok_def call_ok_def dest!: nth_mem)
  with system_ok_call cancelled show ?case by blast
next
  case (look_sync s i now cached m)
  have memo: "memory_cache.memo key fn I (am_cache (cs_cache s))" using look_sync by (simp add: system_ok_def cache_ok_def)
  have sys: "system_ok key fn I (s\<lparr>cs_cache := (cs_cache s)\<lparr>am_cache := m\<rparr>\<rparr>)"
    using system_ok_cache [OF look_sync.prems memory_ok] memo_get(1) [OF memo look_sync(3)] look_sync.prems by (simp add: system_ok_def)
  have "ec_input (cs_calls s ! i) \<in> I" using look_sync by (auto simp: system_ok_def call_ok_def dest!: nth_mem)
  then have "call_ok key fn I c ((cs_calls s ! i)\<lparr>ec_phase := after_lookup cached\<rparr>)" for c
    using memo_get(2) [OF memo look_sync(3)] consistent_result [OF same] by (auto simp: call_ok_def after_lookup_def split: option.splits)
  with system_ok_call [OF sys, of i] look_sync(1) show ?case by simp
next
  case (call s i)
  then have "call_ok key fn I (cs_cache s) ((cs_calls s ! i)\<lparr>ec_phase := after_function (fn (ec_input (cs_calls s ! i)))\<rparr>)"
    by (auto simp: system_ok_def call_ok_def after_function_def dest!: nth_mem split: sum.splits)
  with system_ok_call call show ?case by blast
next
  case (store_async s i v)
  let ?c = "snd (AsyncMemoryCache_ASet True ctx_ended (cs_cache s) (key (ec_input (cs_calls s ! i))) v (async_ttl policy))"
  have x: "ec_input (cs_calls s ! i) \<in> I" "fn (ec_input (cs_calls s ! i)) = Inr v"
    using store_async by (auto simp: system_ok_def call_ok_def dest!: nth_mem)
  then have "result_of key fn I (key (ec_input (cs_calls s ! i))) v" by (auto simp: result_of_def)
  then have "system_ok key fn I (s\<lparr>cs_cache := ?c\<rparr>)"
    using store_async.prems by (intro system_ok_cache ASet_ok) (simp_all add: system_ok_def)
  from system_ok_call [OF this, of i] store_async(1) x show ?case by (simp add: call_ok_def)
next
  case (store_sync s i v ro now)
  let ?m = "MemoryCache_Set ro now (am_cache (cs_cache s)) (key (ec_input (cs_calls s ! i))) v (async_ttl policy)"
  have x: "ec_input (cs_calls s ! i) \<in> I" "fn (ec_input (cs_calls s ! i)) = Inr v"
    using store_sync by (auto simp: system_ok_def call_ok_def dest!: nth_mem)
  then have "memory_cache.memo key fn I ?m"
    using store_sync.prems by (intro memo_set) (auto simp: system_ok_def cache_ok_def result_of_def)
  then have "system_ok key fn I (s\<lparr>cs_cache := (cs_cache s)\<lparr>am_cache := ?m\<rparr>\<rparr>)"
    using system_ok_cache [OF store_sync.prems memory_ok] store_sync.prems by (simp add: system_ok_def)
  from system_ok_call [OF this, of i] store_sync(1) x show ?case by (simp add: call_ok_def)
next
  case (drop s k)
  then show ?case using system_ok_cache ADelete_ok by (simp add: system_ok_def)
next
  case (stop s c)
  then have c: "c = (cs_cache s)\<lparr>am_stopped := True\<rparr>" by (auto simp: AsyncMemoryCache_Stop_def split: if_splits)
  have "cache_ok key fn I c \<and> extends key fn I (cs_cache s) c"
    using stop.prems unfolding c system_ok_def cache_state by simp blast
  with stop system_ok_cache show ?case by blast
next
  case (work s c)
  then show ?case using system_ok_cache worker_ok by (simp add: system_ok_def)
qed

section \<open>The bound on the cache\<close>

text \<open>The cache is within its size and no store under way has an empty key.\<close>

definition within_size :: "AsyncMemoryCache \<Rightarrow> bool" where
  "within_size c \<longleftrightarrow> cache_inv (am_cache c) \<and> (\<forall>op\<in>under_way c. ao_opType op = ''set'' \<longrightarrow> ao_key op \<noteq> [])"

lemma worker_within:
  assumes "worker c c'" and "within_size c"
  shows "within_size c' \<and> mc_maxSize (am_cache c') = mc_maxSize (am_cache c)"
  using assms
proof (induction rule: worker.induct)
  case (process op c ro now)
  let ?c = "AsyncMemoryCache_processOp ro now c op"
  have "op \<in> under_way c" using process by (simp add: under_way_def)
  then have key: "ao_opType op = ''set'' \<longrightarrow> ao_key op \<noteq> []" and inv: "cache_inv (am_cache c)" using process by (auto simp: within_size_def)
  have "cache_step (am_cache c) (am_cache ?c) \<or> am_cache ?c = am_cache c"
    using key process(2) cache_step.intros
    by (auto simp: AsyncMemoryCache_processOp_def send_result_def send_done_def split: option.splits prod.splits) (metis snd_conv step_get)+
  then have "cache_inv (am_cache ?c) \<and> mc_maxSize (am_cache ?c) = mc_maxSize (am_cache c)" using cache_step_inv inv by auto
  moreover have "am_workerCh ?c = am_workerCh c"
    by (auto simp: AsyncMemoryCache_processOp_def send_result_def send_done_def split: option.splits prod.splits)
  ultimately show ?case
    using process.prems notin_set_remove1 by (fastforce simp: within_size_def under_way_def)
qed (auto simp: within_size_def under_way_def)

lemma exec_step_within:
  assumes "exec_step policy key fn I s s'" and "within_size (cs_cache s)" and keys: "\<forall>i. key i \<noteq> []"
  shows "within_size (cs_cache s') \<and> mc_maxSize (am_cache (cs_cache s')) = mc_maxSize (am_cache (cs_cache s))"
  using assms(1,2)
proof (induction rule: exec_step.induct)
  case (look_sync s i now cached m)
  then show ?case
    using cache_step_inv [OF step_get [of "am_cache (cs_cache s)" now "key (ec_input (cs_calls s ! i))"]]
    by (simp add: within_size_def under_way_def set_phase_def)
next
  case (store_sync s i v ro now)
  then show ?case
    using cache_step_inv [OF step_set [of ro "key (ec_input (cs_calls s ! i))" "am_cache (cs_cache s)" now v "async_ttl policy"]] keys
    by (simp add: within_size_def under_way_def set_phase_def)
next
  case (work s c)
  then show ?case using worker_within by simp
next
  case (look_async s i sent r c)
  then show ?case by (cases sent) (auto simp: within_size_def under_way_def set_phase_def AsyncMemoryCache_AGet_def Let_def send_result_def)
next
  case (store_async s i v)
  then show ?case using keys by (auto simp: within_size_def under_way_def set_phase_def AsyncMemoryCache_ASet_def Let_def)
next
  case (drop s k)
  then show ?case by (auto simp: within_size_def under_way_def AsyncMemoryCache_ADelete_def Let_def)
next
  case (stop s c)
  then show ?case by (auto simp: within_size_def under_way_def AsyncMemoryCache_Stop_def split: if_splits)
qed (auto simp: set_phase_def)

section \<open>Answers\<close>

definition op_answered :: "asyncCacheOp \<Rightarrow> AsyncMemoryCache \<Rightarrow> bool" where
  "op_answered op c \<longleftrightarrow>
     (ao_opType op = ''get'' \<longrightarrow> (\<forall>r. ao_result op = Some r \<longrightarrow> r \<in> fst ` set (am_replies c))) \<and>
     (ao_opType op = ''set'' \<or> ao_opType op = ''delete'' \<longrightarrow> (\<forall>r. ao_done op = Some r \<longrightarrow> (r, None) \<in> set (am_dones c)))"

lemma answered_frame [simp]:
  "op_answered op (c\<lparr>am_busy := b, am_idle := i\<rparr>) = op_answered op c" "op_answered op (c\<lparr>am_workerCh := q, am_idle := i, am_busy := b\<rparr>) = op_answered op c"
  by (simp_all add: op_answered_def)

definition work_left :: "AsyncMemoryCache \<Rightarrow> nat" where
  "work_left c = 2 * length (am_workerCh c) + length (am_busy c)"

lemma process_frame:
  "am_workerCh (AsyncMemoryCache_processOp ro now c op) = am_workerCh c" "am_stopped (AsyncMemoryCache_processOp ro now c op) = am_stopped c"
  "set (am_replies c) \<subseteq> set (am_replies (AsyncMemoryCache_processOp ro now c op))" "set (am_dones c) \<subseteq> set (am_dones (AsyncMemoryCache_processOp ro now c op))"
  "op_answered op (AsyncMemoryCache_processOp ro now c op)"
  by (auto simp: AsyncMemoryCache_processOp_def send_result_def send_done_def op_answered_def split: option.splits prod.splits)

lemma cache_worker_progress:
  assumes "worker c c'" and "\<not> am_stopped c"
  shows "\<not> am_stopped c' \<and> work_left c' < work_left c \<and> am_idle c' + length (am_busy c') = am_idle c + length (am_busy c) \<and>
    (\<forall>op. op \<in> under_way c \<or> op_answered op c \<longrightarrow> op \<in> under_way c' \<or> op_answered op c')"
  using assms
proof (induction rule: worker.induct)
  case (process op c ro now)
  let ?c = "AsyncMemoryCache_processOp ro now c op"
  have "length (am_busy c) > 0" using process(1) by (cases "am_busy c") auto
  moreover have "op_answered x c \<Longrightarrow> op_answered x ?c" for x using process_frame(3,4) [of c ro now op] unfolding op_answered_def by blast
  moreover have "x \<in> set (am_busy c) \<Longrightarrow> x = op \<or> x \<in> set (remove1 op (am_busy c))" for x by (cases "x = op") auto
  ultimately show ?case
    using process process_frame(1,2) [of ro now c op] process_frame(5) [of op ro now c]
    by (auto simp: work_left_def under_way_def length_remove1)
qed (auto simp: work_left_def under_way_def)

lemma workers_progress:
  "(worker ^^ n) c c' \<Longrightarrow> \<not> am_stopped c \<Longrightarrow> \<not> am_stopped c' \<and> n + work_left c' \<le> work_left c \<and> am_idle c' + length (am_busy c') = am_idle c + length (am_busy c) \<and>
    (\<forall>op\<in>under_way c. op \<in> under_way c' \<or> op_answered op c')"
proof (induction n arbitrary: c')
  case (Suc n)
  then obtain d where "(worker ^^ n) c d" "worker d c'" by auto
  with Suc cache_worker_progress [of d c'] show ?case by (auto dest: Suc.IH)
qed auto

section \<open>Properties\<close>

text \<open>C27: Asynchronous caching does not change results.  However calls of the executor, workers, deletions, a stop of the cache and the ends of contexts
  interleave, every call that returns returns what the function returns for its input, or, when its context has ended, the error of the
  context, as long as inputs with equal keys have equal results.\<close>

theorem async_calls_transparent:
  assumes "\<forall>i\<in>inputs. \<forall>j\<in>inputs. async_key marshal sha policy name i = async_key marshal sha policy name j \<longrightarrow> fn i = fn j"
    and "exec_reach policy (async_key marshal sha policy name) fn inputs (NewAsyncMemoryCache maxSize eviction numWorkers) s"
    and "x \<in> set (cs_calls s)" and "ec_phase x = Returned r"
  shows "r = fn (ec_input x) \<or> (r = Inl ctx_ended \<and> ec_ctxDone x)"
proof -
  let ?key = "async_key marshal sha policy name"
  have "system_ok ?key fn inputs s"
    using assms(2)
  proof (induction rule: exec_reach.induct)
    case new
    show ?case by (simp add: system_ok_def cache_state memo_iff memory_held_def NewAsyncMemoryCache_def NewMemoryCache_def)
  next
    case (step s s')
    then show ?case using exec_step_ok assms(1) by blast
  qed
  then show ?thesis using assms(3,4) by (fastforce simp: system_ok_def call_ok_def)
qed

text \<open>However calls and workers interleave, the cache holds at most \<open>maxSize\<close> entries (one when \<open>maxSize\<close> is not positive), when no key is empty.\<close>

theorem async_cache_bounded:
  assumes "exec_reach policy key fn inputs (NewAsyncMemoryCache maxSize eviction numWorkers) s" and "\<forall>i. key i \<noteq> []"
  shows "int (length (mc_data (am_cache (cs_cache s)))) \<le> max 1 (sint maxSize)"
proof -
  have "within_size (cs_cache s) \<and> mc_maxSize (am_cache (cs_cache s)) = maxSize"
    using assms(1)
  proof (induction rule: exec_reach.induct)
    case new
    show ?case by (simp add: within_size_def cache_inv_def under_way_def NewAsyncMemoryCache_def NewMemoryCache_def mwf_def mhas_def)
  next
    case (step s s')
    then show ?case using exec_step_within assms(2) by auto
  qed
  then show ?thesis by (auto simp: within_size_def cache_inv_def)
qed

text \<open>C28: While the cache is not stopped its workers answer everything: they take a bounded number of steps, and when no worker can go on
  nothing is queued or under way and every operation that was has been answered.\<close>

theorem operations_answered:
  assumes "\<not> am_stopped c" and "0 < am_idle c + length (am_busy c)" and "(worker ^^ n) c c'"
  shows "n \<le> 2 * length (am_workerCh c) + length (am_busy c) \<and>
    ((\<forall>c''. \<not> worker c' c'') \<longrightarrow> am_workerCh c' = [] \<and> am_busy c' = [] \<and> (\<forall>op\<in>set (am_workerCh c) \<union> set (am_busy c). op_answered op c'))"
proof -
  note p = workers_progress [OF assms(3,1)]
  have "am_busy c' = [] \<and> am_workerCh c' = []" if stuck: "\<forall>c''. \<not> worker c' c''"
  proof -
    have busy: "am_busy c' = []"
    proof (rule ccontr)
      assume "am_busy c' \<noteq> []"
      then have "worker c' ((AsyncMemoryCache_processOp id 0 c' (hd (am_busy c')))\<lparr>am_busy := remove1 (hd (am_busy c')) (am_busy c'), am_idle := am_idle c' + 1\<rparr>)"
        by (intro process) (simp_all add: range_order_def)
      with stuck show False by blast
    qed
    then have "0 < am_idle c'" using p assms(2) by simp
    then show ?thesis using stuck worker.take busy by (cases "am_workerCh c'") blast+
  qed
  then show ?thesis using p by (auto simp: work_left_def under_way_def)
qed

section \<open>A concrete run\<close>

text \<open>One call through a cache with one worker: lookup, miss, call, store.\<close>

definition fixed_policy :: "AsyncCachePolicy option" where
  "fixed_policy = Some \<lparr>ap_KeyFunc = Some (\<lambda>i. ''k''), ap_TTL = None, ap_Async = True\<rparr>"

definition small_cache :: AsyncMemoryCache where
  "small_cache = NewAsyncMemoryCache 1 EvictLRU 1"

definition get_op :: asyncCacheOp where
  "get_op = \<lparr>ao_opType = ''get'', ao_key = ''k'', ao_value = GNil, ao_ttl = 0, ao_result = Some 0, ao_done = None\<rparr>"

abbreviation one_call :: "AsyncMemoryCache \<Rightarrow> exec_phase \<Rightarrow> cache_system" where
  "one_call c ph \<equiv> \<lparr>cs_cache = c, cs_calls = [\<lparr>ec_input = GNil, ec_ctxDone = False, ec_phase = ph\<rparr>]\<rparr>"

lemmas small_defs = small_cache_def NewAsyncMemoryCache_def NewMemoryCache_def

lemma sample_call:
  assumes "key GNil = ''k''" and "fn GNil = Inr (GInt 1)"
  shows "\<exists>c. exec_reach fixed_policy key fn {GNil} small_cache (one_call c (Returned (Inr (GInt 1))))"
proof -
  let ?R = "exec_reach fixed_policy key fn {GNil} small_cache"
  define c1 where "c1 = small_cache\<lparr>am_next := 1, am_workerCh := [get_op]\<rparr>"
  define c2 where "c2 = c1\<lparr>am_workerCh := [], am_idle := 0, am_busy := [get_op]\<rparr>"
  define c3 where "c3 = c2\<lparr>am_busy := [], am_idle := 1, am_replies := [(0, \<lparr>cr_Value = GNil, cr_Found = False, cr_Error = None\<rparr>)]\<rparr>"
  have async: "is_async fixed_policy" by (simp add: is_async_def fixed_policy_def)
  have "?R (one_call small_cache Looking)"
    using step [OF new begin_call [of GNil]] by simp
  moreover have "AsyncMemoryCache_AGet True ctx_ended small_cache ''k'' = (0, c1)"
    by (simp add: AsyncMemoryCache_AGet_def c1_def get_op_def small_defs)
  ultimately have "?R (one_call c1 (Awaiting 0))"
    using exec_reach.step [OF _ look_async [where s = "one_call small_cache Looking" and i = 0 and sent = True and r = 0 and c = c1 and policy = fixed_policy and key = key and fn = fn and inputs = "{GNil}"]] async assms
    by (simp add: set_phase_def queue_capacity_def small_defs)
  moreover have "worker c1 c2" using worker.take [of c1 get_op "[]"] by (simp add: c2_def c1_def small_defs)
  ultimately have "?R (one_call c2 (Awaiting 0))"
    using exec_reach.step [OF _ work [where s = "one_call c1 (Awaiting 0)" and c = c2 and policy = fixed_policy and key = key and fn = fn and inputs = "{GNil}"]] by simp
  moreover have "worker c2 c3"
    using worker.process [of get_op c2 id 0]
    by (simp add: c3_def c2_def c1_def small_defs get_op_def range_order_def AsyncMemoryCache_processOp_def MemoryCache_Get_def send_result_def)
  ultimately have "?R (one_call c3 (Awaiting 0))"
    using exec_reach.step [OF _ work [where s = "one_call c2 (Awaiting 0)" and c = c3 and policy = fixed_policy and key = key and fn = fn and inputs = "{GNil}"]] by simp
  then have "?R (one_call c3 Calling)"
    using exec_reach.step [OF _ reply [where s = "one_call c3 (Awaiting 0)" and i = 0 and r = 0 and
        result = "\<lparr>cr_Value = GNil, cr_Found = False, cr_Error = None\<rparr>" and policy = fixed_policy and key = key and fn = fn and inputs = "{GNil}"]]
    by (simp add: set_phase_def after_reply_def c3_def)
  then have "?R (one_call c3 (Storing (GInt 1)))"
    using exec_reach.step [OF _ call [where s = "one_call c3 Calling" and i = 0 and policy = fixed_policy and key = key and fn = fn and inputs = "{GNil}"]] assms by (simp add: set_phase_def after_function_def)
  then show ?thesis
    using exec_reach.step [OF _ store_async [where s = "one_call c3 (Storing (GInt 1))" and i = 0 and v = "GInt 1" and policy = fixed_policy and key = key and fn = fn and inputs = "{GNil}"]] async
    by (auto simp: set_phase_def queue_capacity_def c3_def c2_def)
qed

lemma fixed_key: "async_key (\<lambda>i. None) id fixed_policy ''n'' = (\<lambda>i. ''k'')"
  by (simp add: async_key_def fixed_policy_def fun_eq_iff)

theorem async_calls_transparent_witness:
  "\<exists>c. exec_reach fixed_policy (async_key (\<lambda>i. None) id fixed_policy ''n'') (\<lambda>i. Inr (GInt 1)) {GNil} (NewAsyncMemoryCache 1 EvictLRU 1)
     (one_call c (Returned (Inr (GInt 1)))) \<and> (Inr (GInt 1) = (\<lambda>i::gvalue. Inr (GInt 1) :: gerror + gvalue) GNil \<or> (Inr (GInt 1) = Inl ctx_ended \<and> False))"
proof -
  obtain c where c: "exec_reach fixed_policy (async_key (\<lambda>i. None) id fixed_policy ''n'') (\<lambda>i. Inr (GInt 1)) {GNil} (NewAsyncMemoryCache 1 EvictLRU 1)
     (one_call c (Returned (Inr (GInt 1))))"
    using sample_call [of "\<lambda>i. ''k''" "\<lambda>i. Inr (GInt 1)"] by (auto simp: fixed_key small_cache_def)
  show ?thesis
    using async_calls_transparent [OF _ c, of "\<lparr>ec_input = GNil, ec_ctxDone = False, ec_phase = Returned (Inr (GInt 1))\<rparr>" "Inr (GInt 1)"] c by auto
qed

theorem async_cache_bounded_witness:
  "\<exists>c. exec_reach fixed_policy (\<lambda>i. ''k'') (\<lambda>i. Inr (GInt 1)) {GNil} (NewAsyncMemoryCache 1 EvictLRU 1) (one_call c (Returned (Inr (GInt 1)))) \<and>
     length (mc_data (am_cache c)) \<le> 1"
proof -
  obtain c where c: "exec_reach fixed_policy (\<lambda>i. ''k'') (\<lambda>i. Inr (GInt 1)) {GNil} (NewAsyncMemoryCache 1 EvictLRU 1) (one_call c (Returned (Inr (GInt 1))))"
    using sample_call [of "\<lambda>i. ''k''" "\<lambda>i. Inr (GInt 1)"] by (auto simp: small_cache_def)
  have "sint (1 :: goint) = 1" by simp
  with async_cache_bounded [OF c] c show ?thesis by auto
qed

theorem operations_answered_witness:
  "\<exists>c'. (worker ^^ 2) (small_cache\<lparr>am_workerCh := [get_op]\<rparr>) c' \<and> am_workerCh c' = [] \<and> am_busy c' = [] \<and> op_answered get_op c'"
proof -
  let ?c0 = "small_cache\<lparr>am_workerCh := [get_op]\<rparr>"
  let ?c1 = "?c0\<lparr>am_workerCh := [], am_idle := 0, am_busy := [get_op]\<rparr>"
  let ?c2 = "(AsyncMemoryCache_processOp (\<lambda>ks. ks) 0 ?c1 get_op)\<lparr>am_busy := [], am_idle := 1\<rparr>"
  have "worker ?c0 ?c1" using worker.take [of ?c0 get_op "[]"] by (simp add: small_defs)
  moreover have "worker ?c1 ?c2" using worker.process [of get_op ?c1 "\<lambda>ks. ks" 0] by simp
  ultimately have steps: "(worker ^^ 2) ?c0 ?c2" by (auto simp: numeral_2_eq_2)
  have "\<not> worker ?c2 c" for c
    by (auto simp: small_defs process_frame elim!: worker.cases)
  then have "am_workerCh ?c2 = [] \<and> am_busy ?c2 = [] \<and> op_answered get_op ?c2"
    using operations_answered [OF _ _ steps] by (simp add: small_defs)
  then show ?thesis using steps by blast
qed

section \<open>Where the code does less than it says\<close>

text \<open>After the workers have stopped a lookup is queued and never answered: whatever the workers do, there is no reply, and the call waits for
  the end of its context.\<close>

theorem stopped_cache_never_answers:
  assumes "am_idle c = 0" and "am_busy c = []" and "worker\<^sup>*\<^sup>* c c'"
  shows "c' = c"
  using assms(3,1,2) by (induction rule: converse_rtranclp_induct) (auto elim: worker.cases)

text \<open>Stopping twice panics.\<close>

theorem second_stop_panics:
  "AsyncMemoryCache_Stop c = Inr c' \<Longrightarrow> isl (AsyncMemoryCache_Stop c')"
  by (auto simp: AsyncMemoryCache_Stop_def split: if_splits)

end
