(* ===== verification/Managed.thy ===== *)
theory Managed
  imports Config
begin

text \<open>
  \<open>managed/managed.go\<close>: values the runtime injects into nodes, a scratchpad for a run, the runtime of a task and its configuration, and
  checkpoint namespaces.  A managed value is a pointer; its methods return the new value.  A nil map is \<open>None\<close>.
\<close>

section \<open>Managed values\<close>

text \<open>What is given to \<open>Get\<close>: a value, or a \<open>PregelScratchpad\<close> of this package, whose type is not \<open>map[string]interface{}\<close>.\<close>

datatype scratch_arg = ScratchValue gvalue | ScratchPad "gvalue gomap"

datatype ManagedValue = IsLastStep bool | CurrentStep goint | ConfigValue string gvalue | TaskID string | NodeName string

fun as_map :: "scratch_arg \<Rightarrow> gvalue gomap" where
  "as_map (ScratchValue (GMap m)) = m"
| "as_map _ = []"

fun ManagedValue_Get :: "ManagedValue \<Rightarrow> scratch_arg \<Rightarrow> gvalue \<times> ManagedValue" where
  "ManagedValue_Get (IsLastStep b) s =
     (let b = (case mget (as_map s) ''is_last_step'' of Some (GBool bl) \<Rightarrow> bl | _ \<Rightarrow> b) in (GBool b, IsLastStep b))"
| "ManagedValue_Get (CurrentStep n) s =
     (let n = (case mget (as_map s) ''current_step'' of Some (GInt num) \<Rightarrow> num | _ \<Rightarrow> n) in (GInt n, CurrentStep n))"
| "ManagedValue_Get (ConfigValue key dflt) s =
     (case mget (as_map s) ''configurable'' of
        Some (GMap configurable) \<Rightarrow> (case mget configurable key of Some v \<Rightarrow> v | None \<Rightarrow> dflt)
      | _ \<Rightarrow> dflt, ConfigValue key dflt)"
| "ManagedValue_Get (TaskID v) s =
     (let v = (case mget (as_map s) ''task_id'' of Some (GString str) \<Rightarrow> str | _ \<Rightarrow> v) in (GString v, TaskID v))"
| "ManagedValue_Get (NodeName v) s =
     (let v = (case mget (as_map s) ''node_name'' of Some (GString str) \<Rightarrow> str | _ \<Rightarrow> v) in (GString v, NodeName v))"

fun ManagedValue_Name :: "ManagedValue \<Rightarrow> string" where
  "ManagedValue_Name (IsLastStep b) = ''IsLastStep''"
| "ManagedValue_Name (CurrentStep n) = ''CurrentStep''"
| "ManagedValue_Name (ConfigValue key dflt) = ''ConfigValue['' @ key @ '']''"
| "ManagedValue_Name (TaskID v) = ''TaskID''"
| "ManagedValue_Name (NodeName v) = ''NodeName''"

fun ManagedValue_Copy :: "ManagedValue \<Rightarrow> ManagedValue" where
  "ManagedValue_Copy (IsLastStep b) = IsLastStep b"
| "ManagedValue_Copy (CurrentStep n) = CurrentStep n"
| "ManagedValue_Copy (ConfigValue key dflt) = ConfigValue key dflt"
| "ManagedValue_Copy (TaskID v) = TaskID v"
| "ManagedValue_Copy (NodeName v) = NodeName v"

definition NewIsLastStep :: ManagedValue where "NewIsLastStep = IsLastStep False"

definition NewCurrentStep :: ManagedValue where "NewCurrentStep = CurrentStep 0"

definition NewConfigValue :: "string \<Rightarrow> gvalue \<Rightarrow> ManagedValue" where "NewConfigValue key dflt = ConfigValue key dflt"

definition NewTaskID :: ManagedValue where "NewTaskID = TaskID []"

definition NewNodeName :: ManagedValue where "NewNodeName = NodeName []"

fun IsLastStep_Set :: "ManagedValue \<Rightarrow> bool \<Rightarrow> ManagedValue" where
  "IsLastStep_Set (IsLastStep _) b = IsLastStep b"
| "IsLastStep_Set v b = v"

fun CurrentStep_Set :: "ManagedValue \<Rightarrow> goint \<Rightarrow> ManagedValue" where
  "CurrentStep_Set (CurrentStep _) n = CurrentStep n"
| "CurrentStep_Set v n = v"

fun CurrentStep_Increment :: "ManagedValue \<Rightarrow> ManagedValue" where
  "CurrentStep_Increment (CurrentStep n) = CurrentStep (n + 1)"
| "CurrentStep_Increment v = v"

text \<open>What the users of managed values rely on.\<close>

locale managed_values =
  fixes get :: "'v \<Rightarrow> 's \<Rightarrow> gvalue \<times> 'v" and copy :: "'v \<Rightarrow> 'v" and name :: "'v \<Rightarrow> string"
  assumes get_stable: "get (snd (get v s)) s = get v s"
    and copy_get: "fst (get (copy v) s) = fst (get v s)"
    and name_get: "name (snd (get v s)) = name v"
    and name_copy: "name (copy v) = name v"
begin

lemma get_twice: "fst (get (snd (get v s)) s) = fst (get v s)"
  by (simp add: get_stable)

lemma name_gets: "name (snd (get (snd (get v s)) s')) = name v"
  by (simp add: name_get)

end

interpretation injected: managed_values ManagedValue_Get ManagedValue_Copy ManagedValue_Name
proof
  fix v s
  show "ManagedValue_Get (snd (ManagedValue_Get v s)) s = ManagedValue_Get v s"
    by (cases v) (auto simp: Let_def split: option.splits gvalue.splits)
  show "fst (ManagedValue_Get (ManagedValue_Copy v) s) = fst (ManagedValue_Get v s)" by (cases v) simp_all
  show "ManagedValue_Name (snd (ManagedValue_Get v s)) = ManagedValue_Name v" by (cases v) (simp_all add: Let_def)
  show "ManagedValue_Name (ManagedValue_Copy v) = ManagedValue_Name v" by (cases v) simp_all
qed

section \<open>Mappings and specifications\<close>

record ManagedValueMapping =
  mv_data :: "ManagedValue gomap"

definition NewManagedValueMapping :: ManagedValueMapping where
  "NewManagedValueMapping = \<lparr>mv_data = []\<rparr>"

definition ManagedValueMapping_Register :: "ManagedValueMapping \<Rightarrow> string \<Rightarrow> ManagedValue \<Rightarrow> ManagedValueMapping" where
  "ManagedValueMapping_Register m name v = m\<lparr>mv_data := mput (mv_data m) name v\<rparr>"

definition ManagedValueMapping_Get :: "ManagedValueMapping \<Rightarrow> string \<Rightarrow> ManagedValue option" where
  "ManagedValueMapping_Get m name = mget (mv_data m) name"

definition ManagedValueMapping_Contains :: "ManagedValueMapping \<Rightarrow> string \<Rightarrow> bool" where
  "ManagedValueMapping_Contains m name \<longleftrightarrow> mhas (mv_data m) name"

definition ManagedValueMapping_Names :: "(string list \<Rightarrow> string list) \<Rightarrow> ManagedValueMapping \<Rightarrow> string list" where
  "ManagedValueMapping_Names ro m = map fst (range_entries ro (mv_data m))"

record ManagedValueSpec =
  ms_Name :: string
  ms_Factory :: "ManagedValue option"
  ms_Default :: gvalue

definition ManagedValueSpec_Create :: "ManagedValueSpec \<Rightarrow> ManagedValue option" where
  "ManagedValueSpec_Create s = ms_Factory s"

definition ManagedValueSpec_GetValue :: "ManagedValueSpec \<Rightarrow> scratch_arg \<Rightarrow> gvalue" where
  "ManagedValueSpec_GetValue s scratchpad =
     (if scratchpad \<noteq> ScratchValue GNil
      then (case ms_Factory s of Some mv \<Rightarrow> fst (ManagedValue_Get mv scratchpad) | None \<Rightarrow> ms_Default s)
      else ms_Default s)"

section \<open>The scratchpad\<close>

type_synonym scratch_map = "gvalue gomap"

definition pad_counter :: "string \<Rightarrow> scratch_map \<Rightarrow> goint" where
  "pad_counter key p = (case mget p key of Some (GInt n) \<Rightarrow> n | _ \<Rightarrow> 0)"

definition GetCallCounter :: "scratch_map \<Rightarrow> goint" where "GetCallCounter p = pad_counter ''call_counter'' p"

definition IncrementCallCounter :: "scratch_map \<Rightarrow> scratch_map" where
  "IncrementCallCounter p = mput p ''call_counter'' (GInt (GetCallCounter p + 1))"

definition SetCallCounter :: "scratch_map \<Rightarrow> goint \<Rightarrow> scratch_map" where "SetCallCounter p n = mput p ''call_counter'' (GInt n)"

definition GetInterruptCounter :: "scratch_map \<Rightarrow> goint" where "GetInterruptCounter p = pad_counter ''interrupt_counter'' p"

definition IncrementInterruptCounter :: "scratch_map \<Rightarrow> scratch_map" where
  "IncrementInterruptCounter p = mput p ''interrupt_counter'' (GInt (GetInterruptCounter p + 1))"

definition GetSubgraphCounter :: "scratch_map \<Rightarrow> goint" where "GetSubgraphCounter p = pad_counter ''subgraph_counter'' p"

definition IncrementSubgraphCounter :: "scratch_map \<Rightarrow> scratch_map" where
  "IncrementSubgraphCounter p = mput p ''subgraph_counter'' (GInt (GetSubgraphCounter p + 1))"

definition pad_Get :: "scratch_map \<Rightarrow> string \<Rightarrow> gvalue option" where "pad_Get p key = mget p key"

definition pad_Set :: "scratch_map \<Rightarrow> string \<Rightarrow> gvalue \<Rightarrow> scratch_map" where "pad_Set p key v = mput p key v"

definition pad_Delete :: "scratch_map \<Rightarrow> string \<Rightarrow> scratch_map" where "pad_Delete p key = mdel p key"

definition pad_Clear :: "scratch_map \<Rightarrow> scratch_map" where "pad_Clear p = foldl mdel p (mkeys p)"

definition pad_Clone :: "(string list \<Rightarrow> string list) \<Rightarrow> scratch_map \<Rightarrow> scratch_map" where "pad_Clone ro p = mputs [] (range_entries ro p)"

section \<open>The runtime\<close>

text \<open>A value that may be a function: functions are named by numbers.\<close>

datatype any_value = AnyValue gvalue | AnyFunc nat

record Runtime =
  rt_TaskID :: string
  rt_NodeName :: string
  rt_Step :: goint
  rt_Configurable :: "gvalue gomap option"
  rt_CheckpointNS :: string
  rt_Context :: any_value
  rt_Store :: any_value
  rt_StreamWriter :: "nat option"
  rt_Previous :: any_value

definition NewRuntime :: Runtime where
  "NewRuntime = \<lparr>rt_TaskID = [], rt_NodeName = [], rt_Step = 0, rt_Configurable = Some [], rt_CheckpointNS = [],
     rt_Context = AnyValue GNil, rt_Store = AnyValue GNil, rt_StreamWriter = None, rt_Previous = AnyValue GNil\<rparr>"

definition DEFAULT_RUNTIME :: Runtime where
  "DEFAULT_RUNTIME = \<lparr>rt_TaskID = [], rt_NodeName = [], rt_Step = 0, rt_Configurable = None, rt_CheckpointNS = [],
     rt_Context = AnyValue GNil, rt_Store = AnyValue GNil, rt_StreamWriter = None, rt_Previous = AnyValue GNil\<rparr>"

definition cloneMap :: "(string list \<Rightarrow> string list) \<Rightarrow> gvalue gomap option \<Rightarrow> gvalue gomap option" where
  "cloneMap ro src = map_option (\<lambda>m. mputs [] (range_entries ro m)) src"

definition Runtime_Clone :: "(string list \<Rightarrow> string list) \<Rightarrow> Runtime \<Rightarrow> Runtime" where
  "Runtime_Clone ro r = r\<lparr>rt_Configurable := cloneMap ro (rt_Configurable r)\<rparr>"

definition Runtime_Merge :: "(string list \<Rightarrow> string list) \<Rightarrow> Runtime \<Rightarrow> Runtime option \<Rightarrow> gerror + Runtime" where
  "Runtime_Merge ro r other =
     (case other of
        None \<Rightarrow> Inr (Runtime_Clone ro r)
      | Some other \<Rightarrow>
          let m = Runtime_Clone ro r;
              m = m\<lparr>rt_Context := if rt_Context other \<noteq> AnyValue GNil then rt_Context other else rt_Context m,
                    rt_Store := if rt_Store other \<noteq> AnyValue GNil then rt_Store other else rt_Store m,
                    rt_StreamWriter := if rt_StreamWriter other \<noteq> None then rt_StreamWriter other else rt_StreamWriter m,
                    rt_Previous := if rt_Previous other \<noteq> AnyValue GNil then rt_Previous other else rt_Previous m,
                    rt_TaskID := if rt_TaskID other \<noteq> [] then rt_TaskID other else rt_TaskID m,
                    rt_NodeName := if rt_NodeName other \<noteq> [] then rt_NodeName other else rt_NodeName m,
                    rt_Step := if rt_Step other \<noteq> 0 then rt_Step other else rt_Step m,
                    rt_CheckpointNS := if rt_CheckpointNS other \<noteq> [] then rt_CheckpointNS other else rt_CheckpointNS m\<rparr>;
              entries = (case rt_Configurable other of None \<Rightarrow> [] | Some c \<Rightarrow> range_entries ro c)
          in case rt_Configurable m of
               None \<Rightarrow> if entries = [] then Inr m else Inl nil_map_panic
             | Some c \<Rightarrow> Inr (m\<lparr>rt_Configurable := Some (mputs c entries)\<rparr>))"

definition Runtime_Set :: "Runtime \<Rightarrow> string \<Rightarrow> gvalue \<Rightarrow> Runtime" where
  "Runtime_Set r key v = r\<lparr>rt_Configurable := Some (mput (case rt_Configurable r of None \<Rightarrow> [] | Some c \<Rightarrow> c) key v)\<rparr>"

definition Runtime_Get :: "Runtime \<Rightarrow> string \<Rightarrow> gvalue option" where
  "Runtime_Get r key = (case rt_Configurable r of None \<Rightarrow> None | Some c \<Rightarrow> mget c key)"

definition Runtime_Override :: "(string list \<Rightarrow> string list) \<Rightarrow> Runtime \<Rightarrow> any_value gomap \<Rightarrow> Runtime" where
  "Runtime_Override ro r overrides =
     (let n = Runtime_Clone ro r;
          n = (case mget overrides ''context'' of Some v \<Rightarrow> n\<lparr>rt_Context := v\<rparr> | None \<Rightarrow> n);
          n = (case mget overrides ''store'' of Some v \<Rightarrow> n\<lparr>rt_Store := v\<rparr> | None \<Rightarrow> n);
          n = (case mget overrides ''stream_writer'' of Some (AnyFunc f) \<Rightarrow> n\<lparr>rt_StreamWriter := Some f\<rparr> | _ \<Rightarrow> n);
          n = (case mget overrides ''previous'' of Some v \<Rightarrow> n\<lparr>rt_Previous := v\<rparr> | None \<Rightarrow> n);
          n = (case mget overrides ''task_id'' of Some (AnyValue (GString s)) \<Rightarrow> n\<lparr>rt_TaskID := s\<rparr> | _ \<Rightarrow> n);
          n = (case mget overrides ''node_name'' of Some (AnyValue (GString s)) \<Rightarrow> n\<lparr>rt_NodeName := s\<rparr> | _ \<Rightarrow> n);
          n = (case mget overrides ''step'' of Some (AnyValue (GInt s)) \<Rightarrow> n\<lparr>rt_Step := s\<rparr> | _ \<Rightarrow> n)
      in case mget overrides ''checkpoint_ns'' of Some (AnyValue (GString s)) \<Rightarrow> n\<lparr>rt_CheckpointNS := s\<rparr> | _ \<Rightarrow> n)"

section \<open>The configuration\<close>

text \<open>A configuration holds values, functions and runtimes, here named by their addresses.\<close>

datatype config_any = CValue gvalue | CFunc nat | CRuntime nat

type_synonym config = "config_any gomap option"

definition ManagedConfigKeyConfigurable :: string where "ManagedConfigKeyConfigurable = ''__configurable__''"

definition config_get :: "config \<Rightarrow> string \<Rightarrow> config_any option" where
  "config_get c key = (case c of None \<Rightarrow> None | Some m \<Rightarrow> mget m key)"

definition config_text :: "config \<Rightarrow> string \<Rightarrow> string" where
  "config_text c key = (case config_get c key of Some (CValue (GString s)) \<Rightarrow> s | _ \<Rightarrow> [])"

definition config_set :: "config \<Rightarrow> string \<Rightarrow> config_any \<Rightarrow> config" where
  "config_set c key v = (case c of None \<Rightarrow> None | Some m \<Rightarrow> Some (mput m key v))"

definition GetTaskID :: "config \<Rightarrow> string" where "GetTaskID c = config_text c ''__task_id__''"

text \<open>The address of the runtime, \<open>None\<close> for a new one.\<close>

definition GetRuntime :: "config \<Rightarrow> nat option" where
  "GetRuntime c = (case config_get c ''__runtime__'' of Some (CRuntime a) \<Rightarrow> Some a | _ \<Rightarrow> None)"

definition SetRuntime :: "config \<Rightarrow> nat \<Rightarrow> config" where "SetRuntime c a = config_set c ''__runtime__'' (CRuntime a)"

definition GetReader :: "config \<Rightarrow> config_any" where
  "GetReader c = (case config_get c ''__read__'' of Some v \<Rightarrow> v | None \<Rightarrow> CValue GNil)"

definition SetReader :: "config \<Rightarrow> config_any \<Rightarrow> config" where "SetReader c v = config_set c ''__read__'' v"

definition GetSend :: "config \<Rightarrow> nat option" where
  "GetSend c = (case config_get c ''__send__'' of Some (CFunc f) \<Rightarrow> Some f | _ \<Rightarrow> None)"

definition SetSend :: "config \<Rightarrow> nat \<Rightarrow> config" where "SetSend c f = config_set c ''__send__'' (CFunc f)"

definition GetWriter :: "config \<Rightarrow> config_any" where
  "GetWriter c = (case config_get c ''__writer__'' of Some v \<Rightarrow> v | None \<Rightarrow> CValue GNil)"

definition SetWriter :: "config \<Rightarrow> config_any \<Rightarrow> config" where "SetWriter c v = config_set c ''__writer__'' v"

definition managed_PatchConfig :: "(string list \<Rightarrow> string list) \<Rightarrow> config \<Rightarrow> config \<Rightarrow> config_any gomap" where
  "managed_PatchConfig ro base updates =
     (let base = (case base of None \<Rightarrow> [] | Some b \<Rightarrow> b)
      in case updates of None \<Rightarrow> base | Some u \<Rightarrow> mputs (mputs [] (range_entries ro base)) (range_entries ro u))"

definition PatchConfigurable :: "(string list \<Rightarrow> string list) \<Rightarrow> config \<Rightarrow> gvalue gomap option \<Rightarrow> config_any gomap" where
  "PatchConfigurable ro base updates =
     (let base = (case base of None \<Rightarrow> [] | Some b \<Rightarrow> b)
      in case updates of
           None \<Rightarrow> base
         | Some u \<Rightarrow>
             let configurable = (case mget base ManagedConfigKeyConfigurable of
                                   Some (CValue (GMap m)) \<Rightarrow> mputs [] (range_entries ro m) | _ \<Rightarrow> []);
                 configurable = mputs configurable (range_entries ro u)
             in mput (mputs [] (range_entries ro base)) ManagedConfigKeyConfigurable (CValue (GMap configurable)))"

definition GetConfigurable :: "config \<Rightarrow> gvalue gomap option" where
  "GetConfigurable c = (case config_get c ManagedConfigKeyConfigurable of Some (CValue (GMap m)) \<Rightarrow> Some m | _ \<Rightarrow> None)"

definition GetCheckpointNS :: "config \<Rightarrow> string" where "GetCheckpointNS c = config_text c ''__checkpoint_ns__''"

definition SetCheckpointNS :: "config \<Rightarrow> string \<Rightarrow> config" where
  "SetCheckpointNS c ns = config_set c ''__checkpoint_ns__'' (CValue (GString ns))"

section \<open>Namespaces\<close>

definition splitCheckpointNS :: "string \<Rightarrow> string list" where "splitCheckpointNS ns = strings_Split (CHR ''|'') ns"

fun join_loop :: "string \<Rightarrow> string list \<Rightarrow> string" where
  "join_loop result [] = result"
| "join_loop result (p # ps) = join_loop (result @ ''|'' @ p) ps"

definition joinCheckpointNS :: "string list \<Rightarrow> string" where
  "joinCheckpointNS parts = (case parts of [] \<Rightarrow> [] | p # ps \<Rightarrow> join_loop p ps)"

definition hex_digit :: "char \<Rightarrow> bool" where
  "hex_digit c \<longleftrightarrow> c \<in> set ''0123456789abcdef''"

definition isTaskID :: "string \<Rightarrow> bool" where
  "isTaskID s \<longleftrightarrow>
     (case strings_Split (CHR ''-'') s of
        [a, b, c, d, e] \<Rightarrow> list_all (list_all hex_digit) [a, b, c, d, e] \<and> map length [a, b, c, d, e] = [8, 4, 4, 4, 12]
      | _ \<Rightarrow> False)"

definition ParseCheckpointNS :: "string \<Rightarrow> string list" where
  "ParseCheckpointNS ns = (if ns = [] then [] else splitCheckpointNS ns)"

definition RecastCheckpointNS :: "string \<Rightarrow> string" where
  "RecastCheckpointNS ns =
     (let parts = splitCheckpointNS ns
      in if parts = [] then []
         else if isTaskID (last parts) then joinCheckpointNS (butlast parts)
         else ns)"

section \<open>Maps copied and patched\<close>

text \<open>Entries written over a map, in whatever order the source map is visited.\<close>

lemma mget_over:
  assumes "range_order ro" "mwf u"
  shows "mget (mputs m (range_entries ro u)) k = (case mget u k of Some v \<Rightarrow> Some v | None \<Rightarrow> mget m k)"
proof -
  have "distinct (map fst (range_entries ro u))" using assms by (rule range_entries_distinct)
  then have "map_of (rev (range_entries ro u)) = map_of (range_entries ro u)"
    using map_of_inject_set [of "rev (range_entries ro u)" "range_entries ro u"] by (simp add: rev_map [symmetric])
  then show ?thesis using assms by (simp add: mget_mputs map_of_range_entries split: option.split)
qed

lemma copy_map: "range_order ro \<Longrightarrow> mwf m \<Longrightarrow> mputs [] (range_entries ro m) = m"
  by (rule mwf_ext) (auto simp: mwf_mputs mget_over split: option.split)

lemma over_assoc:
  assumes "range_order ro" "mwf a" "mwf b" "mwf c"
  shows "mputs (mputs a (range_entries ro b)) (range_entries ro c) = mputs a (range_entries ro (mputs b (range_entries ro c)))"
  by (rule mwf_ext) (auto simp: mwf_mputs assms mget_over split: option.split)

lemma over_Nil [simp]: "range_order ro \<Longrightarrow> range_entries ro [] = []"
  by (simp add: range_entries_def mkeys_def)

section \<open>Merging runtimes\<close>

definition pick :: "'a \<Rightarrow> 'a \<Rightarrow> 'a \<Rightarrow> 'a" where
  "pick unset other own = (if other \<noteq> unset then other else own)"

lemma pick_assoc: "pick u (pick u c b) a = pick u c (pick u b a)"
  by (simp add: pick_def)

definition merged :: "(string list \<Rightarrow> string list) \<Rightarrow> Runtime \<Rightarrow> Runtime \<Rightarrow> Runtime" where
  "merged ro r other =
     \<lparr>rt_TaskID = pick [] (rt_TaskID other) (rt_TaskID r), rt_NodeName = pick [] (rt_NodeName other) (rt_NodeName r),
      rt_Step = pick 0 (rt_Step other) (rt_Step r),
      rt_Configurable = Some (mputs (the (rt_Configurable r)) (range_entries ro (the (rt_Configurable other)))),
      rt_CheckpointNS = pick [] (rt_CheckpointNS other) (rt_CheckpointNS r),
      rt_Context = pick (AnyValue GNil) (rt_Context other) (rt_Context r), rt_Store = pick (AnyValue GNil) (rt_Store other) (rt_Store r),
      rt_StreamWriter = pick None (rt_StreamWriter other) (rt_StreamWriter r),
      rt_Previous = pick (AnyValue GNil) (rt_Previous other) (rt_Previous r)\<rparr>"

definition runtime_wf :: "Runtime \<Rightarrow> bool" where
  "runtime_wf r \<longleftrightarrow> (case rt_Configurable r of None \<Rightarrow> False | Some c \<Rightarrow> mwf c)"

lemma runtime_wf_merged: "runtime_wf a \<Longrightarrow> runtime_wf (merged ro a b)"
  by (auto simp: runtime_wf_def merged_def mwf_mputs split: option.splits)

lemma Merge_merged:
  assumes "range_order ro" "runtime_wf a" "runtime_wf b"
  shows "Runtime_Merge ro a (Some b) = Inr (merged ro a b)"
proof -
  obtain ca cb where "rt_Configurable a = Some ca" "rt_Configurable b = Some cb" "mwf ca" "mwf cb"
    using assms by (auto simp: runtime_wf_def split: option.splits)
  then show ?thesis
    unfolding Runtime_Merge_def Runtime_Clone_def cloneMap_def merged_def Let_def pick_def
    by (cases a) (simp add: copy_map assms(1) cong: if_cong split del: if_split)
qed

text \<open>merging runtimes is associative: merging the runtimes of a parent, a graph and a call gives the same in either grouping, for every order in which
  maps are visited; a value that the later runtime sets wins, and what it leaves unset is kept.\<close>

theorem merge_associative:
  assumes "range_order ro" "runtime_wf a" "runtime_wf b" "runtime_wf c"
  shows "\<exists>ab bc r. Runtime_Merge ro a (Some b) = Inr ab \<and> Runtime_Merge ro b (Some c) = Inr bc \<and>
    Runtime_Merge ro ab (Some c) = Inr r \<and> Runtime_Merge ro a (Some bc) = Inr r \<and>
    (\<forall>k. Runtime_Get r k = (case Runtime_Get c k of Some v \<Rightarrow> Some v
       | None \<Rightarrow> (case Runtime_Get b k of Some v \<Rightarrow> Some v | None \<Rightarrow> Runtime_Get a k)))"
proof -
  obtain ca cb cc where conf: "rt_Configurable a = Some ca" "rt_Configurable b = Some cb" "rt_Configurable c = Some cc" "mwf ca" "mwf cb" "mwf cc"
    using assms by (auto simp: runtime_wf_def split: option.splits)
  have "merged ro (merged ro a b) c = merged ro a (merged ro b c)"
    using conf assms(1) by (simp add: merged_def over_assoc pick_assoc)
  moreover have "Runtime_Get (merged ro (merged ro a b) c) k = (case Runtime_Get c k of Some v \<Rightarrow> Some v
       | None \<Rightarrow> (case Runtime_Get b k of Some v \<Rightarrow> Some v | None \<Rightarrow> Runtime_Get a k))" for k
    using conf assms(1) by (simp add: merged_def Runtime_Get_def mget_over split: option.split)
  ultimately show ?thesis
    using Merge_merged [OF assms(1)] runtime_wf_merged assms by (intro exI conjI) auto
qed

theorem merge_associative_witness:
  "\<exists>ab bc r. Runtime_Merge id NewRuntime (Some (Runtime_Set NewRuntime ''user'' (GInt 1))) = Inr ab \<and>
     Runtime_Merge id (Runtime_Set NewRuntime ''user'' (GInt 1)) (Some (Runtime_Set NewRuntime ''user'' (GInt 2))) = Inr bc \<and>
     Runtime_Merge id ab (Some (Runtime_Set NewRuntime ''user'' (GInt 2))) = Inr r \<and> Runtime_Merge id NewRuntime (Some bc) = Inr r \<and>
     Runtime_Get r ''user'' = Some (GInt 2)"
proof -
  have wf: "runtime_wf NewRuntime" "runtime_wf (Runtime_Set NewRuntime ''user'' v)" for v
    by (simp_all add: runtime_wf_def NewRuntime_def Runtime_Set_def mwf_def)
  have ro: "range_order id" by (simp add: range_order_def)
  have get: "Runtime_Get (Runtime_Set NewRuntime ''user'' (GInt 2)) ''user'' = Some (GInt 2)"
    by (simp add: Runtime_Get_def Runtime_Set_def)
  obtain ab bc r where r: "Runtime_Merge id NewRuntime (Some (Runtime_Set NewRuntime ''user'' (GInt 1))) = Inr ab"
    "Runtime_Merge id (Runtime_Set NewRuntime ''user'' (GInt 1)) (Some (Runtime_Set NewRuntime ''user'' (GInt 2))) = Inr bc"
    "Runtime_Merge id ab (Some (Runtime_Set NewRuntime ''user'' (GInt 2))) = Inr r" "Runtime_Merge id NewRuntime (Some bc) = Inr r"
    "\<forall>k. Runtime_Get r k = (case Runtime_Get (Runtime_Set NewRuntime ''user'' (GInt 2)) k of Some v \<Rightarrow> Some v
       | None \<Rightarrow> (case Runtime_Get (Runtime_Set NewRuntime ''user'' (GInt 1)) k of Some v \<Rightarrow> Some v | None \<Rightarrow> Runtime_Get NewRuntime k))"
    using merge_associative [OF ro wf(1) wf(2) [of "GInt 1"] wf(2) [of "GInt 2"]] by blast
  from r(5) have "Runtime_Get r ''user'' = Some (GInt 2)" by (simp add: get)
  then show ?thesis using r(1-4) by blast
qed

text \<open>A merge onto a runtime without a configurable map panics as soon as the other one has an entry, so with \<open>DEFAULT_RUNTIME\<close> as the base; and \<open>Set\<close>
  on \<open>DEFAULT_RUNTIME\<close> makes a map and does not panic.\<close>

theorem merge_onto_default_panics:
  "Runtime_Merge id DEFAULT_RUNTIME (Some (Runtime_Set NewRuntime ''user'' (GInt 1))) = Inl nil_map_panic \<and>
   Runtime_Get (Runtime_Set DEFAULT_RUNTIME ''user'' (GInt 1)) ''user'' = Some (GInt 1)"
  by code_simp

text \<open>A managed value does not see the scratchpad of its own package: the type assertion asks for the plain map type.\<close>

theorem managed_value_ignores_scratchpad:
  "fst (ManagedValue_Get NewCurrentStep (ScratchPad [(''current_step'', GInt 3)])) = GInt 0 \<and>
   fst (ManagedValue_Get NewCurrentStep (ScratchValue (GMap [(''current_step'', GInt 3)]))) = GInt 3"
  by code_simp

section \<open>Configuration and namespaces\<close>

text \<open>patching the configurable section reads back: the entries of the update win, the others and all other keys of the configuration stay.\<close>

theorem patch_configurable:
  assumes "range_order ro" "mwf base" "mwf u"
    and "\<forall>m. mget base ManagedConfigKeyConfigurable = Some (CValue (GMap m)) \<longrightarrow> mwf m"
  shows "\<exists>m. GetConfigurable (Some (PatchConfigurable ro (Some base) (Some u))) = Some m \<and>
    (\<forall>k. mget m k = (case mget u k of Some v \<Rightarrow> Some v | None \<Rightarrow> (case GetConfigurable (Some base) of Some b \<Rightarrow> mget b k | None \<Rightarrow> None))) \<and>
    (\<forall>k. k \<noteq> ManagedConfigKeyConfigurable \<longrightarrow> mget (PatchConfigurable ro (Some base) (Some u)) k = mget base k)"
  using assms
  by (auto simp: PatchConfigurable_def GetConfigurable_def config_get_def Let_def mget_over copy_map split: option.split config_any.split gvalue.split)

theorem patch_configurable_witness:
  "GetConfigurable (Some (PatchConfigurable id (Some []) (Some [(''a'', GInt 1)]))) \<noteq> None"
  using patch_configurable [of id "[]" "[(''a'', GInt 1)]"] by (auto simp: range_order_def mwf_def)

lemma strings_Join_prefix:
  "strings_Join c ((a @ b) # ps) = a @ strings_Join c (b # ps)" "strings_Join c ((x # b) # ps) = x # strings_Join c (b # ps)"
  by (cases ps; simp)+

lemma join_loop_Join: "join_loop r ps = strings_Join (CHR ''|'') (r # ps)"
  by (induction r ps rule: join_loop.induct) (simp_all add: strings_Join_prefix)

lemma joinCheckpointNS_Join: "joinCheckpointNS ps = strings_Join (CHR ''|'') ps"
  by (cases ps) (simp_all add: joinCheckpointNS_def join_loop_Join)

lemma taskID_clean: "isTaskID t \<Longrightarrow> CHR ''|'' \<notin> set t"
proof -
  assume "isTaskID t"
  then have "list_all (list_all hex_digit) (strings_Split (CHR ''-'') t)"
    unfolding isTaskID_def by (simp split: list.splits)
  moreover have "\<not> hex_digit (CHR ''|'')" by (simp add: hex_digit_def)
  ultimately have "\<forall>p\<in>set (strings_Split (CHR ''-'') t). CHR ''|'' \<notin> set p" by (metis list_all_iff)
  moreover have "CHR ''|'' \<notin> set (strings_Join (CHR ''-'') ps)" if "\<forall>p\<in>set ps. CHR ''|'' \<notin> set p" for ps
    using that by (induction "CHR ''-''" ps rule: strings_Join.induct) auto
  ultimately show ?thesis by (metis strings_Join_Split)
qed

text \<open>checkpoint namespaces: splitting undoes joining; recasting removes a task identifier at the end of a namespace and nothing else.\<close>

theorem recast_namespace:
  assumes "ps \<noteq> []" "\<forall>p\<in>set ps. CHR ''|'' \<notin> set p"
  shows "splitCheckpointNS (joinCheckpointNS ps) = ps \<and>
    (isTaskID t \<longrightarrow> RecastCheckpointNS (joinCheckpointNS (ps @ [t])) = joinCheckpointNS ps) \<and>
    (\<not> isTaskID (last ps) \<longrightarrow> RecastCheckpointNS (joinCheckpointNS ps) = joinCheckpointNS ps)"
proof (intro conjI impI)
  show split: "splitCheckpointNS (joinCheckpointNS ps) = ps"
    using assms by (simp add: splitCheckpointNS_def joinCheckpointNS_Join strings_Split_Join)
  show "RecastCheckpointNS (joinCheckpointNS ps) = joinCheckpointNS ps" if "\<not> isTaskID (last ps)"
    using that assms(1) by (simp add: RecastCheckpointNS_def split Let_def)
  assume t: "isTaskID t"
  then have "splitCheckpointNS (joinCheckpointNS (ps @ [t])) = ps @ [t]"
    using assms taskID_clean by (simp add: splitCheckpointNS_def joinCheckpointNS_Join strings_Split_Join)
  then show "RecastCheckpointNS (joinCheckpointNS (ps @ [t])) = joinCheckpointNS ps" using t by (simp add: RecastCheckpointNS_def Let_def)
qed

lemma sample_taskID: "isTaskID ''01234567-89ab-cdef-0123-456789abcdef''"
  by code_simp

theorem recast_namespace_witness:
  "RecastCheckpointNS (joinCheckpointNS [''parent'', ''child'', ''01234567-89ab-cdef-0123-456789abcdef'']) = joinCheckpointNS [''parent'', ''child'']"
  using recast_namespace [of "[''parent'', ''child'']" "''01234567-89ab-cdef-0123-456789abcdef''"] sample_taskID by simp

text \<open>the three counters of the scratchpad are independent, and clearing and cloning do what they say.\<close>

theorem scratchpad_counters:
  assumes "mwf p" "range_order ro"
  shows "GetCallCounter (IncrementCallCounter p) = GetCallCounter p + 1 \<and>
    GetInterruptCounter (IncrementCallCounter p) = GetInterruptCounter p \<and> GetSubgraphCounter (IncrementCallCounter p) = GetSubgraphCounter p \<and>
    GetInterruptCounter (IncrementInterruptCounter p) = GetInterruptCounter p + 1 \<and>
    GetSubgraphCounter (IncrementSubgraphCounter p) = GetSubgraphCounter p + 1 \<and>
    pad_Clone ro p = p \<and> pad_Get (pad_Clear p) k = None"
proof -
  have "mget (foldl mdel p ks) k = (if k \<in> set ks then None else mget p k)" for ks
    by (induction ks arbitrary: p) auto
  then have "pad_Get (pad_Clear p) k = None"
    using set_keys_mget [of p] by (simp add: pad_Get_def pad_Clear_def mkeys_def)
  then show ?thesis
    using assms by (simp add: GetCallCounter_def IncrementCallCounter_def GetInterruptCounter_def GetSubgraphCounter_def IncrementInterruptCounter_def
      IncrementSubgraphCounter_def pad_counter_def pad_Clone_def copy_map)
qed

end
