(* ===== verification/TitleCap.thy ===== *)
theory TitleCap
  imports GoValue "HOL-Library.Sublist"
begin

text \<open>
  \<open>ingestion/component/chunker/title_cap.go\<close> with \<open>sentence_boundary.go\<close> and \<open>positions_slice.go\<close>: the token limit of the title chunkers.  A chunk with
  too many tokens is cut at sentence ends, and where that is not enough at tokens.  The encoder of the tokenizer library is the argument \<open>encode\<close>:
  the byte sequences of the tokens of a text.  A string is its bytes; a chunk is a record of the entries the chunkers give it, \<open>None\<close> for an
  entry that is missing.
\<close>

section \<open>Tokens and runes\<close>

type_synonym encoder = "string \<Rightarrow> string list"

definition NumTokensFromString :: "encoder \<Rightarrow> string \<Rightarrow> int" where
  "NumTokensFromString encode s = (if s = [] then 0 else int (length (encode s)))"

definition TrimContentToTokenLimit :: "encoder \<Rightarrow> string \<Rightarrow> int \<Rightarrow> string" where
  "TrimContentToTokenLimit encode s limit =
     (let limit = (if limit < 0 then 0 else limit); tokens = encode s
      in if int (length tokens) \<le> limit then s else concat (take (nat limit) tokens))"

text \<open>The runes of a string as \<open>range\<close> visits them; a byte that starts no valid sequence is a rune of its own.\<close>

function runes :: "string \<Rightarrow> string list" where
  "runes s = (if s = [] then [] else let w = max 1 (utf8_width (map of_char s)) in take w s # runes (drop w s))"
  by pat_completeness auto
termination
  by (relation "measure length") (auto simp: Let_def)

declare runes.simps [simp del]

definition RuneCountInString :: "string \<Rightarrow> int" where
  "RuneCountInString s = int (length (runes s))"

definition titleTokenCount :: "encoder \<Rightarrow> string \<Rightarrow> int" where
  "titleTokenCount encode text =
     (if text = [] then 0
      else let n = NumTokensFromString encode text in if n = 0 then RuneCountInString text else n)"

definition runePrefix :: "string \<Rightarrow> int \<Rightarrow> string" where
  "runePrefix s n = (if n \<le> 0 then [] else concat (take (nat n) (runes s)))"

section \<open>Sentences\<close>

text \<open>The length of the sentence boundary at the head of a text, 0 when there is none: a full stop with a space, \<open>!\<close>, \<open>?\<close>, a line end, and the
  Chinese full stop (E3 80 82), question mark (EF BC 9F), semicolon (EF BC 9B) and exclamation mark (EF BC 81).\<close>

definition sentenceBoundaryRe :: "string \<Rightarrow> nat" where
  "sentenceBoundaryRe s =
     (if s = [] then 0
      else if hd s \<in> {CHR ''!'', CHR ''?'', CHR 0x0A} then 1
      else if take 2 s = ''. '' then 2
      else if map of_char (take 3 s) \<in> {[0xE3, 0x80, 0x82], [0xEF, 0xBC, 0x9F], [0xEF, 0xBC, 0x9B], [0xEF, 0xBC, 0x81 :: nat]} then 3
      else 0)"

text \<open>\<open>FindAllStringIndex\<close>, for the rest of a text that begins at offset \<open>i\<close>.\<close>

function FindAllStringIndex :: "nat \<Rightarrow> string \<Rightarrow> (nat \<times> nat) list" where
  "FindAllStringIndex i s =
     (if s = [] then []
      else let w = sentenceBoundaryRe s
           in if w = 0 then FindAllStringIndex (i + 1) (tl s) else (i, i + w) # FindAllStringIndex (i + w) (drop w s))"
  by pat_completeness auto
termination
  by (relation "measure (\<lambda>(i, s). length s)") (auto simp: Let_def)

declare FindAllStringIndex.simps [simp del]

fun sentence_loop :: "string \<Rightarrow> nat \<Rightarrow> (nat \<times> nat) list \<Rightarrow> string list" where
  "sentence_loop text prev [] = (if prev < length text then [drop prev text] else [])"
| "sentence_loop text prev ((a, b) # idxs) =
     (if a > prev then take (b - prev) (drop prev text) else take (b - a) (drop a text)) # sentence_loop text b idxs"

definition titleSentenceSplit :: "string \<Rightarrow> string list" where
  "titleSentenceSplit text = (if text = [] then [] else sentence_loop text 0 (FindAllStringIndex 0 text))"

section \<open>Cutting at tokens\<close>

text \<open>The prefix the loop cuts off, \<open>None\<close> when it keeps the rest whole.\<close>

definition hard_head :: "encoder \<Rightarrow> int \<Rightarrow> string \<Rightarrow> string option" where
  "hard_head encode cap rest =
     (let head = TrimContentToTokenLimit encode rest cap
      in if head = [] \<or> head = rest \<or> \<not> prefix head rest
         then (let head = runePrefix rest cap in if head = [] \<or> head = rest then None else Some head)
         else Some head)"

lemma prefix_concat_take: "prefix (concat (take n xss)) (concat xss)"
  by (metis append_take_drop_id concat_append prefixI)

lemma concat_runes [simp]: "concat (runes s) = s"
  by (induction s rule: runes.induct) (subst runes.simps, simp add: Let_def)

lemma runePrefix_prefix: "prefix (runePrefix s n) s"
  using prefix_concat_take [of "nat n" "runes s"] by (simp add: runePrefix_def)

lemma hard_head_prefix: "hard_head encode cap rest = Some head \<Longrightarrow> prefix head rest \<and> head \<noteq> [] \<and> head \<noteq> rest"
  using runePrefix_prefix by (auto simp: hard_head_def Let_def split: if_splits)

function hard_loop :: "encoder \<Rightarrow> int \<Rightarrow> string \<Rightarrow> string list" where
  "hard_loop encode cap rest =
     (if RuneCountInString rest = 0 then []
      else if titleTokenCount encode rest \<le> cap then [rest]
      else (case hard_head encode cap rest of
              None \<Rightarrow> [rest]
            | Some head \<Rightarrow> head # hard_loop encode cap (drop (length head) rest)))"
  by pat_completeness auto
termination
  by (relation "measure (\<lambda>(encode, cap, rest). length rest)") (auto dest!: hard_head_prefix simp: prefix_def)

declare hard_loop.simps [simp del]

definition hardSplitByTokens :: "encoder \<Rightarrow> string \<Rightarrow> int \<Rightarrow> string list" where
  "hardSplitByTokens encode text cap = (if cap \<le> 0 then if text = [] then [] else [text] else hard_loop encode cap text)"

section \<open>Chunks\<close>

fun cap_groups :: "encoder \<Rightarrow> int \<Rightarrow> string \<Rightarrow> string list \<Rightarrow> string list" where
  "cap_groups encode cap current [] = (if current \<noteq> [] then [current] else [])"
| "cap_groups encode cap current (s # sentences) =
     (let cand = (if current \<noteq> [] then current @ s else s)
      in if current \<noteq> [] \<and> titleTokenCount encode cand > cap then current # cap_groups encode cap s sentences
         else cap_groups encode cap cand sentences)"

definition final_groups :: "encoder \<Rightarrow> int \<Rightarrow> string list \<Rightarrow> string list" where
  "final_groups encode cap groups =
     concat (map (\<lambda>g. if titleTokenCount encode g \<le> cap then [g] else hardSplitByTokens encode g cap) groups)"

text \<open>Coordinates: a row is page, left, right, top and bottom.  The rows are finite numbers, so that their way through JSON changes nothing;
  a matrix with another number is not marshalled.\<close>

type_synonym position_matrix = "float64 list list"

fun finite_float :: "float64 \<Rightarrow> bool" where
  "finite_float (FZero a) = True"
| "finite_float (FFin m e) = True"
| "finite_float x = False"

abbreviation f_le :: "float64 \<Rightarrow> float64 \<Rightarrow> bool" where
  "f_le x y \<equiv> f_less x y \<or> f_eq x y"

definition good_row :: "float64 list \<Rightarrow> bool" where
  "good_row row \<longleftrightarrow> 5 \<le> length row \<and> \<not> f_le (row ! 4) (row ! 3)"

fun slice_rows :: "float64 \<Rightarrow> float64 \<Rightarrow> float64 \<Rightarrow> position_matrix \<Rightarrow> position_matrix" where
  "slice_rows targetStart targetEnd cum [] = []"
| "slice_rows targetStart targetEnd cum (row # rows) =
     (let h = f_sub (row ! 4) (row ! 3); segEnd = f_add cum h;
          interStart = (if f_less cum targetStart then targetStart else cum);
          interEnd = (if f_less targetEnd segEnd then targetEnd else segEnd)
      in if f_le h (FZero False) then slice_rows targetStart targetEnd cum rows
         else if f_le interEnd interStart then slice_rows targetStart targetEnd segEnd rows
         else row[3 := f_add (row ! 3) (f_mul (f_div (f_sub interStart cum) h) h),
                  4 := f_add (row ! 3) (f_mul (f_div (f_sub interEnd cum) h) h)] # slice_rows targetStart targetEnd segEnd rows)"

definition slicePositionsByTextRatio :: "position_matrix \<Rightarrow> float64 \<Rightarrow> float64 \<Rightarrow> position_matrix option" where
  "slicePositionsByTextRatio matrix startRatio endRatio =
     (let s = (if f_less startRatio (FZero False) then FZero False else startRatio);
          e = (if f_less (f_of_int 1) endRatio then f_of_int 1 else endRatio)
      in if f_le e s then None
         else if matrix = [] \<or> \<not> list_all good_row matrix then None
         else
           let total = foldl (\<lambda>t row. f_add t (f_sub (row ! 4) (row ! 3))) (FZero False) matrix
           in if f_le total (FZero False) then None
              else (case slice_rows (f_mul s total) (f_mul e total) (FZero False) matrix of
                      [] \<Rightarrow> None
                    | out \<Rightarrow> if list_all (list_all finite_float) out then Some out else None))"

definition sliceAnyPositions :: "position_matrix option \<Rightarrow> float64 \<Rightarrow> float64 \<Rightarrow> position_matrix option" where
  "sliceAnyPositions pos startRatio endRatio =
     (case pos of
        None \<Rightarrow> None
      | Some m \<Rightarrow> if list_all (list_all finite_float) m then slicePositionsByTextRatio m startRatio endRatio else None)"

definition totalRunes :: "string list \<Rightarrow> int" where
  "totalRunes strs = sum_list (map RuneCountInString strs)"

record title_chunk =
  tc_text :: string
  tc_doc_type_kwd :: "string option"
  tc_img_id :: "string option"
  tc_pdf_positions :: "position_matrix option"
  tc_positions :: "position_matrix option"

fun sub_chunks :: "title_chunk \<Rightarrow> int \<Rightarrow> int \<Rightarrow> string list \<Rightarrow> title_chunk list" where
  "sub_chunks chunk whole cum [] = []"
| "sub_chunks chunk whole cum (g # gs) =
     (let startRatio = f_div (f_of_int cum) (f_of_int whole);
          endRatio = f_div (f_of_int (cum + RuneCountInString g)) (f_of_int whole);
          sliced = (\<lambda>pos. case sliceAnyPositions pos startRatio endRatio of None \<Rightarrow> pos | Some m \<Rightarrow> Some m)
      in chunk\<lparr>tc_text := g, tc_pdf_positions := sliced (tc_pdf_positions chunk), tc_positions := sliced (tc_positions chunk)\<rparr> #
         sub_chunks chunk whole (cum + RuneCountInString g) gs)"

definition splitTitleChunkByCap :: "encoder \<Rightarrow> title_chunk \<Rightarrow> int \<Rightarrow> title_chunk list" where
  "splitTitleChunkByCap encode chunk cap =
     (let sentences = titleSentenceSplit (tc_text chunk)
      in if sentences = [] then [chunk]
         else
           let finalGroups = final_groups encode cap (cap_groups encode cap [] sentences)
           in if finalGroups = [] then [chunk]
              else if tc_pdf_positions chunk = None \<and> tc_positions chunk = None then map (\<lambda>g. chunk\<lparr>tc_text := g\<rparr>) finalGroups
              else if totalRunes finalGroups = 0 then map (\<lambda>g. chunk\<lparr>tc_text := g\<rparr>) finalGroups
              else sub_chunks chunk (totalRunes finalGroups) 0 finalGroups)"

definition enforceTitleTokenCap :: "encoder \<Rightarrow> title_chunk list \<Rightarrow> int \<Rightarrow> title_chunk list" where
  "enforceTitleTokenCap encode chunks cap =
     (if cap \<le> 0 then chunks
      else concat (map (\<lambda>chunk.
        if (case tc_doc_type_kwd chunk of None \<Rightarrow> ''text'' | Some t \<Rightarrow> t) \<noteq> ''text'' then [chunk]
        else if tc_text chunk = [] \<or> titleTokenCount encode (tc_text chunk) \<le> cap then [chunk]
        else splitTitleChunkByCap encode chunk cap) chunks))"

section \<open>Pieces put together again\<close>

lemma boundary_le: "sentenceBoundaryRe s \<le> length s"
  by (cases s; cases "tl s"; cases "tl (tl s)") (auto simp: sentenceBoundaryRe_def)

text \<open>Index pairs that tile a text from \<open>prev\<close> on, with gaps between them.\<close>

fun tiles :: "nat \<Rightarrow> (nat \<times> nat) list \<Rightarrow> nat \<Rightarrow> bool" where
  "tiles prev [] n \<longleftrightarrow> prev \<le> n"
| "tiles prev ((a, b) # idxs) n \<longleftrightarrow> prev \<le> a \<and> a < b \<and> b \<le> n \<and> tiles b idxs n"

lemma tiles_FindAllStringIndex: "prev \<le> i \<Longrightarrow> tiles prev (FindAllStringIndex i s) (i + length s)"
proof (induction i s arbitrary: prev rule: FindAllStringIndex.induct)
  case (1 i s)
  let ?w = "sentenceBoundaryRe s"
  consider "s = []" | "s \<noteq> []" "?w = 0" | "s \<noteq> []" "?w \<noteq> 0" by blast
  then show ?case
  proof cases
    case 2
    have "tiles prev (FindAllStringIndex (i + 1) (tl s)) (i + 1 + length (tl s))"
      using "1.IH"(1) [OF _ refl, of prev] 2 "1.prems" by simp
    then show ?thesis using 2 by (subst FindAllStringIndex.simps) (cases s, auto simp: Let_def)
  next
    case 3
    have "tiles (i + ?w) (FindAllStringIndex (i + ?w) (drop ?w s)) (i + ?w + length (drop ?w s))"
      using "1.IH"(2) [OF _ refl, of "i + ?w"] 3 by simp
    then show ?thesis
      using 3 "1.prems" boundary_le [of s] by (subst FindAllStringIndex.simps) (simp add: Let_def)
  qed (use "1.prems" in \<open>simp add: FindAllStringIndex.simps\<close>)
qed

lemma sentence_loop_text:
  "tiles prev idxs (length t) \<Longrightarrow> concat (sentence_loop t prev idxs) = drop prev t \<and> [] \<notin> set (sentence_loop t prev idxs)"
proof (induction t prev idxs rule: sentence_loop.induct)
  case (2 t prev a b idxs)
  then have ab: "prev \<le> a" "a < b" "b \<le> length t" by auto
  then have "take (b - prev) (drop prev t) @ drop b t = drop prev t"
    using append_take_drop_id [of "b - prev" "drop prev t"] by simp
  moreover have "concat (sentence_loop t b idxs) = drop b t \<and> [] \<notin> set (sentence_loop t b idxs)"
    using 2 by simp
  ultimately show ?case using ab by (cases "prev < a") auto
qed auto

lemma titleSentenceSplit_text: "concat (titleSentenceSplit text) = text" "[] \<notin> set (titleSentenceSplit text)"
  using sentence_loop_text [of 0 "FindAllStringIndex 0 text" "text"] tiles_FindAllStringIndex [of 0 0 "text"] by (auto simp: titleSentenceSplit_def)

lemma cap_groups_text:
  "concat (cap_groups encode cap current ss) = current @ concat ss" "[] \<notin> set ss \<Longrightarrow> [] \<notin> set (cap_groups encode cap current ss)"
  by (induction encode cap current ss rule: cap_groups.induct) (auto simp: Let_def)

lemma runes_Nil_iff: "RuneCountInString s = 0 \<longleftrightarrow> s = []"
  by (simp add: RuneCountInString_def runes.simps [of s] Let_def)

lemma hard_loop_text: "concat (hard_loop encode cap rest) = rest \<and> [] \<notin> set (hard_loop encode cap rest)"
proof (induction encode cap rest rule: hard_loop.induct)
  case (1 encode cap rest)
  note step = hard_loop.simps [of encode cap rest]
  show ?case
  proof (cases "RuneCountInString rest = 0 \<or> titleTokenCount encode rest \<le> cap \<or> hard_head encode cap rest = None")
    case True
    then show ?thesis by (auto simp: step runes_Nil_iff split: option.splits)
  next
    case False
    then obtain head where head: "hard_head encode cap rest = Some head" by auto
    have "concat (hard_loop encode cap (drop (length head) rest)) = drop (length head) rest \<and> [] \<notin> set (hard_loop encode cap (drop (length head) rest))"
      using "1.IH" [OF _ _ head] False by auto
    then show ?thesis using False head hard_head_prefix [OF head] by (auto simp: step prefix_def)
  qed
qed

lemma hardSplit_text: "concat (hardSplitByTokens encode text cap) = text" "[] \<notin> set (hardSplitByTokens encode text cap)"
  using hard_loop_text [of encode cap "text"] by (auto simp: hardSplitByTokens_def)

lemma final_groups_text:
  "concat (final_groups encode cap gs) = concat gs" "[] \<notin> set gs \<Longrightarrow> [] \<notin> set (final_groups encode cap gs)"
  by (induction gs) (auto simp: final_groups_def hardSplit_text)

section \<open>What the limit keeps and what it guarantees\<close>

lemma map_text_const [simp]: "map tc_text (map (\<lambda>g. chunk\<lparr>tc_text := g\<rparr>) gs) = gs"
  by (induction gs) auto

lemma sub_chunks_text [simp]: "map tc_text (sub_chunks chunk whole cum gs) = gs"
  by (induction gs arbitrary: cum) (auto simp: Let_def)

lemma split_texts:
  assumes "tc_text chunk \<noteq> []"
  shows "map tc_text (splitTitleChunkByCap encode chunk cap) = final_groups encode cap (cap_groups encode cap [] (titleSentenceSplit (tc_text chunk)))"
proof -
  let ?gs = "final_groups encode cap (cap_groups encode cap [] (titleSentenceSplit (tc_text chunk)))"
  have "concat ?gs = tc_text chunk" by (simp add: final_groups_text cap_groups_text titleSentenceSplit_text)
  then have "?gs \<noteq> []" using assms by force
  moreover have "titleSentenceSplit (tc_text chunk) \<noteq> []" using assms titleSentenceSplit_text(1) [of "tc_text chunk"] by force
  ultimately show ?thesis by (simp add: splitTitleChunkByCap_def Let_def del: map_map)
qed

lemma split_lossless:
  assumes "tc_text chunk \<noteq> []"
  shows "concat (map tc_text (splitTitleChunkByCap encode chunk cap)) = tc_text chunk"
    and "sub \<in> set (splitTitleChunkByCap encode chunk cap) \<Longrightarrow> tc_text sub \<noteq> []"
proof -
  show "concat (map tc_text (splitTitleChunkByCap encode chunk cap)) = tc_text chunk"
    by (simp add: split_texts [OF assms] final_groups_text cap_groups_text titleSentenceSplit_text)
  have "[] \<notin> set (map tc_text (splitTitleChunkByCap encode chunk cap))"
    by (simp only: split_texts [OF assms]) (simp add: final_groups_text cap_groups_text titleSentenceSplit_text)
  then show "sub \<in> set (splitTitleChunkByCap encode chunk cap) \<Longrightarrow> tc_text sub \<noteq> []" by (force simp: image_iff)
qed

abbreviation is_text :: "title_chunk \<Rightarrow> bool" where
  "is_text chunk \<equiv> (case tc_doc_type_kwd chunk of None \<Rightarrow> ''text'' | Some t \<Rightarrow> t) = ''text''"

text \<open>The entries of a chunk the limit does not touch.\<close>

definition chunk_kind :: "title_chunk \<Rightarrow> string option \<times> string option" where
  "chunk_kind chunk = (tc_doc_type_kwd chunk, tc_img_id chunk)"

lemma sub_chunks_kind: "sub \<in> set (sub_chunks chunk whole cum gs) \<Longrightarrow> chunk_kind sub = chunk_kind chunk"
  by (induction gs arbitrary: cum) (auto simp: Let_def chunk_kind_def)

lemma split_kind: "sub \<in> set (splitTitleChunkByCap encode chunk cap) \<Longrightarrow> chunk_kind sub = chunk_kind chunk"
  by (auto simp: splitTitleChunkByCap_def Let_def sub_chunks_kind split: if_splits) (auto simp: chunk_kind_def)

text \<open>What one chunk becomes.\<close>

definition cap_chunk :: "encoder \<Rightarrow> int \<Rightarrow> title_chunk \<Rightarrow> title_chunk list" where
  "cap_chunk encode cap chunk =
     (if \<not> is_text chunk \<or> tc_text chunk = [] \<or> titleTokenCount encode (tc_text chunk) \<le> cap then [chunk] else splitTitleChunkByCap encode chunk cap)"

lemma enforce_chunkwise: "enforceTitleTokenCap encode chunks cap = (if cap \<le> 0 then chunks else concat (map (cap_chunk encode cap) chunks))"
  unfolding enforceTitleTokenCap_def by (auto intro!: arg_cong [of _ _ concat] map_cong simp: cap_chunk_def)

lemma cap_chunk_text: "concat (map tc_text (cap_chunk encode cap chunk)) = tc_text chunk"
  by (simp add: cap_chunk_def split_lossless(1))

lemma cap_chunk_kind: "sub \<in> set (cap_chunk encode cap chunk) \<Longrightarrow> chunk_kind sub = chunk_kind chunk"
  by (auto simp: cap_chunk_def split_kind split: if_splits)

lemma concat_map_text: "(\<And>c. concat (map tc_text (f c)) = tc_text c) \<Longrightarrow> concat (map tc_text (concat (map f cs))) = concat (map tc_text cs)"
  by (induction cs) auto

lemma enforce_text: "concat (map tc_text (enforceTitleTokenCap encode chunks cap)) = concat (map tc_text chunks)"
  by (simp add: enforce_chunkwise concat_map_text cap_chunk_text)

text \<open>Runes of a prefix: a sequence that is not cut is read as before, and a byte that starts no valid sequence still starts none.\<close>

lemma utf8_width_prefix:
  assumes "utf8_width (bs @ t) \<le> length bs" "bs \<noteq> []"
  shows "utf8_width bs = utf8_width (bs @ t)"
proof -
  consider a where "bs = [a]" | a b where "bs = [a, b]" | a b c where "bs = [a, b, c]" | a b c d r where "bs = a # b # c # d # r"
    using assms(2) by (metis list.exhaust)
  then show ?thesis
  proof cases
    case 1
    then show ?thesis using assms by (auto simp: utf8_width_def split: list.splits if_splits)
  next
    case 2
    then show ?thesis using assms by (auto simp: utf8_width_def split: list.splits if_splits)
  next
    case 3
    then show ?thesis using assms by (auto simp: utf8_width_def split: list.splits if_splits)
  qed (simp add: utf8_width_def)
qed

lemma utf8_width_le: "utf8_width bs \<le> length bs"
  by (auto simp: utf8_width_def split: list.splits)

lemma runes_take: "runes (concat (take n (runes s))) = take n (runes s)"
proof (induction s arbitrary: n rule: runes.induct)
  case (1 s)
  let ?w = "max 1 (utf8_width (map of_char s))"
  show ?case
  proof (cases "s = [] \<or> n = 0")
    case True
    then show ?thesis using runes.simps [of "[]"] by auto
  next
    case False
    then obtain m where n: "n = Suc m" and s: "s \<noteq> []" by (cases n) auto
    let ?r = "concat (take m (runes (drop ?w s)))"
    have rs: "runes s = take ?w s # runes (drop ?w s)" by (subst runes.simps) (simp add: s Let_def)
    have w: "?w \<le> length s" using utf8_width_le [of "map of_char s"] s by (cases s) auto
    obtain t where t: "drop ?w s = ?r @ t"
      using prefix_concat_take [of m "runes (drop ?w s)"] by (auto simp: prefix_def)
    have "s = (take ?w s @ ?r) @ t" using t append_take_drop_id [of ?w s] by simp
    then have split: "map of_char s = map of_char (take ?w s @ ?r) @ map of_char t" by (metis map_append)
    have "utf8_width (map of_char s) \<le> length (map of_char (take ?w s @ ?r))" using w by simp
    then have "utf8_width (map of_char (take ?w s @ ?r)) = utf8_width (map of_char s)"
      using utf8_width_prefix [of "map of_char (take ?w s @ ?r)" "map of_char t", folded split] s by simp
    then have "runes (take ?w s @ ?r) = take ?w s # runes ?r"
      using s w by (subst runes.simps) (simp add: Let_def)
    then show ?thesis using "1.IH" [OF s refl, of m] by (simp add: n rs)
  qed
qed

lemma runePrefix_runes: "0 < n \<Longrightarrow> RuneCountInString (runePrefix s n) \<le> n"
  by (simp add: RuneCountInString_def runePrefix_def runes_take)

text \<open>The pieces the splitter makes: within the limit, a cut of exactly as many of the tokens of the rest of the text, or, the fallback, a text of at most as
  many runes.\<close>

definition piece_ok :: "encoder \<Rightarrow> int \<Rightarrow> string \<Rightarrow> bool" where
  "piece_ok encode cap piece \<longleftrightarrow>
     titleTokenCount encode piece \<le> cap \<or>
     (\<exists>rest. piece = concat (take (nat cap) (encode rest)) \<and> cap < int (length (encode rest)) \<and> prefix piece rest) \<or>
     RuneCountInString piece \<le> cap"

lemma hard_head_ok: "0 < cap \<Longrightarrow> hard_head encode cap rest = Some head \<Longrightarrow> piece_ok encode cap head"
  by (auto simp: hard_head_def Let_def TrimContentToTokenLimit_def piece_ok_def runePrefix_runes split: if_splits)

lemma hard_head_none: "0 < cap \<Longrightarrow> hard_head encode cap rest = None \<Longrightarrow> rest \<noteq> [] \<Longrightarrow> piece_ok encode cap rest"
proof -
  assume cap: "0 < cap" and none: "hard_head encode cap rest = None" and ne: "rest \<noteq> []"
  have "runePrefix rest cap = [] \<or> runePrefix rest cap = rest" using none by (auto simp: hard_head_def Let_def split: if_splits)
  moreover have "runePrefix rest cap \<noteq> []"
    using cap ne runes.simps [of rest] by (cases "nat cap") (auto simp: runePrefix_def Let_def)
  ultimately have "runePrefix rest cap = rest" by simp
  then show "piece_ok encode cap rest" using runePrefix_runes [OF cap, of rest] by (simp add: piece_ok_def)
qed

lemma hard_loop_ok: "0 < cap \<Longrightarrow> piece \<in> set (hard_loop encode cap rest) \<Longrightarrow> piece_ok encode cap piece"
proof (induction encode cap rest rule: hard_loop.induct)
  case (1 encode cap rest)
  show ?case
  proof (cases "RuneCountInString rest = 0 \<or> titleTokenCount encode rest \<le> cap")
    case True
    then show ?thesis using "1.prems" by (subst (asm) hard_loop.simps) (auto simp: piece_ok_def split: if_splits)
  next
    case False
    then show ?thesis
      using "1.prems" "1.IH" hard_head_ok hard_head_none
      by (subst (asm) hard_loop.simps) (auto simp: runes_Nil_iff split: option.splits)
  qed
qed

lemma final_groups_ok: "0 < cap \<Longrightarrow> piece \<in> set (final_groups encode cap gs) \<Longrightarrow> piece_ok encode cap piece"
  by (auto simp: final_groups_def hardSplitByTokens_def hard_loop_ok piece_ok_def [of _ _ piece] split: if_splits)
     (use hard_loop_ok in \<open>force simp: piece_ok_def\<close>)

lemma titleTokenCount_Nil [simp]: "titleTokenCount encode [] = 0"
  by (simp add: titleTokenCount_def)

lemma cap_chunk_ok:
  assumes "0 < cap" "is_text chunk" "sub \<in> set (cap_chunk encode cap chunk)"
  shows "piece_ok encode cap (tc_text sub)"
proof (cases "tc_text chunk = [] \<or> titleTokenCount encode (tc_text chunk) \<le> cap")
  case True
  then show ?thesis using assms by (auto simp: cap_chunk_def piece_ok_def)
next
  case False
  then have "tc_text sub \<in> set (map tc_text (splitTitleChunkByCap encode chunk cap))" using assms by (auto simp: cap_chunk_def)
  then have "tc_text sub \<in> set (final_groups encode cap (cap_groups encode cap [] (titleSentenceSplit (tc_text chunk))))"
    using False by (metis split_texts)
  then show ?thesis by (rule final_groups_ok [OF assms(1)])
qed

section \<open>Properties\<close>

text \<open>the token limit loses nothing and touches nothing else: the texts of the pieces, put together in order, are the texts of the chunks, whatever
  the encoder does and whatever the limit is; and every piece has the kind and the picture of the chunk it was cut from.\<close>

theorem title_cap_lossless:
  "concat (map tc_text (enforceTitleTokenCap encode chunks cap)) = concat (map tc_text chunks) \<and>
   chunk_kind ` set (enforceTitleTokenCap encode chunks cap) \<subseteq> chunk_kind ` set chunks \<and>
   filter (\<lambda>c. \<not> is_text c) (enforceTitleTokenCap encode chunks cap) = filter (\<lambda>c. \<not> is_text c) chunks"
proof (intro conjI)
  show "concat (map tc_text (enforceTitleTokenCap encode chunks cap)) = concat (map tc_text chunks)"
    by (rule enforce_text)
  show "chunk_kind ` set (enforceTitleTokenCap encode chunks cap) \<subseteq> chunk_kind ` set chunks"
    by (auto simp: enforce_chunkwise cap_chunk_kind)
  have "filter (\<lambda>c. \<not> is_text c) (cap_chunk encode cap c) = filter (\<lambda>c. \<not> is_text c) [c]" for c
  proof (cases "is_text c")
    case True
    then have "\<forall>sub\<in>set (cap_chunk encode cap c). is_text sub" using cap_chunk_kind by (auto simp: chunk_kind_def)
    then show ?thesis using True by (simp add: filter_empty_conv)
  qed (simp add: cap_chunk_def)
  then have "filter (\<lambda>c. \<not> is_text c) (concat (map (cap_chunk encode cap) cs)) = filter (\<lambda>c. \<not> is_text c) cs" for cs
    by (induction cs) auto
  then show "filter (\<lambda>c. \<not> is_text c) (enforceTitleTokenCap encode chunks cap) = filter (\<lambda>c. \<not> is_text c) chunks"
    by (simp add: enforce_chunkwise)
qed

text \<open>C26: the pieces keep the limit: with a positive limit, every text chunk has at most so many tokens, or is a cut of exactly so many
  tokens of the text that was left, or, where the encoder gives no usable cut, has at most so many runes.\<close>

theorem title_cap_holds:
  assumes "0 < cap" "sub \<in> set (enforceTitleTokenCap encode chunks cap)" "is_text sub"
  shows "piece_ok encode cap (tc_text sub)"
proof -
  obtain chunk where c: "chunk \<in> set chunks" "sub \<in> set (cap_chunk encode cap chunk)"
    using assms by (auto simp: enforce_chunkwise)
  have "is_text chunk" using assms(3) cap_chunk_kind [OF c(2)] by (simp add: chunk_kind_def)
  then show ?thesis using cap_chunk_ok assms(1) c(2) by blast
qed

definition byte_tokens :: encoder where
  "byte_tokens s = map (\<lambda>c. [c]) s"

definition sample_chunk :: "string \<Rightarrow> title_chunk" where
  "sample_chunk s = \<lparr>tc_text = s, tc_doc_type_kwd = Some ''text'', tc_img_id = None, tc_pdf_positions = None, tc_positions = None\<rparr>"

lemma byte_tokens_sample:
  "enforceTitleTokenCap byte_tokens [sample_chunk ''ab! cdefg''] 3 = map sample_chunk [''ab!'', '' cd'', ''efg'']"
  by code_simp

theorem title_cap_holds_witness: "piece_ok byte_tokens 3 '' cd''"
  using title_cap_holds [of 3 "sample_chunk '' cd''" byte_tokens "[sample_chunk ''ab! cdefg'']"]
  by (simp add: byte_tokens_sample) (simp add: sample_chunk_def)

text \<open>A character of more tokens than the limit is cut inside: the pieces of a letter of two bytes that is two tokens are not valid UTF-8.\<close>

theorem hard_split_cuts_characters:
  "map (map of_char) (hardSplitByTokens byte_tokens [CHR 0xC3, CHR 0xA9] 1) = [[0xC3], [0xA9 :: nat]] \<and> utf8_width [0xC3] = 0"
  by code_simp

end
