(* ===== verification/TitleLevels.thy ===== *)
theory TitleLevels
  imports TitleCap
begin

text \<open>
  \<open>ingestion/component/chunker/title.go\<close>: the records of a document and the heading levels of its lines.  The levels come from the outline of a
  PDF when it has one that is dense enough, and otherwise from patterns, the layout and the form of the lines.  Matching is done by Go's regular
  expressions: \<open>compile\<close> is \<open>regexp.Compile\<close> for the patterns of the user, and \<open>re\<close> the match of one of the patterns the code fixes, named by its place.
\<close>

section \<open>Records\<close>

text \<open>The raw JSON of a record's coordinates: none, text that is no matrix, or a matrix.  The metadata of a record is not kept.\<close>

datatype raw_positions = NoPositions | BadPositions | Positions position_matrix

record lineRecord =
  lr_text :: string
  lr_docType :: string
  lr_imgID :: "string option"
  lr_layout :: string
  lr_ckType :: string
  lr_pdfPositions :: raw_positions
  lr_positions :: raw_positions

definition isText :: "lineRecord \<Rightarrow> bool" where
  "isText r \<longleftrightarrow> lr_docType r = ''text''"

text \<open>The runes \<open>unicode.IsSpace\<close> accepts.\<close>

definition space_rune :: "string \<Rightarrow> bool" where
  "space_rune r \<longleftrightarrow>
     (case map of_char r of
        [b] \<Rightarrow> b \<in> {9, 10, 11, 12, 13, 32 :: nat}
      | [b, c] \<Rightarrow> b = 0xC2 \<and> c \<in> {0x85, 0xA0}
      | [b, c, d] \<Rightarrow>
          [b, c, d] \<in> {[0xE1, 0x9A, 0x80], [0xE2, 0x80, 0xA8], [0xE2, 0x80, 0xA9], [0xE2, 0x80, 0xAF], [0xE2, 0x81, 0x9F], [0xE3, 0x80, 0x80]} \<or>
          (b = 0xE2 \<and> c = 0x80 \<and> 0x80 \<le> d \<and> d \<le> 0x8A)
      | _ \<Rightarrow> False)"

definition trim :: "string \<Rightarrow> string" where
  "trim s = concat (rev (dropWhile space_rune (rev (dropWhile space_rune (runes s)))))"

definition bodyLevel :: int where
  "bodyLevel = 2 ^ 31 - 1"

fun Split_lines :: "string \<Rightarrow> string list" where
  "Split_lines [] = [[]]"
| "Split_lines (c # s) =
     (if c = CHR 0x0A then [] # Split_lines s
      else case Split_lines s of [] \<Rightarrow> [[c]] | l # ls \<Rightarrow> (c # l) # ls)"

definition lineRecordsFromText :: "string \<Rightarrow> lineRecord list" where
  "lineRecordsFromText s =
     (if s = [] then []
      else map (\<lambda>ln. \<lparr>lr_text = ln, lr_docType = ''text'', lr_imgID = None, lr_layout = [], lr_ckType = [],
                       lr_pdfPositions = NoPositions, lr_positions = NoPositions\<rparr>)
             (filter (\<lambda>ln. trim ln \<noteq> []) (Split_lines s)))"

section \<open>Patterns\<close>

datatype fixed_pattern = NotBullet nat | NotTitleException | NotTitlePunct | LayoutHeading | BulletLayout | NumericOnly | BulletPattern nat nat

type_synonym matcher = "string \<Rightarrow> bool"

definition compileLevelPattern :: "(string \<Rightarrow> matcher option) \<Rightarrow> string \<Rightarrow> matcher option" where
  "compileLevelPattern compile pattern =
     (if pattern = [] then None else compile (if prefix ''^'' pattern then pattern else ''^(?:'' @ pattern @ '')''))"

definition notBullet :: "(fixed_pattern \<Rightarrow> matcher) \<Rightarrow> string \<Rightarrow> bool" where
  "notBullet re s \<longleftrightarrow> (\<exists>i\<in>{..<4}. re (NotBullet i) s)"

definition level_matches :: "(string \<Rightarrow> matcher option) \<Rightarrow> string \<Rightarrow> string \<Rightarrow> bool" where
  "level_matches compile pattern s \<longleftrightarrow> (case compileLevelPattern compile pattern of None \<Rightarrow> False | Some m \<Rightarrow> m s)"

text \<open>The first of the largest counts, \<open>None\<close> when all are 0.\<close>

fun best_index :: "nat option \<Rightarrow> nat \<Rightarrow> nat \<Rightarrow> nat list \<Rightarrow> nat option" where
  "best_index bestIdx best i [] = bestIdx"
| "best_index bestIdx best i (h # hits) = (if h > best then best_index (Some i) h (i + 1) hits else best_index bestIdx best (i + 1) hits)"

definition selectLevelGroup ::
  "(fixed_pattern \<Rightarrow> matcher) \<Rightarrow> (string \<Rightarrow> matcher option) \<Rightarrow> string list \<Rightarrow> string list list \<Rightarrow> string list" where
  "selectLevelGroup re compile lines rawLevels =
     (let hits = map (\<lambda>pats. length (filter (\<lambda>line. let s = trim line
                in s \<noteq> [] \<and> \<not> notBullet re s \<and> (\<exists>pattern\<in>set pats. level_matches compile pattern s)) lines)) rawLevels
      in case best_index None 0 0 hits of None \<Rightarrow> [] | Some i \<Rightarrow> filter (\<lambda>p. p \<noteq> []) (rawLevels ! i))"

fun first_match :: "(string \<Rightarrow> matcher option) \<Rightarrow> string \<Rightarrow> int \<Rightarrow> string list \<Rightarrow> int" where
  "first_match compile s lvl [] = 0"
| "first_match compile s lvl (pattern # pats) = (if level_matches compile pattern s then lvl + 1 else first_match compile s (lvl + 1) pats)"

definition matchRegexLevel :: "(fixed_pattern \<Rightarrow> matcher) \<Rightarrow> (string \<Rightarrow> matcher option) \<Rightarrow> string \<Rightarrow> string list \<Rightarrow> int" where
  "matchRegexLevel re compile txt pats =
     (let stripped = trim txt in if stripped = [] \<or> notBullet re stripped then 0 else first_match compile stripped 0 pats)"

section \<open>Titles\<close>

fun field_count :: "bool \<Rightarrow> string list \<Rightarrow> nat" where
  "field_count inside [] = 0"
| "field_count inside (r # rs) =
     (if space_rune r then field_count False rs else (if inside then 0 else 1) + field_count True rs)"

definition notTitle :: "(fixed_pattern \<Rightarrow> matcher) \<Rightarrow> string \<Rightarrow> bool" where
  "notTitle re s =
     (if re NotTitleException s then False
      else if field_count False (runes s) > 12 \<or> (CHR 0x20 \<notin> set s \<and> RuneCountInString s \<ge> 32) then True
      else re NotTitlePunct s)"

definition beforeAt :: "string \<Rightarrow> string" where
  "beforeAt s = trim (takeWhile (\<lambda>c. c \<noteq> CHR 0x40) s)"

definition matchLayoutLevel :: "(fixed_pattern \<Rightarrow> matcher) \<Rightarrow> string \<Rightarrow> string \<Rightarrow> int \<Rightarrow> int" where
  "matchLayoutLevel re txt layout fallbackLevel =
     (if re LayoutHeading layout \<and> \<not> notTitle re (beforeAt txt) then fallbackLevel else bodyLevel)"

definition TrimSuffix :: "string \<Rightarrow> string \<Rightarrow> string" where
  "TrimSuffix s t = (if suffix t s then take (length s - length t) s else s)"

abbreviation wide_colon :: string where
  "wide_colon \<equiv> [CHR 0xEF, CHR 0xBC, CHR 0x9A]"

text \<open>The marks that end a sentence: the Chinese full stop, question mark, exclamation mark and semicolon, and \<open>! ? ; .\<close>\<close>

definition sentence_mark :: "string \<Rightarrow> bool" where
  "sentence_mark r \<longleftrightarrow>
     r \<in> {''!'', ''?'', '';'', ''.''} \<or>
     map of_char r \<in> {[0xE3, 0x80, 0x82], [0xEF, 0xBC, 0x9F], [0xEF, 0xBC, 0x81], [0xEF, 0xBC, 0x9B :: nat]}"

definition isColonTitle :: "string \<Rightarrow> bool" where
  "isColonTitle s =
     (if s = [] \<or> \<not> (suffix '':'' s \<or> suffix wide_colon s) then False
      else
        let body = TrimSuffix (TrimSuffix s '':'') wide_colon; rs = runes body
        in if body = s then False
           else if \<not> list_ex sentence_mark rs then False
           else RuneCountInString (trim (concat (rev (takeWhile (\<lambda>r. \<not> sentence_mark r) (rev rs))))) \<ge> 32)"

section \<open>Levels from the lines\<close>

definition line_level ::
  "(fixed_pattern \<Rightarrow> matcher) \<Rightarrow> (string \<Rightarrow> matcher option) \<Rightarrow> string list \<Rightarrow> lineRecord \<Rightarrow> int" where
  "line_level re compile pats rec =
     (let fallbackLevel = int (length pats) + 1; s = beforeAt (lr_text rec)
      in if \<not> isText rec then bodyLevel
         else if RuneCountInString s \<le> 1 \<or> re NumericOnly s then bodyLevel
         else if matchRegexLevel re compile (lr_text rec) pats \<noteq> 0 then matchRegexLevel re compile (lr_text rec) pats
         else if lr_ckType rec = ''heading'' then fallbackLevel
         else if isColonTitle s then fallbackLevel
         else matchLayoutLevel re (lr_text rec) (lr_layout rec) fallbackLevel)"

definition allBodyLevel :: "int list \<Rightarrow> bool" where
  "allBodyLevel levels \<longleftrightarrow> (\<forall>l\<in>set levels. \<not> l < bodyLevel)"

text \<open>The number of patterns of each group of bullets.\<close>

definition bulletPatterns :: "nat list" where
  "bulletPatterns = [5, 6, 5, 4]"

definition bullet_hit :: "(fixed_pattern \<Rightarrow> matcher) \<Rightarrow> nat \<Rightarrow> nat \<Rightarrow> string \<Rightarrow> bool" where
  "bullet_hit re grp j s \<longleftrightarrow> re (BulletPattern grp j) s \<and> \<not> notBullet re s"

definition bulletsCategory :: "(fixed_pattern \<Rightarrow> matcher) \<Rightarrow> lineRecord list \<Rightarrow> nat option" where
  "bulletsCategory re records =
     best_index None 0 0
       (map (\<lambda>grp. length (filter (\<lambda>rec. isText rec \<and> (\<exists>j\<in>{..<bulletPatterns ! grp}. bullet_hit re grp j (trim (lr_text rec)))) records))
          [0..<length bulletPatterns])"

definition bullet_level :: "(fixed_pattern \<Rightarrow> matcher) \<Rightarrow> nat \<Rightarrow> lineRecord \<Rightarrow> int \<Rightarrow> int" where
  "bullet_level re bull rec lvl =
     (if lvl \<noteq> bodyLevel \<or> \<not> isText rec then lvl
      else case filter (\<lambda>j. bullet_hit re bull j (trim (lr_text rec))) [0..<bulletPatterns ! bull] of
             j # _ \<Rightarrow> int j + 1
           | [] \<Rightarrow> if re BulletLayout (lr_layout rec) \<and> \<not> notTitle re (beforeAt (lr_text rec)) then int (bulletPatterns ! bull) + 1 else lvl)"

definition resolveTitleLevels ::
  "(fixed_pattern \<Rightarrow> matcher) \<Rightarrow> (string \<Rightarrow> matcher option) \<Rightarrow> string list list \<Rightarrow> lineRecord list \<Rightarrow> int list" where
  "resolveTitleLevels re compile levels records =
     (let pats = selectLevelGroup re compile (map lr_text records) levels;
          out = map (line_level re compile pats) records
      in if pats = [] \<or> allBodyLevel out
         then (case bulletsCategory re records of
                 None \<Rightarrow> out
               | Some bull \<Rightarrow> map2 (bullet_level re bull) records out)
         else out)"

section \<open>Levels from the outline\<close>

record outlineEntry =
  oe_title :: string
  oe_level :: int

text \<open>The runes of \<open>[]rune(s)\<close>, written as strings again: an invalid byte is U+FFFD.\<close>

definition rune_strings :: "string \<Rightarrow> string list" where
  "rune_strings s = map (\<lambda>r. if utf8_width (map of_char r) = 0 then [CHR 0xEF, CHR 0xBF, CHR 0xBD] else r) (runes s)"

definition rune_pairs :: "nat \<Rightarrow> string list \<Rightarrow> string list" where
  "rune_pairs n rs = remdups (map (\<lambda>i. rs ! i @ rs ! (i + 1)) [0..<n])"

definition outlineSimilarity :: "string \<Rightarrow> string \<Rightarrow> float64" where
  "outlineSimilarity left right =
     (let lr = rune_strings left; rr = rune_strings right;
          leftPairs = rune_pairs (length lr - 1) lr;
          rightPairs = rune_pairs (min (length lr) (length rr - 1)) rr;
          denom = max (length leftPairs) (length rightPairs)
      in if denom = 0 then FZero False
         else f_div (f_of_int (int (length (filter (\<lambda>k. k \<in> set rightPairs) leftPairs)))) (f_of_int (int denom)))"

definition outline_level :: "outlineEntry list \<Rightarrow> lineRecord \<Rightarrow> int" where
  "outline_level outline rec =
     (if \<not> isText rec then bodyLevel
      else
        let matched = (case find (\<lambda>e. f_less (f_div (f_of_int 8) (f_of_int 10)) (outlineSimilarity (oe_title e) (lr_text rec))) outline of
                         None \<Rightarrow> 0 | Some e \<Rightarrow> oe_level e + 1)
        in if matched = 0 then bodyLevel else matched)"

definition resolveOutlineLevels :: "lineRecord list \<Rightarrow> outlineEntry list \<Rightarrow> (int list \<times> int) option" where
  "resolveOutlineLevels records outline =
     (if outline = [] \<or> records = [] then None
      else if \<not> f_less (f_div (f_of_int 3) (f_of_int 100)) (f_div (f_of_int (int (length outline))) (f_of_int (int (length records)))) then None
      else Some (map (outline_level outline) records, max 1 (foldl (\<lambda>m e. if oe_level e > m then oe_level e else m) 0 outline)))"

section \<open>The level context\<close>

text \<open>The level most lines have, the first of those in a tie; 0 when no line is a heading.\<close>

definition level_count :: "int list \<Rightarrow> int \<Rightarrow> nat" where
  "level_count levels lvl = (if lvl < bodyLevel then count_list levels lvl else 0)"

fun most_loop :: "(int \<Rightarrow> nat) \<Rightarrow> int \<Rightarrow> nat \<Rightarrow> int list \<Rightarrow> int" where
  "most_loop counts most best [] = most"
| "most_loop counts most best (lvl # ls) =
     (if counts lvl > best then most_loop counts lvl (counts lvl) ls else most_loop counts most best ls)"

record LevelContext =
  lc_levels :: "int list"
  lc_mostLevel :: int

definition newLevelContext ::
  "(fixed_pattern \<Rightarrow> matcher) \<Rightarrow> (string \<Rightarrow> matcher option) \<Rightarrow> lineRecord list \<Rightarrow> outlineEntry list \<Rightarrow> string list list \<Rightarrow> LevelContext" where
  "newLevelContext re compile records outline levels =
     (case resolveOutlineLevels records outline of
        Some (levels, most) \<Rightarrow> \<lparr>lc_levels = levels, lc_mostLevel = most\<rparr>
      | None \<Rightarrow> let levels = resolveTitleLevels re compile levels records
                in \<lparr>lc_levels = levels, lc_mostLevel = most_loop (level_count levels) 0 0 levels\<rparr>)"

section \<open>Levels are levels\<close>

lemma bodyLevel_pos [simp]: "1 \<le> bodyLevel" "bodyLevel \<noteq> 0"
  by (simp_all add: bodyLevel_def)

lemma first_match_range: "0 \<le> lvl \<Longrightarrow> first_match compile s lvl pats = 0 \<or> lvl < first_match compile s lvl pats"
proof (induction pats arbitrary: lvl)
  case (Cons p pats)
  have "first_match compile s (lvl + 1) pats = 0 \<or> lvl + 1 < first_match compile s (lvl + 1) pats"
    using Cons.IH [of "lvl + 1"] Cons.prems by simp
  then show ?case by auto
qed simp

lemma line_level_pos: "1 \<le> line_level re compile pats rec"
proof -
  have "matchRegexLevel re compile t g = 0 \<or> 1 \<le> matchRegexLevel re compile t g" for t g
    using first_match_range [of 0 compile "trim t" g] by (auto simp: matchRegexLevel_def Let_def)
  then show ?thesis by (auto simp: line_level_def Let_def matchLayoutLevel_def)
qed

lemma bullet_level_pos: "1 \<le> lvl \<Longrightarrow> 1 \<le> bullet_level re bull rec lvl"
  by (auto simp: bullet_level_def split: list.splits)

lemma resolveTitleLevels_pos: "l \<in> set (resolveTitleLevels re compile levels records) \<Longrightarrow> 1 \<le> l"
  by (auto simp: resolveTitleLevels_def Let_def line_level_pos bullet_level_pos set_zip split: if_splits option.splits)

lemma length_resolveTitleLevels [simp]: "length (resolveTitleLevels re compile levels records) = length records"
  by (simp add: resolveTitleLevels_def Let_def split: option.splits)

lemma outline_level_pos: "\<forall>e\<in>set outline. 0 \<le> oe_level e \<Longrightarrow> 1 \<le> outline_level outline rec"
  by (auto simp: outline_level_def Let_def find_Some_iff split: option.splits)

text \<open>The levels of the lines: one for each record, from 1 on when the outline's are not negative, and the body level for tables and pictures.\<close>

lemma newLevelContext_levels:
  "length (lc_levels (newLevelContext re compile records outline levels)) = length records"
  "\<forall>e\<in>set outline. 0 \<le> oe_level e \<Longrightarrow> l \<in> set (lc_levels (newLevelContext re compile records outline levels)) \<Longrightarrow> 1 \<le> l"
  by (auto simp: newLevelContext_def resolveOutlineLevels_def Let_def outline_level_pos resolveTitleLevels_pos split: if_splits option.splits)

end
