(* ===== verification/TitleTree.thy ===== *)
theory TitleTree
  imports GoValue
begin

text \<open>
  \<open>ingestion/component/chunker/hierarchy.go\<close>: the tree of headings and the paths through it that become chunks.
  A line has a level; a level above \<open>depth\<close> is body text.  \<open>stack[k]\<close> of the code always points to the node reached from the root by \<open>k\<close> steps to
  the last child, so the stack is modelled by its length less one and a write through a pointer of the stack by \<open>at_spine\<close>.
  The lines in the paths are characterised without the tree by \<open>visible\<close>.
\<close>

section \<open>The tree\<close>

datatype chunkNode = ChunkNode (level: int) (titleIndexes: "nat list") (bodyIndexes: "nat list") (children: "chunkNode list")

record indexedLine =
  il_level :: int
  il_index :: nat

fun addBodyIndex :: "nat \<Rightarrow> chunkNode \<Rightarrow> chunkNode" where
  "addBodyIndex idx (ChunkNode l ts bs cs) = ChunkNode l ts (bs @ [idx]) cs"

fun addChild :: "chunkNode \<Rightarrow> chunkNode \<Rightarrow> chunkNode" where
  "addChild c (ChunkNode l ts bs cs) = ChunkNode l ts bs (cs @ [c])"

fun spine :: "nat \<Rightarrow> chunkNode \<Rightarrow> chunkNode" where
  "spine 0 n = n"
| "spine (Suc k) n = spine k (last (children n))"

fun at_spine :: "nat \<Rightarrow> (chunkNode \<Rightarrow> chunkNode) \<Rightarrow> chunkNode \<Rightarrow> chunkNode" where
  "at_spine 0 f n = f n"
| "at_spine (Suc k) f (ChunkNode l ts bs cs) = ChunkNode l ts bs (butlast cs @ [at_spine k f (last cs)])"

fun pop_stack :: "chunkNode \<Rightarrow> int \<Rightarrow> nat \<Rightarrow> nat" where
  "pop_stack root lvl 0 = 0"
| "pop_stack root lvl (Suc k) = (if lvl \<le> level (spine (Suc k) root) then pop_stack root lvl k else Suc k)"

fun build_loop :: "int \<Rightarrow> chunkNode \<Rightarrow> nat \<Rightarrow> indexedLine list \<Rightarrow> chunkNode" where
  "build_loop depth root sp [] = root"
| "build_loop depth root sp (il # ils) =
     (let lvl = il_level il; idx = il_index il
      in if lvl > depth then build_loop depth (at_spine sp (addBodyIndex idx) root) sp ils
         else let sp = pop_stack root lvl sp
              in build_loop depth (at_spine sp (addChild (ChunkNode lvl [idx] [] [])) root) (sp + 1) ils)"

definition buildTree :: "indexedLine list \<Rightarrow> int \<Rightarrow> chunkNode" where
  "buildTree indexedLines depth = build_loop depth (ChunkNode 0 [] [] []) 0 indexedLines"

section \<open>The paths\<close>

fun getPaths :: "chunkNode \<Rightarrow> nat list list \<Rightarrow> nat list \<Rightarrow> int \<Rightarrow> bool \<Rightarrow> nat list list \<times> nat list"
  and child_paths :: "chunkNode list \<Rightarrow> nat list list \<Rightarrow> nat list \<Rightarrow> int \<Rightarrow> bool \<Rightarrow> nat list list" where
  "getPaths (ChunkNode l ts bs cs) paths titles depth includeHeading =
     (let paths = (if l = 0 \<and> bs \<noteq> [] then paths @ [titles @ bs] else paths);
          shown = (1 \<le> l \<and> l \<le> depth);
          (paths, pathTitles) =
            (if includeHeading
             then let pathTitles = (if shown then titles @ ts else titles)
                  in (if bs \<noteq> [] \<and> shown then paths @ [pathTitles @ bs]
                      else if cs = [] \<and> shown then paths @ [pathTitles]
                      else paths, pathTitles)
             else let pathTitles = (if shown then titles @ ts @ bs else titles)
                  in (if cs = [] \<and> shown then paths @ [pathTitles] else paths, pathTitles))
      in (child_paths cs paths pathTitles depth includeHeading, pathTitles))"
| "child_paths [] paths pathTitles depth includeHeading = paths"
| "child_paths (c # cs) paths pathTitles depth includeHeading =
     child_paths cs (fst (getPaths c paths pathTitles depth includeHeading)) pathTitles depth includeHeading"

text \<open>The same, without the accumulator.\<close>

fun node_paths :: "int \<Rightarrow> bool \<Rightarrow> nat list \<Rightarrow> chunkNode \<Rightarrow> nat list list" where
  "node_paths depth incl titles (ChunkNode l ts bs cs) =
     (let shown = (1 \<le> l \<and> l \<le> depth);
          own = (if shown then titles @ ts @ (if incl then [] else bs) else titles)
      in (if l = 0 \<and> bs \<noteq> [] then [titles @ bs] else []) @
         (if shown \<and> incl \<and> bs \<noteq> [] then [own @ bs] else if shown \<and> cs = [] then [own] else []) @
         concat (map (\<lambda>c. node_paths depth incl own c) cs))"

lemma child_paths_concat:
  "(\<And>c paths. c \<in> set cs \<Longrightarrow> fst (getPaths c paths titles depth incl) = paths @ node_paths depth incl titles c) \<Longrightarrow>
   child_paths cs paths titles depth incl = paths @ concat (map (node_paths depth incl titles) cs)"
  by (induction cs arbitrary: paths) auto

lemma getPaths_node_paths: "fst (getPaths n paths titles depth incl) = paths @ node_paths depth incl titles n"
proof (induction n arbitrary: paths titles incl)
  case (ChunkNode l ts bs cs)
  have loop: "child_paths cs ps t depth b = ps @ concat (map (node_paths depth b t) cs)" for ps t b
    by (rule child_paths_concat [OF ChunkNode.IH])
  show ?case by (cases incl; cases "1 \<le> l \<and> l \<le> depth") (auto simp: Let_def loop)
qed

section \<open>What the paths should be\<close>

text \<open>The level that counts for a line: its own, or, for body text of a path that shows it with its heading, the level of the last heading before it.\<close>

fun section_levels :: "int \<Rightarrow> int \<Rightarrow> int list \<Rightarrow> int list" where
  "section_levels depth cur [] = []"
| "section_levels depth cur (l # ls) =
     (if l > depth then cur # section_levels depth cur ls else l # section_levels depth l ls)"

definition line_levels :: "int \<Rightarrow> bool \<Rightarrow> int list \<Rightarrow> int list" where
  "line_levels depth incl lvs = (if incl then lvs else section_levels depth (depth + 1) lvs)"

text \<open>Line \<open>j\<close> is visible from line \<open>i\<close> when every heading after \<open>j\<close> up to \<open>i\<close> is deeper than \<open>j\<close>.\<close>

definition visible :: "int \<Rightarrow> bool \<Rightarrow> int list \<Rightarrow> nat \<Rightarrow> nat \<Rightarrow> bool" where
  "visible depth incl lvs i j \<longleftrightarrow> (\<forall>k\<in>{j<..i}. lvs ! k \<le> depth \<longrightarrow> line_levels depth incl lvs ! j < lvs ! k)"

text \<open>A path ends with line \<open>i\<close> when it is the last line or the next is a heading that is not deeper.\<close>

definition path_ends :: "int \<Rightarrow> bool \<Rightarrow> int list \<Rightarrow> nat \<Rightarrow> bool" where
  "path_ends depth incl lvs i \<longleftrightarrow>
     Suc i = length lvs \<or> (lvs ! Suc i \<le> depth \<and> lvs ! Suc i \<le> line_levels depth incl lvs ! i)"

definition path_of :: "int \<Rightarrow> bool \<Rightarrow> int list \<Rightarrow> nat \<Rightarrow> nat list" where
  "path_of depth incl lvs i = filter (visible depth incl lvs i) [0..<Suc i]"

definition spec_paths :: "int \<Rightarrow> bool \<Rightarrow> int list \<Rightarrow> nat list list" where
  "spec_paths depth incl lvs = map (path_of depth incl lvs) (filter (path_ends depth incl lvs) [0..<length lvs])"

definition indexed :: "int list \<Rightarrow> indexedLine list" where
  "indexed lvs = map (\<lambda>(j, l). \<lparr>il_level = l, il_index = j\<rparr>) (zip [0..<length lvs] lvs)"

definition tree_paths :: "int \<Rightarrow> bool \<Rightarrow> int list \<Rightarrow> nat list list" where
  "tree_paths depth incl lvs = fst (getPaths (buildTree (indexed lvs) depth) [] [] depth incl)"

section \<open>The rightmost branch\<close>

text \<open>The nodes of the branch with what each gives to the paths below it, and the lines only the last of them shows.\<close>

definition own_lines :: "bool \<Rightarrow> chunkNode \<Rightarrow> int \<times> nat list" where
  "own_lines incl n = (level n, titleIndexes n @ (if incl then [] else bodyIndexes n))"

fun trail :: "bool \<Rightarrow> nat \<Rightarrow> chunkNode \<Rightarrow> (int \<times> nat list) list" where
  "trail incl 0 n = [own_lines incl n]"
| "trail incl (Suc k) n = own_lines incl n # trail incl k (last (children n))"

definition tail_of :: "bool \<Rightarrow> nat \<Rightarrow> chunkNode \<Rightarrow> nat list" where
  "tail_of incl k n = (if incl then bodyIndexes (spine k n) else [])"

fun branch_ok :: "int \<Rightarrow> nat \<Rightarrow> chunkNode \<Rightarrow> bool" where
  "branch_ok depth 0 n \<longleftrightarrow> 1 \<le> level n \<and> level n \<le> depth \<and> children n = []"
| "branch_ok depth (Suc k) n \<longleftrightarrow> 1 \<le> level n \<and> level n \<le> depth \<and> children n \<noteq> [] \<and> branch_ok depth k (last (children n))"

text \<open>A node of the branch above the last, with its last child apart.\<close>

lemma branch_cases:
  assumes "branch_ok depth (Suc k) n"
  obtains l ts bs cs c where "n = ChunkNode l ts bs (cs @ [c])" "1 \<le> l" "l \<le> depth" "branch_ok depth k c"
  using assms by (cases n) (metis append_butlast_last_id branch_ok.simps(2) chunkNode.sel(1,4))

lemma length_trail [simp]: "length (trail incl k n) = Suc k"
  by (induction k arbitrary: n) auto

lemma trail_level: "j \<le> k \<Longrightarrow> fst (trail incl k n ! j) = level (spine j n)"
  by (induction incl k n arbitrary: j rule: trail.induct) (auto simp: own_lines_def nth_Cons split: nat.splits)

lemma trail_depth: "branch_ok depth k n \<Longrightarrow> e \<in> set (trail incl k n) \<Longrightarrow> fst e \<le> depth"
  by (induction incl k n rule: trail.induct) (auto simp: own_lines_def)

lemma node_paths_last:
  "branch_ok depth k n \<Longrightarrow>
   node_paths depth incl titles n \<noteq> [] \<and>
   last (node_paths depth incl titles n) = titles @ concat (map snd (trail incl k n)) @ tail_of incl k n"
proof (induction k arbitrary: n titles)
  case 0
  then show ?case by (cases n) (auto simp: Let_def tail_of_def own_lines_def)
next
  case (Suc k)
  obtain l ts bs cs c where n: "n = ChunkNode l ts bs (cs @ [c])" "1 \<le> l" "l \<le> depth" "branch_ok depth k c"
    using Suc.prems by (rule branch_cases)
  show ?case using n Suc.IH [OF n(4)] by (auto simp: Let_def tail_of_def own_lines_def)
qed

lemma at_spine_body:
  "branch_ok depth k n \<Longrightarrow>
   branch_ok depth k (at_spine k (addBodyIndex i) n) \<and>
   node_paths depth incl titles (at_spine k (addBodyIndex i) n) =
     butlast (node_paths depth incl titles n) @ [last (node_paths depth incl titles n) @ [i]] \<and>
   trail incl k (at_spine k (addBodyIndex i) n) =
     (if incl then trail incl k n else butlast (trail incl k n) @ [(fst (last (trail incl k n)), snd (last (trail incl k n)) @ [i])]) \<and>
   tail_of incl k (at_spine k (addBodyIndex i) n) = (if incl then tail_of incl k n @ [i] else [])"
proof (induction k arbitrary: n titles)
  case 0
  then show ?case by (cases n) (auto simp: Let_def tail_of_def own_lines_def)
next
  case (Suc k)
  obtain l ts bs cs c where n: "n = ChunkNode l ts bs (cs @ [c])" "1 \<le> l" "l \<le> depth" "branch_ok depth k c"
    using Suc.prems by (rule branch_cases)
  have ne: "node_paths depth incl t c \<noteq> []" for t using node_paths_last [OF n(4)] by blast
  have "trail b k c \<noteq> []" for b using length_trail [of b k c] by force
  then show ?case using n Suc.IH [OF n(4)] ne
    by (auto simp: Let_def tail_of_def own_lines_def butlast_append)
qed

lemma at_spine_child:
  "branch_ok depth k n \<Longrightarrow> k' \<le> k \<Longrightarrow> 1 \<le> l \<Longrightarrow> l \<le> depth \<Longrightarrow>
   branch_ok depth (Suc k') (at_spine k' (addChild (ChunkNode l [i] [] [])) n) \<and>
   node_paths depth incl titles (at_spine k' (addChild (ChunkNode l [i] [] [])) n) =
     (if k' < k \<or> tail_of incl k n \<noteq> [] then node_paths depth incl titles n else butlast (node_paths depth incl titles n)) @
     [titles @ concat (map snd (take (Suc k') (trail incl k n))) @ [i]] \<and>
   trail incl (Suc k') (at_spine k' (addChild (ChunkNode l [i] [] [])) n) = take (Suc k') (trail incl k n) @ [(l, [i])] \<and>
   tail_of incl (Suc k') (at_spine k' (addChild (ChunkNode l [i] [] [])) n) = []"
proof (induction k' arbitrary: k n titles)
  case 0
  show ?case
  proof (cases k)
    case 0
    then show ?thesis using "0.prems" by (cases n) (auto simp: Let_def tail_of_def own_lines_def)
  next
    case (Suc m)
    then obtain l' ts bs cs c where n: "n = ChunkNode l' ts bs (cs @ [c])" "1 \<le> l'" "l' \<le> depth" "branch_ok depth m c"
      using "0.prems"(1) branch_cases by blast
    then show ?thesis using "0.prems" Suc by (auto simp: Let_def tail_of_def own_lines_def)
  qed
next
  case (Suc k')
  then obtain m where k: "k = Suc m" by (cases k) auto
  obtain l' ts bs cs c where n: "n = ChunkNode l' ts bs (cs @ [c])" "1 \<le> l'" "l' \<le> depth" "branch_ok depth m c"
    using Suc.prems(1) branch_cases k by blast
  have ne: "node_paths depth incl t c \<noteq> []" for t using node_paths_last [OF n(4)] by blast
  have "k' \<le> m" using Suc.prems k by simp
  then show ?case using n Suc.IH [OF n(4)] Suc.prems(3,4) ne k
    by (auto simp: Let_def tail_of_def own_lines_def butlast_append)
qed

section \<open>The tree as the loop leaves it\<close>

text \<open>The branch below the root: one entry per stack frame, and the lines that only the next path shows.\<close>

definition frames :: "bool \<Rightarrow> chunkNode \<Rightarrow> nat \<Rightarrow> (int \<times> nat list) list" where
  "frames incl root sp = (case sp of 0 \<Rightarrow> [] | Suc k \<Rightarrow> trail incl k (last (children root)))"

definition loose :: "bool \<Rightarrow> chunkNode \<Rightarrow> nat \<Rightarrow> nat list" where
  "loose incl root sp = (case sp of 0 \<Rightarrow> bodyIndexes root | Suc k \<Rightarrow> tail_of incl k (last (children root)))"

definition open_path :: "bool \<Rightarrow> chunkNode \<Rightarrow> nat \<Rightarrow> nat list" where
  "open_path incl root sp = concat (map snd (frames incl root sp)) @ loose incl root sp"

definition tree_ok :: "int \<Rightarrow> chunkNode \<Rightarrow> nat \<Rightarrow> bool" where
  "tree_ok depth root sp \<longleftrightarrow>
     level root = 0 \<and> titleIndexes root = [] \<and>
     (case sp of 0 \<Rightarrow> children root = [] | Suc k \<Rightarrow> children root \<noteq> [] \<and> branch_ok depth k (last (children root)))"

lemmas frame_defs = frames_def loose_def open_path_def tree_ok_def

lemma tree_cases:
  assumes "tree_ok depth root sp"
  obtains (bare) bs where "sp = 0" "root = ChunkNode 0 [] bs []"
  | (branch) k bs cs c where "sp = Suc k" "root = ChunkNode 0 [] bs (cs @ [c])" "branch_ok depth k c"
proof (cases sp)
  case 0
  then show ?thesis using assms bare by (cases root) (simp add: tree_ok_def)
next
  case (Suc k)
  then show ?thesis using assms branch [of k "bodyIndexes root" "butlast (children root)" "last (children root)"]
    by (cases root) (simp add: tree_ok_def)
qed

lemma length_frames [simp]: "length (frames incl root sp) = sp"
  by (cases sp) (simp_all add: frames_def)

lemma frames_level: "Suc j \<le> sp \<Longrightarrow> fst (frames incl root sp ! j) = level (spine (Suc j) root)"
  by (cases sp) (simp_all add: frames_def trail_level)

lemma frames_depth: "tree_ok depth root sp \<Longrightarrow> e \<in> set (frames incl root sp) \<Longrightarrow> fst e \<le> depth"
  by (cases sp) (auto simp: frames_def tree_ok_def trail_depth)

lemma root_last:
  "tree_ok depth root sp \<Longrightarrow> node_paths depth incl [] root \<noteq> [] \<Longrightarrow> last (node_paths depth incl [] root) = open_path incl root sp"
  "tree_ok depth root sp \<Longrightarrow> node_paths depth incl [] root = [] \<longleftrightarrow> sp = 0 \<and> loose incl root sp = []"
  by (erule tree_cases; use node_paths_last in \<open>force simp: Let_def frame_defs\<close>)+

lemma root_body:
  fixes i :: nat
  assumes "tree_ok depth root sp"
  defines "root' \<equiv> at_spine sp (addBodyIndex i) root"
  shows "tree_ok depth root' sp"
    and "node_paths depth incl [] root' = butlast (node_paths depth incl [] root) @ [open_path incl root sp @ [i]]"
    and "frames incl root' sp =
      (if incl \<or> sp = 0 then frames incl root sp
       else butlast (frames incl root sp) @ [(fst (last (frames incl root sp)), snd (last (frames incl root sp)) @ [i])])"
    and "loose incl root' sp = (if incl \<or> sp = 0 then loose incl root sp @ [i] else loose incl root sp)"
  using assms(1)
  by (cases rule: tree_cases;
      use at_spine_body node_paths_last in \<open>force simp: root'_def Let_def frame_defs tail_of_def butlast_append\<close>)+

lemma root_child:
  fixes i :: nat
  assumes "tree_ok depth root sp" "sp' \<le> sp" "1 \<le> l" "l \<le> depth"
  defines "root' \<equiv> at_spine sp' (addChild (ChunkNode l [i] [] [])) root"
  shows "tree_ok depth root' (Suc sp') \<and>
    node_paths depth incl [] root' =
      (if sp' < sp \<or> loose incl root sp \<noteq> [] then node_paths depth incl [] root else butlast (node_paths depth incl [] root)) @
      [concat (map snd (take sp' (frames incl root sp))) @ [i]] \<and>
    frames incl root' (Suc sp') = take sp' (frames incl root sp) @ [(l, [i])] \<and> loose incl root' (Suc sp') = []"
  using assms(1)
proof (cases rule: tree_cases)
  case (bare bs)
  then show ?thesis using assms(2-4) by (auto simp: root'_def Let_def frame_defs tail_of_def own_lines_def)
next
  case (branch k bs cs c)
  show ?thesis
  proof (cases sp')
    case 0
    then show ?thesis using branch assms(3,4) by (auto simp: root'_def Let_def frame_defs tail_of_def own_lines_def)
  next
    case (Suc m)
    have ne: "node_paths depth incl t c \<noteq> []" for t using node_paths_last [OF branch(3)] by blast
    have "m \<le> k" using Suc assms(2) branch(1) by simp
    note child = at_spine_child [OF branch(3) this assms(3,4), of i incl]
    show ?thesis using branch Suc child ne by (auto simp: root'_def Let_def frame_defs butlast_append)
  qed
qed

section \<open>One more line\<close>

lemma section_levels_snoc:
  "section_levels depth cur (ls @ [l]) = section_levels depth cur ls @ [if l > depth then last (cur # section_levels depth cur ls) else l]"
  by (induction ls arbitrary: cur) auto

lemma length_section_levels [simp]: "length (section_levels depth cur ls) = length ls"
  by (induction ls arbitrary: cur) auto

lemma length_line_levels [simp]: "length (line_levels depth incl lvs) = length lvs"
  by (simp add: line_levels_def)

lemma line_levels_snoc:
  "line_levels depth incl (lvs @ [l]) =
   line_levels depth incl lvs @ [if l > depth \<and> \<not> incl then last ((depth + 1) # line_levels depth incl lvs) else l]"
  by (simp add: line_levels_def section_levels_snoc)

lemma visible_snoc: "i < length lvs \<Longrightarrow> j < length lvs \<Longrightarrow> visible depth incl (lvs @ [l]) i j \<longleftrightarrow> visible depth incl lvs i j"
  by (auto simp: visible_def line_levels_snoc nth_append)

lemma path_of_snoc: "i < length lvs \<Longrightarrow> path_of depth incl (lvs @ [l]) i = path_of depth incl lvs i"
  by (auto simp: path_of_def visible_snoc intro!: filter_cong)

lemma path_of_self: "last (path_of depth incl lvs i) = i" "path_of depth incl lvs i \<noteq> []"
  by (auto simp: path_of_def visible_def)

text \<open>The path that is open after the last line.\<close>

definition last_path :: "int \<Rightarrow> bool \<Rightarrow> int list \<Rightarrow> nat list" where
  "last_path depth incl lvs = (if lvs = [] then [] else path_of depth incl lvs (length lvs - 1))"

lemma last_path_snoc:
  "last_path depth incl (lvs @ [l]) =
   (if l > depth then last_path depth incl lvs else filter (\<lambda>j. line_levels depth incl lvs ! j < l) (last_path depth incl lvs)) @ [length lvs]"
proof (cases "lvs = []")
  case True
  then show ?thesis by (simp add: last_path_def path_of_def visible_def)
next
  case False
  let ?n = "length lvs"
  obtain m where n: "?n = Suc m" using False by (cases lvs) auto
  have "visible depth incl (lvs @ [l]) ?n j \<longleftrightarrow> visible depth incl lvs m j \<and> (l \<le> depth \<longrightarrow> line_levels depth incl lvs ! j < l)"
    if "j < ?n" for j
  proof -
    have "{j<..?n} = insert ?n {j<..m}" using that n by auto
    then show ?thesis using that n by (auto simp: visible_def line_levels_snoc nth_append)
  qed
  then have "filter (visible depth incl (lvs @ [l]) ?n) [0..<?n] =
    filter (\<lambda>j. visible depth incl lvs m j \<and> (l \<le> depth \<longrightarrow> line_levels depth incl lvs ! j < l)) [0..<?n]"
    by (auto intro!: filter_cong)
  moreover have "last_path depth incl (lvs @ [l]) = filter (visible depth incl (lvs @ [l]) ?n) [0..<?n] @ [?n]"
    by (simp add: last_path_def path_of_def visible_def)
  moreover have "last_path depth incl lvs = filter (visible depth incl lvs m) [0..<?n]"
    using False n by (simp add: last_path_def path_of_def del: upt_Suc)
  ultimately show ?thesis by (simp del: upt_Suc)
qed

lemma path_ends_snoc:
  "i < length lvs \<Longrightarrow> path_ends depth incl (lvs @ [l]) i \<longleftrightarrow>
   (if Suc i = length lvs then l \<le> depth \<and> l \<le> last (line_levels depth incl lvs) else path_ends depth incl lvs i)"
  by (auto simp: path_ends_def line_levels_snoc nth_append last_conv_nth dest!: sym [of _ "length lvs"])
    (auto simp: last_conv_nth simp flip: length_greater_0_conv)

lemma path_ends_last: "path_ends depth incl (lvs @ [l]) (length lvs)"
  by (simp add: path_ends_def)

lemma spec_paths_last: "spec_paths depth incl lvs = butlast (spec_paths depth incl lvs) @ (if lvs = [] then [] else [last_path depth incl lvs])"
  by (cases lvs rule: rev_cases) (simp_all add: spec_paths_def last_path_def path_ends_last)

lemma spec_paths_snoc:
  "spec_paths depth incl (lvs @ [l]) =
   (if l \<le> depth \<and> lvs \<noteq> [] \<and> l \<le> last (line_levels depth incl lvs) then spec_paths depth incl lvs else butlast (spec_paths depth incl lvs)) @
   [last_path depth incl (lvs @ [l])]"
proof (cases "lvs = []")
  case True
  then show ?thesis by (simp add: spec_paths_def last_path_def path_ends_def)
next
  case False
  let ?p = "path_ends depth incl lvs"
  obtain m where n: "length lvs = Suc m" using False by (cases lvs) auto
  have "filter (path_ends depth incl (lvs @ [l])) [0..<m] = filter ?p [0..<m]"
    using n by (intro filter_cong) (auto simp: path_ends_snoc)
  moreover have "map (path_of depth incl (lvs @ [l])) (filter ?p [0..<m]) = map (path_of depth incl lvs) (filter ?p [0..<m])"
    using n by (auto simp: path_of_snoc)
  moreover have "path_ends depth incl (lvs @ [l]) m \<longleftrightarrow> l \<le> depth \<and> l \<le> last (line_levels depth incl lvs)"
    using n by (simp add: path_ends_snoc)
  moreover have "?p m" using n by (simp add: path_ends_def)
  ultimately show ?thesis
    using False n path_ends_last [of depth incl lvs l] path_of_snoc [of m lvs depth incl l]
    by (simp add: spec_paths_def last_path_def)
qed

section \<open>The loop against the specification\<close>

text \<open>The frames have increasing levels, and the lines of a frame count with its level.\<close>

definition frames_ok :: "int \<Rightarrow> int list \<Rightarrow> (int \<times> nat list) list \<Rightarrow> nat list \<Rightarrow> bool" where
  "frames_ok depth eff es tail \<longleftrightarrow>
     sorted_wrt (<) (map fst es) \<and>
     (\<forall>e\<in>set es. snd e \<noteq> [] \<and> (\<forall>j\<in>set (snd e). j < length eff \<and> eff ! j = fst e)) \<and>
     (\<forall>j\<in>set tail. j < length eff \<and> depth < eff ! j)"

definition loop_inv :: "int \<Rightarrow> bool \<Rightarrow> chunkNode \<Rightarrow> nat \<Rightarrow> int list \<Rightarrow> bool" where
  "loop_inv depth incl root sp lvs \<longleftrightarrow>
     tree_ok depth root sp \<and>
     frames_ok depth (line_levels depth incl lvs) (frames incl root sp) (loose incl root sp) \<and>
     open_path incl root sp = last_path depth incl lvs \<and>
     node_paths depth incl [] root = spec_paths depth incl lvs"

lemma frames_ok_snoc: "frames_ok depth eff es tail \<Longrightarrow> frames_ok depth (eff @ [x]) es tail"
  by (auto simp: frames_ok_def nth_append less_Suc_eq)

lemma frames_ok_takeWhile: "frames_ok depth eff es tail \<Longrightarrow> frames_ok depth eff (takeWhile P es) []"
  using sorted_wrt_take [of "(<)" "map fst es" "length (takeWhile P es)"]
  by (auto simp: frames_ok_def take_map dest!: set_takeWhileD simp flip: takeWhile_eq_take)

lemma frames_ok_push:
  "frames_ok depth eff es [] \<Longrightarrow> \<forall>e\<in>set es. fst e < l \<Longrightarrow> frames_ok depth (eff @ [l]) (es @ [(l, [length eff])]) []"
  using frames_ok_snoc [of depth eff es "[]" l] by (auto simp: frames_ok_def sorted_wrt_append)

lemma frames_ok_last:
  "frames_ok depth eff es [] \<Longrightarrow> es \<noteq> [] \<Longrightarrow> x = fst (last es) \<Longrightarrow>
   frames_ok depth (eff @ [x]) (butlast es @ [(x, snd (last es) @ [length eff])]) []"
  using frames_ok_snoc [of depth eff es "[]" x] by (cases es rule: rev_cases) (auto simp: frames_ok_def)

lemma frames_ok_tail: "frames_ok depth eff es tail \<Longrightarrow> depth < x \<Longrightarrow> frames_ok depth (eff @ [x]) es (tail @ [length eff])"
  using frames_ok_snoc [of depth eff es tail x] by (auto simp: frames_ok_def)

lemma pop_stack_frames:
  assumes "sorted_wrt (<) (map fst (frames incl root sp))"
  shows "pop_stack root l sp = length (takeWhile (\<lambda>e. fst e < l) (frames incl root sp))"
proof -
  have "k \<le> sp \<Longrightarrow> pop_stack root l k = length (takeWhile (\<lambda>e. fst e < l) (take k (frames incl root sp)))" for k
  proof (induction k)
    case (Suc k)
    let ?es = "frames incl root sp"
    have lev: "level (spine (Suc k) root) = fst (?es ! k)" using Suc.prems frames_level by simp
    have less: "fst e < fst (?es ! k)" if "e \<in> set (take k ?es)" for e
    proof -
      obtain j where "j < k" "e = ?es ! j" using \<open>e \<in> set (take k ?es)\<close> by (auto simp: in_set_conv_nth)
      then show ?thesis using assms Suc.prems by (auto simp: sorted_wrt_iff_nth_less)
    qed
    have take: "take (Suc k) ?es = take k ?es @ [?es ! k]" using Suc.prems by (simp add: take_Suc_conv_app_nth)
    show ?case
    proof (cases "l \<le> fst (?es ! k)")
      case True
      then show ?thesis using Suc lev by (simp add: take takeWhile_tail)
    next
      case False
      then have "\<forall>e\<in>set (take k ?es). fst e < l" using less by fastforce
      then show ?thesis using False Suc.prems lev by (simp add: take takeWhile_append2)
    qed
  qed simp
  from this [of sp] show ?thesis by simp
qed

text \<open>The lines that stay visible under a new heading are the lines of the frames that stay.\<close>

lemma filter_frames:
  assumes "frames_ok depth eff es tail" "l \<le> depth"
  shows "filter (\<lambda>j. eff ! j < l) (concat (map snd es) @ tail) = concat (map snd (takeWhile (\<lambda>e. fst e < l) es))"
proof -
  have "filter (\<lambda>j. eff ! j < l) tail = []" using assms by (force simp: frames_ok_def filter_empty_conv)
  moreover have "sorted_wrt (<) (map fst es) \<Longrightarrow> \<forall>e\<in>set es. \<forall>j\<in>set (snd e). eff ! j = fst e \<Longrightarrow>
    filter (\<lambda>j. eff ! j < l) (concat (map snd es)) = concat (map snd (takeWhile (\<lambda>e. fst e < l) es))" for es :: "(int \<times> nat list) list"
  proof (induction es)
    case (Cons e es)
    show ?case
    proof (cases "fst e < l")
      case False
      then have "\<forall>e'\<in>set (e # es). \<not> fst e' < l" using Cons.prems(1) by fastforce
      then have "\<forall>j\<in>set (concat (map snd (e # es))). \<not> eff ! j < l" using Cons.prems(2) by force
      then show ?thesis using False by (simp only: filter_False) simp
    qed (use Cons in \<open>simp add: filter_True\<close>)
  qed simp
  ultimately show ?thesis using assms(1) by (simp add: frames_ok_def)
qed

lemma open_level:
  assumes "frames_ok depth eff es tail" "concat (map snd es) @ tail \<noteq> []" "last (concat (map snd es) @ tail) = length eff - 1"
  shows "if tail = [] then last eff = fst (last es) \<and> es \<noteq> [] else depth < last eff"
proof (cases "tail = []")
  case True
  then have es: "es \<noteq> []" using assms(2) by auto
  then have ne: "snd (last es) \<noteq> []" using assms(1) by (simp add: frames_ok_def)
  have "last (concat (map snd es)) = last (snd (last es))" using es ne by (induction es) (auto simp: last_append)
  then have "eff ! (length eff - 1) = fst (last es)" "length eff - 1 < length eff"
    using assms True es ne last_in_set [OF ne] by (force simp: frames_ok_def)+
  then show ?thesis using True es last_conv_nth [of eff] by fastforce
next
  case False
  then have "length eff - 1 \<in> set tail" using assms(3) last_in_set [OF False] by simp
  then have "depth < eff ! (length eff - 1)" "length eff - 1 < length eff" using assms(1) by (auto simp: frames_ok_def)
  then show ?thesis using False last_conv_nth [of eff] by fastforce
qed

lemma open_path_inv:
  assumes "loop_inv depth incl root sp lvs" "lvs \<noteq> []"
  shows "if loose incl root sp = [] then last (line_levels depth incl lvs) = fst (last (frames incl root sp)) \<and> sp \<noteq> 0
         else depth < last (line_levels depth incl lvs)"
proof -
  have open_last: "concat (map snd (frames incl root sp)) @ loose incl root sp = path_of depth incl lvs (length lvs - 1)"
    using assms by (simp add: loop_inv_def open_path_def last_path_def)
  have "frames incl root sp \<noteq> [] \<longleftrightarrow> sp \<noteq> 0" using length_0_conv [of "frames incl root sp"] by simp
  moreover have "frames_ok depth (line_levels depth incl lvs) (frames incl root sp) (loose incl root sp)"
    using assms(1) by (simp add: loop_inv_def)
  ultimately show ?thesis
    using open_level [of depth "line_levels depth incl lvs" "frames incl root sp" "loose incl root sp"] path_of_self open_last
    by (simp split: if_splits)
qed

lemma frames_body:
  assumes inv: "loop_inv depth incl root sp lvs" and l: "l > depth"
  defines "root' \<equiv> at_spine sp (addBodyIndex (length lvs)) root"
  shows "frames_ok depth (line_levels depth incl (lvs @ [l])) (frames incl root' sp) (loose incl root' sp)"
    and "open_path incl root' sp = open_path incl root sp @ [length lvs]"
proof -
  let ?eff = "line_levels depth incl lvs" and ?es = "frames incl root sp" and ?tail = "loose incl root sp"
  have ok: "tree_ok depth root sp" and fr: "frames_ok depth ?eff ?es ?tail" using inv by (auto simp: loop_inv_def)
  note step = root_body [where i = "length lvs", OF ok, folded root'_def]
  define x where "x = (if incl then l else last ((depth + 1) # ?eff))"
  have new: "line_levels depth incl (lvs @ [l]) = ?eff @ [x]" using l by (simp add: line_levels_snoc x_def)
  have "frames_ok depth (?eff @ [x]) (frames incl root' sp) (loose incl root' sp) \<and> open_path incl root' sp = open_path incl root sp @ [length lvs]"
  proof (cases "incl \<or> sp = 0")
    case True
    have "depth < x"
    proof (cases "incl \<or> lvs = []")
      case True
      then show ?thesis using l by (auto simp: x_def line_levels_def)
    next
      case False
      then have "?eff \<noteq> []" using length_0_conv [of ?eff] by simp
      then show ?thesis using True False open_path_inv [OF inv] by (auto simp: x_def split: if_splits)
    qed
    then show ?thesis using True frames_ok_tail [OF fr] step(3,4) [where incl = incl] by (simp add: open_path_def)
  next
    case False
    then have ne: "?es \<noteq> []" and tail: "?tail = []"
      using length_0_conv [of ?es] by (auto simp: loose_def tail_of_def split: nat.splits)
    then have "snd (last ?es) \<noteq> []" using fr by (simp add: frames_ok_def)
    then have "open_path incl root sp \<noteq> []" using ne by (auto simp: open_path_def)
    then have "lvs \<noteq> []" using inv by (auto simp: loop_inv_def last_path_def)
    moreover have "?eff \<noteq> []" using \<open>lvs \<noteq> []\<close> length_0_conv [of ?eff] by simp
    ultimately have x: "x = fst (last ?es)" using open_path_inv [OF inv] tail False by (simp add: x_def)
    have "frames_ok depth (?eff @ [x]) (butlast ?es @ [(x, snd (last ?es) @ [length lvs])]) []"
      using frames_ok_last [of depth ?eff ?es x] fr ne x tail by simp
    moreover have "concat (map snd ?es) = concat (map snd (butlast ?es)) @ snd (last ?es)"
      using ne by (cases ?es rule: rev_cases) auto
    ultimately show ?thesis using False tail step(3,4) [where incl = incl] x by (simp add: open_path_def)
  qed
  then show "frames_ok depth (line_levels depth incl (lvs @ [l])) (frames incl root' sp) (loose incl root' sp)"
    and "open_path incl root' sp = open_path incl root sp @ [length lvs]" by (auto simp: new)
qed

lemma loop_inv_body:
  assumes "loop_inv depth incl root sp lvs" "l > depth"
  shows "loop_inv depth incl (at_spine sp (addBodyIndex (length lvs)) root) sp (lvs @ [l])"
proof -
  have "tree_ok depth root sp" "node_paths depth incl [] root = spec_paths depth incl lvs" "open_path incl root sp = last_path depth incl lvs"
    using assms(1) by (auto simp: loop_inv_def)
  then show ?thesis
    using root_body [where i = "length lvs" and root = root and sp = sp and depth = depth] frames_body [OF assms] assms(2) by (simp add: loop_inv_def spec_paths_snoc last_path_snoc)
qed

lemma sorted_takeWhile_all:
  assumes "sorted_wrt (<) (map fst es)" "es \<noteq> []"
  shows "length (takeWhile (\<lambda>e. fst e < (l :: int)) es) < length es \<longleftrightarrow> l \<le> fst (last es)"
  using assms
proof (induction es)
  case (Cons e es)
  then show ?case by (cases es) (auto dest: last_in_set)
qed simp

lemma loop_inv_heading:
  assumes inv: "loop_inv depth incl root sp lvs" and l: "1 \<le> l" "l \<le> depth"
  defines "sp' \<equiv> pop_stack root l sp"
  shows "loop_inv depth incl (at_spine sp' (addChild (ChunkNode l [length lvs] [] [])) root) (Suc sp') (lvs @ [l])"
proof -
  let ?eff = "line_levels depth incl lvs" and ?es = "frames incl root sp" and ?tail = "loose incl root sp"
  have ok: "tree_ok depth root sp" and fr: "frames_ok depth ?eff ?es ?tail" using inv by (auto simp: loop_inv_def)
  then have sp': "sp' = length (takeWhile (\<lambda>e. fst e < l) ?es)" by (simp add: sp'_def pop_stack_frames frames_ok_def)
  have le: "sp' \<le> sp" using length_takeWhile_le [of "\<lambda>e. fst e < l" ?es] by (simp add: sp')
  have stay: "take sp' ?es = takeWhile (\<lambda>e. fst e < l) ?es" by (simp add: sp' takeWhile_eq_take [symmetric])
  note step = root_child [OF ok le l, of "length lvs" incl]
  have new: "line_levels depth incl (lvs @ [l]) = ?eff @ [l]" using l by (simp add: line_levels_snoc)
  have paths: "node_paths depth incl [] root = spec_paths depth incl lvs" "open_path incl root sp = last_path depth incl lvs"
    using inv by (auto simp: loop_inv_def)
  have "last_path depth incl (lvs @ [l]) = concat (map snd (take sp' ?es)) @ [length lvs]"
    using filter_frames [OF fr l(2)] l by (simp add: last_path_snoc stay open_path_def flip: paths(2))
  moreover have fr': "frames_ok depth (?eff @ [l]) (take sp' ?es @ [(l, [length lvs])]) []"
    using frames_ok_push [OF frames_ok_takeWhile [OF fr, of "\<lambda>e. fst e < l"]] by (auto simp: stay dest: set_takeWhileD)
  have keep: "(sp' < sp \<or> ?tail \<noteq> []) \<longleftrightarrow> l \<le> last ?eff" if "lvs \<noteq> []"
    using open_path_inv [OF inv that] l(2) fr sorted_takeWhile_all [of ?es l] length_0_conv [of ?es]
    by (cases "?tail = []") (auto simp: sp' frames_ok_def)
  have emit: "(if sp' < sp \<or> ?tail \<noteq> [] then spec_paths depth incl lvs else butlast (spec_paths depth incl lvs)) =
    (if l \<le> depth \<and> lvs \<noteq> [] \<and> l \<le> last ?eff then spec_paths depth incl lvs else butlast (spec_paths depth incl lvs))"
    using keep l(2) by (cases "lvs = []") (simp_all add: spec_paths_def)
  ultimately show ?thesis
    using step fr' unfolding loop_inv_def spec_paths_snoc paths(1) emit open_path_def new by simp
qed

lemma loop_inv_start: "loop_inv depth incl (ChunkNode 0 [] [] []) 0 []"
  by (simp add: loop_inv_def frames_ok_def frame_defs last_path_def spec_paths_def)

lemma build_loop_inv:
  "loop_inv depth incl root sp lvs \<Longrightarrow> \<forall>l\<in>set ls. 1 \<le> l \<Longrightarrow>
   \<exists>sp'. loop_inv depth incl (build_loop depth root sp (map (\<lambda>(j, l). \<lparr>il_level = l, il_index = j\<rparr>) (zip [length lvs..<length lvs + length ls] ls)))
     sp' (lvs @ ls)"
proof (induction ls arbitrary: root sp lvs)
  case (Cons l ls)
  have zip: "zip [length lvs..<length lvs + length (l # ls)] (l # ls) =
    (length lvs, l) # zip [length (lvs @ [l])..<length (lvs @ [l]) + length ls] ls"
    by (simp add: upt_conv_Cons del: upt_Suc)
  show ?case
  proof (cases "l > depth")
    case True
    then show ?thesis using Cons.IH [OF loop_inv_body [OF Cons.prems(1) True]] Cons.prems(2) by (simp only: zip) (simp add: Let_def del: upt_Suc)
  next
    case False
    then show ?thesis
      using Cons.IH [OF loop_inv_heading [OF Cons.prems(1), of l]] Cons.prems(2) by (simp only: zip) (simp add: Let_def del: upt_Suc)
  qed
qed auto

lemma buildTree_inv:
  assumes "\<forall>l\<in>set lvs. 1 \<le> l"
  obtains sp where "loop_inv depth incl (buildTree (indexed lvs) depth) sp lvs"
  using build_loop_inv [OF loop_inv_start assms] by (auto simp: indexed_def buildTree_def)

lemma paths_tree: "\<forall>l\<in>set lvs. 1 \<le> l \<Longrightarrow> tree_paths depth incl lvs = spec_paths depth incl lvs"
  by (erule buildTree_inv [of _ depth incl]) (simp add: tree_paths_def getPaths_node_paths loop_inv_def)

section \<open>Properties\<close>

text \<open>C22: what the tree of headings and the walk over it compute.  With levels from 1 on, the paths are exactly these: one for each line that ends
  a path (the last line, and every line before a heading that is not deeper), made of the lines visible from it (those after which only deeper
  headings follow), in document order.  With \<open>include_heading_content\<close> body text counts with its own level and so is seen only until the next
  heading; without, it counts with the level of its heading and goes along with it.\<close>

theorem paths_specification:
  assumes "\<forall>l\<in>set lvs. 1 \<le> l"
  shows "tree_paths depth incl lvs = spec_paths depth incl lvs"
proof -
  obtain sp where "loop_inv depth incl (buildTree (indexed lvs) depth) sp lvs" using assms by (rule buildTree_inv)
  then have "node_paths depth incl [] (buildTree (indexed lvs) depth) = spec_paths depth incl lvs" by (simp add: loop_inv_def)
  then show ?thesis by (simp add: tree_paths_def getPaths_node_paths)
qed

lemma sample_paths: "spec_paths 2 True [9, 1, 9, 2, 9, 2, 1, 3] = [[0], [1, 2], [1, 3, 4], [1, 5], [6, 7]]"
  by code_simp

theorem paths_specification_witness: "tree_paths 2 True [9, 1, 9, 2, 9, 2, 1, 3] = [[0], [1, 2], [1, 3, 4], [1, 5], [6, 7]]"
  using paths_specification [of "[9, 1, 9, 2, 9, 2, 1, 3]" 2 True] by (simp add: sample_paths)

lemma section_levels_nth:
  "i < length ls \<Longrightarrow> section_levels depth cur ls ! i = (if ls ! i \<le> depth then ls ! i else (cur # section_levels depth cur ls) ! i)"
  by (induction ls arbitrary: cur i) (auto simp: nth_Cons' not_less)

lemma line_levels_Suc:
  "Suc i < length lvs \<Longrightarrow>
   line_levels depth incl lvs ! Suc i = (if lvs ! Suc i \<le> depth \<or> incl then lvs ! Suc i else line_levels depth incl lvs ! i)"
  by (simp add: line_levels_def section_levels_nth)

lemma visible_step:
  assumes "Suc i < length lvs" "\<not> path_ends depth incl lvs i" "visible depth incl lvs e (Suc i)"
  shows "visible depth incl lvs e i"
  unfolding visible_def
proof (intro ballI impI)
  fix k assume k: "k \<in> {i<..e}" "lvs ! k \<le> depth"
  show "line_levels depth incl lvs ! i < lvs ! k"
  proof (cases "k = Suc i")
    case True
    then show ?thesis using assms(2) k by (auto simp: path_ends_def)
  next
    case False
    then have "line_levels depth incl lvs ! Suc i < lvs ! k" using assms(3) k by (auto simp: visible_def)
    then show ?thesis using assms(1,2) k(2) by (auto simp: line_levels_Suc path_ends_def split: if_splits)
  qed
qed

lemma line_in_path:
  assumes "i < length lvs"
  shows "\<exists>e\<ge>i. e < length lvs \<and> path_ends depth incl lvs e \<and> visible depth incl lvs e i"
  using assms
proof (induction "length lvs - i" arbitrary: i)
  case (Suc m)
  show ?case
  proof (cases "path_ends depth incl lvs i")
    case True
    then show ?thesis using Suc.prems by (auto simp: visible_def intro!: exI [of _ i])
  next
    case False
    then have "Suc i < length lvs" using Suc.prems by (auto simp: path_ends_def)
    then obtain e where "e \<ge> Suc i" "e < length lvs" "path_ends depth incl lvs e" "visible depth incl lvs e (Suc i)"
      using Suc.hyps(1) [of "Suc i"] Suc.hyps(2) by fastforce
    then show ?thesis using visible_step [of i lvs depth incl e] False \<open>Suc i < length lvs\<close> by (auto intro!: exI [of _ e])
  qed
qed simp

lemma path_of_iff: "i \<in> set (path_of depth incl lvs e) \<longleftrightarrow> i \<le> e \<and> visible depth incl lvs e i"
  by (auto simp: path_of_def less_Suc_eq_le simp del: upt_Suc)

lemma tree_paths_lines: "\<forall>l\<in>set lvs. 1 \<le> l \<Longrightarrow> set (concat (tree_paths depth incl lvs)) = {..<length lvs}"
  using line_in_path [of _ lvs depth incl] by (auto simp: paths_tree spec_paths_def path_of_iff) blast

lemma body_line_once:
  assumes "i < length lvs" "depth < lvs ! i"
  shows "length (filter (\<lambda>p. i \<in> set p) (spec_paths depth True lvs)) = 1"
proof -
  let ?Q = "\<lambda>e. path_ends depth True lvs e \<and> i \<le> e \<and> visible depth True lvs e i"
  obtain e where e: "?Q e" "e < length lvs" using line_in_path [OF assms(1)] by blast
  have later: "\<not> (?Q a \<and> ?Q b \<and> b < length lvs)" if "a < b" for a b
    using that assms(2) by (auto simp: path_ends_def visible_def line_levels_def dest!: bspec [of _ _ "Suc a"])
  then have "e' = e" if "?Q e'" "e' < length lvs" for e' using that e by (metis linorder_neqE_nat)
  then have "{e'. e' < length lvs \<and> ?Q e'} = {e}" using e by blast
  moreover have "length (filter ?Q [0..<length lvs]) = card {e'. e' < length lvs \<and> ?Q e'}"
    by (simp add: length_filter_conv_card) (rule arg_cong [of _ _ card], auto)
  ultimately show ?thesis by (simp add: spec_paths_def filter_map o_def path_of_iff conj_commute)
qed

text \<open>C25: no line is lost: every line of a run is in a path, and with \<open>include_heading_content\<close> every line of body text is in exactly one;
  the lines of a path are in document order, without repetition.\<close>

theorem paths_complete:
  assumes "\<forall>l\<in>set lvs. 1 \<le> l"
  shows "set (concat (tree_paths depth incl lvs)) = {..<length lvs} \<and>
    (\<forall>p\<in>set (tree_paths depth incl lvs). p \<noteq> [] \<and> sorted_wrt (<) p) \<and>
    (incl \<longrightarrow> (\<forall>i<length lvs. depth < lvs ! i \<longrightarrow> length (filter (\<lambda>p. i \<in> set p) (tree_paths depth incl lvs)) = 1))"
  unfolding paths_tree [OF assms]
proof (intro conjI impI allI ballI)
  show "set (concat (spec_paths depth incl lvs)) = {..<length lvs}"
    using tree_paths_lines [OF assms, of depth incl] by (simp add: paths_tree [OF assms])
next
  fix p assume "p \<in> set (spec_paths depth incl lvs)"
  then show "p \<noteq> []" "sorted_wrt (<) p" by (auto simp: spec_paths_def path_of_self) (simp add: path_of_def sorted_wrt_filter del: upt_Suc)
next
  fix i assume "incl" "i < length lvs" "depth < lvs ! i"
  then show "length (filter (\<lambda>p. i \<in> set p) (spec_paths depth incl lvs)) = 1" using body_line_once by simp
qed

theorem paths_complete_witness:
  "length (filter (\<lambda>p. 4 \<in> set p) (tree_paths 2 True [9, 1, 9, 2, 9, 2, 1, 3])) = 1"
  using paths_complete [of "[9, 1, 9, 2, 9, 2, 1, 3]" 2 True] by simp

text \<open>The heading is in the chunks in both modes: the flag decides whether the body text of a heading is a chunk of its own or goes along with the
  headings below it.\<close>

theorem heading_in_both_modes:
  "tree_paths 2 False [1, 9, 2, 9] = [[0, 1, 2, 3]] \<and> tree_paths 2 True [1, 9, 2, 9] = [[0, 1], [0, 2, 3]]"
  by code_simp

end
