(* ===== verification/TitleGroup.thy ===== *)
theory TitleGroup
  imports TitleLevels TitleTree "HOL-Library.Multiset"
begin

text \<open>
  \<open>ingestion/component/chunker/group.go\<close>, \<open>manual.go\<close> and the grouping of \<open>hierarchy.go\<close>: how the records of a document become the chunks of the title
  chunkers, given the records, the levels of their lines and the encoder \<open>encode\<close> of the tokenizer.  The order that \<open>sort.Slice\<close> gives rows
  it takes as equal is not specified, so the sort of the coordinate rows is the argument \<open>sort_rows\<close>.
\<close>

section \<open>The target level\<close>

fun tiers_loop :: "int list \<Rightarrow> int set \<Rightarrow> int list \<Rightarrow> int list" where
  "tiers_loop tiers seen [] = tiers"
| "tiers_loop tiers seen (l # ls) =
     (if l > 0 \<and> l < bodyLevel \<and> l \<notin> seen then tiers_loop (tiers @ [l]) (insert l seen) ls else tiers_loop tiers seen ls)"

fun sift :: "nat \<Rightarrow> int list \<Rightarrow> int list" where
  "sift 0 tiers = tiers"
| "sift (Suc j) tiers = (if tiers ! j > tiers ! Suc j then sift j (tiers[j := tiers ! Suc j, Suc j := tiers ! j]) else tiers)"

definition resolveTargetLevel :: "int list \<Rightarrow> int \<Rightarrow> int" where
  "resolveTargetLevel levels hierarchy =
     (let tiers = tiers_loop [] {} levels
      in if tiers = [] then 0
         else
           let tiers = fold sift [1..<length tiers] tiers;
               hierarchy = (if hierarchy < 1 then 1 else hierarchy);
               hierarchy = (if hierarchy > int (length tiers) then int (length tiers) else hierarchy)
           in tiers ! nat (hierarchy - 1))"

definition resolveGroupTargetLevel :: "int list \<Rightarrow> int option \<Rightarrow> int \<Rightarrow> int" where
  "resolveGroupTargetLevel levels hierarchy mostLevel =
     (case hierarchy of Some h \<Rightarrow> if h > 0 then resolveTargetLevel levels h else mostLevel | None \<Rightarrow> mostLevel)"

fun section_loop :: "int \<Rightarrow> int \<Rightarrow> int list \<Rightarrow> int list" where
  "section_loop targetLevel sid [] = []"
| "section_loop targetLevel sid (lvl # ls) =
     (let sid = (if targetLevel > 0 \<and> lvl \<le> targetLevel then sid + 1 else sid) in sid # section_loop targetLevel sid ls)"

definition buildSectionIDs :: "int list \<Rightarrow> int \<Rightarrow> int list" where
  "buildSectionIDs levels targetLevel = (case levels of [] \<Rightarrow> [] | l # ls \<Rightarrow> 0 # section_loop targetLevel 0 ls)"

section \<open>Grouping\<close>

definition minGroupTokens :: int where "minGroupTokens = 32"

definition maxGroupTokens :: int where "maxGroupTokens = 1024"

fun group_loop ::
  "encoder \<Rightarrow> lineRecord list list \<Rightarrow> lineRecord list \<Rightarrow> int \<Rightarrow> int \<Rightarrow> (lineRecord \<times> int) list \<Rightarrow> lineRecord list list" where
  "group_loop encode recordGroups currentGroup tkCnt lastSID [] =
     (if currentGroup \<noteq> [] then recordGroups @ [currentGroup] else recordGroups)"
| "group_loop encode recordGroups currentGroup tkCnt lastSID ((rec, secID) # rest) =
     (let closed = (if currentGroup \<noteq> [] then recordGroups @ [currentGroup] else recordGroups)
      in if \<not> isText rec then group_loop encode (closed @ [[rec]]) [] 0 (- 2) rest
         else if trim (lr_text rec) = [] then group_loop encode recordGroups currentGroup tkCnt lastSID rest
         else
           let tokenCount = NumTokensFromString encode (trim (lr_text rec))
           in if currentGroup \<noteq> [] \<and> isText (hd currentGroup) \<and>
                 (tkCnt < minGroupTokens \<or> (tkCnt < maxGroupTokens \<and> secID = lastSID))
              then group_loop encode recordGroups (currentGroup @ [rec]) (tkCnt + tokenCount) secID rest
              else group_loop encode closed [rec] tokenCount secID rest)"

definition groupRecords :: "encoder \<Rightarrow> lineRecord list \<Rightarrow> int list \<Rightarrow> lineRecord list list" where
  "groupRecords encode records secIDs = group_loop encode [] [] 0 (- 2) (zip records secIDs)"

text \<open>The groups of the hierarchy chunker: a run of text records gives its paths, another record is a group of its own.\<close>

definition flush_run :: "int option \<Rightarrow> bool \<Rightarrow> (lineRecord \<times> int) list \<Rightarrow> lineRecord list list" where
  "flush_run hierarchy includeHeading run =
     (if run = [] then []
      else
        let h = (case hierarchy of Some h \<Rightarrow> h | None \<Rightarrow> 1);
            targetLevel = resolveTargetLevel (map snd run) h
        in if targetLevel = 0 then [map fst run]
           else map (map (\<lambda>j. fst (run ! j))) (filter (\<lambda>path. path \<noteq> []) (tree_paths targetLevel includeHeading (map snd run))))"

fun hierarchy_loop :: "int option \<Rightarrow> bool \<Rightarrow> (lineRecord \<times> int) list \<Rightarrow> (lineRecord \<times> int) list \<Rightarrow> lineRecord list list" where
  "hierarchy_loop hierarchy includeHeading run [] = flush_run hierarchy includeHeading run"
| "hierarchy_loop hierarchy includeHeading run ((rec, lvl) # rest) =
     (if isText rec then hierarchy_loop hierarchy includeHeading (run @ [(rec, lvl)]) rest
      else flush_run hierarchy includeHeading run @ [rec] # hierarchy_loop hierarchy includeHeading [] rest)"

definition hierarchy_groups :: "int option \<Rightarrow> bool \<Rightarrow> lineRecord list \<Rightarrow> int list \<Rightarrow> lineRecord list list" where
  "hierarchy_groups hierarchy includeHeading records levels = hierarchy_loop hierarchy includeHeading [] (zip records levels)"

section \<open>Chunks\<close>

definition joinGroupText :: "lineRecord list \<Rightarrow> string" where
  "joinGroupText g = concat (map (\<lambda>r. lr_text r @ [CHR 0x0A]) g)"

text \<open>A position tag at the head of a text: its length, 0 when there is none.\<close>

definition tag_char :: "char \<Rightarrow> bool" where
  "tag_char c \<longleftrightarrow> c = CHR 0x09 \<or> c = CHR ''.'' \<or> c = CHR ''-'' \<or> (CHR ''0'' \<le> c \<and> c \<le> CHR ''9'')"

definition posTagRemove :: "string \<Rightarrow> nat" where
  "posTagRemove s =
     (let n = length (takeWhile tag_char (drop 2 s))
      in if take 2 s = ''@@'' \<and> n > 0 \<and> take 2 (drop (2 + n) s) = ''##'' then n + 4 else 0)"

function removeTag :: "string \<Rightarrow> string" where
  "removeTag s = (if s = [] then [] else if posTagRemove s > 0 then removeTag (drop (posTagRemove s) s) else hd s # removeTag (tl s))"
  by pat_completeness auto
termination
  by (relation "measure length") auto

declare removeTag.simps [simp del]

definition pdfPosRowLess :: "float64 list \<Rightarrow> float64 list \<Rightarrow> bool" where
  "pdfPosRowLess a b =
     (if \<not> f_eq (a ! 0) (b ! 0) then f_less (a ! 0) (b ! 0)
      else if \<not> f_eq (a ! 3) (b ! 3) then f_less (a ! 3) (b ! 3)
      else f_less (a ! 1) (b ! 1))"

fun merge_rows :: "float64 list set \<Rightarrow> position_matrix \<Rightarrow> position_matrix" where
  "merge_rows seen [] = []"
| "merge_rows seen (row # rows) =
     (if length row < 5 \<or> take 5 row \<in> seen then merge_rows seen rows else row # merge_rows (insert (take 5 row) seen) rows)"

fun source_rows :: "raw_positions \<Rightarrow> position_matrix" where
  "source_rows (Positions m) = m"
| "source_rows _ = []"

definition mergePositionMatrix :: "(position_matrix \<Rightarrow> position_matrix) \<Rightarrow> raw_positions list \<Rightarrow> position_matrix option" where
  "mergePositionMatrix sort_rows sources =
     (case merge_rows {} (concat (map source_rows sources)) of [] \<Rightarrow> None | out \<Rightarrow> Some (sort_rows out))"

definition group_chunk :: "(position_matrix \<Rightarrow> position_matrix) \<Rightarrow> bool \<Rightarrow> lineRecord list \<Rightarrow> title_chunk" where
  "group_chunk sort_rows plain g =
     \<lparr>tc_text = removeTag (joinGroupText g),
      tc_doc_type_kwd = (if \<not> plain \<and> lr_docType (hd g) \<noteq> [] then Some (lr_docType (hd g)) else None),
      tc_img_id = (if \<not> plain then lr_imgID (hd g) else None),
      tc_pdf_positions = mergePositionMatrix sort_rows (map lr_pdfPositions g),
      tc_positions = mergePositionMatrix sort_rows (map lr_positions g)\<rparr>"

definition buildChunksFromRecordGroups ::
  "(position_matrix \<Rightarrow> position_matrix) \<Rightarrow> bool \<Rightarrow> bool \<Rightarrow> lineRecord list list \<Rightarrow> title_chunk list" where
  "buildChunksFromRecordGroups sort_rows rootChunkAsHeading plain groups =
     (let chunks = map (group_chunk sort_rows plain) (filter (\<lambda>g. g \<noteq> []) groups)
      in if rootChunkAsHeading \<and> length chunks > 1
         then map (\<lambda>c. c\<lparr>tc_text := tc_text (hd chunks) @ [CHR 0x0A] @ tc_text c\<rparr>) (tl chunks)
         else chunks)"

text \<open>The parts of the parameter that the grouping reads.\<close>

record title_param =
  tp_Levels :: "string list list"
  tp_Hierarchy :: "int option"
  tp_IncludeHeadingContent :: bool
  tp_RootChunkAsHeading :: bool
  tp_ChunkTokenCap :: int

section \<open>Reading order\<close>

definition hasPdfPositions :: "lineRecord list \<Rightarrow> bool" where
  "hasPdfPositions records \<longleftrightarrow> (\<exists>r\<in>set records. lr_pdfPositions r \<noteq> NoPositions \<or> lr_positions r \<noteq> NoPositions)"

fun first_row :: "raw_positions \<Rightarrow> float64 list option" where
  "first_row (Positions (row # rows)) = (if length row < 5 then None else Some row)"
| "first_row _ = None"

definition firstPositionRow :: "lineRecord \<Rightarrow> float64 list option" where
  "firstPositionRow r = (if lr_pdfPositions r \<noteq> NoPositions then first_row (lr_pdfPositions r) else first_row (lr_positions r))"

definition record_less :: "lineRecord \<Rightarrow> lineRecord \<Rightarrow> bool" where
  "record_less a b \<longleftrightarrow> pdfPosRowLess (the (firstPositionRow a)) (the (firstPositionRow b))"

text \<open>\<open>sort.SliceStable\<close> for a strict weak order.\<close>

fun stable_insert :: "('a \<Rightarrow> 'a \<Rightarrow> bool) \<Rightarrow> 'a \<Rightarrow> 'a list \<Rightarrow> 'a list" where
  "stable_insert lt x [] = [x]"
| "stable_insert lt x (y # ys) = (if lt y x then y # stable_insert lt x ys else x # y # ys)"

definition SliceStable :: "('a \<Rightarrow> 'a \<Rightarrow> bool) \<Rightarrow> 'a list \<Rightarrow> 'a list" where
  "SliceStable lt xs = foldr (stable_insert lt) xs []"

fun sort_runs :: "lineRecord list \<Rightarrow> lineRecord list \<Rightarrow> lineRecord list" where
  "sort_runs run [] = SliceStable record_less run"
| "sort_runs run (r # rs) =
     (if firstPositionRow r \<noteq> None then sort_runs (run @ [r]) rs else SliceStable record_less run @ r # sort_runs [] rs)"

definition sortRecordsByPosition :: "lineRecord list \<Rightarrow> lineRecord list" where
  "sortRecordsByPosition records = sort_runs [] records"

text \<open>What the chunkers are given besides the records: the matchers of \<open>TitleLevels\<close>, the outline, and whether the payload is plain text.\<close>

record title_env =
  te_encode :: encoder
  te_sort_rows :: "position_matrix \<Rightarrow> position_matrix"
  te_re :: "fixed_pattern \<Rightarrow> matcher"
  te_compile :: "string \<Rightarrow> matcher option"
  te_outline :: "outlineEntry list"
  te_plain :: bool

definition level_context :: "title_env \<Rightarrow> title_param \<Rightarrow> lineRecord list \<Rightarrow> LevelContext" where
  "level_context env p records = newLevelContext (te_re env) (te_compile env) records (te_outline env) (tp_Levels p)"

definition chunkFromRecords :: "title_env \<Rightarrow> title_param \<Rightarrow> lineRecord list \<Rightarrow> int \<Rightarrow> title_chunk list" where
  "chunkFromRecords env p records tokenCap =
     (let ctx = level_context env p records;
          targetLevel = resolveGroupTargetLevel (lc_levels ctx) (tp_Hierarchy p) (lc_mostLevel ctx);
          secIDs = buildSectionIDs (lc_levels ctx) targetLevel;
          groups = groupRecords (te_encode env) records secIDs;
          chunks = buildChunksFromRecordGroups (te_sort_rows env) (tp_RootChunkAsHeading p) (te_plain env) groups
      in if tokenCap > 0 then enforceTitleTokenCap (te_encode env) chunks tokenCap else chunks)"

definition invokeGroup :: "title_env \<Rightarrow> title_param \<Rightarrow> lineRecord list \<Rightarrow> title_chunk list" where
  "invokeGroup env p records = (if records = [] then [] else chunkFromRecords env p records (tp_ChunkTokenCap p))"

definition invokeHierarchy :: "title_env \<Rightarrow> title_param \<Rightarrow> lineRecord list \<Rightarrow> title_chunk list" where
  "invokeHierarchy env p records =
     (if records = [] then []
      else
        let levels = lc_levels (level_context env p records);
            groups = hierarchy_groups (tp_Hierarchy p) (tp_IncludeHeadingContent p) records levels;
            chunks = buildChunksFromRecordGroups (te_sort_rows env) (tp_RootChunkAsHeading p) (te_plain env) groups
        in if tp_ChunkTokenCap p > 0 then enforceTitleTokenCap (te_encode env) chunks (tp_ChunkTokenCap p) else chunks)"

definition ManualChunker_invoke :: "title_env \<Rightarrow> title_param \<Rightarrow> lineRecord list \<Rightarrow> title_chunk list" where
  "ManualChunker_invoke env p records =
     (if records = [] then []
      else chunkFromRecords env p (if hasPdfPositions records then sortRecordsByPosition records else records) 0)"

section \<open>The target level is the level it names\<close>

lemma insort_snoc: "x < y \<Longrightarrow> \<forall>z\<in>set ys. z \<le> y \<Longrightarrow> insort x (ys @ [y]) = insort x ys @ [y]" for x :: int
  by (induction ys) auto

lemma insort_last: "sorted ys \<Longrightarrow> \<forall>z\<in>set ys. z \<le> x \<Longrightarrow> insort x ys = ys @ [x]" for x :: int
  by (induction ys) (auto simp: insort_is_Cons)

lemma sift_insort: "sorted ys \<Longrightarrow> sift (length ys) (ys @ x # zs) = insort x ys @ zs"
proof (induction ys arbitrary: zs rule: rev_induct)
  case (snoc y ys)
  then have le: "\<forall>z\<in>set ys. z \<le> y" "sorted ys" by (auto simp: sorted_append)
  show ?case
  proof (cases "y > x")
    case True
    then show ?thesis using snoc.IH [OF le(2), of "y # zs"] le by (simp add: nth_append list_update_append insort_snoc)
  next
    case False
    then show ?thesis using le snoc.prems insort_last [of "ys @ [y]" x] by (fastforce simp: nth_append)
  qed
qed simp

lemma fold_sift: "k \<le> length xs \<Longrightarrow> fold sift [Suc 0..<k] xs = sort (take k xs) @ drop k xs"
proof (induction k)
  case (Suc k)
  show ?case
  proof (cases "k = 0")
    case True
    then show ?thesis using Suc.prems by (cases xs) auto
  next
    case False
    have "fold sift [Suc 0..<Suc k] xs = sift k (sort (take k xs) @ xs ! k # drop (Suc k) xs)"
      using False Suc by (simp add: Cons_nth_drop_Suc)
    also have "\<dots> = insort (xs ! k) (sort (take k xs)) @ drop (Suc k) xs"
      using sift_insort [of "sort (take k xs)" "xs ! k" "drop (Suc k) xs"] Suc.prems by simp
    also have "insort (xs ! k) (sort (take k xs)) = sort (take k xs @ [xs ! k])"
      by (rule properties_for_sort [symmetric]) (auto simp: sorted_insort)
    finally show ?thesis using Suc.prems by (simp add: take_Suc_conv_app_nth)
  qed
qed simp

definition heading_levels :: "int list \<Rightarrow> int set" where
  "heading_levels levels = {l \<in> set levels. 0 < l \<and> l < bodyLevel}"

lemma tiers_loop_set:
  "distinct tiers \<Longrightarrow>
   distinct (tiers_loop tiers (set tiers) ls) \<and> set (tiers_loop tiers (set tiers) ls) = set tiers \<union> heading_levels ls"
proof (induction ls arbitrary: tiers)
  case (Cons l ls)
  show ?case using Cons.IH [of tiers] Cons.IH [of "tiers @ [l]"] Cons.prems by (auto simp: heading_levels_def)
qed (simp add: heading_levels_def)

lemma sorted_tiers: "sorted_list_of_set (heading_levels levels) = sort (tiers_loop [] {} levels)"
proof -
  have "distinct (tiers_loop [] {} levels)" "set (tiers_loop [] {} levels) = heading_levels levels"
    using tiers_loop_set [of "[]" levels] by auto
  then show ?thesis by (metis distinct_remdups_id sorted_list_of_set_sort_remdups)
qed

lemma target_level_spec:
  "resolveTargetLevel levels h =
   (let tiers = sorted_list_of_set (heading_levels levels)
    in if tiers = [] then 0 else tiers ! nat (min (max 1 h) (int (length tiers)) - 1))"
proof -
  let ?T = "tiers_loop [] {} levels"
  have "sort ?T = [] \<longleftrightarrow> ?T = []" by (metis length_0_conv length_sort)
  then show ?thesis
    unfolding resolveTargetLevel_def Let_def sorted_tiers One_nat_def fold_sift [OF order_refl]
    by (simp add: min_def max_def)
qed

lemma target_level_pos: "0 \<le> resolveTargetLevel levels h"
proof (cases "sorted_list_of_set (heading_levels levels) = []")
  case False
  let ?S = "sorted_list_of_set (heading_levels levels)"
  have n: "0 < length ?S" using False by blast
  have "nat (min (max 1 h) (int (length ?S)) - 1) < length ?S" using n by linarith
  then have "?S ! nat (min (max 1 h) (int (length ?S)) - 1) \<in> set ?S" by (rule nth_mem)
  then have "?S ! nat (min (max 1 h) (int (length ?S)) - 1) \<in> heading_levels levels" by (simp add: heading_levels_def)
  then show ?thesis using False by (simp add: target_level_spec Let_def heading_levels_def del: sorted_list_of_set_eq_Nil_iff)
qed (simp add: target_level_spec)

section \<open>Groups\<close>

definition kept_record :: "lineRecord \<Rightarrow> bool" where
  "kept_record r \<longleftrightarrow> isText r \<longrightarrow> trim (lr_text r) \<noteq> []"

definition record_tokens :: "encoder \<Rightarrow> lineRecord \<Rightarrow> int" where
  "record_tokens encode r = NumTokensFromString encode (trim (lr_text r))"

definition group_tokens :: "encoder \<Rightarrow> (lineRecord \<times> int) list \<Rightarrow> int" where
  "group_tokens encode g = sum_list (map (record_tokens encode \<circ> fst) g)"

text \<open>A group of records with their sections: one record that is no text, or text records each of which came in while the group was short, or within the
  limit and in the section of the one before.\<close>

definition joins :: "encoder \<Rightarrow> (lineRecord \<times> int) list \<Rightarrow> lineRecord \<times> int \<Rightarrow> bool" where
  "joins encode g x \<longleftrightarrow>
     group_tokens encode g < minGroupTokens \<or> (group_tokens encode g < maxGroupTokens \<and> snd x = snd (last g))"

fun text_group :: "encoder \<Rightarrow> (lineRecord \<times> int) list \<Rightarrow> (lineRecord \<times> int) list \<Rightarrow> bool" where
  "text_group encode g [] \<longleftrightarrow> True"
| "text_group encode g (x # xs) \<longleftrightarrow> isText (fst x) \<and> (g \<noteq> [] \<longrightarrow> joins encode g x) \<and> text_group encode (g @ [x]) xs"

definition group_ok :: "encoder \<Rightarrow> (lineRecord \<times> int) list \<Rightarrow> bool" where
  "group_ok encode g \<longleftrightarrow> g \<noteq> [] \<and> ((length g = 1 \<and> \<not> isText (fst (hd g))) \<or> text_group encode [] g)"

lemma text_group_snoc: "text_group encode g (xs @ [x]) \<longleftrightarrow> text_group encode g xs \<and> isText (fst x) \<and> (g @ xs \<noteq> [] \<longrightarrow> joins encode (g @ xs) x)"
  by (induction xs arbitrary: g) auto

lemma text_group_isText: "text_group encode g xs \<Longrightarrow> x \<in> set xs \<Longrightarrow> isText (fst x)"
  by (induction xs arbitrary: g) auto

lemma group_loop_spec:
  assumes "text_group encode [] c" "c \<noteq> [] \<Longrightarrow> tk = group_tokens encode c \<and> sid = snd (last c)" "\<forall>g\<in>set gs. group_ok encode g"
  shows "\<exists>out. group_loop encode (map (map fst) gs) (map fst c) tk sid rest = map (map fst) out \<and>
    concat out = concat gs @ c @ filter (\<lambda>x. kept_record (fst x)) rest \<and> (\<forall>g\<in>set out. group_ok encode g)"
  using assms
proof (induction rest arbitrary: gs c tk sid)
  case Nil
  then show ?case by (intro exI [of _ "gs @ (if c = [] then [] else [c])"]) (auto simp: group_ok_def)
next
  case (Cons x rest)
  obtain rec sec where x: "x = (rec, sec)" by force
  let ?closed = "gs @ (if c = [] then [] else [c])"
  have closed: "\<forall>g\<in>set ?closed. group_ok encode g" using Cons.prems by (auto simp: group_ok_def)
  consider (other) "\<not> isText rec" | (blank) "isText rec" "trim (lr_text rec) = []"
    | (joined) "isText rec" "trim (lr_text rec) \<noteq> []" "c \<noteq> []" "joins encode c x"
    | (new) "isText rec" "trim (lr_text rec) \<noteq> []" "c = [] \<or> \<not> joins encode c x" by blast
  then show ?case
  proof cases
    case other
    then have "group_ok encode [x]" using x by (simp add: group_ok_def)
    then have "\<forall>g\<in>set (?closed @ [[x]]). group_ok encode g" using closed unfolding set_append ball_Un by simp
    then show ?thesis using Cons.IH [of "[]" 0 "- 2" "?closed @ [[x]]"] other x by (cases "c = []") (simp_all add: Let_def kept_record_def)
  next
    case blank
    then show ?thesis using Cons.IH [of c tk sid gs] Cons.prems x by (simp add: Let_def kept_record_def)
  next
    case joined
    have hd: "isText (hd (map fst c))" using text_group_isText [OF Cons.prems(1)] joined(3) by (simp add: hd_map)
    have tk: "tk = group_tokens encode c \<and> sid = snd (last c)" using Cons.prems(2) joined(3) by blast
    have step: "group_loop encode (map (map fst) gs) (map fst c) tk sid (x # rest) =
      group_loop encode (map (map fst) gs) (map fst (c @ [x])) (group_tokens encode (c @ [x])) sec rest"
      using joined x hd tk by (simp add: Let_def group_tokens_def record_tokens_def joins_def)
    have "text_group encode [] (c @ [x])" using Cons.prems(1) joined x by (simp add: text_group_snoc)
    from Cons.IH [OF this, of "group_tokens encode (c @ [x])" sec gs] show ?thesis
      using Cons.prems(3) joined x unfolding step by (simp add: kept_record_def)
  next
    case new
    have one: "text_group encode [] [x]" using new x by simp
    have "\<not> (c \<noteq> [] \<and> isText (hd (map fst c)) \<and> (tk < minGroupTokens \<or> (tk < maxGroupTokens \<and> sec = sid)))"
      using new(3) Cons.prems(2) x by (auto simp: joins_def)
    then have step: "group_loop encode (map (map fst) gs) (map fst c) tk sid (x # rest) =
      group_loop encode (map (map fst) ?closed) (map fst [x]) (group_tokens encode [x]) sec rest"
      using new(1,2) x by (auto simp: Let_def group_tokens_def record_tokens_def)
    from Cons.IH [OF one, of "group_tokens encode [x]" sec ?closed] show ?thesis
      using closed new(1,2) x unfolding step by (cases "c = []") (simp_all add: kept_record_def)
  qed
qed

lemma length_section_loop [simp]: "length (section_loop t sid ls) = length ls"
  by (induction ls arbitrary: sid) (auto simp: Let_def)

lemma length_buildSectionIDs [simp]: "length (buildSectionIDs levels t) = length levels"
  by (simp add: buildSectionIDs_def split: list.splits)

lemma groupRecords_spec:
  "\<exists>out. groupRecords encode records secIDs = map (map fst) out \<and>
     concat out = filter (\<lambda>x. kept_record (fst x)) (zip records secIDs) \<and> (\<forall>g\<in>set out. group_ok encode g)"
  using group_loop_spec [of encode "[]" 0 "- 2" "[]" "zip records secIDs"] by (simp add: groupRecords_def)

lemma groupRecords_concat:
  assumes "length secIDs = length records"
  shows "concat (groupRecords encode records secIDs) = filter kept_record records" "[] \<notin> set (groupRecords encode records secIDs)"
proof -
  obtain out where out: "groupRecords encode records secIDs = map (map fst) out"
    "concat out = filter (\<lambda>x. kept_record (fst x)) (zip records secIDs)" "\<forall>g\<in>set out. group_ok encode g"
    using groupRecords_spec by blast
  have "concat (map (map fst) out) = map fst (filter (kept_record \<circ> fst) (zip records secIDs))"
    by (simp add: map_concat [symmetric] out(2) comp_def)
  also have "\<dots> = filter kept_record records" using assms by (simp flip: filter_map)
  finally show "concat (groupRecords encode records secIDs) = filter kept_record records" by (simp add: out(1))
  show "[] \<notin> set (groupRecords encode records secIDs)" using out by (auto simp: group_ok_def)
qed

section \<open>The text of the chunks\<close>

abbreviation NL :: char where
  "NL \<equiv> CHR 0x0A"

lemma take2_eq: "take 2 (xs @ NL # ys) = [c, c] \<longleftrightarrow> take 2 xs = [c, c]" if "c \<noteq> NL"
  using that by (cases xs; cases "tl xs") auto

lemma posTag_NL: "posTagRemove (a @ NL # b) = posTagRemove a"
proof (cases "take 2 a = ''@@''")
  case True
  then have "2 \<le> length a" by (cases a; cases "tl a") auto
  then have "takeWhile tag_char (drop 2 (a @ NL # b)) = takeWhile tag_char (drop 2 a)"
    by (simp add: takeWhile_tail tag_char_def)
  moreover have "length (takeWhile tag_char (drop 2 a)) \<le> length a - 2" by (metis length_drop length_takeWhile_le)
  ultimately show ?thesis
    using True \<open>2 \<le> length a\<close> take2_eq [of "CHR 0x23" "drop (2 + length (takeWhile tag_char (drop 2 a))) a" b]
    by (simp add: posTagRemove_def Let_def)
next
  case False
  then show ?thesis using take2_eq [of "CHR 0x40" a b] by (simp add: posTagRemove_def Let_def)
qed

lemma posTag_le: "posTagRemove s \<le> length s"
proof -
  have "n + 4 \<le> length s" if "take 2 (drop (2 + n) s) = ''##''" for n
  proof -
    have "length (take 2 (drop (2 + n) s)) = 2" by (simp only: that) simp
    then show ?thesis by (simp only: length_take length_drop)
  qed
  then show ?thesis by (simp add: posTagRemove_def Let_def)
qed

text \<open>A tag never goes over the end of a line, so tags are removed line by line.\<close>

lemma removeTag_NL: "removeTag (a @ NL # b) = removeTag a @ NL # removeTag b"
proof (induction a rule: removeTag.induct)
  case (1 a)
  show ?case
  proof (cases "a = []")
    case True
    then show ?thesis by (subst removeTag.simps) (simp add: posTagRemove_def removeTag.simps [of "[]"])
  next
    case False
    have "drop (posTagRemove a) (a @ NL # b) = drop (posTagRemove a) a @ NL # b" using posTag_le [of a] by simp
    then show ?thesis
      using False 1 removeTag.simps [of a] removeTag.simps [of "a @ NL # b"] by (simp add: posTag_NL)
  qed
qed

definition line_text :: "lineRecord \<Rightarrow> string" where
  "line_text r = removeTag (lr_text r) @ [NL]"

lemma removeTag_join: "removeTag (joinGroupText g) = concat (map line_text g)"
  by (induction g) (simp_all add: joinGroupText_def line_text_def removeTag_NL removeTag.simps [of "[]"])

lemma buildChunks_text:
  "[] \<notin> set groups \<Longrightarrow>
   concat (map tc_text (buildChunksFromRecordGroups sort_rows False plain groups)) = concat (map line_text (concat groups))"
  by (induction groups) (auto simp: buildChunksFromRecordGroups_def group_chunk_def removeTag_join)

text \<open>What the chunkers rely on of a grouping: the groups are not empty and have the kept records in their order.\<close>

locale record_grouping =
  fixes grouping :: "lineRecord list \<Rightarrow> lineRecord list list" and keep :: "lineRecord \<Rightarrow> bool"
  assumes groups_concat: "concat (grouping records) = filter keep records"
    and groups_nonempty: "[] \<notin> set (grouping records)"
begin

lemma chunk_text:
  "concat (map tc_text (buildChunksFromRecordGroups sort_rows False plain (grouping records))) = concat (map line_text (filter keep records))"
  by (simp add: buildChunks_text groups_nonempty groups_concat)

lemma capped_text:
  "concat (map tc_text (enforceTitleTokenCap encode (buildChunksFromRecordGroups sort_rows False plain (grouping records)) cap)) =
   concat (map line_text (filter keep records))"
  by (simp add: enforce_text chunk_text)

end

definition section_groups :: "title_env \<Rightarrow> title_param \<Rightarrow> lineRecord list \<Rightarrow> lineRecord list list" where
  "section_groups env p records =
     (let ctx = level_context env p records
      in groupRecords (te_encode env) records
           (buildSectionIDs (lc_levels ctx) (resolveGroupTargetLevel (lc_levels ctx) (tp_Hierarchy p) (lc_mostLevel ctx))))"

interpretation sections: record_grouping "section_groups env p" kept_record for env p
  by unfold_locales (simp_all add: section_groups_def Let_def groupRecords_concat level_context_def newLevelContext_levels)

lemma chunkFromRecords_text:
  "\<not> tp_RootChunkAsHeading p \<Longrightarrow> concat (map tc_text (chunkFromRecords env p records cap)) = concat (map line_text (filter kept_record records))"
  using sections.chunk_text [of "te_sort_rows env" "te_plain env" env p records]
    sections.capped_text [of "te_encode env" "te_sort_rows env" "te_plain env" env p records cap]
  by (simp add: chunkFromRecords_def section_groups_def Let_def)

section \<open>Runs of text\<close>

lemma flush_run_records:
  assumes "\<forall>x\<in>set run. 1 \<le> snd x"
  shows "set (concat (flush_run h incl run)) = fst ` set run" "[] \<notin> set (flush_run h incl run)"
proof -
  have "set run = (!) run ` {..<length run}" by (auto simp: set_conv_nth)
  then have img: "(\<lambda>j. fst (run ! j)) ` {..<length run} = fst ` set run" by (simp add: image_image)
  have "set (concat (map (map f) (filter (\<lambda>p. p \<noteq> []) ps))) = f ` set (concat ps)" for f :: "nat \<Rightarrow> lineRecord" and ps
    by (induction ps) auto
  then have "set (concat (map (map (\<lambda>j. fst (run ! j))) (filter (\<lambda>p. p \<noteq> []) (tree_paths t incl (map snd run))))) = fst ` set run" for t
    using tree_paths_lines [of "map snd run" t incl] assms img by simp
  then show "set (concat (flush_run h incl run)) = fst ` set run" unfolding flush_run_def Let_def by (simp split: option.split)
  show "[] \<notin> set (flush_run h incl run)" by (auto simp: flush_run_def Let_def)
qed

text \<open>A group of the hierarchy chunker is one record that is no text, or text records only.\<close>

definition pure_group :: "lineRecord list \<Rightarrow> bool" where
  "pure_group g \<longleftrightarrow> g \<noteq> [] \<and> ((length g = 1 \<and> \<not> isText (hd g)) \<or> list_all isText g)"

lemma flush_run_pure:
  assumes "\<forall>x\<in>set run. 1 \<le> snd x" "\<forall>x\<in>set run. isText (fst x)" "g \<in> set (flush_run h incl run)"
  shows "pure_group g"
  using flush_run_records [OF assms(1), of h incl] assms(2,3) by (fastforce simp: pure_group_def list_all_iff)

lemma hierarchy_loop_records:
  "\<forall>x\<in>set run. 1 \<le> snd x \<and> isText (fst x) \<Longrightarrow> \<forall>x\<in>set rest. 1 \<le> snd x \<Longrightarrow>
   set (concat (hierarchy_loop h incl run rest)) = fst ` (set run \<union> set rest) \<and> (\<forall>g\<in>set (hierarchy_loop h incl run rest). pure_group g)"
proof (induction h incl run rest rule: hierarchy_loop.induct)
  case (1 h incl run)
  then show ?case using flush_run_records(1) [of run h incl] flush_run_pure [of run _ h incl] by simp
next
  case (2 h incl run rec lvl rest)
  show ?case
  proof (cases "isText rec")
    case True
    then show ?thesis using "2.IH"(1) "2.prems" by auto
  next
    case False
    then have "pure_group [rec]" by (simp add: pure_group_def)
    then show ?thesis
      using False "2.IH"(2) "2.prems" flush_run_records(1) [of run h incl] flush_run_pure [of run _ h incl] by auto
  qed
qed

section \<open>Reading order\<close>

lemma f_eq_sym: "f_eq x y \<longleftrightarrow> f_eq y x"
  by (cases x; cases y) auto

lemma f_less_asym: "f_less x y \<Longrightarrow> \<not> f_less y x"
  by (cases x; cases y) (auto simp: Let_def min.commute)

lemma pdfPosRowLess_asym: "pdfPosRowLess a b \<Longrightarrow> \<not> pdfPosRowLess b a"
  by (auto simp: pdfPosRowLess_def f_eq_sym [of "b ! 0"] f_eq_sym [of "b ! 3"] dest: f_less_asym split: if_splits)

text \<open>No neighbours the wrong way round.\<close>

definition in_order :: "('a \<Rightarrow> 'a \<Rightarrow> bool) \<Rightarrow> 'a list \<Rightarrow> bool" where
  "in_order lt = successively (\<lambda>a b. \<not> lt b a)"

lemma in_order_insert:
  assumes "\<And>a b. lt a b \<Longrightarrow> \<not> lt b a"
  shows "in_order lt ys \<Longrightarrow> in_order lt (stable_insert lt x ys)"
proof (induction ys)
  case (Cons y ys)
  have "hd (stable_insert lt x ys) = x \<or> (ys \<noteq> [] \<and> hd (stable_insert lt x ys) = hd ys)" by (cases ys) auto
  then show ?case using Cons assms by (auto simp: in_order_def successively_Cons)
qed (simp add: in_order_def)

lemma in_order_SliceStable: "(\<And>a b. lt a b \<Longrightarrow> \<not> lt b a) \<Longrightarrow> in_order lt (SliceStable lt xs)"
proof (induction xs)
  case Nil
  show ?case by (simp add: SliceStable_def in_order_def)
next
  case (Cons x xs)
  then show ?case using in_order_insert [of lt "SliceStable lt xs" x] by (simp add: SliceStable_def)
qed

lemma mset_stable_insert [simp]: "mset (stable_insert lt x ys) = add_mset x (mset ys)"
  by (induction ys) auto

lemma mset_SliceStable [simp]: "mset (SliceStable lt xs) = mset xs"
  by (induction xs) (auto simp: SliceStable_def)

lemma length_SliceStable [simp]: "length (SliceStable lt xs) = length xs"
  by (metis mset_SliceStable size_mset)

abbreviation positioned :: "lineRecord \<Rightarrow> bool" where
  "positioned r \<equiv> firstPositionRow r \<noteq> None"

definition reading_less :: "lineRecord \<Rightarrow> lineRecord \<Rightarrow> bool" where
  "reading_less a b \<longleftrightarrow> positioned a \<and> positioned b \<and> record_less a b"

lemma sort_run_order: "in_order reading_less (SliceStable record_less run)"
  using in_order_SliceStable [of record_less run] pdfPosRowLess_asym
  by (auto simp: in_order_def reading_less_def record_less_def elim!: successively_mono)

lemma run_in_place:
  assumes "\<forall>r\<in>set run. positioned r"
  shows "list_all2 (\<lambda>a b. \<not> positioned a \<longrightarrow> b = a) run (SliceStable record_less run)"
proof (rule list_all2_all_nthI)
  fix n assume "n < length run"
  then show "\<not> positioned (run ! n) \<longrightarrow> SliceStable record_less run ! n = run ! n" using assms nth_mem by blast
qed simp

lemma sort_runs_spec:
  "\<forall>r\<in>set run. positioned r \<Longrightarrow>
   mset (sort_runs run rest) = mset run + mset rest \<and>
   list_all2 (\<lambda>a b. \<not> positioned a \<longrightarrow> b = a) (run @ rest) (sort_runs run rest) \<and>
   in_order reading_less (sort_runs run rest)"
proof (induction run rest rule: sort_runs.induct)
  case (1 run)
  then show ?case using run_in_place [of run] by (simp add: sort_run_order)
next
  case (2 run r rs)
  show ?case
  proof (cases "positioned r")
    case True
    then show ?thesis using 2 by simp
  next
    case False
    then show ?thesis
      using "2.IH"(2) sort_run_order [of run] run_in_place [OF "2.prems"]
      by (auto simp: in_order_def successively_append_iff successively_Cons reading_less_def intro!: list_all2_appendI)
  qed
qed

section \<open>Properties\<close>


definition sample_record :: "string \<Rightarrow> string \<Rightarrow> lineRecord" where
  "sample_record kind s =
     \<lparr>lr_text = s, lr_docType = kind, lr_imgID = None, lr_layout = [], lr_ckType = [], lr_pdfPositions = NoPositions, lr_positions = NoPositions\<rparr>"

definition sample_title_env :: title_env where
  "sample_title_env = \<lparr>te_encode = byte_tokens, te_sort_rows = id, te_re = (\<lambda>_ _. False), te_compile = (\<lambda>_. None),
     te_outline = [\<lparr>oe_title = ''Intro'', oe_level = 0\<rparr>], te_plain = True\<rparr>"

definition sample_param :: title_param where
  "sample_param = \<lparr>tp_Levels = [], tp_Hierarchy = Some 1, tp_IncludeHeadingContent = True, tp_RootChunkAsHeading = False, tp_ChunkTokenCap = 4\<rparr>"

definition sample_records :: "lineRecord list" where
  "sample_records = [sample_record ''text'' ''Intro@@1.5##'', sample_record ''text'' '' '', sample_record ''table'' ''x'']"

lemma sample_text: "concat (map line_text (filter kept_record sample_records)) = ''Intro'' @ [NL] @ ''x'' @ [NL]"
  by code_simp


text \<open>the groups of the group chunker: each has one record that is no text, or text records each of which was added while the group had fewer than
  32 tokens, or fewer than 1024 and the record before it in the same section.\<close>

theorem groups_by_section:
  "\<exists>out. groupRecords encode records secIDs = map (map fst) out \<and>
     concat out = filter (\<lambda>x. kept_record (fst x)) (zip records secIDs) \<and> (\<forall>g\<in>set out. group_ok encode g)"
  by (rule groupRecords_spec)

text \<open>C24: the hierarchy chunker loses no record: every record of the document is in a group, the groups have nothing else, and a record that is no
  text is alone in its group; for every way the patterns match, and an outline whose levels are not negative.\<close>

theorem hierarchy_complete:
  assumes "\<forall>e\<in>set (te_outline env). 0 \<le> oe_level e"
  shows "set (concat (hierarchy_groups h incl records (lc_levels (level_context env p records)))) = set records \<and>
    (\<forall>g\<in>set (hierarchy_groups h incl records (lc_levels (level_context env p records))). pure_group g)"
proof -
  let ?lvs = "lc_levels (level_context env p records)"
  have len: "length ?lvs = length records" by (simp add: level_context_def newLevelContext_levels)
  have "\<forall>x\<in>set (zip records ?lvs). 1 \<le> snd x"
    using newLevelContext_levels(2) [OF assms] by (auto simp: level_context_def dest!: set_zip_rightD)
  moreover have "fst ` set (zip records ?lvs) = set records" using len by (metis map_fst_zip set_map)
  ultimately show ?thesis using hierarchy_loop_records [of "[]" "zip records ?lvs" h incl] by (simp add: hierarchy_groups_def)
qed

theorem hierarchy_complete_witness:
  "sample_record ''table'' ''x'' \<in> set (concat (hierarchy_groups (Some 1) True sample_records
     (lc_levels (level_context sample_title_env sample_param sample_records))))"
  using hierarchy_complete [of sample_title_env "Some 1" True sample_records sample_param]
  by (simp add: sample_title_env_def sample_records_def)

text \<open>the target level is the level it names: the least, second least and so on of the heading levels in use, the largest when there are fewer,
  and 0 when there is none.\<close>

theorem target_level_is_nth_tier:
  "resolveTargetLevel levels h =
   (let tiers = sorted_list_of_set (heading_levels levels)
    in if tiers = [] then 0 else tiers ! nat (min (max 1 h) (int (length tiers)) - 1))"
  by (rule target_level_spec)

text \<open>the reading order of the manual chunker: the records stay the same, those without coordinates stay in their places, and no two neighbours with
  coordinates are the wrong way round by page, top and left.\<close>

theorem reading_order:
  "mset (sortRecordsByPosition records) = mset records \<and>
   list_all2 (\<lambda>a b. \<not> positioned a \<longrightarrow> b = a) records (sortRecordsByPosition records) \<and>
   in_order reading_less (sortRecordsByPosition records)"
  using sort_runs_spec [of "[]" records] by (simp add: sortRecordsByPosition_def)

end
