(* ===== verification/Spec2Isabelle.thy ===== *)
theory Spec2Isabelle
  imports Compiled Store Cache ChannelIO Streaming Inspector Messages MessageStream MultiRetry Subgraph Loop Parallel TaskQueues Optimized Background Async Scratchpad AsyncCache Managed TitleGroup
begin

text \<open>
  A model of the graph execution engine of the repository, \<open>src/internal/harness/graph\<close>, and of the title chunkers of its
  ingestion pipeline, \<open>src/internal/ingestion/component/chunker\<close>, and their correctness.  The engine runs a graph of nodes in supersteps in the style of Pregel: nodes read and write
  named state channels, the engine schedules the nodes whose turn it is, runs them, applies their writes,
  stores a checkpoint and goes on, until nothing is left to schedule, a node interrupts the run, or the
  recursion limit is reached.

  \<^bold>\<open>Parts and how they interact.\<close>  The builder (\<open>graph/graph.go\<close>, \<open>graph/state.go\<close>) makes a graph, \<open>Validate\<close>
  checks it and \<open>Compile\<close> freezes it.  \<open>Invoke\<close> hands it to the engine (\<open>pregel/engine.go\<close>), which
  copies the channels of the graph into a registry (\<open>channels/\<close>), restores them from a checkpointer
  (\<open>checkpoint/\<close>) when the thread has a checkpoint, and loops over supersteps; each task runs under the retry
  executor (\<open>pregel/retry.go\<close>).  Events go through the stream manager (\<open>pregel/stream.go\<close>) to the caller.
  The store (\<open>store/\<close>), the node cache (\<open>pregel/cache.go\<close>) and the readers and writers of channels
  (\<open>pregel/read.go\<close>, \<open>pregel/write.go\<close>) are libraries for node functions.  Loop and parallel nodes (\<open>graph/loop.go\<close>,
  \<open>graph/parallel.go\<close>) run a compiled graph inside a node and stop and resume it through \<open>interrupt/\<close>.  Messages, subgraphs, the
  optimised engine, the task executors, the asynchronous cache and the scratchpad stand beside the engine.
  The title chunkers, components of graphs that ingest documents, cut the records of a document into chunks by its headings: levels are found for
  the lines (\<open>title.go\<close>), the records are grouped by section (\<open>group.go\<close>, \<open>manual.go\<close>) or by paths through the tree of headings
  (\<open>hierarchy.go\<close>), and chunks with too many tokens are cut again (\<open>title_cap.go\<close>).

  \<^bold>\<open>Theories.\<close>
  \<^item> \<open>GoPrelude\<close>, \<open>GoFloat\<close>, \<open>GoValue\<close>: what the source uses of Go.  A map with string keys is an association list
    in key order, a \<open>range\<close> over a map takes the iteration order as an argument, \<open>int\<close> is a 64-bit word, a
    \<open>float64\<close> is a binary fraction with infinities and NaN, an \<open>interface{}\<close> value is a \<open>gvalue\<close> with its dynamic
    type, the verbs \<open>%T\<close> and \<open>%v\<close>, and the copy of a value through JSON.
  \<^item> \<open>Errors\<close>, \<open>Config\<close>: \<open>errors/errors.go\<close> and \<open>types/config.go\<close>.
  \<^item> \<open>Channels\<close>, \<open>Aggregates\<close>, \<open>Barriers\<close>, \<open>Channel\<close>, \<open>ChannelLaws\<close>, \<open>Registry\<close>: \<open>channels/\<close>.  One record per channel type,
    one definition per method, the interface as a sum with dispatch, its contract as the locales
    \<open>channel_impl\<close> and \<open>persistent_channel\<close> with an interpretation per channel type.
  \<^item> \<open>Checkpoint\<close>, \<open>CheckpointManager\<close>, \<open>MemorySaver\<close>: \<open>checkpoint/checkpoint.go\<close> and \<open>checkpoint/memory.go\<close>.  The manager is an
    instance of the locale \<open>cas_log\<close> of logs with compare-and-swap, the saver of the locale \<open>checkpointer\<close>.
  \<^item> \<open>Retry\<close>: \<open>pregel/retry.go\<close> and the policy of \<open>types/types.go\<close>.
  \<^item> \<open>StateGraph\<close>: the builder, schema annotations, validation, compilation.
  \<^item> \<open>EngineData\<close>, \<open>Scheduling\<close>, \<open>Writes\<close>, \<open>Engine\<close>: \<open>pregel/engine.go\<close> in its order: data conversions, the choice and execution of
    tasks, the application of writes, and the run with its three durability modes.  \<open>RunLaws\<close>, \<open>Resume\<close> prove what
    a whole run does; \<open>Resume\<close> has the locale \<open>engine_checkpointer\<close>, interpreted on the in-memory saver.
  \<^item> \<open>Inspector\<close>: \<open>graph/state_inspector.go\<close>, against the locale \<open>listing_checkpointer\<close>, interpreted on the in-memory saver.
  \<^item> \<open>Compiled\<close>: \<open>Invoke\<close> and \<open>pregel/init_pregel.go\<close>.  \<open>Streaming\<close>: the delivery of events as a step relation of three
    concurrent processes.
  \<^item> \<open>Store\<close>: \<open>store/memory.go\<close>, an instance of the locale \<open>ttl_store\<close>.  \<open>Cache\<close>: \<open>pregel/cache.go\<close>, with the locale
    \<open>node_cache\<close> the executor relies on, interpreted on both caches.  \<open>ChannelIO\<close>: \<open>pregel/write.go\<close> and
    \<open>pregel/read.go\<close>, with the locale \<open>renaming_transformer\<close> interpreted on all write transformers.
  \<^item> \<open>Messages\<close>: \<open>graph/message.go\<close>, with the locale \<open>batched_merge\<close> of reducers that may be applied in batches.
    \<open>MessageStream\<close>: \<open>pregel/messages.go\<close>, with the locale \<open>reliable_emitter\<close> the handler relies on.
  \<^item> \<open>MultiRetry\<close>: \<open>pregel/retry_multi.go\<close>.  \<open>Subgraph\<close>: \<open>pregel/subgraph.go\<close>.
  \<^item> \<open>Interrupts\<close>, \<open>Loop\<close>, \<open>Parallel\<close>: \<open>interrupt/interrupt.go\<close> and the nodes built on it; the fan-out of a parallel node is a step
    relation of goroutines behind a semaphore.
  \<^item> \<open>TaskQueues\<close>: the binary heap of \<open>pregel/background.go\<close> and the queue of \<open>pregel/optimized.go\<close>, both instances of the locale
    \<open>priority_queue\<close>.  \<open>Optimized\<close>: the rest of \<open>pregel/optimized.go\<close>.
  \<^item> \<open>Background\<close>, \<open>Async\<close>: the executors of \<open>pregel/background.go\<close> and \<open>pregel/async.go\<close> as step relations, one step per critical section
    or channel operation.
  \<^item> \<open>Scratchpad\<close>: \<open>types/scratchpad.go\<close>, with pointers into an explicit store of objects and the locale \<open>lifo\<close> for both kinds of stacks.
  \<^item> \<open>AsyncCache\<close>: \<open>pregel/cache_async.go\<close>, callers of the executor and workers of the cache as one step relation; it uses the interpretation
    of \<open>node_cache\<close> on the in-memory cache.
  \<^item> \<open>Managed\<close>: \<open>managed/managed.go\<close>, with the locale \<open>managed_values\<close> for the interface of injected values.
  \<^item> \<open>TitleCap\<close>: \<open>title_cap.go\<close>, \<open>sentence_boundary.go\<close>, \<open>positions_slice.go\<close> and the token functions of \<open>tokenizer/tokenizer.go\<close>.  \<open>TitleTree\<close>: the
    tree of \<open>hierarchy.go\<close>; a specification of its paths without the tree.  \<open>TitleLevels\<close>: \<open>title.go\<close>.  \<open>TitleGroup\<close>: \<open>group.go\<close>, \<open>manual.go\<close> and the grouping of
    \<open>hierarchy.go\<close>, with the locale \<open>record_grouping\<close> for what the text of the chunks relies on.

  \<^bold>\<open>State and operations.\<close>  A struct is a record, an enumeration or a set of types behind an interface a datatype.  A method that
  changes its receiver returns the new one; an error is the left side of a sum, and so is a panic that the code can
  run into.  Every method that holds a lock for its whole body is one step.  What the surroundings decide, the clock,
  fresh identifiers, iteration orders, when a context ends, which asynchronous saves have landed, is an argument (the
  record \<open>Env\<close> of a run), and the properties hold for all of its values.  Node functions, reducers, filters and retry
  predicates are functions; tasks of one superstep run one after the other on the state at its start, which they only read.
  In the chunkers the encoder of the tokenizer library, the matching of Go's regular expressions and the order \<open>sort.Slice\<close> gives equal rows are
  arguments.

  \<^bold>\<open>What is shown.\<close>
  \<^item> Runs: the loop ends within the recursion limit; in the mode that waits for all predecessors nodes complete in
    dependency order, exactly the ready nodes are scheduled, and a graph with fewer nodes than the limit
    never exceeds it; a compiled graph never fails to schedule; the effect of a superstep on the channels does
    not depend on the order in which tasks end or maps are iterated; failed tasks leave no trace.
  \<^item> Durability: what each mode has stored after each superstep; a run continues after an interrupt inside a node with
    the nodes completed before, and starts over after an interrupt before a node.
  \<^item> Checkpoints: stale saves are refused, histories are chains, trimming keeps the newest, stored checkpoints are read back
    equal and stay readable; a forked thread reads like its source and an updated state is read back.
  \<^item> Delivery: every interleaving of run, forwarder and caller ends with the final event delivered and the result of
    \<open>RunSync\<close> independent of scheduling.
  \<^item> Builder: \<open>Validate\<close> accepts exactly the graphs all of whose nodes can be reached; built graphs are well formed; the effect
    of \<open>Compile\<close>.
  \<^item> Retry, store, cache, channel access: when a retried call succeeds and how often it is tried; the store as a map with
    expiry times; the cache is bounded, evicts by its policy and does not change results; writes stay in
    their name space and are read back; two ways to read the state agree.
  \<^item> Messages: updates by identifier, alone or in batches; every streamed message is emitted once, in order and complete.
  \<^item> Nodes over graphs: a loop ends and runs the iterations it should, a parallel node gives the outputs in the order of its items under every
    schedule, and both continue where an interrupt stopped them; interrupts are answered in order.
  \<^item> Executors: a drained priority queue is sorted; no task is lost or run twice; slots are conserved; a cancelled task does not run; all accepted tasks
    finish; the optimised application of writes agrees with that of the engine where both accept.
  \<^item> Subgraphs and scratchpads: name spaces do not interfere; snapshots are restored, branches merge in any order, stacks are last-in first-out;
    runtimes merge associatively, patched configurations are read back, task identifiers are removed from namespaces.
  \<^item> Asynchronous cache: results do not change under any interleaving, the size stays bounded, everything queued is answered until the cache stops.
  \<^item> Title chunkers: the paths through the tree of headings are the lines visible from the lines that end a path; no line and no record is lost;
    the group and manual chunkers keep the text exactly; the token limit loses nothing and holds; records come in reading order.

  Theorems about single inputs show deviations of the code from its comments: lost successors of a
  superstep, an input applied twice, overwrites that are reduced, a hanging caller after cancellation, and others.

  \<^bold>\<open>Bounds and fuel.\<close>  No definition has fuel.  The run loop terminates by the distance of the step to the recursion limit,
  retries by the attempts left, a loop node by the iterations left, the repair of a heap by the distance to its end, reachability in \<open>Validate\<close> by
  the nodes not visited, the cutting of a text by its length; the capacities of the event
  channels and the sizes of cache and history are arguments.

  \<^bold>\<open>Not modelled.\<close>  Inside the engine: conversion of inputs to struct schemas, callbacks, telemetry, the events of single tasks,
  goroutines inside a superstep (their effects are applied after all have ended).  In the store: the vector index.
  Beside the engine: remote graphs, an HTTP client; the saver for NATS, a client of an external service; callbacks and tracing; runnables and task
  decorators, adapters over reflection; the extraction of managed values from structs; typed stream parts and the wrappers of \<open>graph/compiled.go\<close>.  Outside
  \<open>internal/harness/graph\<close>: the services, handlers, data access, model and search clients and the command line
  of the repository, which mostly call external systems, and the parts in Python and TypeScript.  Of the ingestion only the
  title chunkers are modelled, without the reading of their input map, the parsing of their parameters, the metadata of records and the cropping of
  images; the parsers and the other chunkers are not.
\<close>

end
